(* ===== verification/Merlin_Prelude.thy ===== *)
theory Merlin_Prelude
  imports Main "HOL-Library.Word"
begin

text \<open>
  Shared vocabulary of the development: the C integer types as words, the little-endian
  fetch of an instruction word, bitwise order and carry/borrow lemmas on words, and the
  interface every allow-list bitmap of the code implements.
\<close>

unbundle bit_operations_syntax

named_theorems merlin_defs \<open>unfolding rules for the small accessors of the model\<close>

type_synonym u8 = "8 word"
type_synonym u16 = "16 word"
type_synonym u32 = "32 word"
type_synonym u64 = "64 word"

text \<open>
  A signed 64-bit integer is the same bit pattern, read by \<^const>\<open>sint\<close> and compared by
  \<open><s\<close> and \<open>\<le>s\<close>; the kernel is compiled with wrapping signed arithmetic.
\<close>

type_synonym s64 = "64 word"

abbreviation S64_MIN :: s64 where "S64_MIN \<equiv> 0x8000000000000000"
abbreviation S64_MAX :: s64 where "S64_MAX \<equiv> 0x7FFFFFFFFFFFFFFF"
abbreviation U64_MAX :: u64 where "U64_MAX \<equiv> NOT 0"

subsection \<open>Bitwise facts on words\<close>

definition bit_sub :: "'a::len word \<Rightarrow> 'a word \<Rightarrow> bool" where
  "bit_sub x y \<longleftrightarrow> x AND NOT y = 0"

lemma bit_sub_iff: "bit_sub x y \<longleftrightarrow> (\<forall>n. bit x n \<longrightarrow> bit y n)"
  for x y :: "'a::len word"
  unfolding bit_sub_def
  by (auto simp: bit_eq_iff bit_simps dest: bit_imp_le_length)

lemma bit_sub_refl [simp]: "bit_sub x x"
  by (simp add: bit_sub_def)

lemma take_bit_mono_bit_sub:
  fixes x y :: "'a::len word"
  assumes "bit_sub x y"
  shows "take_bit n (uint x) \<le> take_bit n (uint y)"
proof -
  have "take_bit n (uint x) = take_bit n (uint x) AND take_bit n (uint y)"
    using assms by (auto simp: bit_eq_iff bit_simps bit_sub_iff bit_uint_iff)
  also have "\<dots> \<le> take_bit n (uint y)"
    by (rule AND_upper2) simp
  finally show ?thesis .
qed

subsection \<open>Carries and borrows\<close>

definition carry_in :: "nat \<Rightarrow> 'a::len word \<Rightarrow> 'a word \<Rightarrow> bool" where
  "carry_in n x y \<longleftrightarrow> 2 ^ n \<le> take_bit n (uint x) + take_bit n (uint y)"

definition borrow_in :: "nat \<Rightarrow> 'a::len word \<Rightarrow> 'a word \<Rightarrow> bool" where
  "borrow_in n x y \<longleftrightarrow> take_bit n (uint x) < take_bit n (uint y)"

lemma int_div_add_carry:
  fixes a b :: int
  shows "(a + b) div 2 ^ n = a div 2 ^ n + b div 2 ^ n
    + (if 2 ^ n \<le> take_bit n a + take_bit n b then 1 else 0)"
proof -
  let ?p = "2 ^ n :: int"
  have bounds: "0 \<le> take_bit n a" "take_bit n a < ?p" "0 \<le> take_bit n b" "take_bit n b < ?p"
    by simp_all
  have "(a + b) div ?p = a div ?p + b div ?p + (take_bit n a + take_bit n b) div ?p"
    unfolding take_bit_eq_mod by (rule div_add1_eq)
  moreover have "(take_bit n a + take_bit n b) div ?p
      = (if ?p \<le> take_bit n a + take_bit n b then 1 else 0)"
  proof (cases "?p \<le> take_bit n a + take_bit n b")
    case True
    have "(take_bit n a + take_bit n b) div ?p
        = ((take_bit n a + take_bit n b - ?p) + ?p) div ?p"
      by simp
    also have "\<dots> = (take_bit n a + take_bit n b - ?p) div ?p + 1"
      by (subst div_add_self2) simp_all
    also have "(take_bit n a + take_bit n b - ?p) div ?p = 0"
      using True bounds by (intro div_pos_pos_trivial) linarith+
    finally show ?thesis using True by simp
  next
    case False
    then show ?thesis using bounds by (simp add: div_pos_pos_trivial)
  qed
  ultimately show ?thesis by simp
qed

lemma int_div_diff_borrow:
  fixes a b :: int
  shows "(a - b) div 2 ^ n = a div 2 ^ n - b div 2 ^ n
    - (if take_bit n a < take_bit n b then 1 else 0)"
proof -
  let ?p = "2 ^ n :: int"
  let ?A = "take_bit n a" and ?B = "take_bit n b"
  have bounds: "0 \<le> ?A" "?A < ?p" "0 \<le> ?B" "?B < ?p"
    by simp_all
  have "a - b = (?A - ?B) + (a div ?p - b div ?p) * ?p"
    by (simp add: take_bit_eq_mod algebra_simps flip: minus_mod_eq_div_mult)
  then have "(a - b) div ?p = (?A - ?B) div ?p + (a div ?p - b div ?p)"
    by (metis add.commute div_mult_self1 mult.commute power_not_zero zero_neq_numeral)
  moreover have "(?A - ?B) div ?p = (if ?A < ?B then - 1 else 0)"
  proof (cases "?A < ?B")
    case True
    have "(?A - ?B) div ?p = ((?A - ?B + ?p) + (- 1) * ?p) div ?p"
      by simp
    also have "\<dots> = (?A - ?B + ?p) div ?p + (- 1)"
      by (subst div_mult_self1) simp_all
    also have "(?A - ?B + ?p) div ?p = 0"
      using True bounds by (intro div_pos_pos_trivial) linarith+
    finally show ?thesis using True by simp
  next
    case False
    then have "0 \<le> ?A - ?B" "?A - ?B < ?p" using bounds by linarith+
    then show ?thesis using False by (simp add: div_pos_pos_trivial)
  qed
  ultimately show ?thesis by simp
qed

lemma bit_word_add:
  fixes x y :: "'a::len word"
  assumes "n < LENGTH('a)"
  shows "bit (x + y) n \<longleftrightarrow> ((bit x n \<noteq> bit y n) \<noteq> carry_in n x y)"
proof -
  have "bit (x + y) n \<longleftrightarrow> bit (uint (x + y)) n"
    using assms by (simp only: bit_uint_iff simp_thms)
  also have "uint (x + y) = take_bit LENGTH('a) (uint x + uint y)"
    by (simp only: uint_word_ariths take_bit_eq_mod)
  also have "bit (take_bit LENGTH('a) (uint x + uint y)) n \<longleftrightarrow> bit (uint x + uint y) n"
    using assms by (simp only: bit_take_bit_iff simp_thms)
  also have "\<dots> \<longleftrightarrow> odd ((uint x + uint y) div 2 ^ n)"
    by (simp add: bit_iff_odd)
  also have "\<dots> \<longleftrightarrow> ((odd (uint x div 2 ^ n) \<noteq> odd (uint y div 2 ^ n)) \<noteq> carry_in n x y)"
    by (simp add: int_div_add_carry carry_in_def)
  finally show ?thesis
    using assms by (simp add: bit_uint_iff flip: bit_iff_odd)
qed

lemma bit_word_diff:
  fixes x y :: "'a::len word"
  assumes "n < LENGTH('a)"
  shows "bit (x - y) n \<longleftrightarrow> ((bit x n \<noteq> bit y n) \<noteq> borrow_in n x y)"
proof -
  have "bit (x - y) n \<longleftrightarrow> bit (uint (x - y)) n"
    using assms by (simp only: bit_uint_iff simp_thms)
  also have "uint (x - y) = take_bit LENGTH('a) (uint x - uint y)"
    by (simp only: uint_word_ariths take_bit_eq_mod)
  also have "bit (take_bit LENGTH('a) (uint x - uint y)) n \<longleftrightarrow> bit (uint x - uint y) n"
    using assms by (simp only: bit_take_bit_iff simp_thms)
  also have "\<dots> \<longleftrightarrow> odd ((uint x - uint y) div 2 ^ n)"
    by (simp add: bit_iff_odd)
  also have "\<dots> \<longleftrightarrow> ((odd (uint x div 2 ^ n) \<noteq> odd (uint y div 2 ^ n)) \<noteq> borrow_in n x y)"
    by (auto simp: int_div_diff_borrow borrow_in_def)
  finally show ?thesis
    using assms by (simp add: bit_uint_iff flip: bit_iff_odd)
qed

lemma carry_in_mono:
  assumes "bit_sub x x'" and "bit_sub y y'" and "carry_in n x y"
  shows "carry_in n x' y'"
  using take_bit_mono_bit_sub [OF assms(1), of n] take_bit_mono_bit_sub [OF assms(2), of n] assms(3)
  unfolding carry_in_def by linarith

lemma borrow_in_mono:
  assumes "bit_sub x' x" and "bit_sub y y'" and "borrow_in n x y"
  shows "borrow_in n x' y'"
  using take_bit_mono_bit_sub [OF assms(1), of n] take_bit_mono_bit_sub [OF assms(2), of n] assms(3)
  unfolding borrow_in_def by linarith

subsection \<open>Bitmaps\<close>

text \<open>
  The interface of the code's bitmaps (block leaders, namespace permissions): a test and a
  setting operation on the positions the bitmap holds.
\<close>

locale bitmap =
  fixes get :: "'b \<Rightarrow> nat \<Rightarrow> bool"
    and put :: "'b \<Rightarrow> nat \<Rightarrow> 'b"
    and holds :: "'b \<Rightarrow> nat \<Rightarrow> bool"
  assumes holds_put: "holds (put b i) j \<longleftrightarrow> holds b j"
    and get_put: "holds b i \<Longrightarrow> holds b j \<Longrightarrow> get (put b i) j \<longleftrightarrow> j = i \<or> get b j"
begin

lemma holds_puts: "holds (foldl put b is) j \<longleftrightarrow> holds b j"
  by (induction "is" arbitrary: b) (simp_all add: holds_put)

lemma get_puts:
  assumes "\<forall>i \<in> set is. holds b i" and "holds b j"
  shows "get (foldl put b is) j \<longleftrightarrow> j \<in> set is \<or> get b j"
  using assms
proof (induction "is" arbitrary: b)
  case (Cons i "is")
  then show ?case by (auto simp: holds_put get_put)
qed simp

end

lemma bit_or_exp:
  fixes x :: "'a::len word"
  assumes "k < LENGTH('a)" "n < LENGTH('a)"
  shows "bit (x OR 2 ^ k) n \<longleftrightarrow> n = k \<or> bit x n"
  using assms unfolding bit_or_iff bit_exp_iff by auto

lemma drop_bit_and_1: "drop_bit k x AND 1 \<noteq> 0 \<longleftrightarrow> bit x k" for x :: "'a::len word"
  by (simp add: and_one_eq bit_iff_odd_drop_bit odd_iff_mod_2_eq_one)

lemma unat_of_nat_small: "n < 2 ^ LENGTH('a) \<Longrightarrow> unat (of_nat n :: 'a::len word) = n"
  by (simp add: unsigned_of_nat take_bit_nat_eq_self)

end
