(* ===== verification/Tnum.thy ===== *)
theory Tnum
  imports Merlin_Prelude
begin

text \<open>
  The tristate-number and scalar-range domain of the verifiers:
  \<open>kernel/merlin/include/merlin_tnum.h\<close> and \<open>tools/merlin-verifier/tnum.h\<close>. The two headers
  share the structures, constants, joins and additions; the bitwise operations, the
  subtraction and the shifts are in the user-space header only. Every transfer function is
  proved to over-approximate its machine operation, and the join to be the least upper bound.
\<close>

subsection \<open>Tristate numbers\<close>

record merlin_tnum =
  tn_value :: u64
  tn_mask :: u64

definition tnum_const :: "u64 \<Rightarrow> merlin_tnum" where
  "tnum_const v = \<lparr>tn_value = v, tn_mask = 0\<rparr>"

definition tnum_top :: merlin_tnum where
  "tnum_top = \<lparr>tn_value = 0, tn_mask = NOT 0\<rparr>"

definition tnum_is_const :: "merlin_tnum \<Rightarrow> bool" where
  "tnum_is_const t \<longleftrightarrow> tn_mask t = 0"

definition tnum_is_top :: "merlin_tnum \<Rightarrow> bool" where
  "tnum_is_top t \<longleftrightarrow> tn_mask t = NOT 0"

definition tnum_equal :: "merlin_tnum \<Rightarrow> merlin_tnum \<Rightarrow> bool" where
  "tnum_equal a b \<longleftrightarrow> tn_value a = tn_value b \<and> tn_mask a = tn_mask b"

definition tnum_join :: "merlin_tnum \<Rightarrow> merlin_tnum \<Rightarrow> merlin_tnum" where
  "tnum_join a b =
     (let mu = tn_mask a OR tn_mask b OR (tn_value a XOR tn_value b)
      in \<lparr>tn_value = (tn_value a AND tn_value b) AND NOT mu, tn_mask = mu\<rparr>)"

definition tnum_add :: "merlin_tnum \<Rightarrow> merlin_tnum \<Rightarrow> merlin_tnum" where
  "tnum_add a b =
     (let sm = tn_mask a + tn_mask b;
          sv = tn_value a + tn_value b;
          sigma = sv + sm;
          chi = sigma XOR sv;
          mu = chi OR tn_mask a OR tn_mask b
      in \<lparr>tn_value = sv AND NOT mu, tn_mask = mu\<rparr>)"

definition tnum_sub :: "merlin_tnum \<Rightarrow> merlin_tnum \<Rightarrow> merlin_tnum" where
  "tnum_sub a b =
     (let dv = tn_value a - tn_value b;
          alpha = dv + tn_mask a;
          beta = dv - tn_mask b;
          chi = alpha XOR beta;
          mu = chi OR tn_mask a OR tn_mask b
      in \<lparr>tn_value = dv AND NOT mu, tn_mask = mu\<rparr>)"

definition tnum_and :: "merlin_tnum \<Rightarrow> merlin_tnum \<Rightarrow> merlin_tnum" where
  "tnum_and a b =
     (let alpha = tn_value a OR tn_mask a;
          beta = tn_value b OR tn_mask b;
          v = tn_value a AND tn_value b
      in \<lparr>tn_value = v, tn_mask = alpha AND beta AND NOT v\<rparr>)"

definition tnum_or :: "merlin_tnum \<Rightarrow> merlin_tnum \<Rightarrow> merlin_tnum" where
  "tnum_or a b =
     (let v = tn_value a OR tn_value b;
          mu = tn_mask a OR tn_mask b
      in \<lparr>tn_value = v, tn_mask = mu AND NOT v\<rparr>)"

definition tnum_xor :: "merlin_tnum \<Rightarrow> merlin_tnum \<Rightarrow> merlin_tnum" where
  "tnum_xor a b =
     (let v = tn_value a XOR tn_value b;
          mu = tn_mask a OR tn_mask b
      in \<lparr>tn_value = v AND NOT mu, tn_mask = mu\<rparr>)"

definition tnum_lshift :: "merlin_tnum \<Rightarrow> nat \<Rightarrow> merlin_tnum" where
  "tnum_lshift a k =
     (if k \<ge> 64 then tnum_top
      else \<lparr>tn_value = push_bit k (tn_value a), tn_mask = push_bit k (tn_mask a)\<rparr>)"

definition tnum_rshift :: "merlin_tnum \<Rightarrow> nat \<Rightarrow> merlin_tnum" where
  "tnum_rshift a k =
     (if k \<ge> 64 then tnum_const 0
      else \<lparr>tn_value = drop_bit k (tn_value a), tn_mask = drop_bit k (tn_mask a)\<rparr>)"

subsection \<open>Scalars: tristate number and signed and unsigned ranges\<close>

record merlin_scalar =
  smin :: s64
  smax :: s64
  umin :: u64
  umax :: u64
  tn :: merlin_tnum

definition scalar_const :: "s64 \<Rightarrow> merlin_scalar" where
  "scalar_const v = \<lparr>smin = v, smax = v, umin = v, umax = v, tn = tnum_const v\<rparr>"

definition scalar_top :: merlin_scalar where
  "scalar_top = \<lparr>smin = S64_MIN, smax = S64_MAX, umin = 0, umax = U64_MAX, tn = tnum_top\<rparr>"

definition scalar_is_const :: "merlin_scalar \<Rightarrow> bool" where
  "scalar_is_const s \<longleftrightarrow> tnum_is_const (tn s) \<and> smin s = smax s"

definition scalar_join :: "merlin_scalar \<Rightarrow> merlin_scalar \<Rightarrow> merlin_scalar" where
  "scalar_join a b =
     \<lparr>smin = (if smin a <s smin b then smin a else smin b),
      smax = (if smax b <s smax a then smax a else smax b),
      umin = (if umin a < umin b then umin a else umin b),
      umax = (if umax a > umax b then umax a else umax b),
      tn = tnum_join (tn a) (tn b)\<rparr>"

definition scalar_add :: "merlin_scalar \<Rightarrow> merlin_scalar \<Rightarrow> merlin_scalar" where
  "scalar_add a b =
     (let slo = smin a + smin b; shi = smax a + smax b;
          sov = ((smin a <s 0) = (smin b <s 0) \<and> (slo <s 0) \<noteq> (smin a <s 0)) \<or>
                ((smax a <s 0) = (smax b <s 0) \<and> (shi <s 0) \<noteq> (smax a <s 0));
          ulo = umin a + umin b; uhi = umax a + umax b;
          uov = (ulo < umin a) \<or> (uhi < umax a)
      in \<lparr>smin = (if sov then S64_MIN else slo), smax = (if sov then S64_MAX else shi),
          umin = (if uov then 0 else ulo), umax = (if uov then U64_MAX else uhi),
          tn = tnum_add (tn a) (tn b)\<rparr>)"

definition scalar_equal :: "merlin_scalar \<Rightarrow> merlin_scalar \<Rightarrow> bool" where
  "scalar_equal a b \<longleftrightarrow>
     smin a = smin b \<and> smax a = smax b \<and> umin a = umin b \<and> umax a = umax b \<and>
     tnum_equal (tn a) (tn b)"

lemma tnum_equal_iff [simp]: "tnum_equal a b \<longleftrightarrow> a = b"
  by (cases a, cases b) (simp add: tnum_equal_def)

lemma scalar_equal_iff [simp]: "scalar_equal a b \<longleftrightarrow> a = b"
  by (cases a, cases b) (simp add: scalar_equal_def)

subsection \<open>What the abstractions denote\<close>

definition tnum_gamma :: "merlin_tnum \<Rightarrow> u64 set" where
  "tnum_gamma t = {x. x AND NOT (tn_mask t) = tn_value t}"

definition tnum_wf :: "merlin_tnum \<Rightarrow> bool" where
  "tnum_wf t \<longleftrightarrow> tn_value t AND tn_mask t = 0"

definition scalar_gamma :: "merlin_scalar \<Rightarrow> u64 set" where
  "scalar_gamma s = {x. smin s \<le>s x \<and> x \<le>s smax s \<and> umin s \<le> x \<and> x \<le> umax s \<and>
                        x \<in> tnum_gamma (tn s)}"

lemma tnum_gammaD: "x \<in> tnum_gamma t \<Longrightarrow> bit (tn_value t) n \<longleftrightarrow> bit x n \<and> \<not> bit (tn_mask t) n"
proof -
  assume "x \<in> tnum_gamma t"
  then have "bit (tn_value t) n \<longleftrightarrow> bit (x AND NOT (tn_mask t)) n"
    by (simp add: tnum_gamma_def)
  then show ?thesis by (auto simp: bit_simps dest: bit_imp_le_length)
qed

lemma tnum_gammaI:
  assumes "\<And>n. n < 64 \<Longrightarrow> bit (tn_value t) n \<longleftrightarrow> bit x n \<and> \<not> bit (tn_mask t) n"
  shows "x \<in> tnum_gamma t"
  unfolding tnum_gamma_def mem_Collect_eq
  by (rule bit_word_eqI) (use assms in \<open>auto simp: bit_simps\<close>)

lemma tnum_wf_iff: "tnum_wf t \<longleftrightarrow> (\<forall>n. \<not> (bit (tn_value t) n \<and> bit (tn_mask t) n))"
proof
  assume wf: "tnum_wf t"
  show "\<forall>n. \<not> (bit (tn_value t) n \<and> bit (tn_mask t) n)"
  proof
    fix n
    have "bit (tn_value t AND tn_mask t) n = bit (0 :: u64) n"
      using wf by (simp add: tnum_wf_def)
    then show "\<not> (bit (tn_value t) n \<and> bit (tn_mask t) n)"
      by (simp add: bit_and_iff)
  qed
next
  assume "\<forall>n. \<not> (bit (tn_value t) n \<and> bit (tn_mask t) n)"
  then show "tnum_wf t"
    unfolding tnum_wf_def by (intro bit_word_eqI) (simp add: bit_and_iff)
qed

lemma tnum_gamma_wf: "x \<in> tnum_gamma t \<Longrightarrow> tnum_wf t"
  by (auto simp: tnum_wf_iff tnum_gammaD)

lemma tnum_value_in_gamma: "tnum_wf t \<Longrightarrow> tn_value t \<in> tnum_gamma t"
  by (rule tnum_gammaI) (auto simp: tnum_wf_iff)

lemma tnum_max_in_gamma: "tnum_wf t \<Longrightarrow> tn_value t OR tn_mask t \<in> tnum_gamma t"
  by (rule tnum_gammaI) (auto simp: tnum_wf_iff bit_simps)

lemma tnum_max_eq_plus: "tnum_wf t \<Longrightarrow> tn_value t + tn_mask t = tn_value t OR tn_mask t"
  unfolding tnum_wf_def by (rule disjunctive_add_eq_or)

lemma tnum_gamma_const [simp]: "tnum_gamma (tnum_const v) = {v}"
  by (auto simp: tnum_gamma_def tnum_const_def)

lemma tnum_gamma_top [simp]: "tnum_gamma tnum_top = UNIV"
  by (auto simp: tnum_gamma_def tnum_top_def)

lemma tnum_wf_const [simp]: "tnum_wf (tnum_const v)"
  by (simp add: tnum_wf_def tnum_const_def)

lemma tnum_wf_top [simp]: "tnum_wf tnum_top"
  by (simp add: tnum_wf_def tnum_top_def)

subsection \<open>The interface of an abstract domain\<close>

text \<open>
  What the verifier's worklist relies on when it merges two abstractions and asks whether
  the merge changed anything: the join covers both arguments and the equality test
  never identifies different sets of values.
\<close>

locale abstract_domain =
  fixes gamma :: "'a \<Rightarrow> 'v set"
    and join :: "'a \<Rightarrow> 'a \<Rightarrow> 'a"
    and eq :: "'a \<Rightarrow> 'a \<Rightarrow> bool"
  assumes join_ub1: "gamma a \<subseteq> gamma (join a b)"
    and join_ub2: "gamma b \<subseteq> gamma (join a b)"
    and eq_gamma: "eq a b \<Longrightarrow> gamma a = gamma b"
begin

lemma stable_covers: "eq (join a b) a \<Longrightarrow> gamma b \<subseteq> gamma a"
  using join_ub2 eq_gamma by blast

lemma fold_join_acc: "gamma a \<subseteq> gamma (foldl join a bs)"
proof (induction bs arbitrary: a)
  case (Cons b bs)
  have "gamma a \<subseteq> gamma (join a b)" by (rule join_ub1)
  also have "\<dots> \<subseteq> gamma (foldl join (join a b) bs)" by (rule Cons.IH)
  finally show ?case by simp
qed simp

lemma fold_join_covers: "b \<in> set bs \<Longrightarrow> gamma b \<subseteq> gamma (foldl join a bs)"
proof (induction bs arbitrary: a)
  case (Cons c bs)
  then show ?case
  proof (cases "b = c")
    case True
    have "gamma b \<subseteq> gamma (join a b)" by (rule join_ub2)
    also have "\<dots> \<subseteq> gamma (foldl join (join a b) bs)" by (rule fold_join_acc)
    finally show ?thesis using True by simp
  qed simp
qed simp

end

lemma tnum_join_bits:
  "bit (tn_mask (tnum_join a b)) n \<longleftrightarrow>
     bit (tn_mask a) n \<or> bit (tn_mask b) n \<or> bit (tn_value a) n \<noteq> bit (tn_value b) n"
  "bit (tn_value (tnum_join a b)) n \<longleftrightarrow>
     bit (tn_value a) n \<and> bit (tn_value b) n \<and> \<not> bit (tn_mask a) n \<and> \<not> bit (tn_mask b) n"
  by (auto simp: tnum_join_def Let_def bit_simps dest: bit_imp_le_length)

lemma tnum_join_wf [simp]: "tnum_wf (tnum_join a b)"
  by (auto simp: tnum_wf_iff tnum_join_bits)

lemma tnum_join_commute: "tnum_join a b = tnum_join b a"
  by (simp add: tnum_join_def Let_def ac_simps xor.commute)

lemma tnum_join_ub: "tnum_gamma a \<subseteq> tnum_gamma (tnum_join a b)"
proof
  fix x assume "x \<in> tnum_gamma a"
  then show "x \<in> tnum_gamma (tnum_join a b)"
    by (intro tnum_gammaI) (auto simp: tnum_join_bits tnum_gammaD)
qed

interpretation tnum_dom: abstract_domain tnum_gamma tnum_join tnum_equal
  by unfold_locales (use tnum_join_ub tnum_join_commute in \<open>auto simp: set_eq_iff subset_iff\<close>)

subsection \<open>Soundness of the transfer functions\<close>

lemma tnum_bounds_bit_sub:
  assumes "x \<in> tnum_gamma t"
  shows "bit_sub (tn_value t) x" and "bit_sub x (tn_value t OR tn_mask t)"
  using tnum_gammaD [OF assms] by (auto simp: bit_sub_iff bit_or_iff)

lemma tnum_add_in_gamma:
  assumes x: "x \<in> tnum_gamma a" and y: "y \<in> tnum_gamma b"
  shows "x + y \<in> tnum_gamma (tnum_add a b)"
proof (rule tnum_gammaI)
  fix n :: nat assume n: "n < 64"
  let ?lo = "tn_value a + tn_value b"
  let ?hi = "(tn_value a OR tn_mask a) + (tn_value b OR tn_mask b)"
  let ?mu = "(?hi XOR ?lo) OR tn_mask a OR tn_mask b"
  have wf: "tnum_wf a" "tnum_wf b" using x y by (auto dest: tnum_gamma_wf)
  have hi: "?lo + (tn_mask a + tn_mask b) = ?hi"
    by (simp add: tnum_max_eq_plus [OF wf(1), symmetric] tnum_max_eq_plus [OF wf(2), symmetric])
  have t: "tnum_add a b = \<lparr>tn_value = ?lo AND NOT ?mu, tn_mask = ?mu\<rparr>"
    unfolding tnum_add_def Let_def hi by (rule refl)
  have lo_hi: "carry_in n (tn_value a) (tn_value b) \<Longrightarrow> carry_in n x y"
    "carry_in n x y \<Longrightarrow> carry_in n (tn_value a OR tn_mask a) (tn_value b OR tn_mask b)"
    using tnum_bounds_bit_sub [OF x] tnum_bounds_bit_sub [OF y] by (auto intro: carry_in_mono)
  have len: "n < LENGTH(64)" using n by simp
  show "bit (tn_value (tnum_add a b)) n \<longleftrightarrow> bit (x + y) n \<and> \<not> bit (tn_mask (tnum_add a b)) n"
    unfolding t using n lo_hi tnum_gammaD [OF x, of n] tnum_gammaD [OF y, of n]
    by (auto simp: bit_and_iff bit_or_iff bit_xor_iff bit_not_iff bit_word_add [OF len])
qed

lemma tnum_sub_in_gamma:
  assumes x: "x \<in> tnum_gamma a" and y: "y \<in> tnum_gamma b"
  shows "x - y \<in> tnum_gamma (tnum_sub a b)"
proof (rule tnum_gammaI)
  fix n :: nat assume n: "n < 64"
  let ?A = "tn_value a OR tn_mask a" and ?B = "tn_value b OR tn_mask b"
  let ?d = "tn_value a - tn_value b"
  let ?mu = "((?A - tn_value b) XOR (tn_value a - ?B)) OR tn_mask a OR tn_mask b"
  have wf: "tnum_wf a" "tnum_wf b" using x y by (auto dest: tnum_gamma_wf)
  have al: "?d + tn_mask a = ?A - tn_value b"
    by (simp add: tnum_max_eq_plus [OF wf(1), symmetric])
  have be: "?d - tn_mask b = tn_value a - ?B"
    by (simp add: tnum_max_eq_plus [OF wf(2), symmetric])
  have t: "tnum_sub a b = \<lparr>tn_value = ?d AND NOT ?mu, tn_mask = ?mu\<rparr>"
    unfolding tnum_sub_def Let_def al be by (rule refl)
  have sub: "bit_sub (tn_value a) ?A" "bit_sub (tn_value b) ?B"
    by (auto simp: bit_sub_iff bit_or_iff)
  have mono: "borrow_in n ?A (tn_value b) \<Longrightarrow> borrow_in n x y"
    "borrow_in n x y \<Longrightarrow> borrow_in n (tn_value a) ?B"
    "borrow_in n ?A (tn_value b) \<Longrightarrow> borrow_in n (tn_value a) (tn_value b)"
    "borrow_in n (tn_value a) (tn_value b) \<Longrightarrow> borrow_in n (tn_value a) ?B"
    using tnum_bounds_bit_sub [OF x] tnum_bounds_bit_sub [OF y] sub bit_sub_refl
    by (blast intro: borrow_in_mono)+
  have len: "n < LENGTH(64)" using n by simp
  show "bit (tn_value (tnum_sub a b)) n \<longleftrightarrow> bit (x - y) n \<and> \<not> bit (tn_mask (tnum_sub a b)) n"
    unfolding t using n mono tnum_gammaD [OF x, of n] tnum_gammaD [OF y, of n]
    by (auto simp: bit_and_iff bit_or_iff bit_xor_iff bit_not_iff bit_word_diff [OF len])
qed

lemma tnum_bitwise_in_gamma:
  assumes x: "x \<in> tnum_gamma a" and y: "y \<in> tnum_gamma b"
  shows "x AND y \<in> tnum_gamma (tnum_and a b)"
    and "x OR y \<in> tnum_gamma (tnum_or a b)"
    and "x XOR y \<in> tnum_gamma (tnum_xor a b)"
  using tnum_gammaD [OF x] tnum_gammaD [OF y]
  by (auto intro!: tnum_gammaI
      simp: tnum_and_def tnum_or_def tnum_xor_def Let_def bit_and_iff bit_or_iff bit_xor_iff bit_not_iff)

lemma tnum_lshift_in_gamma: "x \<in> tnum_gamma a \<Longrightarrow> push_bit k x \<in> tnum_gamma (tnum_lshift a k)"
  by (cases "64 \<le> k")
    (auto intro!: tnum_gammaI simp: tnum_lshift_def bit_push_bit_iff tnum_gammaD)

lemma tnum_rshift_in_gamma: "x \<in> tnum_gamma a \<Longrightarrow> drop_bit k x \<in> tnum_gamma (tnum_rshift a k)"
  by (cases "64 \<le> k")
    (auto intro!: tnum_gammaI simp: tnum_rshift_def bit_drop_bit_eq tnum_gammaD tnum_const_def
      dest: bit_imp_le_length)

lemma tnum_join_least_aux:
  assumes "tnum_wf a" "tnum_wf b" and "tnum_gamma a \<subseteq> tnum_gamma c" "tnum_gamma b \<subseteq> tnum_gamma c"
  shows "tnum_gamma (tnum_join a b) \<subseteq> tnum_gamma c"
proof
  fix x assume x: "x \<in> tnum_gamma (tnum_join a b)"
  have c: "bit (tn_value c) n \<longleftrightarrow> bit z n \<and> \<not> bit (tn_mask c) n"
    if "z \<in> {tn_value a, tn_value a OR tn_mask a, tn_value b, tn_value b OR tn_mask b}" for z n
    using that assms tnum_value_in_gamma tnum_max_in_gamma by (intro tnum_gammaD) blast
  show "x \<in> tnum_gamma c"
  proof (rule tnum_gammaI)
    fix n :: nat
    show "bit (tn_value c) n \<longleftrightarrow> bit x n \<and> \<not> bit (tn_mask c) n"
      using c [of "tn_value a" n] c [of "tn_value a OR tn_mask a" n] c [of "tn_value b" n]
        c [of "tn_value b OR tn_mask b" n] tnum_gammaD [OF x, of n] assms(1,2)
      by (auto simp: tnum_join_bits bit_or_iff tnum_wf_iff)
  qed
qed

subsection \<open>Scalars\<close>

lemma mod_half_shift:
  fixes P S :: int
  assumes "- (2 * P) \<le> S" "S < 2 * P"
  shows "(S + P) mod (2 * P) = S + P \<and> - P \<le> S \<and> S < P \<or>
    (S + P) mod (2 * P) = S + P - 2 * P \<and> P \<le> S \<or>
    (S + P) mod (2 * P) = S + P + 2 * P \<and> S < - P"
proof -
  consider "- P \<le> S" "S < P" | "P \<le> S" | "S < - P" by linarith
  then show ?thesis
  proof cases
    case 1
    then have "(S + P) mod (2 * P) = S + P" by (intro mod_pos_pos_trivial) linarith+
    with 1 show ?thesis by blast
  next
    case 2
    have "(S + P) mod (2 * P) = ((S - P) + 2 * P) mod (2 * P)"
      by (rule arg_cong [where f = "\<lambda>z. z mod (2 * P)"]) simp
    also have "\<dots> = (S - P) mod (2 * P)" by (rule mod_add_self2)
    also have "\<dots> = S - P" using 2 assms by (intro mod_pos_pos_trivial) linarith+
    finally show ?thesis using 2 by simp
  next
    case 3
    have "(S + P) mod (2 * P) = (S + P + 2 * P) mod (2 * P)" by (rule mod_add_self2 [symmetric])
    also have "\<dots> = S + P + 2 * P" using 3 assms by (intro mod_pos_pos_trivial) linarith+
    finally show ?thesis using 3 by simp
  qed
qed

lemma sint_add_cases:
  fixes a b :: s64
  shows "sint (a + b) = sint a + sint b \<and> - (2 ^ 63) \<le> sint a + sint b \<and> sint a + sint b < 2 ^ 63 \<or>
    sint (a + b) = sint a + sint b - 2 ^ 64 \<and> 2 ^ 63 \<le> sint a + sint b \<or>
    sint (a + b) = sint a + sint b + 2 ^ 64 \<and> sint a + sint b < - (2 ^ 63)"
proof -
  have b: "- (2 ^ 63) \<le> sint a" "sint a < 2 ^ 63" "- (2 ^ 63) \<le> sint b" "sint b < 2 ^ 63"
    using sint_range_size [of a] sint_range_size [of b] by (auto simp: word_size)
  have "sint (a + b) = signed_take_bit 63 (sint a + sint b)"
    by (simp add: sint_word_ariths)
  also have "\<dots> = (sint a + sint b + 2 ^ 63) mod 2 ^ 64 - 2 ^ 63"
    by (simp add: signed_take_bit_eq_take_bit_shift take_bit_eq_mod)
  finally have e: "sint (a + b) = (sint a + sint b + 2 ^ 63) mod 2 ^ 64 - 2 ^ 63" .
  define S where "S = sint a + sint b"
  have "- (2 ^ 64) \<le> S" "S < 2 ^ 64" using b by (simp_all add: S_def)
  then have "(S + 2 ^ 63) mod 2 ^ 64 = S + 2 ^ 63 \<and> - (2 ^ 63) \<le> S \<and> S < 2 ^ 63 \<or>
    (S + 2 ^ 63) mod 2 ^ 64 = S + 2 ^ 63 - 2 ^ 64 \<and> 2 ^ 63 \<le> S \<or>
    (S + 2 ^ 63) mod 2 ^ 64 = S + 2 ^ 63 + 2 ^ 64 \<and> S < - (2 ^ 63)"
    using mod_half_shift [of "2 ^ 63" S] by simp
  then show ?thesis unfolding e S_def by linarith
qed

lemma signed_add_exact:
  fixes a b :: s64
  assumes "\<not> ((a <s 0) = (b <s 0) \<and> (a + b <s 0) \<noteq> (a <s 0))"
  shows "sint (a + b) = sint a + sint b"
  using sint_add_cases [of a b] sint_range_size [of a] sint_range_size [of b] assms
  by (auto simp: word_sless_alt word_size)

lemma scalar_join_commute: "scalar_join a b = scalar_join b a"
  by (auto simp: scalar_join_def tnum_join_commute)

lemma scalar_join_ub: "scalar_gamma a \<subseteq> scalar_gamma (scalar_join a b)"
  using tnum_join_ub
  by (auto simp: scalar_gamma_def scalar_join_def word_sle_eq word_sless_alt split: if_splits)

interpretation scalar_dom: abstract_domain scalar_gamma scalar_join scalar_equal
  by unfold_locales (use scalar_join_ub scalar_join_commute in \<open>auto simp: subset_iff\<close>)

lemma scalar_add_signed:
  fixes a b c d x y :: s64
  assumes "a \<le>s x" "x \<le>s b" "c \<le>s y" "y \<le>s d"
    and "sint (a + c) = sint a + sint c" "sint (b + d) = sint b + sint d"
  shows "a + c \<le>s x + y \<and> x + y \<le>s b + d"
  using assms sint_add_cases [of x y] sint_range_size [of "a + c"] sint_range_size [of "b + d"]
  by (auto simp: word_sle_eq word_size)

lemma scalar_add_unsigned:
  fixes a b c d x y :: u64
  assumes "a \<le> x" "x \<le> b" "c \<le> y" "y \<le> d" and "\<not> (a + c < a)" "\<not> (b + d < b)"
  shows "a + c \<le> x + y \<and> x + y \<le> b + d"
  using assms by uint_arith

lemma scalar_add_in_gamma:
  assumes x: "x \<in> scalar_gamma a" and y: "y \<in> scalar_gamma b"
  shows "x + y \<in> scalar_gamma (scalar_add a b)"
proof -
  have "tnum_gamma (tn (scalar_add a b)) = tnum_gamma (tnum_add (tn a) (tn b))"
    by (simp add: scalar_add_def Let_def)
  then have t: "x + y \<in> tnum_gamma (tn (scalar_add a b))"
    using tnum_add_in_gamma x y by (auto simp: scalar_gamma_def)
  have s: "smin (scalar_add a b) \<le>s x + y \<and> x + y \<le>s smax (scalar_add a b)"
    using scalar_add_signed [of "smin a" x "smax a" "smin b" y "smax b"] x y
      signed_add_exact [of "smin a" "smin b"] signed_add_exact [of "smax a" "smax b"]
      sint_range_size [of "x + y"]
    by (auto simp: scalar_gamma_def scalar_add_def Let_def word_sle_eq word_size)
  have u: "umin (scalar_add a b) \<le> x + y \<and> x + y \<le> umax (scalar_add a b)"
    using scalar_add_unsigned [of "umin a" x "umax a" "umin b" y "umax b"] x y
    by (auto simp: scalar_gamma_def scalar_add_def Let_def)
  show ?thesis using s t u by (auto simp: scalar_gamma_def)
qed

lemma scalar_gamma_const [simp]: "scalar_gamma (scalar_const v) = {v}"
  by (auto simp: scalar_gamma_def scalar_const_def word_sle_eq)

lemma scalar_gamma_top [simp]: "scalar_gamma scalar_top = UNIV"
proof -
  have "S64_MIN \<le>s x \<and> x \<le>s S64_MAX" for x
    using sint_range_size [of x] by (simp add: word_sle_eq word_size)
  then show ?thesis by (auto simp: scalar_gamma_def scalar_top_def)
qed

lemma scalar_is_const_value:
  "scalar_is_const s \<Longrightarrow> x \<in> scalar_gamma s \<Longrightarrow> x = tn_value (tn s)"
  by (simp add: scalar_is_const_def tnum_is_const_def scalar_gamma_def tnum_gamma_def)

subsection \<open>Properties\<close>

text \<open>
  The tristate sum covers every machine sum. If \<open>x\<close> is described by \<open>a\<close> and \<open>y\<close> by
  \<open>b\<close>, then the wrapping 64-bit sum \<open>x + y\<close> is described by \<open>tnum_add a b\<close>; on two constants the
  result is the exact constant, so no precision is lost there.
\<close>

theorem tnum_add_sound:
  "(x \<in> tnum_gamma a \<longrightarrow> y \<in> tnum_gamma b \<longrightarrow> x + y \<in> tnum_gamma (tnum_add a b)) \<and>
   tnum_add (tnum_const v) (tnum_const w) = tnum_const (v + w)"
  by (auto simp: tnum_add_in_gamma) (simp add: tnum_add_def tnum_const_def)

theorem tnum_add_sound_witness:
  "7 \<in> tnum_gamma \<lparr>tn_value = 5, tn_mask = 2\<rparr> \<and>
   8 \<in> tnum_gamma (tnum_add \<lparr>tn_value = 5, tn_mask = 2\<rparr> (tnum_const 1))"
proof -
  have "7 \<in> tnum_gamma \<lparr>tn_value = 5, tn_mask = 2\<rparr>" by (simp add: tnum_gamma_def)
  then show ?thesis
    using tnum_add_sound [of 7 "\<lparr>tn_value = 5, tn_mask = 2\<rparr>" 1 "tnum_const 1" 0 0] by simp
qed

text \<open>
  C34: the user-space header's remaining tristate operations cover their machine operations:
  the wrapping difference, the bitwise and, or, exclusive or, and the logical shifts by any
  amount (64 and more included).
\<close>

theorem tnum_ops_sound:
  assumes "x \<in> tnum_gamma a" and "y \<in> tnum_gamma b"
  shows "x - y \<in> tnum_gamma (tnum_sub a b) \<and> x AND y \<in> tnum_gamma (tnum_and a b) \<and>
    x OR y \<in> tnum_gamma (tnum_or a b) \<and> x XOR y \<in> tnum_gamma (tnum_xor a b) \<and>
    push_bit k x \<in> tnum_gamma (tnum_lshift a k) \<and> drop_bit k x \<in> tnum_gamma (tnum_rshift a k)"
  using assms
  by (intro conjI tnum_sub_in_gamma tnum_bitwise_in_gamma tnum_lshift_in_gamma tnum_rshift_in_gamma)

theorem tnum_ops_sound_witness:
  "6 - 3 \<in> tnum_gamma (tnum_sub \<lparr>tn_value = 4, tn_mask = 3\<rparr> (tnum_const 3))"
proof -
  have "6 \<in> tnum_gamma \<lparr>tn_value = 4, tn_mask = 3\<rparr>" and "3 \<in> tnum_gamma (tnum_const 3)"
    by (simp_all add: tnum_gamma_def tnum_const_def)
  from tnum_ops_sound [OF this] show ?thesis by blast
qed

text \<open>
  \<open>tnum_join\<close> is the least upper bound of two canonical tristate numbers: it covers both and
  is contained in every tristate number that covers both.
\<close>

theorem tnum_join_least:
  "tnum_gamma a \<subseteq> tnum_gamma (tnum_join a b) \<and> tnum_gamma b \<subseteq> tnum_gamma (tnum_join a b) \<and>
   (tnum_wf a \<longrightarrow> tnum_wf b \<longrightarrow> tnum_gamma a \<subseteq> tnum_gamma c \<longrightarrow> tnum_gamma b \<subseteq> tnum_gamma c \<longrightarrow>
    tnum_gamma (tnum_join a b) \<subseteq> tnum_gamma c)"
  by (simp add: tnum_dom.join_ub1 tnum_dom.join_ub2 tnum_join_least_aux)

theorem tnum_join_least_witness:
  "tnum_gamma (tnum_join (tnum_const 4) (tnum_const 6)) \<subseteq> tnum_gamma \<lparr>tn_value = 4, tn_mask = 2\<rparr>"
proof -
  have "tnum_gamma (tnum_const 4) \<subseteq> tnum_gamma \<lparr>tn_value = 4, tn_mask = 2\<rparr>"
    "tnum_gamma (tnum_const 6) \<subseteq> tnum_gamma \<lparr>tn_value = 4, tn_mask = 2\<rparr>"
    by (simp_all only: tnum_gamma_const) (simp_all add: tnum_gamma_def)
  with tnum_join_least [of "tnum_const 4" "tnum_const 6" "\<lparr>tn_value = 4, tn_mask = 2\<rparr>"]
  show ?thesis by simp
qed

text \<open>
  \<open>scalar_add\<close> over-approximates 64-bit addition in all three views at once: the overflow tests
  of the code are exact enough that the signed range, the unsigned range and the tristate number
  of the result all contain the wrapped sum.
\<close>

theorem scalar_add_sound:
  assumes "x \<in> scalar_gamma a" and "y \<in> scalar_gamma b"
  shows "x + y \<in> scalar_gamma (scalar_add a b)"
  using assms by (rule scalar_add_in_gamma)

theorem scalar_add_sound_witness: "5 + U64_MAX \<in> scalar_gamma (scalar_add (scalar_const 5) scalar_top)"
proof -
  have "5 \<in> scalar_gamma (scalar_const 5)" "U64_MAX \<in> scalar_gamma scalar_top"
    by (simp_all only: scalar_gamma_const scalar_gamma_top insertI1 UNIV_I)
  then show ?thesis by (rule scalar_add_sound)
qed

text \<open>
  \<open>scalar_join\<close> covers both of its arguments, joining any list of scalars covers each of them,
  and a scalar the code calls constant describes at most the one value it reads out of it.
\<close>

theorem scalar_join_sound:
  "(\<forall>b \<in> set (a # bs). scalar_gamma b \<subseteq> scalar_gamma (foldl scalar_join a bs)) \<and>
   (scalar_is_const s \<longrightarrow> scalar_gamma s \<subseteq> {tn_value (tn s)})"
  by (auto simp: subsetD [OF scalar_dom.fold_join_acc] subsetD [OF scalar_dom.fold_join_covers]
      dest: scalar_is_const_value)

theorem scalar_join_sound_witness:
  "scalar_gamma (scalar_const 9) \<subseteq> scalar_gamma (foldl scalar_join (scalar_const 1) [scalar_const 9]) \<and>
   scalar_gamma (scalar_const 9) \<subseteq> {9}"
  using scalar_join_sound [of "scalar_const 1" "[scalar_const 9]" "scalar_const 9"]
  by (simp add: scalar_const_def scalar_is_const_def tnum_is_const_def tnum_const_def)

end
