(* ===== verification/Decode.thy ===== *)
theory Decode
  imports Merlin_Prelude
begin

text \<open>
  The kernel's RV64 instruction decoder, \<open>kernel/merlin/decode.c\<close>, with the enumerations and the
  instruction record of \<open>kernel/merlin/include/merlin_internal.h\<close>. A decoder that returns -1 (where
  the class is \<open>INSN_INVALID\<close> and no caller reads the output) is \<^const>\<open>None\<close>; register
  numbers are natural numbers below 32, immediates keep their 64-bit pattern.
\<close>

datatype merlin_insn_class =
    INSN_INVALID | INSN_UNSUPPORTED | INSN_LUI | INSN_AUIPC | INSN_JAL | INSN_JALR | INSN_BRANCH
  | INSN_LOAD | INSN_STORE | INSN_ALU_IMM | INSN_SHIFT_IMM | INSN_ALU_REG | INSN_FENCE
  | INSN_ECALL | INSN_EBREAK | INSN_ALU_IMM_W | INSN_ALU_REG_W | INSN_MUL | INSN_DIV
  | INSN_CSR | INSN_PRIV | INSN_FENCE_I | INSN_FLOAT

datatype merlin_branch_kind = BR_BEQ | BR_BNE | BR_BLT | BR_BGE | BR_BLTU | BR_BGEU

datatype merlin_load_kind = LD_LB | LD_LH | LD_LW | LD_LD | LD_LBU | LD_LHU | LD_LWU

datatype merlin_store_kind = ST_SB | ST_SH | ST_SW | ST_SD

datatype merlin_alu_op =
    ALU_ADD | ALU_SUB | ALU_SLL | ALU_SLT | ALU_SLTU | ALU_XOR | ALU_SRL | ALU_SRA | ALU_OR
  | ALU_AND | ALU_MUL | ALU_DIV | ALU_DIVU | ALU_REM | ALU_REMU | ALU_MULH | ALU_MULHU
  | ALU_MULHSU

record merlin_insn =
  raw :: u32
  pc :: u32
  cls :: merlin_insn_class
  rd :: nat
  rs1 :: nat
  rs2 :: nat
  imm :: s64
  br_kind :: merlin_branch_kind
  ld_kind :: merlin_load_kind
  st_kind :: merlin_store_kind
  alu_op :: merlin_alu_op
  word_op :: bool

subsection \<open>Field extraction\<close>

definition bits :: "u32 \<Rightarrow> nat \<Rightarrow> nat \<Rightarrow> u32" where
  "bits v hi lo = drop_bit lo v AND (push_bit (hi - lo + 1) 1 - 1)"

definition sign_ext :: "u32 \<Rightarrow> nat \<Rightarrow> u32" where
  "sign_ext v width = (let shift = 32 - width in signed_drop_bit shift (push_bit shift v))"

definition imm_i :: "u32 \<Rightarrow> s64" where
  "imm_i insn = scast (drop_bit 20 insn)"

definition imm_s :: "u32 \<Rightarrow> s64" where
  "imm_s insn =
     (let hi = bits insn 31 25; lo = bits insn 11 7
      in scast (sign_ext (push_bit 5 hi OR lo) 12))"

definition imm_b :: "u32 \<Rightarrow> s64" where
  "imm_b insn =
     (let b12 = bits insn 31 31; b11 = bits insn 7 7;
          b10_5 = bits insn 30 25; b4_1 = bits insn 11 8;
          raw = push_bit 12 b12 OR push_bit 11 b11 OR push_bit 5 b10_5 OR push_bit 1 b4_1
      in scast (sign_ext raw 13))"

definition imm_u :: "u32 \<Rightarrow> s64" where
  "imm_u insn = scast (insn AND 0xfffff000)"

definition imm_j :: "u32 \<Rightarrow> s64" where
  "imm_j insn =
     (let b20 = bits insn 31 31; b10_1 = bits insn 30 21;
          b11 = bits insn 20 20; b19_12 = bits insn 19 12;
          raw = push_bit 20 b20 OR push_bit 12 b19_12 OR push_bit 11 b11 OR push_bit 1 b10_1
      in scast (sign_ext raw 21))"

definition imm_shamt :: "u32 \<Rightarrow> bool \<Rightarrow> s64" where
  "imm_shamt insn rv64 =
     (let mask = (if rv64 then 0x3f else 0x1f) in ucast (drop_bit 20 insn AND mask))"

subsection \<open>Decoding one word, opcode by opcode\<close>

text \<open>The output after \<open>memset\<close>: every field zero, which is the first enumerator of each kind.\<close>

definition insn_zero :: "u32 \<Rightarrow> u32 \<Rightarrow> merlin_insn" where
  "insn_zero w p =
     \<lparr>raw = w, pc = p, cls = INSN_INVALID, rd = 0, rs1 = 0, rs2 = 0, imm = 0, br_kind = BR_BEQ,
      ld_kind = LD_LB, st_kind = ST_SB, alu_op = ALU_ADD, word_op = False\<rparr>"

definition decode_branch :: "u32 \<Rightarrow> u32 \<Rightarrow> merlin_insn \<Rightarrow> merlin_insn option" where
  "decode_branch w funct3 out0 =
     (let out = out0\<lparr>cls := INSN_BRANCH, imm := imm_b w\<rparr> in
      if funct3 = 0 then Some (out\<lparr>br_kind := BR_BEQ\<rparr>)
      else if funct3 = 1 then Some (out\<lparr>br_kind := BR_BNE\<rparr>)
      else if funct3 = 4 then Some (out\<lparr>br_kind := BR_BLT\<rparr>)
      else if funct3 = 5 then Some (out\<lparr>br_kind := BR_BGE\<rparr>)
      else if funct3 = 6 then Some (out\<lparr>br_kind := BR_BLTU\<rparr>)
      else if funct3 = 7 then Some (out\<lparr>br_kind := BR_BGEU\<rparr>)
      else None)"

definition decode_load :: "u32 \<Rightarrow> u32 \<Rightarrow> merlin_insn \<Rightarrow> merlin_insn option" where
  "decode_load w funct3 out0 =
     (let out = out0\<lparr>cls := INSN_LOAD, imm := imm_i w\<rparr> in
      if funct3 = 0 then Some (out\<lparr>ld_kind := LD_LB\<rparr>)
      else if funct3 = 1 then Some (out\<lparr>ld_kind := LD_LH\<rparr>)
      else if funct3 = 2 then Some (out\<lparr>ld_kind := LD_LW\<rparr>)
      else if funct3 = 3 then Some (out\<lparr>ld_kind := LD_LD\<rparr>)
      else if funct3 = 4 then Some (out\<lparr>ld_kind := LD_LBU\<rparr>)
      else if funct3 = 5 then Some (out\<lparr>ld_kind := LD_LHU\<rparr>)
      else if funct3 = 6 then Some (out\<lparr>ld_kind := LD_LWU\<rparr>)
      else None)"

definition decode_store :: "u32 \<Rightarrow> u32 \<Rightarrow> merlin_insn \<Rightarrow> merlin_insn option" where
  "decode_store w funct3 out0 =
     (let out = out0\<lparr>cls := INSN_STORE, imm := imm_s w\<rparr> in
      if funct3 = 0 then Some (out\<lparr>st_kind := ST_SB\<rparr>)
      else if funct3 = 1 then Some (out\<lparr>st_kind := ST_SH\<rparr>)
      else if funct3 = 2 then Some (out\<lparr>st_kind := ST_SW\<rparr>)
      else if funct3 = 3 then Some (out\<lparr>st_kind := ST_SD\<rparr>)
      else None)"

definition decode_alui :: "u32 \<Rightarrow> u32 \<Rightarrow> u32 \<Rightarrow> merlin_insn \<Rightarrow> merlin_insn option" where
  "decode_alui w funct3 funct7 out =
     (if funct3 = 0 then Some (out\<lparr>cls := INSN_ALU_IMM, alu_op := ALU_ADD, imm := imm_i w\<rparr>)
      else if funct3 = 1 then Some (out\<lparr>cls := INSN_SHIFT_IMM, alu_op := ALU_SLL, imm := imm_shamt w True\<rparr>)
      else if funct3 = 2 then Some (out\<lparr>cls := INSN_ALU_IMM, alu_op := ALU_SLT, imm := imm_i w\<rparr>)
      else if funct3 = 3 then Some (out\<lparr>cls := INSN_ALU_IMM, alu_op := ALU_SLTU, imm := imm_i w\<rparr>)
      else if funct3 = 4 then Some (out\<lparr>cls := INSN_ALU_IMM, alu_op := ALU_XOR, imm := imm_i w\<rparr>)
      else if funct3 = 5 then
        Some (out\<lparr>cls := INSN_SHIFT_IMM, alu_op := (if funct7 AND 0x20 \<noteq> 0 then ALU_SRA else ALU_SRL),
                  imm := imm_shamt w True\<rparr>)
      else if funct3 = 6 then Some (out\<lparr>cls := INSN_ALU_IMM, alu_op := ALU_OR, imm := imm_i w\<rparr>)
      else if funct3 = 7 then Some (out\<lparr>cls := INSN_ALU_IMM, alu_op := ALU_AND, imm := imm_i w\<rparr>)
      else None)"

definition mul_ops :: "merlin_alu_op list" where
  "mul_ops = [ALU_MUL, ALU_MULH, ALU_MULHSU, ALU_MULHU]"

definition div_ops :: "merlin_alu_op list" where
  "div_ops = [ALU_DIV, ALU_DIVU, ALU_REM, ALU_REMU]"

definition alu_ops :: "merlin_alu_op list" where
  "alu_ops = [ALU_ADD, ALU_SLL, ALU_SLT, ALU_SLTU, ALU_XOR, ALU_SRL, ALU_OR, ALU_AND]"

definition w_ops :: "merlin_alu_op list" where
  "w_ops = [ALU_ADD, ALU_SLL, ALU_ADD, ALU_ADD, ALU_ADD, ALU_SRL, ALU_ADD, ALU_ADD]"

definition decode_alur :: "u32 \<Rightarrow> u32 \<Rightarrow> merlin_insn \<Rightarrow> merlin_insn option" where
  "decode_alur funct3 funct7 out =
     (if funct7 = 1 then
        if funct3 < 4 then Some (out\<lparr>cls := INSN_MUL, alu_op := mul_ops ! unat funct3\<rparr>)
        else Some (out\<lparr>cls := INSN_DIV, alu_op := div_ops ! unat (funct3 - 4)\<rparr>)
      else if funct7 = 0x20 \<and> (funct3 = 0 \<or> funct3 = 5) then
        Some (out\<lparr>cls := INSN_ALU_REG, alu_op := (if funct3 = 0 then ALU_SUB else ALU_SRA)\<rparr>)
      else if funct7 = 0 then Some (out\<lparr>cls := INSN_ALU_REG, alu_op := alu_ops ! unat funct3\<rparr>)
      else None)"

definition decode_aluiw :: "u32 \<Rightarrow> u32 \<Rightarrow> u32 \<Rightarrow> merlin_insn \<Rightarrow> merlin_insn option" where
  "decode_aluiw w funct3 funct7 out0 =
     (let out = out0\<lparr>word_op := True\<rparr> in
      if funct3 = 0 then Some (out\<lparr>cls := INSN_ALU_IMM_W, alu_op := ALU_ADD, imm := imm_i w\<rparr>)
      else if funct3 = 1 then Some (out\<lparr>cls := INSN_ALU_IMM_W, alu_op := ALU_SLL, imm := imm_shamt w False\<rparr>)
      else if funct3 = 5 then
        Some (out\<lparr>cls := INSN_ALU_IMM_W, alu_op := (if funct7 AND 0x20 \<noteq> 0 then ALU_SRA else ALU_SRL),
                  imm := imm_shamt w False\<rparr>)
      else None)"

definition decode_aluw :: "u32 \<Rightarrow> u32 \<Rightarrow> merlin_insn \<Rightarrow> merlin_insn option" where
  "decode_aluw funct3 funct7 out0 =
     (let out = out0\<lparr>word_op := True\<rparr> in
      if funct7 = 1 then
        if funct3 < 4 then Some (out\<lparr>cls := INSN_MUL\<rparr>) else Some (out\<lparr>cls := INSN_DIV\<rparr>)
      else if funct7 = 0x20 \<and> (funct3 = 0 \<or> funct3 = 5) then
        Some (out\<lparr>cls := INSN_ALU_REG_W, alu_op := (if funct3 = 0 then ALU_SUB else ALU_SRA)\<rparr>)
      else if funct7 = 0 then Some (out\<lparr>cls := INSN_ALU_REG_W, alu_op := w_ops ! unat funct3\<rparr>)
      else None)"

definition decode_fence :: "u32 \<Rightarrow> merlin_insn \<Rightarrow> merlin_insn option" where
  "decode_fence funct3 out =
     (if funct3 = 1 then Some (out\<lparr>cls := INSN_FENCE_I\<rparr>) else Some (out\<lparr>cls := INSN_FENCE\<rparr>))"

definition decode_system :: "u32 \<Rightarrow> u32 \<Rightarrow> merlin_insn \<Rightarrow> merlin_insn option" where
  "decode_system w funct3 out =
     (if funct3 = 0 \<and> rd out = 0 \<and> rs1 out = 0 then
        (let imm12 = drop_bit 20 w in
         if imm12 = 0 then Some (out\<lparr>cls := INSN_ECALL\<rparr>)
         else if imm12 = 1 then Some (out\<lparr>cls := INSN_EBREAK\<rparr>)
         else Some (out\<lparr>cls := INSN_PRIV\<rparr>))
      else Some (out\<lparr>cls := INSN_CSR\<rparr>))"

definition decode_regs :: "u32 \<Rightarrow> merlin_insn \<Rightarrow> merlin_insn" where
  "decode_regs w out =
     out\<lparr>rd := unat (bits w 11 7), rs1 := unat (bits w 19 15), rs2 := unat (bits w 24 20)\<rparr>"

definition merlin_decode :: "u32 \<Rightarrow> u32 \<Rightarrow> merlin_insn option" where
  "merlin_decode insn_word p =
     (let opcode = insn_word AND 0x7f;
          funct3 = bits insn_word 14 12;
          funct7 = bits insn_word 31 25;
          out0 = insn_zero insn_word p
      in if insn_word AND 3 \<noteq> 3 then Some (out0\<lparr>cls := INSN_UNSUPPORTED\<rparr>)
         else let out = decode_regs insn_word out0 in
           if opcode = 0x37 then Some (out\<lparr>cls := INSN_LUI, imm := imm_u insn_word\<rparr>)
           else if opcode = 0x17 then Some (out\<lparr>cls := INSN_AUIPC, imm := imm_u insn_word\<rparr>)
           else if opcode = 0x6f then Some (out\<lparr>cls := INSN_JAL, imm := imm_j insn_word\<rparr>)
           else if opcode = 0x67 then
             (if funct3 \<noteq> 0 then None else Some (out\<lparr>cls := INSN_JALR, imm := imm_i insn_word\<rparr>))
           else if opcode = 0x63 then decode_branch insn_word funct3 out
           else if opcode = 0x03 then decode_load insn_word funct3 out
           else if opcode = 0x23 then decode_store insn_word funct3 out
           else if opcode = 0x13 then decode_alui insn_word funct3 funct7 out
           else if opcode = 0x33 then decode_alur funct3 funct7 out
           else if opcode = 0x1b then decode_aluiw insn_word funct3 funct7 out
           else if opcode = 0x3b then decode_aluw funct3 funct7 out
           else if opcode = 0x0f then decode_fence funct3 out
           else if opcode = 0x73 then decode_system insn_word funct3 out
           else if opcode = 0x2f then Some (out\<lparr>cls := INSN_UNSUPPORTED\<rparr>)
           else if opcode \<in> {0x07, 0x27, 0x43, 0x47, 0x4b, 0x4f, 0x53} then
             Some (out\<lparr>cls := INSN_FLOAT\<rparr>)
           else None)"

definition merlin_insn_permitted_default :: "merlin_insn \<Rightarrow> bool" where
  "merlin_insn_permitted_default i =
     (case cls i of
        INSN_LUI \<Rightarrow> True | INSN_AUIPC \<Rightarrow> True | INSN_JAL \<Rightarrow> True | INSN_JALR \<Rightarrow> True
      | INSN_BRANCH \<Rightarrow> True | INSN_LOAD \<Rightarrow> True | INSN_STORE \<Rightarrow> True | INSN_ALU_IMM \<Rightarrow> True
      | INSN_SHIFT_IMM \<Rightarrow> True | INSN_ALU_REG \<Rightarrow> True | INSN_FENCE \<Rightarrow> True | INSN_ECALL \<Rightarrow> True
      | INSN_ALU_IMM_W \<Rightarrow> True | INSN_ALU_REG_W \<Rightarrow> True | INSN_MUL \<Rightarrow> True | INSN_DIV \<Rightarrow> True
      | _ \<Rightarrow> False)"

text \<open>The little-endian fetch every pass over the text performs.\<close>

definition fetch32 :: "u8 list \<Rightarrow> nat \<Rightarrow> u32" where
  "fetch32 text off =
     ucast (text ! off) OR push_bit 8 (ucast (text ! (off + 1)))
     OR push_bit 16 (ucast (text ! (off + 2))) OR push_bit 24 (ucast (text ! (off + 3)))"

lemmas decode_defs [merlin_defs] =
  merlin_decode_def decode_branch_def decode_load_def decode_store_def decode_alui_def
  decode_alur_def decode_aluiw_def decode_aluw_def decode_fence_def decode_system_def
  decode_regs_def insn_zero_def

lemmas decode_eval [merlin_defs] =
  bits_def imm_i_def imm_s_def imm_b_def imm_u_def imm_j_def imm_shamt_def sign_ext_def
  mul_ops_def div_ops_def alu_ops_def w_ops_def fetch32_def

subsection \<open>Bit-level reading of the fields\<close>

lemma bit_bits:
  assumes "lo \<le> hi" "hi - lo < 31"
  shows "bit (bits v hi lo) n \<longleftrightarrow> n \<le> hi - lo \<and> bit v (n + lo)"
proof -
  have "push_bit (hi - lo + 1) 1 - 1 = (mask (hi - lo + 1) :: u32)"
    by (simp add: mask_eq_exp_minus_1 push_bit_eq_mult)
  then show ?thesis
    using assms
    by (auto simp: bits_def bit_and_iff bit_drop_bit_eq bit_mask_iff add.commute
        dest: bit_imp_le_length)
qed

lemma bits_less:
  assumes "lo \<le> hi" "hi - lo < 31"
  shows "unat (bits v hi lo) < 2 ^ (hi - lo + 1)"
proof -
  have "bits v hi lo = take_bit (hi - lo + 1) (bits v hi lo)"
    by (rule bit_eqI) (auto simp: bit_take_bit_iff bit_bits assms)
  then have "unat (bits v hi lo) = unat (take_bit (hi - lo + 1) (bits v hi lo))"
    by (rule arg_cong)
  also have "\<dots> = take_bit (hi - lo + 1) (unat (bits v hi lo))"
    by (simp add: unsigned_take_bit_eq)
  also have "\<dots> < 2 ^ (hi - lo + 1)"
    by (simp only: take_bit_nat_less_exp)
  finally show ?thesis .
qed

lemma bit_sign_ext:
  assumes "0 < width" "width \<le> 32" "n < 32"
  shows "bit (sign_ext v width) n \<longleftrightarrow> bit v (min n (width - 1))"
  using assms
  by (auto simp: sign_ext_def Let_def bit_signed_drop_bit_iff bit_push_bit_iff min_def
      dest: bit_imp_le_length)

lemma bit_scast_32_64:
  assumes "n < 64"
  shows "bit (scast (v :: u32) :: u64) n \<longleftrightarrow> bit v (min n 31)"
  using assms by (auto simp: bit_signed_iff min_def)

lemma bit_times_2_u32: "bit (x * 2 :: u32) n \<longleftrightarrow> 0 < n \<and> n < 32 \<and> bit x (n - 1)"
proof -
  have "x * 2 = push_bit 1 x" by (simp add: push_bit_eq_mult)
  then show ?thesis by (simp only: bit_push_bit_iff) auto
qed

lemmas bit_imm_simps =
  Let_def bit_scast_32_64 bit_sign_ext bit_or_iff bit_push_bit_iff bit_bits bit_times_2_u32
  min_def add.commute

lemma bit_imm_i: "bit (imm_i w) n \<longleftrightarrow> n < 12 \<and> bit w (n + 20)"
proof (cases "n < 64")
  case True
  then show ?thesis
    by (auto simp: imm_i_def bit_scast_32_64 bit_drop_bit_eq min_def add.commute
        dest: bit_imp_le_length)
next
  case False
  then show ?thesis by (auto dest: bit_imp_le_length)
qed

lemma bit_imm_s:
  assumes "n < 64"
  shows "bit (imm_s w) n \<longleftrightarrow> (if n < 5 then bit w (n + 7) else bit w (min (n + 20) 31))"
  using assms
  by (auto simp: imm_s_def bit_imm_simps)

lemma bit_imm_b:
  assumes "n < 64"
  shows "bit (imm_b w) n \<longleftrightarrow>
    (if n = 0 then False else if n < 5 then bit w (n + 7) else if n < 11 then bit w (n + 20)
     else if n = 11 then bit w 7 else bit w 31)"
proof -
  have "n = 12 \<or> n < 12 \<or> 12 < n" by linarith
  then show ?thesis
    using assms
    by (auto simp: imm_b_def bit_imm_simps)
qed

lemma bit_imm_u:
  assumes "n < 64"
  shows "bit (imm_u w) n \<longleftrightarrow> 12 \<le> n \<and> bit w (min n 31)"
proof -
  have m: "bit (0xfffff000 :: u32) k \<longleftrightarrow> 12 \<le> k \<and> k < 32" for k
  proof -
    have "(0xfffff000 :: u32) = NOT (mask 12)" by (simp add: mask_eq_exp_minus_1)
    then show ?thesis by (simp only: bit_not_iff bit_mask_iff) auto
  qed
  show ?thesis
    unfolding imm_u_def bit_scast_32_64 [OF assms] bit_and_iff m by (auto simp: min_def)
qed

lemma bit_imm_j:
  assumes "n < 64"
  shows "bit (imm_j w) n \<longleftrightarrow>
    (if n = 0 then False else if n < 11 then bit w (n + 20) else if n = 11 then bit w 20
     else if n < 20 then bit w n else bit w 31)"
  using assms
  by (auto simp: imm_j_def bit_imm_simps)

subsection \<open>The decoder's contract\<close>

text \<open>
  What every consumer of a decoder relies on: the program counter and the word are passed through
  and the register fields index the 32-entry register file.
\<close>

locale insn_decoder =
  fixes decode :: "u32 \<Rightarrow> u32 \<Rightarrow> merlin_insn option"
  assumes decode_raw: "decode w p = Some i \<Longrightarrow> raw i = w \<and> pc i = p"
    and decode_regs_lt: "decode w p = Some i \<Longrightarrow> rd i < 32 \<and> rs1 i < 32 \<and> rs2 i < 32"
begin

lemma regs_in_file:
  assumes "decode w p = Some i" and "length xs = 32"
  shows "rd i < length xs" "rs1 i < length xs" "rs2 i < length xs"
  using decode_regs_lt [OF assms(1)] assms(2) by auto

end

lemma bits5_lt_32: "unat (bits w 11 7) < 32" "unat (bits w 19 15) < 32" "unat (bits w 24 20) < 32"
  using bits_less [of 7 11 w] bits_less [of 15 19 w] bits_less [of 20 24 w] by simp_all

lemma merlin_decode_fields:
  assumes "merlin_decode w p = Some i"
  shows "raw i = w" "pc i = p" "rd i < 32" "rs1 i < 32" "rs2 i < 32"
  using assms bits5_lt_32 [of w]
  by (auto simp: decode_defs Let_def split: if_splits)

interpretation kdec: insn_decoder merlin_decode
  by unfold_locales (auto dest: merlin_decode_fields)

text \<open>Which fields the classes fix: facts the passes use to tell the instructions apart.\<close>

lemma merlin_decode_control:
  assumes "merlin_decode w p = Some i"
  shows "cls i = INSN_BRANCH \<Longrightarrow> w AND 0x7f = 0x63 \<and> imm i = imm_b w"
    and "cls i = INSN_JAL \<Longrightarrow> w AND 0x7f = 0x6f \<and> imm i = imm_j w"
    and "cls i = INSN_JALR \<Longrightarrow> w AND 0x7f = 0x67 \<and> imm i = imm_i w"
    and "cls i = INSN_ECALL \<Longrightarrow> w AND 0x7f = 0x73 \<and> rd i = 0 \<and> rs1 i = 0"
  using assms by (auto simp: decode_defs Let_def split: if_splits)

lemma bits_eq_0_iff:
  assumes "lo \<le> hi" "hi - lo < 31"
  shows "bits v hi lo = 0 \<longleftrightarrow> (\<forall>n. lo \<le> n \<longrightarrow> n \<le> hi \<longrightarrow> \<not> bit v n)"
proof
  assume z: "bits v hi lo = 0"
  show "\<forall>n. lo \<le> n \<longrightarrow> n \<le> hi \<longrightarrow> \<not> bit v n"
  proof (intro allI impI)
    fix n assume "lo \<le> n" "n \<le> hi"
    then show "\<not> bit v n"
      using bit_bits [OF assms, of v "n - lo"] z by auto
  qed
next
  assume "\<forall>n. lo \<le> n \<longrightarrow> n \<le> hi \<longrightarrow> \<not> bit v n"
  then show "bits v hi lo = 0"
    using assms by (intro bit_word_eqI) (auto simp: bit_bits)
qed

lemma ecall_word_unique:
  fixes w :: u32
  assumes "w AND 0x7f = 0x73" "bits w 14 12 = 0" "bits w 11 7 = 0" "bits w 19 15 = 0"
    and "drop_bit 20 w = 0"
  shows "w = 0x73"
proof -
  have hi: "\<not> bit w n" if "7 \<le> n" for n
  proof (cases "n < 20")
    case True
    with that have "7 \<le> n \<and> n \<le> 11 \<or> 12 \<le> n \<and> n \<le> 14 \<or> 15 \<le> n \<and> n \<le> 19"
      by linarith
    moreover have "\<forall>n. 7 \<le> n \<longrightarrow> n \<le> 11 \<longrightarrow> \<not> bit w n"
      using bits_eq_0_iff [of 7 11 w] assms(3) by simp
    moreover have "\<forall>n. 12 \<le> n \<longrightarrow> n \<le> 14 \<longrightarrow> \<not> bit w n"
      using bits_eq_0_iff [of 12 14 w] assms(2) by simp
    moreover have "\<forall>n. 15 \<le> n \<longrightarrow> n \<le> 19 \<longrightarrow> \<not> bit w n"
      using bits_eq_0_iff [of 15 19 w] assms(4) by simp
    ultimately show ?thesis by blast
  next
    case False
    then have "bit w n \<longleftrightarrow> bit (drop_bit 20 w) (n - 20)"
      by (simp add: bit_drop_bit_eq)
    then show ?thesis using assms(5) by simp
  qed
  have "w = w AND mask 7"
  proof (rule bit_word_eqI)
    fix n assume n: "n < LENGTH(32)"
    show "bit w n \<longleftrightarrow> bit (w AND mask 7) n"
      using n hi [of n] by (cases "n < 7") (simp_all add: bit_and_iff bit_mask_iff)
  qed
  then show ?thesis using assms(1) by (simp add: mask_eq_exp_minus_1)
qed

lemma permitted_opcode:
  assumes "merlin_decode w p = Some i" and "merlin_insn_permitted_default i"
  shows "w AND 0x7f \<in> {0x37, 0x17, 0x6f, 0x67, 0x63, 0x03, 0x23, 0x13, 0x33, 0x1b, 0x3b, 0x0f, 0x73}"
    and "w AND 0x7f = 0x73 \<Longrightarrow> w = 0x73 \<and> cls i = INSN_ECALL"
    and "w AND 0x7f = 0x0f \<Longrightarrow> bits w 14 12 \<noteq> 1"
  using assms ecall_word_unique [of w]
  by (auto simp: decode_defs Let_def merlin_insn_permitted_default_def unat_eq_zero
      split: if_splits)

text \<open>
  The S, B, U and J immediates are assembled as the ISA lays them out: every bit of the decoded
  64-bit immediate is the bit of the instruction word that the format prescribes, and the top bits
  repeat bit 31 of the word (sign extension).
\<close>

theorem imm_formats_layout:
  assumes "n < 64"
  shows "bit (imm_s w) n = (if n < 5 then bit w (n + 7) else bit w (min (n + 20) 31)) \<and>
    bit (imm_b w) n = (if n = 0 then False else if n < 5 then bit w (n + 7)
       else if n < 11 then bit w (n + 20) else if n = 11 then bit w 7 else bit w 31) \<and>
    bit (imm_u w) n = (12 \<le> n \<and> bit w (min n 31)) \<and>
    bit (imm_j w) n = (if n = 0 then False else if n < 11 then bit w (n + 20)
       else if n = 11 then bit w 20 else if n < 20 then bit w n else bit w 31)"
  using assms by (simp only: bit_imm_s bit_imm_b bit_imm_u bit_imm_j simp_thms)

theorem imm_formats_layout_witness: "bit (imm_b 0xfe000ee3) 63 \<and> bit (imm_j 0xffdff06f) 20"
  using imm_formats_layout [of 63 "0xfe000ee3"] imm_formats_layout [of 20 "0xffdff06f"]
  by simp

text \<open>
  The default profile admits no privileged, CSR, floating-point, atomic, compressed or
  instruction-fence word. A word the decoder reads and the profile permits has one of thirteen
  major opcodes; the only permitted SYSTEM word is \<open>ecall\<close> itself; a permitted MISC-MEM word
  is not \<open>fence.i\<close>; and the decoded register fields index the register file.
\<close>

theorem permitted_words:
  assumes "merlin_decode w p = Some i" and "merlin_insn_permitted_default i"
  shows "w AND 0x7f \<in> {0x37, 0x17, 0x6f, 0x67, 0x63, 0x03, 0x23, 0x13, 0x33, 0x1b, 0x3b, 0x0f, 0x73} \<and>
    (w AND 0x7f = 0x73 \<longrightarrow> w = 0x73 \<and> cls i = INSN_ECALL) \<and>
    (w AND 0x7f = 0x0f \<longrightarrow> bits w 14 12 \<noteq> 1) \<and>
    raw i = w \<and> pc i = p \<and> rd i < 32 \<and> rs1 i < 32 \<and> rs2 i < 32"
  using permitted_opcode [OF assms] merlin_decode_fields [OF assms(1)] by blast

theorem permitted_words_witness:
  "merlin_decode 0x73 8 = Some ((insn_zero 0x73 8)\<lparr>cls := INSN_ECALL\<rparr>) \<and>
   pc ((insn_zero 0x73 8)\<lparr>cls := INSN_ECALL\<rparr>) = 8"
proof -
  have d: "merlin_decode 0x73 8 = Some ((insn_zero 0x73 8)\<lparr>cls := INSN_ECALL\<rparr>)" by code_simp
  have "merlin_insn_permitted_default ((insn_zero 0x73 8)\<lparr>cls := INSN_ECALL\<rparr>)" by code_simp
  from permitted_words [OF d this] d show ?thesis by blast
qed

end
