(* ===== verification/Cfg.thy ===== *)
theory Cfg
  imports Decode
begin

text \<open>
  Basic-block construction, reverse postorder, dominators and back edges:
  \<open>kernel/merlin/cfg.c\<close>. Blocks are numbered by their position in the \<open>blocks\<close> array; an index
  field that holds -1 is \<^const>\<open>None\<close>. Loops whose end depends on the graph are
  \<^theory_text>\<open>partial_function (option)\<close>: \<^const>\<open>None\<close> stands for a loop that does not return or a
  read outside an array. Memory allocation is taken to succeed.
\<close>

abbreviation MERLIN_CFG_MAX_BLOCKS :: nat where "MERLIN_CFG_MAX_BLOCKS \<equiv> 4096"
abbreviation MERLIN_CFG_MAX_EDGES :: nat where "MERLIN_CFG_MAX_EDGES \<equiv> MERLIN_CFG_MAX_BLOCKS * 2"
abbreviation CFG_MAX_INSNS :: nat where "CFG_MAX_INSNS \<equiv> MERLIN_CFG_MAX_BLOCKS * 16"

record merlin_block =
  start_pc :: u32
  end_pc :: u32
  insn_count :: nat
  succ0 :: "nat option"
  succ1 :: "nat option"
  succ_pc0 :: u32
  succ_pc1 :: u32
  is_return :: bool
  reachable :: bool
  idom :: "nat option"

record merlin_cfg =
  blocks :: "merlin_block list"
  rpo :: "nat list"
  back_edges :: "(nat \<times> nat) list"
  reducible :: bool

text \<open>The entries of the fixed-size array past \<open>nblocks\<close> are zero after \<open>memset\<close>.\<close>

definition zero_block :: merlin_block where
  "zero_block =
     \<lparr>start_pc = 0, end_pc = 0, insn_count = 0, succ0 = Some 0, succ1 = Some 0, succ_pc0 = 0,
      succ_pc1 = 0, is_return = False, reachable = False, idom = Some 0\<rparr>"

definition blk :: "merlin_block list \<Rightarrow> nat \<Rightarrow> merlin_block" where
  "blk bs i = (if i < length bs then bs ! i else zero_block)"

definition succs :: "merlin_block \<Rightarrow> nat list" where
  "succs b = (case succ0 b of None \<Rightarrow> [] | Some n \<Rightarrow> [n]) @ (case succ1 b of None \<Rightarrow> [] | Some n \<Rightarrow> [n])"

subsection \<open>Leaders\<close>

definition leader_set :: "u8 list \<Rightarrow> nat \<Rightarrow> u8 list" where
  "leader_set bm idx = bm[idx div 8 := (bm ! (idx div 8)) OR push_bit (idx mod 8) 1]"

definition leader_get :: "u8 list \<Rightarrow> nat \<Rightarrow> bool" where
  "leader_get bm idx \<longleftrightarrow> drop_bit (idx mod 8) (bm ! (idx div 8)) AND 1 \<noteq> 0"

definition insn_at :: "u8 list \<Rightarrow> nat \<Rightarrow> merlin_insn option" where
  "insn_at text off = merlin_decode (fetch32 text off) (of_nat off)"

definition branch_target :: "nat \<Rightarrow> merlin_insn \<Rightarrow> int" where
  "branch_target off i = int off + sint (imm i)"

definition leader_step :: "u8 list \<Rightarrow> u8 list \<Rightarrow> nat \<Rightarrow> string + u8 list" where
  "leader_step text bm off =
     (case insn_at text off of
        None \<Rightarrow> Inr bm
      | Some i \<Rightarrow>
          if cls i = INSN_BRANCH \<or> cls i = INSN_JAL then
            (let tgt = branch_target off i; fal = off + 4 in
             if tgt < 0 \<or> tgt \<ge> int (length text) then Inl ''branch/JAL target outside .text''
             else (let bm1 = leader_set bm (nat tgt div 4) in
                   Inr (if fal < length text then leader_set bm1 (fal div 4) else bm1)))
          else if cls i = INSN_JALR then
            (let fal = off + 4 in
             Inr (if fal < length text then leader_set bm (fal div 4) else bm))
          else Inr bm)"

fun leader_loop :: "u8 list \<Rightarrow> nat list \<Rightarrow> u8 list \<Rightarrow> string + u8 list" where
  "leader_loop text [] bm = Inr bm"
| "leader_loop text (off # offs) bm =
     (case leader_step text bm off of Inl e \<Rightarrow> Inl e | Inr bm' \<Rightarrow> leader_loop text offs bm')"

definition cfg_find_leaders :: "u8 list \<Rightarrow> u8 list \<Rightarrow> string + u8 list" where
  "cfg_find_leaders text leader_bm =
     leader_loop text (map (\<lambda>i. 4 * i) [0..<length text div 4]) (leader_set leader_bm 0)"

lemma leader_bit: "leader_get bm i \<longleftrightarrow> bit (bm ! (i div 8)) (i mod 8)"
  by (simp add: leader_get_def drop_bit_and_1)

interpretation leaders: bitmap leader_get leader_set "\<lambda>bm i. i div 8 < length bm"
proof
  fix b :: "u8 list" and i j :: nat
  have same_index: "j = i \<longleftrightarrow> j div 8 = i div 8 \<and> j mod 8 = i mod 8"
    by (metis div_mult_mod_eq)
  show "(j div 8 < length (leader_set b i)) = (j div 8 < length b)"
    by (simp add: leader_set_def)
  assume "i div 8 < length b" "j div 8 < length b"
  then show "leader_get (leader_set b i) j = (j = i \<or> leader_get b j)"
    by (auto simp: leader_bit leader_set_def bit_or_exp nth_list_update same_index)
qed

subsection \<open>Blocks\<close>

definition new_block :: "u32 \<Rightarrow> merlin_block" where
  "new_block p =
     \<lparr>start_pc = p, end_pc = p, insn_count = 0, succ0 = None, succ1 = None, succ_pc0 = 0,
      succ_pc1 = 0, is_return = False, reachable = False, idom = None\<rparr>"

definition block_terminator :: "u8 list \<Rightarrow> u32 \<Rightarrow> nat \<Rightarrow> merlin_block \<Rightarrow> merlin_block" where
  "block_terminator text text_offset off b =
     (case insn_at text off of
        None \<Rightarrow> b
      | Some i \<Rightarrow>
          if cls i = INSN_BRANCH then
            b\<lparr>succ_pc0 := text_offset + of_nat (off + 4),
              succ_pc1 := text_offset + of_int (branch_target off i)\<rparr>
          else if cls i = INSN_JAL then
            (let b1 = b\<lparr>succ_pc0 := text_offset + of_int (branch_target off i)\<rparr> in
             if rd i \<noteq> 0 \<and> off + 4 < length text
             then b1\<lparr>succ_pc1 := text_offset + of_nat (off + 4)\<rparr> else b1)
          else if cls i = INSN_JALR then b\<lparr>is_return := True\<rparr>
          else b)"

definition block_extend :: "u8 list \<Rightarrow> u32 \<Rightarrow> nat \<Rightarrow> merlin_block \<Rightarrow> merlin_block" where
  "block_extend text text_offset off b =
     block_terminator text text_offset off
       (b\<lparr>end_pc := text_offset + of_nat off, insn_count := insn_count b + 1\<rparr>)"

fun build_loop :: "u8 list \<Rightarrow> u32 \<Rightarrow> u8 list \<Rightarrow> nat list \<Rightarrow> merlin_block list \<Rightarrow> string + merlin_block list" where
  "build_loop text text_offset bm [] bs = Inr bs"
| "build_loop text text_offset bm (i # is) bs =
     (let off = 4 * i in
      if leader_get bm i \<and> length bs \<ge> MERLIN_CFG_MAX_BLOCKS then Inl ''CFG exceeds MAX_BLOCKS''
      else let bs1 = (if leader_get bm i then bs @ [new_block (text_offset + of_nat off)] else bs) in
        if bs1 = [] then Inl ''no leader at .text start''
        else build_loop text text_offset bm is
               (bs1[length bs1 - 1 := block_extend text text_offset off (last bs1)]))"

definition merlin_cfg_block_at :: "merlin_block list \<Rightarrow> u32 \<Rightarrow> nat option" where
  "merlin_cfg_block_at bs p = List.find (\<lambda>i. start_pc (bs ! i) = p) [0..<length bs]"

definition wire_block :: "u8 list \<Rightarrow> u32 \<Rightarrow> merlin_block list \<Rightarrow> nat \<Rightarrow> merlin_block" where
  "wire_block text text_offset bs i =
     (let b = bs ! i;
          toff = unat (end_pc b - text_offset);
          is_ctrl = (case insn_at text toff of None \<Rightarrow> False
                     | Some j \<Rightarrow> cls j = INSN_BRANCH \<or> cls j = INSN_JAL \<or> cls j = INSN_JALR)
      in if is_return b then b\<lparr>succ0 := None, succ1 := None\<rparr>
         else if \<not> is_ctrl then
           (if i + 1 < length bs
            then b\<lparr>succ0 := Some (i + 1), succ_pc0 := start_pc (bs ! (i + 1))\<rparr> else b)
         else let b1 = (if succ_pc0 b \<noteq> 0 then b\<lparr>succ0 := merlin_cfg_block_at bs (succ_pc0 b)\<rparr> else b)
              in if succ_pc1 b1 \<noteq> 0 then b1\<lparr>succ1 := merlin_cfg_block_at bs (succ_pc1 b1)\<rparr> else b1)"

definition cfg_build_blocks :: "u8 list \<Rightarrow> u32 \<Rightarrow> u8 list \<Rightarrow> string + merlin_block list" where
  "cfg_build_blocks text text_offset bm =
     (case build_loop text text_offset bm [0..<length text div 4] [] of
        Inl e \<Rightarrow> Inl e
      | Inr bs \<Rightarrow> Inr (map (wire_block text text_offset bs) [0..<length bs]))"

subsection \<open>Reverse postorder by depth-first search\<close>

definition next_unvisited :: "merlin_block list \<Rightarrow> (nat \<Rightarrow> nat) \<Rightarrow> nat \<Rightarrow> nat option" where
  "next_unvisited bs state b = List.find (\<lambda>n. state n = 0) (succs (blk bs b))"

definition mark_reachable :: "merlin_block list \<Rightarrow> nat \<Rightarrow> merlin_block list" where
  "mark_reachable bs b = bs[b := (blk bs b)\<lparr>reachable := True\<rparr>]"

text \<open>The stack is a list with its top first; \<open>state\<close> is the zeroed array 0/1/2.\<close>

partial_function (option) rpo_loop ::
  "merlin_block list \<Rightarrow> nat list \<Rightarrow> (nat \<Rightarrow> nat) \<Rightarrow> nat list \<Rightarrow> (merlin_block list \<times> nat list) option" where
  "rpo_loop bs stack state post =
     (if stack = [] then Some (bs, post)
      else let b = hd stack;
               bs1 = (if state b = 0 then mark_reachable bs b else bs);
               state1 = (if state b = 0 then state(b := 1) else state)
           in case next_unvisited bs1 state1 b of
                Some n \<Rightarrow> rpo_loop bs1 (n # stack) state1 post
              | None \<Rightarrow> rpo_loop bs1 (tl stack) (state1(b := 2)) (post @ [b]))"

definition cfg_compute_rpo :: "merlin_block list \<Rightarrow> (merlin_block list \<times> nat list) option" where
  "cfg_compute_rpo bs =
     map_option (\<lambda>(bs', post). (bs', rev post)) (rpo_loop bs [0] (\<lambda>_. 0) [])"

subsection \<open>Dominators\<close>

definition rpo_of :: "nat list \<Rightarrow> nat \<Rightarrow> nat" where
  "rpo_of order b = (case List.find (\<lambda>i. order ! i = b) [0..<length order] of None \<Rightarrow> 0 | Some i \<Rightarrow> i)"

partial_function (option) climb :: "(nat \<Rightarrow> nat) \<Rightarrow> merlin_block list \<Rightarrow> nat \<Rightarrow> nat \<Rightarrow> nat option" where
  "climb num bs b1 b2 =
     (if num b1 > num b2 then
        (case idom (blk bs b1) of None \<Rightarrow> None | Some d \<Rightarrow> climb num bs d b2)
      else Some b1)"

partial_function (option) cfg_intersect :: "(nat \<Rightarrow> nat) \<Rightarrow> merlin_block list \<Rightarrow> nat \<Rightarrow> nat \<Rightarrow> nat option" where
  "cfg_intersect num bs b1 b2 =
     (if b1 = b2 then Some b1
      else case climb num bs b1 b2 of
             None \<Rightarrow> None
           | Some c1 \<Rightarrow> (case climb num bs b2 c1 of
                           None \<Rightarrow> None
                         | Some c2 \<Rightarrow> cfg_intersect num bs c1 c2))"

text \<open>The predecessors of \<open>b\<close> in the order of the two inner loops, one entry per edge.\<close>

definition pred_edges :: "merlin_block list \<Rightarrow> nat \<Rightarrow> nat list" where
  "pred_edges bs b =
     concat (map (\<lambda>j. map (\<lambda>_. j) (filter (\<lambda>n. n = b) (succs (bs ! j)))) [0..<length bs])"

fun new_idom_loop :: "(nat \<Rightarrow> nat) \<Rightarrow> merlin_block list \<Rightarrow> nat list \<Rightarrow> nat option \<Rightarrow> nat option option" where
  "new_idom_loop num bs [] new_idom = Some new_idom"
| "new_idom_loop num bs (j # js) new_idom =
     (if idom (blk bs j) = None then new_idom_loop num bs js new_idom
      else case new_idom of
             None \<Rightarrow> new_idom_loop num bs js (Some j)
           | Some d \<Rightarrow> (case cfg_intersect num bs j d of
                          None \<Rightarrow> None
                        | Some d' \<Rightarrow> new_idom_loop num bs js (Some d')))"

fun dom_sweep :: "(nat \<Rightarrow> nat) \<Rightarrow> nat list \<Rightarrow> merlin_block list \<Rightarrow> bool \<Rightarrow> (merlin_block list \<times> bool) option" where
  "dom_sweep num [] bs changed = Some (bs, changed)"
| "dom_sweep num (b # order) bs changed =
     (case new_idom_loop num bs (pred_edges bs b) None of
        None \<Rightarrow> None
      | Some new_idom \<Rightarrow>
          if new_idom \<noteq> None \<and> new_idom \<noteq> idom (blk bs b)
          then dom_sweep num order (bs[b := (blk bs b)\<lparr>idom := new_idom\<rparr>]) True
          else dom_sweep num order bs changed)"

partial_function (option) dom_loop :: "(nat \<Rightarrow> nat) \<Rightarrow> nat list \<Rightarrow> merlin_block list \<Rightarrow> merlin_block list option" where
  "dom_loop num order bs =
     (case dom_sweep num (tl order) bs False of
        None \<Rightarrow> None
      | Some (bs', changed) \<Rightarrow> (if changed then dom_loop num order bs' else Some bs'))"

definition cfg_compute_dominators :: "nat list \<Rightarrow> merlin_block list \<Rightarrow> merlin_block list option" where
  "cfg_compute_dominators order bs =
     (let bs1 = map (\<lambda>b. b\<lparr>idom := None\<rparr>) bs;
          bs2 = bs1[0 := (blk bs1 0)\<lparr>idom := Some 0\<rparr>]
      in dom_loop (rpo_of order) order bs2)"

partial_function (option) cfg_dominates :: "merlin_block list \<Rightarrow> nat \<Rightarrow> nat option \<Rightarrow> bool option" where
  "cfg_dominates bs t b =
     (case b of
        None \<Rightarrow> Some False
      | Some x \<Rightarrow> if x = t then Some True
                  else if idom (blk bs x) = Some x then Some False
                  else cfg_dominates bs t (idom (blk bs x)))"

text \<open>\<open>Inl\<close> is the rejection for too many back edges.\<close>

fun back_edge_loop :: "merlin_block list \<Rightarrow> (nat \<times> nat) list \<Rightarrow> (nat \<times> nat) list \<Rightarrow>
    (string + (nat \<times> nat) list) option" where
  "back_edge_loop bs [] acc = Some (Inr acc)"
| "back_edge_loop bs ((i, t) # es) acc =
     (case cfg_dominates bs t (Some i) of
        None \<Rightarrow> None
      | Some False \<Rightarrow> back_edge_loop bs es acc
      | Some True \<Rightarrow>
          if length acc \<ge> MERLIN_CFG_MAX_EDGES then Some (Inl ''too many back edges'')
          else back_edge_loop bs es (acc @ [(i, t)]))"

definition edge_list :: "merlin_block list \<Rightarrow> (nat \<times> nat) list" where
  "edge_list bs = concat (map (\<lambda>i. map (Pair i) (succs (bs ! i))) [0..<length bs])"

definition cfg_find_back_edges :: "merlin_block list \<Rightarrow> (string + (nat \<times> nat) list) option" where
  "cfg_find_back_edges bs = back_edge_loop bs (edge_list bs) []"

declare rpo_loop.simps [code] climb.simps [code] cfg_intersect.simps [code] dom_loop.simps [code]
  cfg_dominates.simps [code]

text \<open>The part of \<open>merlin_cfg_build\<close> after the allocation of the leader bitmap.\<close>

definition cfg_build_from :: "u8 list \<Rightarrow> u8 list \<Rightarrow> u32 \<Rightarrow> (string + merlin_cfg) option" where
  "cfg_build_from leader_bm text text_offset =
     (case cfg_find_leaders text leader_bm of
        Inl e \<Rightarrow> Some (Inl e)
      | Inr bm \<Rightarrow>
        (case cfg_build_blocks text text_offset bm of
           Inl e \<Rightarrow> Some (Inl e)
         | Inr bs \<Rightarrow>
           (case cfg_compute_rpo bs of
              None \<Rightarrow> None
            | Some (bs1, order) \<Rightarrow>
              (case cfg_compute_dominators order bs1 of
                 None \<Rightarrow> None
               | Some bs2 \<Rightarrow>
                 (case cfg_find_back_edges bs2 of
                    None \<Rightarrow> None
                  | Some (Inl e) \<Rightarrow> Some (Inl e)
                  | Some (Inr es) \<Rightarrow>
                      Some (Inr \<lparr>blocks = bs2, rpo = order, back_edges = es, reducible = True\<rparr>))))))"

definition merlin_cfg_build :: "u8 list \<Rightarrow> u32 \<Rightarrow> (string + merlin_cfg) option" where
  "merlin_cfg_build text text_offset =
     (if length text mod 4 \<noteq> 0 then Some (Inl ''.text size not a 4-byte multiple'')
      else if length text div 4 > CFG_MAX_INSNS then Some (Inl ''.text exceeds CFG insn cap'')
      else cfg_build_from (replicate (CFG_MAX_INSNS div 8 + 1) 0) text text_offset)"

end
