(* ===== verification/Cfg_Order.thy ===== *)
theory Cfg_Order
  imports Cfg
begin

text \<open>
  The depth-first search of \<open>cfg_compute_rpo\<close> (\<open>kernel/merlin/cfg.c\<close>): it returns on every graph,
  its stack never outgrows the array of \<open>nblocks\<close> entries, and the order it leaves lists exactly the
  blocks reachable from block 0, block 0 first and every other block after one of its predecessors.
\<close>

definition edge :: "merlin_block list \<Rightarrow> nat \<Rightarrow> nat \<Rightarrow> bool" where
  "edge bs u v \<longleftrightarrow> u < length bs \<and> v \<in> set (succs (bs ! u))"

definition succs_in_range :: "merlin_block list \<Rightarrow> bool" where
  "succs_in_range bs \<longleftrightarrow> (\<forall>u v. edge bs u v \<longrightarrow> v < length bs)"

abbreviation reaches :: "merlin_block list \<Rightarrow> nat \<Rightarrow> bool" where
  "reaches bs v \<equiv> (edge bs)\<^sup>*\<^sup>* 0 v"

definition marked :: "merlin_block list \<Rightarrow> (nat \<Rightarrow> nat) \<Rightarrow> merlin_block list" where
  "marked bs state = map (\<lambda>i. (bs ! i)\<lparr>reachable := state i \<noteq> 0\<rparr>) [0..<length bs]"

lemma length_marked [simp]: "length (marked bs state) = length bs"
  by (simp add: marked_def)

lemma nth_marked [simp]: "i < length bs \<Longrightarrow> marked bs state ! i = (bs ! i)\<lparr>reachable := state i \<noteq> 0\<rparr>"
  by (simp add: marked_def)

lemma succs_reachable [simp]: "succs (b\<lparr>reachable := p\<rparr>) = succs b"
  by (simp add: succs_def)

lemma edge_marked [simp]: "edge (marked bs state) = edge bs"
  by (auto simp: edge_def fun_eq_iff)

lemma marked_cong: "(\<And>i. i < length bs \<Longrightarrow> (s i \<noteq> 0) = (t i \<noteq> 0)) \<Longrightarrow> marked bs s = marked bs t"
  by (simp add: marked_def)

lemma mark_reachable_marked:
  assumes "b < length bs"
  shows "mark_reachable (marked bs state) b = marked bs (state(b := 1))"
  using assms by (intro nth_equalityI) (auto simp: mark_reachable_def blk_def nth_list_update)

text \<open>
  The invariant of the search: the stack is a path of distinct grey blocks (its top may still be
  white), the posted blocks are the black ones, black blocks have no white successor, and every
  block met so far has its tree parent on the stack below it or posted after it.
\<close>

definition after :: "nat list \<Rightarrow> nat \<Rightarrow> nat \<Rightarrow> bool" where
  "after xs v p \<longleftrightarrow> (\<exists>as bs. xs = as @ bs \<and> v \<in> set as \<and> p \<in> set bs)"

definition nodes_ok :: "merlin_block list \<Rightarrow> nat list \<Rightarrow> bool" where
  "nodes_ok bs vs \<longleftrightarrow> distinct vs \<and> (\<forall>v \<in> set vs. v < length bs \<and> reaches bs v)"

definition colours_ok :: "nat list \<Rightarrow> (nat \<Rightarrow> nat) \<Rightarrow> nat list \<Rightarrow> bool" where
  "colours_ok stack state post \<longleftrightarrow>
     (\<forall>v \<in> set post. state v = 2) \<and> (\<forall>v \<in> set (tl stack). state v = 1) \<and>
     (\<forall>v. v \<notin> set stack \<and> v \<notin> set post \<longrightarrow> state v = 0) \<and> (stack \<noteq> [] \<longrightarrow> state (hd stack) \<le> 1)"

definition root_ok :: "nat list \<Rightarrow> nat list \<Rightarrow> bool" where
  "root_ok stack post \<longleftrightarrow> (if stack = [] then post \<noteq> [] \<and> last post = 0 else last stack = 0)"

definition search_inv :: "merlin_block list \<Rightarrow> nat list \<Rightarrow> (nat \<Rightarrow> nat) \<Rightarrow> nat list \<Rightarrow> bool" where
  "search_inv bs stack state post \<longleftrightarrow>
     nodes_ok bs (stack @ post) \<and> colours_ok stack state post \<and> root_ok stack post \<and>
     (\<forall>v \<in> set post. \<forall>w. edge bs v w \<longrightarrow> state w \<noteq> 0) \<and>
     successively (\<lambda>v p. edge bs p v) stack \<and>
     (\<forall>v \<in> set post. v \<noteq> 0 \<longrightarrow> (\<exists>p. edge bs p v \<and> (p \<in> set stack \<or> after post v p)))"

lemmas search_parts = nodes_ok_def colours_ok_def root_ok_def

lemma search_grey:
  assumes "search_inv bs (b # rest) state post"
  shows "search_inv bs (b # rest) (state(b := 1)) post"
proof -
  have "colours_ok (b # rest) (state(b := 1)) post"
    using assms unfolding search_inv_def search_parts by auto
  then show ?thesis using assms unfolding search_inv_def by auto
qed

lemma search_push:
  assumes inv: "search_inv bs (b # rest) state post" and b: "state b = 1"
    and n: "edge bs b n" "state n = 0" "succs_in_range bs"
  shows "search_inv bs (n # b # rest) state post"
proof -
  have new: "n \<notin> set (b # rest)" "n \<notin> set post"
    using inv b n(2) unfolding search_inv_def search_parts by auto
  have "reaches bs b" using inv unfolding search_inv_def search_parts by simp
  then have "reaches bs n" "n < length bs"
    using n by (auto simp: succs_in_range_def intro: rtranclp.rtrancl_into_rtrancl)
  then have "nodes_ok bs ((n # b # rest) @ post)"
    using new inv unfolding search_inv_def search_parts by auto
  moreover have "colours_ok (n # b # rest) state post"
    using inv b n(2) unfolding search_inv_def search_parts by auto
  ultimately show ?thesis
    using inv n(1) unfolding search_inv_def root_ok_def by auto
qed

lemma after_snoc: "after post v p \<Longrightarrow> after (post @ [b]) v p"
  unfolding after_def by (metis append.assoc append_is_Nil_conv Un_iff set_append)

lemma after_last: "v \<in> set post \<Longrightarrow> after (post @ [b]) v b"
  unfolding after_def by (intro exI [of _ post] exI [of _ "[b]"]) simp

lemma search_pop_parents:
  assumes inv: "search_inv bs (b # rest) state post" and v: "v \<in> set (post @ [b])" "v \<noteq> 0"
  shows "\<exists>p. edge bs p v \<and> (p \<in> set rest \<or> after (post @ [b]) v p)"
proof (cases "v = b")
  case True
  then have "rest \<noteq> []" using inv v unfolding search_inv_def root_ok_def by auto
  then have "edge bs (hd rest) b"
    using inv unfolding search_inv_def by (cases rest) auto
  then show ?thesis using \<open>rest \<noteq> []\<close> True by (meson list.set_sel(1))
next
  case False
  then have "v \<in> set post" using v by simp
  then obtain p where "edge bs p v" "p = b \<or> p \<in> set rest \<or> after post v p"
    using inv v unfolding search_inv_def by auto
  then show ?thesis using \<open>v \<in> set post\<close> by (auto intro: after_snoc after_last)
qed

lemma search_pop:
  assumes inv: "search_inv bs (b # rest) state post" and b: "state b = 1"
    and n: "\<forall>w. edge bs b w \<longrightarrow> state w \<noteq> 0"
  shows "search_inv bs rest (state(b := 2)) (post @ [b])"
proof -
  have "nodes_ok bs (rest @ post @ [b])"
    using inv unfolding search_inv_def search_parts by auto
  moreover have "colours_ok rest (state(b := 2)) (post @ [b])"
    using inv b unfolding search_inv_def search_parts by (cases rest) auto
  moreover have "root_ok rest (post @ [b])"
    using inv unfolding search_inv_def root_ok_def by (simp split: if_splits)
  moreover have "\<forall>v \<in> set (post @ [b]). \<forall>w. edge bs v w \<longrightarrow> (state(b := 2)) w \<noteq> 0"
    using inv n unfolding search_inv_def by auto
  moreover have "successively (\<lambda>v p. edge bs p v) rest"
    using inv unfolding search_inv_def by (cases rest) auto
  ultimately show ?thesis
    using search_pop_parents [OF inv] unfolding search_inv_def by blast
qed

definition search_left :: "merlin_block list \<Rightarrow> nat list \<Rightarrow> (nat \<Rightarrow> nat) \<Rightarrow> nat" where
  "search_left bs stack state = 2 * card {v. v < length bs \<and> state v \<noteq> 2} - length stack"

lemma stack_bound:
  assumes "search_inv bs stack state post"
  shows "length stack \<le> card {v. v < length bs \<and> state v \<noteq> 2}"
proof -
  have "state v \<noteq> 2" if "v \<in> set stack" for v
    using assms that unfolding search_inv_def search_parts by (cases stack) auto
  then have "set stack \<subseteq> {v. v < length bs \<and> state v \<noteq> 2}"
    using assms unfolding search_inv_def search_parts by auto
  moreover have "length stack = card (set stack)"
    using assms unfolding search_inv_def search_parts by (simp add: distinct_card)
  ultimately show ?thesis by (simp add: card_mono)
qed


lemma search_left_push:
  assumes "search_inv bs (n # stack) state post"
  shows "search_left bs (n # stack) state < search_left bs stack state"
  using stack_bound [OF assms] unfolding search_left_def by simp

lemma search_left_pop:
  assumes "search_inv bs (b # rest) state post"
  shows "search_left bs rest (state(b := 2)) < search_left bs (b # rest) state"
proof -
  let ?V = "{v. v < length bs \<and> state v \<noteq> 2}"
  have "b \<in> ?V" using assms unfolding search_inv_def search_parts by auto
  moreover have "{v. v < length bs \<and> (state(b := 2)) v \<noteq> 2} = ?V - {b}" by auto
  ultimately show ?thesis
    using stack_bound [OF assms] unfolding search_left_def by (simp add: card_Diff_singleton) 
qed

lemma search_left_grey:
  "state b \<noteq> 2 \<Longrightarrow> search_left bs stack (state(b := 1)) = search_left bs stack state"
  unfolding search_left_def by (intro arg_cong2 [where f = minus] arg_cong [where f = "\<lambda>S. 2 * card S"]) auto

lemma next_unvisited_edges:
  assumes "b < length bs"
  shows "next_unvisited (marked bs s) state b = Some n \<Longrightarrow> edge bs b n \<and> state n = 0"
    and "next_unvisited (marked bs s) state b = None \<Longrightarrow> \<forall>w. edge bs b w \<longrightarrow> state w \<noteq> 0"
  using assms by (auto simp: next_unvisited_def blk_def edge_def find_Some_iff find_None_iff)

lemma rpo_loop_returns:
  assumes "search_inv bs stack state post" and "succs_in_range bs"
  shows "\<exists>state' post'. rpo_loop (marked bs state) stack state post = Some (marked bs state', post') \<and>
     search_inv bs [] state' post'"
  using assms
proof (induction "search_left bs stack state" arbitrary: stack state post rule: less_induct)
  case less
  show ?case
  proof (cases stack)
    case Nil
    then show ?thesis using less.prems by (auto simp: rpo_loop.simps)
  next
    case (Cons b rest)
    let ?s = "state(b := 1)"
    have grey: "search_inv bs (b # rest) ?s post"
      using less.prems(1) Cons by (auto intro: search_grey simp del: One_nat_def)
    have b: "b < length bs" "state b \<le> 1"
      using less.prems Cons unfolding search_inv_def search_parts by auto
    then have left: "search_left bs (b # rest) ?s = search_left bs (b # rest) state"
      by (intro search_left_grey) simp
    have unfold: "rpo_loop (marked bs state) stack state post =
        (case next_unvisited (marked bs ?s) ?s b of
           Some n \<Rightarrow> rpo_loop (marked bs ?s) (n # b # rest) ?s post
         | None \<Rightarrow> rpo_loop (marked bs ?s) rest (?s(b := 2)) (post @ [b]))"
    proof (cases "state b = 0")
      case True
      then show ?thesis
        using b Cons by (subst rpo_loop.simps) (simp add: mark_reachable_marked Let_def split: option.split)
    next
      case False
      then have "?s = state" using b by auto
      then show ?thesis using False Cons by (subst rpo_loop.simps) (simp add: Let_def split: option.split)
    qed
    show ?thesis
    proof (cases "next_unvisited (marked bs ?s) ?s b")
      case None
      then have "search_inv bs rest (?s(b := 2)) (post @ [b])"
        using next_unvisited_edges(2) [OF b(1) None] by (intro search_pop [OF grey]) auto
      moreover have "marked bs ?s = marked bs (?s(b := 2))" by (rule marked_cong) auto
      ultimately show ?thesis
        using less.hyps [of rest "?s(b := 2)" "post @ [b]"] search_left_pop [OF grey] left less.prems(2)
        unfolding unfold [unfolded Cons] Cons None by simp
    next
      case (Some n)
      then have push: "search_inv bs (n # b # rest) ?s post"
        using next_unvisited_edges(1) [OF b(1) Some] less.prems(2) by (intro search_push [OF grey]) auto
      then show ?thesis
        using less.hyps [of "n # b # rest" ?s post] search_left_push [OF push] left less.prems(2)
        unfolding unfold [unfolded Cons] Cons Some by simp
    qed
  qed
qed

text \<open>What the order in \<open>cfg->rpo\<close> promises.\<close>

definition rpo_ok :: "merlin_block list \<Rightarrow> nat list \<Rightarrow> bool" where
  "rpo_ok bs order \<longleftrightarrow>
     distinct order \<and> set order = {v. reaches bs v} \<and> order \<noteq> [] \<and> hd order = 0 \<and>
     (\<forall>v \<in> set order. v \<noteq> 0 \<longrightarrow> (\<exists>p. edge bs p v \<and> after order p v))"

lemma after_rev: "after (rev xs) v p \<longleftrightarrow> after xs p v"
  unfolding after_def by (metis rev_append rev_rev_ident set_rev)

lemma search_end:
  assumes "search_inv bs [] state post"
  shows "rpo_ok bs (rev post)" and "marked bs state = map (\<lambda>i. (bs ! i)\<lparr>reachable := reaches bs i\<rparr>) [0..<length bs]"
proof -
  have closed: "w \<in> set post" if "v \<in> set post" "edge bs v w" for v w
    using assms that unfolding search_inv_def search_parts by (metis empty_iff list.set(1))
  have zero: "post \<noteq> []" "last post = 0"
    using assms unfolding search_inv_def search_parts by auto
  have "v \<in> set post" if "reaches bs v" for v
    using that by induction (use zero closed in \<open>metis last_in_set\<close>)+
  then have nodes: "set post = {v. reaches bs v}"
    using assms unfolding search_inv_def search_parts by auto
  then show "rpo_ok bs (rev post)"
    using assms zero unfolding search_inv_def search_parts rpo_ok_def by (auto simp: after_rev hd_rev)
  have "state v \<noteq> 0 \<longleftrightarrow> reaches bs v" for v
    using assms nodes unfolding search_inv_def search_parts by auto
  then show "marked bs state = map (\<lambda>i. (bs ! i)\<lparr>reachable := reaches bs i\<rparr>) [0..<length bs]"
    by (simp add: marked_def)
qed

definition reach_marks :: "merlin_block list \<Rightarrow> merlin_block list" where
  "reach_marks bs = map (\<lambda>i. (bs ! i)\<lparr>reachable := reaches bs i\<rparr>) [0..<length bs]"

lemma cfg_compute_rpo_returns:
  assumes "bs \<noteq> []" and "succs_in_range bs" and "\<forall>b \<in> set bs. \<not> reachable b"
  shows "\<exists>order. cfg_compute_rpo bs = Some (reach_marks bs, order) \<and> rpo_ok bs order"
proof -
  have "marked bs (\<lambda>_. 0) = bs"
    using assms(3) by (intro nth_equalityI) auto
  moreover have "search_inv bs [0] (\<lambda>_. 0) []"
    using assms(1) unfolding search_inv_def search_parts by simp
  ultimately show ?thesis
    using rpo_loop_returns [of bs "[0]" "\<lambda>_. 0" "[]"] assms(2) search_end
    unfolding cfg_compute_rpo_def reach_marks_def by fastforce
qed

end
