(* ===== verification/Cfg_Blocks.thy ===== *)
theory Cfg_Blocks
  imports Cfg_Order
begin

text \<open>
  The blocks built by \<open>cfg_find_leaders\<close> and \<open>cfg_build_blocks\<close> (\<open>kernel/merlin/cfg.c\<close>): which
  instructions are leaders, that the blocks partition the text, that successor indices stay inside
  the table, and that the edges cover the control flow of the text.
\<close>

subsection \<open>Leaders\<close>

definition target_ok :: "u8 list \<Rightarrow> nat \<Rightarrow> bool" where
  "target_ok text off \<longleftrightarrow>
     (case insn_at text off of
        None \<Rightarrow> True
      | Some i \<Rightarrow> cls i = INSN_BRANCH \<or> cls i = INSN_JAL \<longrightarrow>
          0 \<le> branch_target off i \<and> branch_target off i < int (length text))"

definition leader_targets :: "u8 list \<Rightarrow> nat \<Rightarrow> nat list" where
  "leader_targets text off =
     (case insn_at text off of
        None \<Rightarrow> []
      | Some i \<Rightarrow>
          (if cls i = INSN_BRANCH \<or> cls i = INSN_JAL then [nat (branch_target off i) div 4] else []) @
          (if (cls i = INSN_BRANCH \<or> cls i = INSN_JAL \<or> cls i = INSN_JALR) \<and> off + 4 < length text
           then [(off + 4) div 4] else []))"

lemma leader_step_eq:
  "leader_step text bm off =
     (if target_ok text off then Inr (foldl leader_set bm (leader_targets text off))
      else Inl ''branch/JAL target outside .text'')"
  by (auto simp: leader_step_def target_ok_def leader_targets_def Let_def split: option.split)

lemma leader_loop_eq:
  "leader_loop text offs bm =
     (if \<forall>off \<in> set offs. target_ok text off
      then Inr (foldl leader_set bm (concat (map (leader_targets text) offs)))
      else Inl ''branch/JAL target outside .text'')"
  by (induction offs arbitrary: bm) (auto simp: leader_step_eq)

lemma insn_index_bound: "i < length text div 4 \<Longrightarrow> 4 * i < length text"
  by linarith

lemma leader_targets_bound:
  assumes "target_ok text off" and "j \<in> set (leader_targets text off)" and "length text mod 4 = 0"
  shows "j < length text div 4"
proof -
  have bound: "k div 4 < length text div 4" if "k < length text" for k
    using that assms(3) by presburger
  show ?thesis
    using assms(1,2) by (auto simp: target_ok_def leader_targets_def intro!: bound split: option.splits if_splits)
qed

text \<open>The leaders are instruction 0, the targets of direct jumps, and what follows a control transfer.\<close>

definition is_leader :: "u8 list \<Rightarrow> nat \<Rightarrow> bool" where
  "is_leader text j \<longleftrightarrow> j = 0 \<or> (\<exists>i < length text div 4. j \<in> set (leader_targets text (4 * i)))"

lemma cfg_find_leaders_spec:
  assumes "cfg_find_leaders text (replicate m 0) = Inr bm"
    and size: "length text mod 4 = 0" "length text div 4 < 8 * m"
  shows "\<forall>i < length text div 4. target_ok text (4 * i)"
    and "\<And>j. j < length text div 4 \<Longrightarrow> leader_get bm j \<longleftrightarrow> is_leader text j"
proof -
  let ?js = "0 # concat (map (leader_targets text) (map (\<lambda>i. 4 * i) [0..<length text div 4]))"
  have loop: "leader_loop text (map (\<lambda>i. 4 * i) [0..<length text div 4]) (leader_set (replicate m 0) 0) = Inr bm"
    using assms(1) by (simp add: cfg_find_leaders_def)
  then show ok: "\<forall>i < length text div 4. target_ok text (4 * i)"
    by (auto simp: leader_loop_eq split: if_splits)
  have bm: "bm = foldl leader_set (replicate m 0) ?js"
    using loop by (simp add: leader_loop_eq split: if_splits)
  have inside: "j div 8 < length (replicate m (0 :: u8))" if "j < length text div 4 \<or> j = 0" for j
    using that size by auto
  have "\<forall>j \<in> set ?js. j div 8 < length (replicate m (0 :: u8))"
    using ok size leader_targets_bound by (intro ballI inside) fastforce
  moreover have "\<not> leader_get (replicate m 0) j" if "j < length text div 4" for j
    using inside [of j] that by (simp add: leader_bit)
  ultimately show "leader_get bm j \<longleftrightarrow> is_leader text j" if "j < length text div 4" for j
    using that leaders.get_puts [of ?js "replicate m 0" j] inside [of j]
    unfolding bm is_leader_def by auto
qed

text \<open>The size of the bitmap does not matter once it holds every instruction.\<close>

lemma build_loop_cong:
  assumes "\<And>i. i \<in> set is \<Longrightarrow> leader_get bm i = leader_get bm' i"
  shows "build_loop text toff bm is bs = build_loop text toff bm' is bs"
  using assms by (induction "is" arbitrary: bs) (auto simp: Let_def)

lemma cfg_build_from_size:
  assumes "length text mod 4 = 0" and "length text div 4 < 8 * m" and "length text div 4 < 8 * m'"
  shows "cfg_build_from (replicate m 0) text toff = cfg_build_from (replicate m' 0) text toff"
proof (cases "cfg_find_leaders text (replicate m 0)")
  case (Inl e)
  then have "cfg_find_leaders text (replicate m' 0) = Inl e"
    unfolding cfg_find_leaders_def leader_loop_eq by (auto split: if_splits)
  then show ?thesis using Inl by (simp add: cfg_build_from_def)
next
  case (Inr bm)
  then obtain bm' where bm': "cfg_find_leaders text (replicate m' 0) = Inr bm'"
    unfolding cfg_find_leaders_def leader_loop_eq by (auto split: if_splits)
  have "leader_get bm i = leader_get bm' i" if "i < length text div 4" for i
    using cfg_find_leaders_spec(2) [OF Inr assms(1,2) that] cfg_find_leaders_spec(2) [OF bm' assms(1,3) that] by simp
  then have "cfg_build_blocks text toff bm = cfg_build_blocks text toff bm'"
    unfolding cfg_build_blocks_def using build_loop_cong [of "[0..<length text div 4]" bm bm'] by simp
  then show ?thesis using Inr bm' by (simp add: cfg_build_from_def)
qed

lemma merlin_cfg_build_code [code]:
  "merlin_cfg_build text toff =
     (if length text mod 4 \<noteq> 0 then Some (Inl ''.text size not a 4-byte multiple'')
      else if int (length text div 4) > 65536 then Some (Inl ''.text exceeds CFG insn cap'')
      else cfg_build_from (replicate (length text div 32 + 1) 0) text toff)"
proof -
  consider "length text mod 4 \<noteq> 0" | "CFG_MAX_INSNS < length text div 4"
    | "length text mod 4 = 0" "length text div 4 \<le> CFG_MAX_INSNS" by linarith
  then show ?thesis
  proof cases
    case 3
    have "length text div 4 < 8 * (CFG_MAX_INSNS div 8 + 1)" using 3(2) by simp
    moreover have "length text div 4 < 8 * (length text div 32 + 1)" by simp
    ultimately have "cfg_build_from (replicate (CFG_MAX_INSNS div 8 + 1) 0) text toff =
        cfg_build_from (replicate (length text div 32 + 1) 0) text toff"
      by (rule cfg_build_from_size [OF 3(1)])
    moreover have "\<not> CFG_MAX_INSNS < length text div 4" "\<not> 65536 < int (length text div 4)" using 3(2) by simp_all
    ultimately show ?thesis using 3(1) unfolding merlin_cfg_build_def by (simp only: if_False simp_thms)
  next
    case 2
    then have "65536 < int (length text div 4)" by linarith
    then show ?thesis using 2 unfolding merlin_cfg_build_def by (simp only: if_True)
  qed (simp add: merlin_cfg_build_def)
qed

subsection \<open>Blocks as segments of the text\<close>

fun segs :: "u8 list \<Rightarrow> nat \<Rightarrow> (nat \<times> nat) list" where
  "segs bm 0 = []"
| "segs bm (Suc k) =
     (if leader_get bm k then segs bm k @ [(k, Suc k)]
      else butlast (segs bm k) @ [(fst (last (segs bm k)), Suc k)])"

definition block_from :: "u8 list \<Rightarrow> u32 \<Rightarrow> nat \<times> nat \<Rightarrow> merlin_block" where
  "block_from text text_offset ab =
     foldl (\<lambda>b i. block_extend text text_offset (4 * i) b)
       (new_block (text_offset + of_nat (4 * fst ab))) [fst ab..<snd ab]"

lemma segs_Suc_ne [simp]: "segs bm (Suc k) \<noteq> []"
  by simp

lemma snd_last_segs: "k > 0 \<Longrightarrow> snd (last (segs bm k)) = k"
  by (cases k) auto

lemma segs_ne: "k > 0 \<Longrightarrow> segs bm k \<noteq> []"
  by (cases k) auto

lemma segs_snoc:
  assumes "k > 0"
  obtains L a where "segs bm k = L @ [(a, k)]"
proof
  show "segs bm k = butlast (segs bm k) @ [(fst (last (segs bm k)), k)]"
    using snd_last_segs [OF assms, of bm] segs_ne [OF assms, of bm]
    by (metis append_butlast_last_id prod.collapse)
qed

definition seg_ok :: "u8 list \<Rightarrow> nat \<Rightarrow> nat \<times> nat \<Rightarrow> bool" where
  "seg_ok bm k ab \<longleftrightarrow> fst ab < snd ab \<and> snd ab \<le> k \<and> leader_get bm (fst ab) \<and>
     (\<forall>i. fst ab < i \<and> i < snd ab \<longrightarrow> \<not> leader_get bm i)"

lemma segs_ok:
  assumes "leader_get bm 0"
  shows "(\<forall>ab \<in> set (segs bm k). seg_ok bm k ab) \<and> successively (\<lambda>p q. snd p = fst q) (segs bm k)"
proof (induction k)
  case (Suc k)
  show ?case
  proof (cases "leader_get bm k")
    case True
    then have "segs bm (Suc k) = segs bm k @ [(k, Suc k)]" by simp
    moreover have "segs bm k = [] \<or> snd (last (segs bm k)) = k"
      using snd_last_segs [of k bm] by (cases "k = 0") auto
    ultimately show ?thesis
      using Suc True by (auto simp: seg_ok_def successively_append_iff simp del: segs.simps(2))
  next
    case False
    then have "k > 0" using assms by (cases k) auto
    then obtain L a where "segs bm k = L @ [(a, k)]" using segs_snoc by blast
    then show ?thesis
      using Suc False by (auto simp: seg_ok_def successively_append_iff less_Suc_eq)
  qed
qed simp

lemma segs_sorted:
  assumes "leader_get bm 0"
  shows "sorted_wrt (<) (map fst (segs bm k))"
proof -
  have "successively (\<lambda>p q. fst p < fst q) (segs bm k)"
    using segs_ok [OF assms, of k] unfolding seg_ok_def successively_conv_nth
    by (metis Suc_lessD nth_mem)
  then show ?thesis by (simp add: sorted_wrt_map successively_conv_sorted_wrt transp_on_def)
qed

lemma length_segs_Suc: "k > 0 \<Longrightarrow> length (segs bm (Suc k)) = length (segs bm k) + of_bool (leader_get bm k)"
  using segs_ne [of k bm] by simp

lemma length_segs_mono:
  assumes "j \<le> k" and "j > 0"
  shows "length (segs bm j) \<le> length (segs bm k)"
  using assms(1)
proof (induction rule: dec_induct)
  case (step m)
  then show ?case using length_segs_Suc [of m bm] assms(2) by (simp del: segs.simps(2))
qed simp

lemma block_from_Suc: "a \<le> k \<Longrightarrow> block_from text toff (a, Suc k) = block_extend text toff (4 * k) (block_from text toff (a, k))"
  by (simp add: block_from_def)

lemma build_step:
  assumes "leader_get bm 0"
  shows "build_loop text toff bm (k # ks) (map (block_from text toff) (segs bm k)) =
    (if length (segs bm (Suc k)) > MERLIN_CFG_MAX_BLOCKS \<and> leader_get bm k then Inl ''CFG exceeds MAX_BLOCKS''
     else build_loop text toff bm ks (map (block_from text toff) (segs bm (Suc k))))"
proof (cases "leader_get bm k")
  case True
  then show ?thesis
    by (simp add: Let_def block_from_Suc) (simp add: block_from_def nth_append list_update_append)
next
  case False
  then have "k > 0" using assms by (cases k) auto
  then obtain L a where L: "segs bm k = L @ [(a, k)]" using segs_snoc by blast
  then have "a < k" using segs_ok [OF assms, of k] by (auto simp: seg_ok_def)
  then show ?thesis
    using L False by (simp add: Let_def block_from_Suc list_update_append)
qed

lemma build_loop_segs:
  assumes "leader_get bm 0" and "k \<le> n" and "length (segs bm k) \<le> MERLIN_CFG_MAX_BLOCKS"
  shows "build_loop text toff bm [k..<n] (map (block_from text toff) (segs bm k)) =
    (if length (segs bm n) > MERLIN_CFG_MAX_BLOCKS then Inl ''CFG exceeds MAX_BLOCKS''
     else Inr (map (block_from text toff) (segs bm n)))"
  using assms(2,3)
proof (induction "n - k" arbitrary: k)
  case 0
  then show ?case by simp
next
  case (Suc d)
  have unf: "[k..<n] = k # [Suc k..<n]" using Suc by (simp add: upt_conv_Cons)
  have mono: "length (segs bm (Suc k)) \<le> length (segs bm n)"
    using Suc by (intro length_segs_mono) auto
  have "length (segs bm (Suc k)) \<le> MERLIN_CFG_MAX_BLOCKS" if "\<not> leader_get bm k"
    using that Suc length_segs_Suc [of k bm] assms(1) by (cases "k = 0") auto
  then show ?case
    using Suc mono unfolding unf build_step [OF assms(1)] by (auto simp del: segs.simps(2))
qed

subsection \<open>The fields of a block\<close>

lemma block_terminator_fields [simp]:
  "start_pc (block_terminator text toff off b) = start_pc b"
  "end_pc (block_terminator text toff off b) = end_pc b"
  "insn_count (block_terminator text toff off b) = insn_count b"
  "succ0 (block_terminator text toff off b) = succ0 b"
  "succ1 (block_terminator text toff off b) = succ1 b"
  "reachable (block_terminator text toff off b) = reachable b"
  "idom (block_terminator text toff off b) = idom b"
  by (simp_all add: block_terminator_def Let_def split: option.split)

definition is_control :: "u8 list \<Rightarrow> nat \<Rightarrow> bool" where
  "is_control text off \<longleftrightarrow>
     (case insn_at text off of None \<Rightarrow> False
      | Some i \<Rightarrow> cls i = INSN_BRANCH \<or> cls i = INSN_JAL \<or> cls i = INSN_JALR)"

lemma block_terminator_plain: "\<not> is_control text off \<Longrightarrow> block_terminator text toff off b = b"
  by (cases "insn_at text off") (auto simp: block_terminator_def is_control_def)

definition plain_block :: "u32 \<Rightarrow> nat \<Rightarrow> nat \<Rightarrow> merlin_block" where
  "plain_block toff a b = (new_block (toff + of_nat (4 * a)))\<lparr>end_pc := toff + of_nat (4 * (b - 1)), insn_count := b - a\<rparr>"

lemma block_from_eq:
  assumes "a < b" and "\<And>i. a \<le> i \<Longrightarrow> Suc i < b \<Longrightarrow> \<not> is_control text (4 * i)"
  shows "block_from text toff (a, b) = block_terminator text toff (4 * (b - 1)) (plain_block toff a b)"
  using assms
proof (induction b)
  case (Suc b)
  show ?case
  proof (cases "a = b")
    case True
    then show ?thesis by (simp add: block_from_def block_extend_def plain_block_def new_block_def)
  next
    case False
    moreover have "\<not> is_control text (4 * (b - 1))" using Suc False by (intro Suc.prems(2)) auto
    ultimately have "block_from text toff (a, b) = plain_block toff a b"
      using Suc by (simp add: block_terminator_plain)
    then show ?thesis
      using Suc False by (simp add: block_from_Suc block_extend_def plain_block_def Suc_diff_le)
  qed
qed simp

lemma control_leader:
  assumes "is_control text (4 * i)" and "Suc i < length text div 4"
  shows "is_leader text (Suc i)"
proof -
  have "4 * i + 4 < length text" using assms(2) by linarith
  then have "Suc i \<in> set (leader_targets text (4 * i))"
    using assms(1) by (auto simp: is_control_def leader_targets_def split: option.splits)
  then show ?thesis using assms(2) by (auto simp: is_leader_def intro!: exI [of _ i])
qed

lemma segs_starts:
  assumes "leader_get bm 0"
  shows "fst ` set (segs bm k) = {j. j < k \<and> leader_get bm j}"
proof (induction k)
  case (Suc k)
  show ?case
  proof (cases "leader_get bm k")
    case True
    then have "fst ` set (segs bm (Suc k)) = insert k (fst ` set (segs bm k))" by simp
    then show ?thesis using Suc True by (auto simp: less_Suc_eq)
  next
    case False
    then have "k > 0" using assms by (cases k) auto
    then obtain L a where "segs bm k = L @ [(a, k)]" using segs_snoc by blast
    then have "fst ` set (segs bm (Suc k)) = fst ` set (segs bm k)" using False by simp
    then show ?thesis using Suc False by (auto simp: less_Suc_eq)
  qed
qed simp

lemma segs_next:
  assumes "leader_get bm 0" and "i < length (segs bm k)" and "snd (segs bm k ! i) < k"
  shows "Suc i < length (segs bm k) \<and> fst (segs bm k ! Suc i) = snd (segs bm k ! i)"
proof -
  have "k > 0" using assms(3) by simp
  then have "Suc i \<noteq> length (segs bm k)"
    using assms(3) snd_last_segs [of k bm] by (metis diff_Suc_1 last_conv_nth less_irrefl list.size(3) nat.distinct(1))
  then have "Suc i < length (segs bm k)" using assms(2) by simp
  then show ?thesis using segs_ok [OF assms(1), of k] by (auto simp: successively_conv_nth)
qed

subsection \<open>Wiring\<close>

lemma block_at_Some: "merlin_cfg_block_at bs p = Some j \<Longrightarrow> j < length bs \<and> start_pc (bs ! j) = p"
  by (auto simp: merlin_cfg_block_at_def find_Some_iff)

lemma block_at_ex: "i < length bs \<Longrightarrow> \<exists>j. merlin_cfg_block_at bs (start_pc (bs ! i)) = Some j"
  by (cases "merlin_cfg_block_at bs (start_pc (bs ! i))") (auto simp: merlin_cfg_block_at_def find_None_iff)

lemma wire_block_fields [simp]:
  "start_pc (wire_block text toff bs i) = start_pc (bs ! i)"
  "end_pc (wire_block text toff bs i) = end_pc (bs ! i)"
  "insn_count (wire_block text toff bs i) = insn_count (bs ! i)"
  "reachable (wire_block text toff bs i) = reachable (bs ! i)"
  "is_return (wire_block text toff bs i) = is_return (bs ! i)"
  by (simp_all add: wire_block_def Let_def)

lemma wire_block_succs:
  assumes "i < length bs" and "succ0 (bs ! i) = None" and "succ1 (bs ! i) = None"
    and "v \<in> set (succs (wire_block text toff bs i))"
  shows "v < length bs"
  using assms
  by (auto simp: wire_block_def succs_def Let_def dest: block_at_Some block_at_Some [OF sym] split: if_splits option.splits)

text \<open>The table that \<open>cfg_find_leaders\<close> and \<open>cfg_build_blocks\<close> leave.\<close>

definition table_ok :: "u8 list \<Rightarrow> u32 \<Rightarrow> (nat \<times> nat) list \<Rightarrow> merlin_block list \<Rightarrow> bool" where
  "table_ok text toff S bs \<longleftrightarrow>
     (let raw = map (\<lambda>(a, b). block_terminator text toff (4 * (b - 1)) (plain_block toff a b)) S
      in bs = map (wire_block text toff raw) [0..<length raw])"

definition segs_cover :: "u8 list \<Rightarrow> (nat \<times> nat) list \<Rightarrow> bool" where
  "segs_cover text S \<longleftrightarrow>
     S \<noteq> [] \<and> length S \<le> MERLIN_CFG_MAX_BLOCKS \<and> sorted_wrt (<) (map fst S) \<and>
     fst ` set S = {j. j < length text div 4 \<and> is_leader text j} \<and>
     (\<forall>(a, b) \<in> set S. a < b \<and> b \<le> length text div 4 \<and> (\<forall>i. a < i \<and> i < b \<longrightarrow> \<not> is_leader text i)) \<and>
     (\<forall>i < length S. snd (S ! i) < length text div 4 \<longrightarrow> Suc i < length S \<and> fst (S ! Suc i) = snd (S ! i))"

lemma segs_cover_nth:
  assumes "segs_cover text S" and "i < length S"
  shows "fst (S ! i) < snd (S ! i) \<and> snd (S ! i) \<le> length text div 4"
  using assms nth_mem [OF assms(2)] unfolding segs_cover_def by (metis (no_types, lifting) case_prodE prod.sel)

lemma segs_cover_interior:
  assumes "segs_cover text S" and "(a, b) \<in> set S" and "a \<le> i" and "Suc i < b"
  shows "\<not> is_control text (4 * i)"
proof
  assume "is_control text (4 * i)"
  then have "is_leader text (Suc i)"
    using assms unfolding segs_cover_def by (intro control_leader) auto
  moreover have "a < Suc i" using assms(3) by simp
  ultimately show False using assms unfolding segs_cover_def by blast
qed

lemma cfg_blocks_table:
  assumes "cfg_find_leaders text (replicate m 0) = Inr bm" and "cfg_build_blocks text toff bm = Inr bs"
    and size: "length text mod 4 = 0" "length text div 4 < 8 * m" "text \<noteq> []"
  shows "\<exists>S. segs_cover text S \<and> table_ok text toff S bs"
proof (intro exI conjI)
  let ?n = "length text div 4"
  let ?S = "segs bm ?n"
  have n: "?n > 0" using size by (cases "text") auto
  have leader: "leader_get bm j \<longleftrightarrow> is_leader text j" if "j < ?n" for j
    using cfg_find_leaders_spec(2) [OF assms(1) size(1,2)] that .
  then have l0: "leader_get bm 0" using n by (simp add: is_leader_def)
  have build: "bs = map (wire_block text toff (map (block_from text toff) ?S)) [0..<length ?S]"
    and max: "length ?S \<le> MERLIN_CFG_MAX_BLOCKS"
    using assms(2) build_loop_segs [OF l0, of 0 ?n "text" toff]
    by (auto simp: cfg_build_blocks_def split: if_splits)
  show cover: "segs_cover text ?S"
    using segs_ok [OF l0, of ?n] segs_starts [OF l0, of ?n] segs_sorted [OF l0, of ?n] segs_next [OF l0, of _ ?n] n max leader segs_ne [OF n]
    unfolding segs_cover_def seg_ok_def by fastforce
  have "block_from text toff (a, b) = block_terminator text toff (4 * (b - 1)) (plain_block toff a b)"
    if "(a, b) \<in> set ?S" for a b
    using that cover segs_cover_interior [OF cover that] unfolding segs_cover_def
    by (intro block_from_eq) auto
  then have "map (block_from text toff) ?S =
      map (\<lambda>(a, b). block_terminator text toff (4 * (b - 1)) (plain_block toff a b)) ?S" by auto
  then show "table_ok text toff ?S bs"
    unfolding table_ok_def Let_def by (simp only: build length_map)
qed

subsection \<open>What the table promises\<close>

lemma plain_block_fields [simp]:
  "start_pc (plain_block toff a b) = toff + of_nat (4 * a)"
  "end_pc (plain_block toff a b) = toff + of_nat (4 * (b - 1))"
  "insn_count (plain_block toff a b) = b - a"
  "succ0 (plain_block toff a b) = None" "succ1 (plain_block toff a b) = None"
  "succ_pc0 (plain_block toff a b) = 0" "succ_pc1 (plain_block toff a b) = 0"
  "\<not> is_return (plain_block toff a b)" "\<not> reachable (plain_block toff a b)"
  by (simp_all add: plain_block_def new_block_def)

lemma table_length: "table_ok text toff S bs \<Longrightarrow> length bs = length S"
  by (simp add: table_ok_def Let_def)

lemma table_fields:
  assumes "table_ok text toff S bs" and "i < length S"
  shows "start_pc (bs ! i) = toff + of_nat (4 * fst (S ! i))"
    and "end_pc (bs ! i) = toff + of_nat (4 * (snd (S ! i) - 1))"
    and "insn_count (bs ! i) = snd (S ! i) - fst (S ! i)"
    and "\<not> reachable (bs ! i)"
  using assms by (simp_all add: table_ok_def Let_def split_beta del: of_nat_mult)

lemma table_succs: "table_ok text toff S bs \<Longrightarrow> succs_in_range bs"
  unfolding succs_in_range_def edge_def table_ok_def Let_def
  by (auto dest!: wire_block_succs [rotated 3] simp: split_beta)

lemma table_not_reachable: "table_ok text toff S bs \<Longrightarrow> \<forall>b \<in> set bs. \<not> reachable b"
  by (metis in_set_conv_nth table_fields(4) table_length)

subsection \<open>The edges cover the control flow\<close>

text \<open>
  The offsets control can pass to after the instruction at \<open>off\<close>; a \<open>JALR\<close> leaves the program, and
  a linking \<open>JAL\<close> also continues behind itself.
\<close>

definition flow :: "u8 list \<Rightarrow> nat \<Rightarrow> nat \<Rightarrow> bool" where
  "flow text off off' \<longleftrightarrow>
     (case insn_at text off of
        None \<Rightarrow> off' = off + 4
      | Some i \<Rightarrow>
          if cls i = INSN_BRANCH then off' = off + 4 \<or> int off' = branch_target off i
          else if cls i = INSN_JAL then int off' = branch_target off i \<or> (rd i \<noteq> 0 \<and> off' = off + 4)
          else if cls i = INSN_JALR then False
          else off' = off + 4)"

lemma flow_plain: "\<not> is_control text off \<Longrightarrow> flow text off off' \<longleftrightarrow> off' = off + 4"
  by (auto simp: flow_def is_control_def split: option.splits)

lemma flow_leader:
  assumes "is_control text (4 * k)" and "flow text (4 * k) off'" and "off' < length text"
    and "k < length text div 4"
  shows "is_leader text (off' div 4)"
proof -
  have "off' div 4 \<in> set (leader_targets text (4 * k))"
    using assms by (auto simp: is_control_def flow_def leader_targets_def split: option.splits if_splits)
  then show ?thesis using assms(4) by (auto simp: is_leader_def)
qed

lemma of_nat_pc_eq:
  fixes toff :: u32
  assumes "toff + of_nat x = toff + of_nat y" and "x < 2 ^ 32" and "y < 2 ^ 32"
  shows "x = y"
proof -
  have "(of_nat x :: u32) = of_nat y" using assms(1) by simp
  then show ?thesis using assms(2,3) by (simp add: word_of_nat_eq_iff take_bit_eq_mod)
qed

lemma wire_control_edge:
  fixes "text" :: "u8 list" and toff :: u32 and raw :: "merlin_block list"
  defines "bs \<equiv> map (wire_block text toff raw) [0..<length raw]"
  assumes "i < length raw" and "\<not> is_return (raw ! i)" and "is_control text (unat (end_pc (raw ! i) - toff))"
    and "succ_pc0 (raw ! i) = p \<or> succ_pc1 (raw ! i) = p" and "p \<noteq> 0"
    and "k < length raw" and "start_pc (raw ! k) = p"
  shows "\<exists>j. edge bs i j \<and> start_pc (bs ! j) = p"
proof -
  obtain j where j: "merlin_cfg_block_at raw p = Some j" using block_at_ex assms(7,8) by blast
  then have "j < length raw" "start_pc (raw ! j) = p" using block_at_Some by auto
  moreover have "succ0 (bs ! i) = Some j \<or> succ1 (bs ! i) = Some j"
    using assms(2-6) j unfolding bs_def
    by (auto simp: wire_block_def is_control_def Let_def split: option.splits)
  ultimately show ?thesis
    using assms(2) unfolding bs_def by (auto simp: edge_def succs_def split: option.splits)
qed

lemma wire_plain_succ:
  fixes raw :: "merlin_block list"
  assumes "\<not> is_return (raw ! i)" and "\<not> is_control text (unat (end_pc (raw ! i) - toff))" and "Suc i < length raw"
  shows "succ0 (wire_block text toff raw i) = Some (Suc i)"
  using assms unfolding wire_block_def is_control_def Let_def by simp

lemma terminator_succ_pc:
  assumes "is_control text off" and "flow text off off'" and "off' < length text"
  shows "succ_pc0 (block_terminator text toff off b) = toff + of_nat off' \<or>
      succ_pc1 (block_terminator text toff off b) = toff + of_nat off'"
    and "is_return (block_terminator text toff off b) = is_return b"
  using assms
  by (auto simp: is_control_def flow_def block_terminator_def Let_def split: option.splits if_splits)
    (metis of_int_of_nat_eq)+

lemma flow_covered:
  assumes cover: "segs_cover text S" and table: "table_ok text toff S bs" and "length text < 2 ^ 32"
    and mult: "length text mod 4 = 0"
    and i: "i < length S" "fst (S ! i) \<le> k" "k < snd (S ! i)"
    and flow: "flow text (4 * k) off'" "off' < length text" "off' mod 4 = 0" "toff + of_nat off' \<noteq> 0"
  shows "off' = 4 * k + 4 \<and> Suc k < snd (S ! i) \<or> (\<exists>j < length S. edge bs i j \<and> 4 * fst (S ! j) = off')"
proof (cases "Suc k < snd (S ! i)")
  case True
  then have "\<not> is_control text (4 * k)"
    using segs_cover_interior [OF cover _ i(2) True] i(1) by (metis nth_mem prod.collapse)
  then show ?thesis using True flow by (simp add: flow_plain)
next
  case False
  let ?raw = "map (\<lambda>(a, b). block_terminator text toff (4 * (b - 1)) (plain_block toff a b)) S"
  have bs: "bs = map (wire_block text toff ?raw) [0..<length ?raw]"
    using table by (simp add: table_ok_def Let_def)
  have b: "snd (S ! i) = Suc k" "Suc k \<le> length text div 4"
    using segs_cover_nth [OF cover i(1)] i False by auto
  then have raw: "?raw ! i = block_terminator text toff (4 * k) (plain_block toff (fst (S ! i)) (Suc k))"
    using i(1) by (simp add: split_beta)
  have "4 * k < 2 ^ LENGTH(32)" using b(2) assms(3) by simp
  then have "unat (of_nat (4 * k) :: u32) = 4 * k" by (rule unat_of_nat_small)
  then have end_pc: "unat (end_pc (?raw ! i) - toff) = 4 * k"
    unfolding raw by (simp del: of_nat_mult)
  show ?thesis
  proof (cases "is_control text (4 * k)")
    case True
    then have "is_leader text (off' div 4)" using flow_leader flow b by simp
    moreover have "off' div 4 < length text div 4" using flow(2,3) mult by presburger
    ultimately have "off' div 4 \<in> fst ` set S" using cover unfolding segs_cover_def by simp
    then obtain l where l: "l < length S" "fst (S ! l) = off' div 4"
      by (metis imageE in_set_conv_nth)
    then have "4 * fst (S ! l) = off'" using flow(3) by presburger
    then have "start_pc (?raw ! l) = toff + of_nat off'" using l by (simp add: split_beta del: of_nat_mult)
    then obtain j where j: "edge bs i j" "start_pc (bs ! j) = toff + of_nat off'"
      unfolding bs using wire_control_edge [of i ?raw "text" toff "toff + of_nat off'" l]
        terminator_succ_pc [OF True flow(1,2), of toff "plain_block toff (fst (S ! i)) (Suc k)"] True flow i(1) l(1)
      unfolding raw [symmetric] end_pc by auto
    have "j < length S" using j(1) table_succs [OF table] table_length [OF table] by (auto simp: succs_in_range_def)
    moreover have "fst (S ! j) < length text div 4"
      using segs_cover_nth [OF cover \<open>j < length S\<close>] by simp
    ultimately have "4 * fst (S ! j) = off'"
      using j(2) flow(2) assms(3) table_fields(1) [OF table]
      by (intro of_nat_pc_eq [of toff]) (auto simp del: of_nat_mult)
    then show ?thesis using j \<open>j < length S\<close> by blast
  next
    case False
    then have off': "off' = 4 * Suc k" using flow by (simp add: flow_plain)
    then have "Suc k < length text div 4" using flow(2) mult by presburger
    then have "Suc i < length S \<and> fst (S ! Suc i) = Suc k"
      using cover b i(1) unfolding segs_cover_def by metis
    moreover have "succ0 (bs ! i) = Some (Suc i)"
      using wire_plain_succ [of ?raw i "text" toff] False calculation end_pc i(1) block_terminator_plain [OF False] raw
      unfolding bs by simp
    ultimately show ?thesis
      using off' i(1) table_length [OF table] by (intro disjI2 exI [of _ "Suc i"]) (auto simp: edge_def succs_def)
  qed
qed

end
