(* ===== verification/Cfg_Dominators.thy ===== *)
theory Cfg_Dominators
  imports Cfg_Blocks
begin

text \<open>
  The dominator iteration of \<open>cfg_compute_dominators\<close> (\<open>kernel/merlin/cfg.c\<close>): the intersection walk
  finds the nearest common ancestor, every sweep moves the dominator tree towards the entry block, so
  the outer loop ends, and at the end every ancestor in the tree lies on every path to the block.
\<close>

subsection \<open>Dominator trees over a numbering\<close>

text \<open>
  The setting: reachable blocks \<open>R\<close> numbered by their position in the reverse postorder, with their
  predecessors \<open>P\<close>. A tree is a partial map \<open>d\<close> from blocks to their immediate dominators.
\<close>

definition ordered :: "nat set \<Rightarrow> (nat \<Rightarrow> nat) \<Rightarrow> (nat \<Rightarrow> nat set) \<Rightarrow> bool" where
  "ordered R num P \<longleftrightarrow>
     finite R \<and> inj_on num R \<and> 0 \<in> R \<and> num 0 = 0 \<and> (\<forall>v \<in> R. v \<noteq> 0 \<longrightarrow> (\<exists>p \<in> P v \<inter> R. num p < num v))"

abbreviation anc :: "(nat \<Rightarrow> nat option) \<Rightarrow> nat \<Rightarrow> nat \<Rightarrow> bool" where
  "anc d \<equiv> (\<lambda>a b. d a = Some b)\<^sup>*\<^sup>*"

definition idoms_ok :: "nat set \<Rightarrow> (nat \<Rightarrow> nat) \<Rightarrow> (nat \<Rightarrow> nat option) \<Rightarrow> bool" where
  "idoms_ok R num d \<longleftrightarrow>
     d 0 = Some 0 \<and>
     (\<forall>v u. d v = Some u \<longrightarrow> v \<in> R \<and> u \<in> R \<and> d u \<noteq> None \<and> (v \<noteq> 0 \<longrightarrow> num u < num v))"

definition chain :: "(nat \<Rightarrow> nat option) \<Rightarrow> nat \<Rightarrow> nat set" where
  "chain d v = (if d v = None then UNIV else {x. anc d v x})"

lemma chain_iff: "x \<in> chain d v \<longleftrightarrow> (d v \<noteq> None \<longrightarrow> anc d v x)"
  by (simp add: chain_def)

lemma anc_num:
  assumes "idoms_ok R num d" and "anc d v x" and "d v \<noteq> None"
  shows "num x \<le> num v \<and> d x \<noteq> None \<and> (num x = num v \<longrightarrow> x = v)"
  using assms(2,3)
proof (induction rule: converse_rtranclp_induct)
  case (step v u)
  then have u: "d u \<noteq> None" "v \<noteq> 0 \<longrightarrow> num u < num v" and "v = 0 \<longrightarrow> u = 0"
    using assms(1) by (auto simp: idoms_ok_def)
  then show ?case using step by fastforce
qed simp

lemma anc_linear:
  assumes "anc d v x" and "anc d v y"
  shows "anc d x y \<or> anc d y x"
  using assms
proof (induction rule: converse_rtranclp_induct)
  case (step v u)
  then show ?case by (cases "v = y") (auto elim: converse_rtranclpE intro: converse_rtranclp_into_rtranclp)
qed simp

lemma anc_above:
  assumes "idoms_ok R num d" and "d v \<noteq> None" and "anc d v x" and "anc d v y" and "num x \<le> num y"
  shows "anc d y x"
  using anc_linear [OF assms(3,4)] anc_num [OF assms(1), of x y] anc_num [OF assms(1,3,2)] assms(5)
  by (metis le_antisym rtranclp.rtrancl_refl)

lemma anc_root:
  assumes "idoms_ok R num d" and "d v \<noteq> None"
  shows "anc d v 0"
  using assms(2)
proof (induction "num v" arbitrary: v rule: less_induct)
  case less
  then obtain u where u: "d v = Some u" by blast
  show ?case
  proof (cases "v = 0")
    case False
    then have "num u < num v" "d u \<noteq> None" using assms(1) u by (auto simp: idoms_ok_def)
    then show ?thesis using less.hyps u by (blast intro: converse_rtranclp_into_rtranclp)
  qed simp
qed

lemma anc_zero: "anc d 0 b \<Longrightarrow> d 0 = Some 0 \<Longrightarrow> b = 0"
  by (induction rule: rtranclp_induct) auto

lemma anc_stepE:
  assumes "anc d v b" and "b \<noteq> v"
  obtains u where "d v = Some u" and "anc d u b"
  using assms by (auto elim: converse_rtranclpE)

lemma chain_step:
  assumes "idoms_ok R num d" and "d v = Some u"
  shows "chain d v = insert v (chain d u)"
proof -
  have "d u \<noteq> None" using assms by (auto simp: idoms_ok_def)
  then show ?thesis
    using assms(2) by (auto simp: chain_def elim: converse_rtranclpE intro: converse_rtranclp_into_rtranclp)
qed

subsection \<open>The intersection walk\<close>

text \<open>The immediate dominators stored in the block table.\<close>

definition idoms :: "merlin_block list \<Rightarrow> nat \<Rightarrow> nat option" where
  "idoms bs v = (if v < length bs then idom (bs ! v) else None)"

definition table_idoms_ok :: "nat set \<Rightarrow> (nat \<Rightarrow> nat) \<Rightarrow> merlin_block list \<Rightarrow> bool" where
  "table_idoms_ok R num bs \<longleftrightarrow>
     inj_on num R \<and> num 0 = 0 \<and> R \<subseteq> {..<length bs} \<and> idoms_ok R num (idoms bs)"

lemma climb_returns:
  assumes "table_idoms_ok R num bs" and "idoms bs a \<noteq> None"
  shows "\<exists>c. climb num bs a b = Some c \<and> anc (idoms bs) a c \<and> num c \<le> num b \<and>
    (\<forall>x. anc (idoms bs) a x \<and> num x \<le> num b \<longrightarrow> anc (idoms bs) c x)"
  using assms(2)
proof (induction "num a" arbitrary: a rule: less_induct)
  case less
  show ?case
  proof (cases "num b < num a")
    case True
    obtain u where u: "idoms bs a = Some u" using less.prems by blast
    moreover have "a \<noteq> 0" using True assms(1) by (metis table_idoms_ok_def not_less0)
    ultimately have "num u < num a" "idoms bs u \<noteq> None"
      using assms(1) by (auto simp: table_idoms_ok_def idoms_ok_def)
    then obtain c where "climb num bs u b = Some c" "anc (idoms bs) u c" "num c \<le> num b"
        "\<forall>x. anc (idoms bs) u x \<and> num x \<le> num b \<longrightarrow> anc (idoms bs) c x"
      using less.hyps by blast
    moreover have "idom (blk bs a) = Some u" using u by (auto simp: idoms_def blk_def split: if_splits)
    ultimately show ?thesis
      using u True by (auto simp: climb.simps [of num bs a] intro: converse_rtranclp_into_rtranclp elim: converse_rtranclpE)
  qed (simp add: climb.simps)
qed

lemma cfg_intersect_returns:
  assumes ok: "table_idoms_ok R num bs" and "idoms bs a \<noteq> None" and "idoms bs b \<noteq> None"
  shows "\<exists>c. cfg_intersect num bs a b = Some c \<and> idoms bs c \<noteq> None \<and>
    (\<forall>x. anc (idoms bs) c x \<longleftrightarrow> anc (idoms bs) a x \<and> anc (idoms bs) b x)"
  using assms(2,3)
proof (induction "num a + num b" arbitrary: a b rule: less_induct)
  case less
  have d: "idoms_ok R num (idoms bs)" and inj: "inj_on num R" using ok by (auto simp: table_idoms_ok_def)
  show ?case
  proof (cases "a = b")
    case False
    have "a \<in> R" "b \<in> R" using less.prems d by (auto simp: idoms_ok_def)
    then have ne: "num a \<noteq> num b" using False inj by (auto dest: inj_onD)
    obtain p where p: "climb num bs a b = Some p" "anc (idoms bs) a p" "num p \<le> num b"
        "\<forall>x. anc (idoms bs) a x \<and> num x \<le> num b \<longrightarrow> anc (idoms bs) p x"
      using climb_returns [OF ok less.prems(1)] by blast
    obtain q where q: "climb num bs b p = Some q" "anc (idoms bs) b q" "num q \<le> num p"
        "\<forall>x. anc (idoms bs) b x \<and> num x \<le> num p \<longrightarrow> anc (idoms bs) q x"
      using climb_returns [OF ok less.prems(2)] by blast
    have def: "idoms bs p \<noteq> None" "idoms bs q \<noteq> None" "num p \<le> num a" "num q \<le> num b"
      using anc_num [OF d p(2) less.prems(1)] anc_num [OF d q(2) less.prems(2)] by auto
    have "num p + num q < num a + num b" using ne p(3) q(3) def(3,4) by linarith
    then obtain c where c: "cfg_intersect num bs p q = Some c" "idoms bs c \<noteq> None"
        "\<forall>x. anc (idoms bs) c x \<longleftrightarrow> anc (idoms bs) p x \<and> anc (idoms bs) q x"
      using less.hyps def(1,2) by blast
    have "anc (idoms bs) p x \<and> anc (idoms bs) q x \<longleftrightarrow> anc (idoms bs) a x \<and> anc (idoms bs) b x" for x
      using p q anc_num [OF d _ less.prems(2), of x] anc_num [OF d _ def(1), of x] by (meson rtranclp_trans)
    then show ?thesis
      using c p(1) q(1) False by (subst cfg_intersect.simps) simp
  qed (use less.prems in \<open>simp add: cfg_intersect.simps\<close>)
qed

subsection \<open>One sweep\<close>

lemma set_pred_edges: "set (pred_edges bs b) = {j. edge bs j b}"
  by (auto simp: pred_edges_def edge_def)

lemma new_idom_loop_returns:
  assumes ok: "table_idoms_ok R num bs" and "\<forall>j \<in> set js. j < length bs"
    and "\<forall>a. acc = Some a \<longrightarrow> idoms bs a \<noteq> None"
    and "acc \<noteq> None \<or> (\<exists>j \<in> set js. idoms bs j \<noteq> None)"
  shows "\<exists>c. new_idom_loop num bs js acc = Some (Some c) \<and> idoms bs c \<noteq> None \<and>
    (\<forall>x. anc (idoms bs) c x \<longleftrightarrow> (\<forall>j \<in> set js. idoms bs j \<noteq> None \<longrightarrow> anc (idoms bs) j x) \<and>
       (\<forall>a. acc = Some a \<longrightarrow> anc (idoms bs) a x))"
  using assms(2-4)
proof (induction js arbitrary: acc)
  case (Cons j js)
  have j: "idom (blk bs j) = idoms bs j" using Cons.prems(1) by (simp add: idoms_def blk_def)
  show ?case
  proof (cases "idoms bs j")
    case None
    then show ?thesis using Cons.IH [of acc] Cons.prems j by simp
  next
    case (Some u)
    show ?thesis
    proof (cases acc)
      case None
      then show ?thesis using Cons.IH [of "Some j"] Cons.prems j Some by auto
    next
      case (Some a)
      then obtain c where "cfg_intersect num bs j a = Some c" "idoms bs c \<noteq> None"
          "\<forall>x. anc (idoms bs) c x \<longleftrightarrow> anc (idoms bs) j x \<and> anc (idoms bs) a x"
        using cfg_intersect_returns [OF ok, of j a] Cons.prems \<open>idoms bs j = Some u\<close> by auto
      then show ?thesis using Cons.IH [of "Some c"] Cons.prems j Some \<open>idoms bs j = Some u\<close> by auto
    qed
  qed
qed auto

lemma new_idom_returns:
  assumes ok: "table_idoms_ok R num bs" and p: "edge bs p b" "idoms bs p \<noteq> None" "num p < num b"
  shows "\<exists>c. new_idom_loop num bs (pred_edges bs b) None = Some (Some c) \<and> idoms bs c \<noteq> None \<and>
    num c < num b \<and> chain (idoms bs) c = (\<Inter>j \<in> {j. edge bs j b}. chain (idoms bs) j)"
proof -
  obtain c where c: "new_idom_loop num bs (pred_edges bs b) None = Some (Some c)" "idoms bs c \<noteq> None"
      "\<forall>x. anc (idoms bs) c x \<longleftrightarrow> (\<forall>j \<in> {j. edge bs j b}. idoms bs j \<noteq> None \<longrightarrow> anc (idoms bs) j x)"
    using new_idom_loop_returns [OF ok, of "pred_edges bs b" None] p unfolding set_pred_edges
    by (auto simp: edge_def)
  then have "anc (idoms bs) p c" using p by blast
  then have "num c < num b"
    using anc_num [of R num "idoms bs" p c] ok p by (auto simp: table_idoms_ok_def)
  moreover have "chain (idoms bs) c = (\<Inter>j \<in> {j. edge bs j b}. chain (idoms bs) j)"
    using c by (simp add: set_eq_iff chain_iff)
  ultimately show ?thesis using c by blast
qed

definition strip :: "merlin_block list \<Rightarrow> merlin_block list" where
  "strip bs = map (\<lambda>b. b\<lparr>idom := None\<rparr>) bs"

lemma strip_length: "strip bs = strip bs' \<Longrightarrow> length bs = length bs'"
  unfolding strip_def by (metis length_map)

lemma succs_idom [simp]: "succs (b\<lparr>idom := u\<rparr>) = succs b"
  by (simp add: succs_def)

lemma strip_succs: "strip bs = strip bs' \<Longrightarrow> i < length bs \<Longrightarrow> succs (bs ! i) = succs (bs' ! i)"
  unfolding strip_def by (metis length_map nth_map succs_idom)

lemma strip_edge: "strip bs = strip bs' \<Longrightarrow> edge bs = edge bs'"
  unfolding edge_def fun_eq_iff using strip_length strip_succs by metis

lemma set_idom:
  assumes "b < length bs"
  shows "idoms (bs[b := (blk bs b)\<lparr>idom := u\<rparr>]) = (idoms bs)(b := u)"
    and "strip (bs[b := (blk bs b)\<lparr>idom := u\<rparr>]) = strip bs"
  using assms by (auto simp: idoms_def blk_def strip_def fun_eq_iff map_update list_update_same_conv)

definition hyb :: "(nat \<Rightarrow> nat) \<Rightarrow> nat \<Rightarrow> (nat \<Rightarrow> nat option) \<Rightarrow> (nat \<Rightarrow> nat option) \<Rightarrow> nat \<Rightarrow> nat option" where
  "hyb num i d' d = (\<lambda>v. if num v < i then d' v else d v)"

definition swept_at :: "(nat \<Rightarrow> nat) \<Rightarrow> (nat \<Rightarrow> nat set) \<Rightarrow> (nat \<Rightarrow> nat option) \<Rightarrow> (nat \<Rightarrow> nat option) \<Rightarrow> nat \<Rightarrow> bool" where
  "swept_at num P d d' v \<longleftrightarrow>
     (\<exists>c. d' v = Some c \<and> num c < num v \<and>
       chain (hyb num (num v) d' d) c = (\<Inter>p \<in> P v. chain (hyb num (num v) d' d) p))"

definition numbered :: "nat list \<Rightarrow> (nat \<Rightarrow> nat) \<Rightarrow> bool" where
  "numbered order num \<longleftrightarrow> order \<noteq> [] \<and> order ! 0 = 0 \<and> (\<forall>i < length order. num (order ! i) = i)"

definition parented :: "merlin_block list \<Rightarrow> nat list \<Rightarrow> (nat \<Rightarrow> nat) \<Rightarrow> bool" where
  "parented bs order num \<longleftrightarrow>
     (\<forall>v \<in> set order. v \<noteq> 0 \<longrightarrow> (\<exists>p \<in> set order. edge bs p v \<and> num p < num v))"

lemma table_idoms_undefined: "table_idoms_ok R num bs \<Longrightarrow> v \<notin> R \<Longrightarrow> idoms bs v = None"
  by (cases "idoms bs v") (auto simp: table_idoms_ok_def idoms_ok_def)

lemma table_idoms_update:
  assumes ok: "table_idoms_ok R num bs" and b: "b \<in> R" "b \<noteq> 0"
    and c: "idoms bs c \<noteq> None" "num c < num b"
  shows "table_idoms_ok R num (bs[b := (blk bs b)\<lparr>idom := Some c\<rparr>])"
proof -
  have "b < length bs" using ok b by (auto simp: table_idoms_ok_def)
  then show ?thesis
    using assms set_idom(1) [of b bs "Some c"] by (auto simp: table_idoms_ok_def idoms_ok_def)
qed

lemma hyb_same: "(\<And>v. num v < i \<Longrightarrow> d' v = d v) \<Longrightarrow> hyb num i d' d = d"
  by (auto simp: hyb_def)

lemma dom_sweep_returns:
  fixes order num
  defines "R \<equiv> set order"
  assumes num: "numbered order num" and par: "parented bs order num"
    and ok: "table_idoms_ok R num bs" and i: "0 < i" "i \<le> length order"
    and def: "\<forall>v \<in> R. num v < i \<longrightarrow> idoms bs v \<noteq> None"
  shows "\<exists>bs'. dom_sweep num (drop i order) bs ch = Some (bs', ch \<or> idoms bs' \<noteq> idoms bs) \<and>
    table_idoms_ok R num bs' \<and> strip bs' = strip bs \<and>
    (\<forall>v. num v < i \<longrightarrow> idoms bs' v = idoms bs v) \<and>
    (\<forall>v \<in> R. i \<le> num v \<longrightarrow> swept_at num (\<lambda>v. {j. edge bs j v}) (idoms bs) (idoms bs') v)"
  using par ok i def
proof (induction "length order - i" arbitrary: i bs ch)
  case 0
  moreover have "num v < length order" if "v \<in> R" for v
    using that num unfolding R_def numbered_def by (metis in_set_conv_nth)
  ultimately show ?case by fastforce
next
  case (Suc n)
  let ?b = "order ! i"
  have i: "i < length order" "num ?b = i" using Suc.hyps(2) num by (auto simp: numbered_def)
  have "num 0 = 0" using num unfolding numbered_def by (metis length_greater_0_conv)
  then have b: "?b \<in> R" "?b \<noteq> 0"
    using i Suc.prems(3) unfolding R_def by (simp, metis less_irrefl)
  obtain p where p: "edge bs p ?b" "p \<in> R" "num p < num ?b"
    using Suc.prems(1) b unfolding parented_def R_def by blast
  then have "idoms bs p \<noteq> None" using Suc.prems(5) i by simp
  then obtain c where c: "new_idom_loop num bs (pred_edges bs ?b) None = Some (Some c)" "idoms bs c \<noteq> None"
      "num c < i" "chain (idoms bs) c = (\<Inter>j \<in> {j. edge bs j ?b}. chain (idoms bs) j)"
    using new_idom_returns [OF Suc.prems(2) p(1)] p(3) i by auto
  define bs1 where "bs1 = (if idoms bs ?b = Some c then bs else bs[?b := (blk bs ?b)\<lparr>idom := Some c\<rparr>])"
  have len: "?b < length bs" using b Suc.prems(2) by (auto simp: table_idoms_ok_def)
  have d1: "idoms bs1 = (idoms bs)(?b := Some c)"
    using set_idom(1) [OF len] unfolding bs1_def by auto
  have strip: "strip bs1 = strip bs" using set_idom(2) [OF len] unfolding bs1_def by auto
  have ok1: "table_idoms_ok R num bs1"
    using table_idoms_update [OF Suc.prems(2) b c(2)] c(3) i Suc.prems(2) unfolding bs1_def by auto
  have sweep: "dom_sweep num (drop i order) bs ch =
      dom_sweep num (drop (Suc i) order) bs1 (ch \<or> idoms bs ?b \<noteq> Some c)"
    using c(1) len i(1) unfolding bs1_def Cons_nth_drop_Suc [OF i(1), symmetric]
    by (auto simp: idoms_def blk_def)
  have def1: "\<forall>v \<in> R. num v < Suc i \<longrightarrow> idoms bs1 v \<noteq> None"
    using Suc.prems(5) num unfolding d1 numbered_def R_def by (metis fun_upd_apply in_set_conv_nth less_Suc_eq option.distinct(1))
  have n: "n = length order - Suc i" using Suc.hyps(2) by simp
  have par1: "parented bs1 order num"
    using Suc.prems(1) by (simp add: parented_def strip_edge [OF strip])
  obtain bs' where bs': "dom_sweep num (drop (Suc i) order) bs1 (ch \<or> idoms bs ?b \<noteq> Some c) =
        Some (bs', (ch \<or> idoms bs ?b \<noteq> Some c) \<or> idoms bs' \<noteq> idoms bs1)"
      "table_idoms_ok R num bs'" "strip bs' = strip bs1" "\<forall>v. num v < Suc i \<longrightarrow> idoms bs' v = idoms bs1 v"
      "\<forall>v \<in> R. Suc i \<le> num v \<longrightarrow> swept_at num (\<lambda>v. {j. edge bs1 j v}) (idoms bs1) (idoms bs') v"
    using Suc.hyps(1) [OF n par1 ok1 _ _ def1, of "ch \<or> idoms bs ?b \<noteq> Some c"] i(1) by auto
  have same: "idoms bs' v = idoms bs v" if "num v < i" for v
    using that bs'(4) i(2) unfolding d1 by auto
  have new: "idoms bs' ?b = Some c" using bs'(4) i(2) unfolding d1 by simp
  have "swept_at num (\<lambda>v. {j. edge bs j v}) (idoms bs) (idoms bs') v" if v: "v \<in> R" "i \<le> num v" for v
  proof (cases "num v = i")
    case True
    then have "v = ?b" using v num unfolding R_def numbered_def by (metis in_set_conv_nth)
    then show ?thesis
      using c new i(2) hyb_same [of num i "idoms bs'" "idoms bs"] same by (auto simp: swept_at_def)
  next
    case False
    then have "hyb num (num v) (idoms bs') (idoms bs1) = hyb num (num v) (idoms bs') (idoms bs)"
      using v(2) i(2) d1 by (auto simp: hyb_def)
    then show ?thesis
      using bs'(5) v False by (auto simp: swept_at_def strip_edge [OF strip])
  qed
  moreover have "(ch \<or> idoms bs ?b \<noteq> Some c) \<or> idoms bs' \<noteq> idoms bs1 \<longleftrightarrow> ch \<or> idoms bs' \<noteq> idoms bs"
    using new d1 by (metis fun_upd_triv)
  ultimately show ?case
    using bs' same strip unfolding sweep by auto
qed

subsection \<open>Sweeps only shorten the chains\<close>

definition settled :: "nat set \<Rightarrow> (nat \<Rightarrow> nat) \<Rightarrow> (nat \<Rightarrow> nat set) \<Rightarrow> (nat \<Rightarrow> nat option) \<Rightarrow> bool" where
  "settled R num P d \<longleftrightarrow>
     idoms_ok R num d \<and> (\<forall>v \<in> R. d v \<noteq> None) \<and>
     (\<forall>v u. d v = Some u \<and> v \<noteq> 0 \<longrightarrow> (\<forall>q \<in> P v \<inter> R. num q < num v \<longrightarrow> anc d q u))"

definition start :: "nat \<Rightarrow> nat option" where
  "start = [0 \<mapsto> 0]"

definition sweep :: "nat set \<Rightarrow> (nat \<Rightarrow> nat) \<Rightarrow> (nat \<Rightarrow> nat set) \<Rightarrow> (nat \<Rightarrow> nat option) \<Rightarrow> (nat \<Rightarrow> nat option) \<Rightarrow> bool" where
  "sweep R num P d d' \<longleftrightarrow>
     idoms_ok R num d \<and> idoms_ok R num d' \<and> (\<forall>v \<in> R. v \<noteq> 0 \<longrightarrow> swept_at num P d d' v)"

definition shrinks :: "(nat \<Rightarrow> nat option) \<Rightarrow> (nat \<Rightarrow> nat option) \<Rightarrow> bool" where
  "shrinks d d' \<longleftrightarrow> (\<forall>v. chain d' v \<subseteq> chain d v)"

lemma sweep_total: "sweep R num P d d' \<Longrightarrow> v \<in> R \<Longrightarrow> d' v \<noteq> None"
  by (cases "v = 0") (auto simp: sweep_def swept_at_def idoms_ok_def)

lemma hyb_anc_low:
  assumes "idoms_ok R num d'" and "num v < i" and "d' v \<noteq> None"
  shows "anc (hyb num i d' d) v x \<longleftrightarrow> anc d' v x"
proof
  assume "anc (hyb num i d' d) v x"
  then show "anc d' v x" using assms(2,3)
  proof (induction rule: converse_rtranclp_induct)
    case (step v u)
    then have "d' v = Some u" "num u < i" "d' u \<noteq> None"
      using assms(1) by (auto simp: hyb_def idoms_ok_def) (metis gr0I less_trans option.inject)
    then show ?case using step by (blast intro: converse_rtranclp_into_rtranclp)
  qed simp
next
  assume "anc d' v x"
  then show "anc (hyb num i d' d) v x" using assms(2,3)
  proof (induction rule: converse_rtranclp_induct)
    case (step v u)
    then have "hyb num i d' d v = Some u" "num u < i" "d' u \<noteq> None"
      using assms(1) by (auto simp: hyb_def idoms_ok_def) (metis gr0I less_trans option.inject)
    then show ?case using step by (blast intro: converse_rtranclp_into_rtranclp)
  qed simp
qed

lemma hyb_chain_low:
  assumes "idoms_ok R num d'" and "num v < i" and "d' v \<noteq> None"
  shows "chain (hyb num i d' d) v = chain d' v"
  using hyb_anc_low [OF assms, of d] assms(2,3) by (auto simp: chain_iff hyb_def set_eq_iff)

lemma hyb_ok:
  assumes "idoms_ok R num d" and "idoms_ok R num d'" and "\<forall>v \<in> R. d' v \<noteq> None"
  shows "idoms_ok R num (hyb num i d' d)"
proof -
  have "v \<in> R \<and> u \<in> R \<and> hyb num i d' d u \<noteq> None \<and> (v \<noteq> 0 \<longrightarrow> num u < num v)"
    if h: "hyb num i d' d v = Some u" for v u
  proof (cases "num v < i")
    case True
    then have v: "d' v = Some u" using h by (simp add: hyb_def)
    then have "num u < i" using assms(2) True unfolding idoms_ok_def by (metis less_trans option.inject)
    then show ?thesis using v assms(2) by (auto simp: idoms_ok_def hyb_def)
  next
    case False
    then have v: "d v = Some u" using h by (simp add: hyb_def)
    then show ?thesis using assms by (auto simp: idoms_ok_def hyb_def)
  qed
  then show ?thesis using assms(1,2) by (auto simp: idoms_ok_def hyb_def)
qed

lemma sweep_settled:
  assumes "sweep R num P d d'"
  shows "settled R num P d'"
proof -
  have "anc d' q u" if v: "d' v = Some u" "v \<noteq> 0" and q: "q \<in> P v" "q \<in> R" "num q < num v" for v u q
  proof -
    have ok: "idoms_ok R num d'" using assms by (simp add: sweep_def)
    let ?h = "hyb num (num v) d' d"
    have "v \<in> R" using ok v by (auto simp: idoms_ok_def)
    then have c: "chain ?h u = (\<Inter>p \<in> P v. chain ?h p)" "num u < num v"
      using assms v by (auto simp: sweep_def swept_at_def)
    moreover have def: "d' q \<noteq> None" using sweep_total [OF assms q(2)] .
    moreover have "u \<in> chain ?h u" by (simp add: chain_iff)
    ultimately have "u \<in> chain ?h q" using q by blast
    then show ?thesis using hyb_chain_low [OF ok q(3) def, of d] def by (simp add: chain_iff)
  qed
  then show ?thesis
    using assms sweep_total [OF assms] by (auto simp: settled_def sweep_def)
qed

lemma settled_anc:
  assumes G: "ordered R num P" and d: "settled R num P d" and d': "settled R num P d'"
    and "v \<in> R" "anc d v b" "anc d' v x" "num x \<le> num b"
  shows "anc d' b x"
  using assms(4-7)
proof (induction "num v" arbitrary: v rule: less_induct)
  case less
  show ?case
  proof (cases "b = v")
    case False
    have ok: "idoms_ok R num d" "idoms_ok R num d'" using d d' by (auto simp: settled_def)
    have def: "d v \<noteq> None" "d' v \<noteq> None" using less.prems(1) d d' by (auto simp: settled_def)
    obtain u where u: "d v = Some u" "anc d u b"
      using less.prems(2) False by (blast elim: anc_stepE)
    then have "v \<noteq> 0" using False ok(1) less.prems(2) anc_zero [of d b] by (metis idoms_ok_def)
    then obtain q where q: "q \<in> P v" "q \<in> R" "num q < num v"
      using G less.prems(1) unfolding ordered_def by blast
    have "anc d q b" using d u q \<open>v \<noteq> 0\<close> unfolding settled_def by (meson IntI rtranclp_trans)
    moreover have "num b < num v"
      using anc_num [OF ok(1) less.prems(2) def(1)] False by (metis le_neq_implies_less)
    then have "x \<noteq> v" using less.prems(4) by auto
    then obtain u' where "d' v = Some u'" "anc d' u' x" using less.prems(3) by (blast elim: anc_stepE)
    then have "anc d' q x" using d' q \<open>v \<noteq> 0\<close> unfolding settled_def by (meson IntI rtranclp_trans)
    ultimately show ?thesis using less.hyps [OF q(3,2)] less.prems(4) by blast
  qed (use less.prems in simp)
qed


text \<open>A tree a sweep starts from: the initial one, or the result of the sweep before.\<close>

definition before :: "nat set \<Rightarrow> (nat \<Rightarrow> nat) \<Rightarrow> (nat \<Rightarrow> nat set) \<Rightarrow> (nat \<Rightarrow> nat option) \<Rightarrow> bool" where
  "before R num P d \<longleftrightarrow> d = start \<or> settled R num P d"

lemma new_chain_in_hyb:
  assumes G: "ordered R num P" and d: "before R num P d" and d': "settled R num P d'"
    and M: "shrinks d d'" and "p \<in> R" and "0 < i"
  shows "chain d' p \<subseteq> chain (hyb num i d' d) p"
  using assms(5)
proof (induction "num p" arbitrary: p rule: less_induct)
  case less
  have ok': "idoms_ok R num d'" and def': "d' p \<noteq> None" using d' less.prems by (auto simp: settled_def)
  show ?case
  proof (cases "num p < i")
    case True
    then show ?thesis using hyb_chain_low [OF ok' True def', of d] by simp
  next
    case high: False
    show ?thesis
    proof (cases "d p")
      case None
      then show ?thesis using high by (simp add: chain_def hyb_def)
    next
      case (Some u)
      have "p \<noteq> 0" using high assms(6) G by (metis ordered_def)
      then have set: "settled R num P d" using d Some by (auto simp: before_def start_def split: if_splits)
      then have ok: "idoms_ok R num d" by (simp add: settled_def)
      have u: "u \<in> R" "num u < num p" using ok Some \<open>p \<noteq> 0\<close> by (auto simp: idoms_ok_def)
      have hok: "idoms_ok R num (hyb num i d' d)"
        using ok ok' d' by (intro hyb_ok) (auto simp: settled_def)
      have step: "chain (hyb num i d' d) p = insert p (chain (hyb num i d' d) u)"
        using chain_step [OF hok] Some high by (simp add: hyb_def)
      have "x \<in> chain (hyb num i d' d) p" if x: "x \<in> chain d' p" for x
      proof (cases "x = p")
        case False
        have x': "anc d' p x" using x def' by (simp add: chain_iff)
        have "x \<in> chain d p" using x M by (auto simp: shrinks_def)
        then have "x \<in> chain d u" using chain_step [OF ok Some] False by simp
        then have "num x \<le> num u"
          using anc_num [OF ok, of u x] u(1) set by (auto simp: chain_iff settled_def)
        moreover have "anc d p u" using Some by auto
        ultimately have "anc d' u x" using settled_anc [OF G set d' less.prems _ x'] by blast
        then have "x \<in> chain d' u" using u(1) d' by (auto simp: chain_iff settled_def)
        then show ?thesis using less.hyps [OF u(2,1)] step by blast
      qed (simp add: step)
      then show ?thesis by blast
    qed
  qed
qed

lemma hyb_mono:
  assumes G: "ordered R num P" and d: "before R num P d" and sw: "sweep R num P d d'" "sweep R num P d' d''"
    and M: "shrinks d d'" and low: "\<And>q. q \<in> R \<Longrightarrow> num q < i \<Longrightarrow> chain d'' q \<subseteq> chain d' q" and "0 < i"
  shows "chain (hyb num i d'' d') p \<subseteq> chain (hyb num i d' d) p"
proof (cases "p \<in> R")
  case True
  then show ?thesis
  proof (induction "num p" arbitrary: p rule: less_induct)
    case less
    have ok: "idoms_ok R num d" "idoms_ok R num d'" "idoms_ok R num d''"
      using sw by (auto simp: sweep_def)
    have def: "d' p \<noteq> None" "d'' p \<noteq> None" using sw less.prems sweep_total by blast+
    show ?case
    proof (cases "num p < i")
      case True
      then show ?thesis
        using hyb_chain_low [OF ok(2) True def(1)] hyb_chain_low [OF ok(3) True def(2)] low less.prems by simp
    next
      case high: False
      obtain u where u: "d' p = Some u" using def by blast
      have "p \<noteq> 0" using high \<open>0 < i\<close> G by (metis ordered_def)
      then have u': "u \<in> R" "num u < num p" using ok(2) u by (auto simp: idoms_ok_def)
      have hok: "idoms_ok R num (hyb num i d'' d')"
        using ok sw sweep_total by (intro hyb_ok) blast+
      have hok': "idoms_ok R num (hyb num i d' d)"
        using ok sw sweep_total by (intro hyb_ok) blast+
      have step: "chain (hyb num i d'' d') p = insert p (chain (hyb num i d'' d') u)"
        using chain_step [OF hok] u high by (simp add: hyb_def)
      have "u \<in> chain d' p" using u by (auto simp: chain_iff)
      then have "u \<in> chain (hyb num i d' d) p"
        using new_chain_in_hyb [OF G d sweep_settled [OF sw(1)] M less.prems \<open>0 < i\<close>] by blast
      then have "chain (hyb num i d' d) u \<subseteq> chain (hyb num i d' d) p"
        using anc_num [OF hok', of p u] by (auto simp: chain_iff)
      then show ?thesis using less.hyps [OF u'(2,1)] step by (auto simp: chain_iff)
    qed
  qed
next
  case False
  then have "d p = None" "d' p = None"
    using sw(1) unfolding sweep_def idoms_ok_def by (metis not_None_eq)+
  then show ?thesis by (simp add: chain_def hyb_def)
qed


lemma sweep_shrinks:
  assumes G: "ordered R num P" and d: "before R num P d" and sw: "sweep R num P d d'" "sweep R num P d' d''"
    and M: "shrinks d d'"
  shows "shrinks d' d''"
proof -
  have ok: "idoms_ok R num d'" "idoms_ok R num d''" using sw by (auto simp: sweep_def)
  have "chain d'' v \<subseteq> chain d' v" if "v \<in> R" for v
    using that
  proof (induction "num v" arbitrary: v rule: less_induct)
    case less
    show ?case
    proof (cases "v = 0")
      case True
      then show ?thesis using ok by (auto simp: chain_iff idoms_ok_def dest: anc_zero)
    next
      case False
      let ?h = "hyb num (num v) d' d" and ?h' = "hyb num (num v) d'' d'"
      obtain c where c: "d' v = Some c" "num c < num v" "chain ?h c = (\<Inter>p \<in> P v. chain ?h p)"
        using sw(1) less.prems False by (auto simp: sweep_def swept_at_def)
      obtain c' where c': "d'' v = Some c'" "num c' < num v" "chain ?h' c' = (\<Inter>p \<in> P v. chain ?h' p)"
        using sw(2) less.prems False by (auto simp: sweep_def swept_at_def)
      have R: "c \<in> R" "c' \<in> R" using ok c(1) c'(1) by (auto simp: idoms_ok_def)
      have "chain ?h' p \<subseteq> chain ?h p" for p
        using less.hyps c(2) by (intro hyb_mono [OF G d sw M]) auto
      then have "chain ?h' c' \<subseteq> chain ?h c" unfolding c(3) c'(3) by blast
      moreover have "c' \<in> chain ?h' c'" by (simp add: chain_iff)
      ultimately have "c' \<in> chain d' c"
        using hyb_chain_low [OF ok(1) c(2) sweep_total [OF sw(1) R(1)]] by auto
      moreover have "d' c' \<noteq> None" "d' c \<noteq> None" using sweep_total [OF sw(1)] R by auto
      ultimately have "chain d' c' \<subseteq> chain d' c" by (auto simp: chain_iff)
      then show ?thesis
        using less.hyps [OF c'(2) R(2)] chain_step [OF ok(1) c(1)] chain_step [OF ok(2) c'(1)] by blast
    qed
  qed
  moreover have "chain d' v = UNIV" if "v \<notin> R" for v
    using that ok(1) unfolding idoms_ok_def chain_def by (metis not_None_eq)
  ultimately show ?thesis unfolding shrinks_def by blast
qed

lemma start_shrinks:
  assumes "idoms_ok R num d'" 
  shows "shrinks start d'"
  using assms unfolding shrinks_def
  by (auto simp: chain_iff start_def idoms_ok_def dest: anc_zero)

definition tree_weight :: "nat set \<Rightarrow> (nat \<Rightarrow> nat) \<Rightarrow> (nat \<Rightarrow> nat option) \<Rightarrow> nat" where
  "tree_weight R num d = (\<Sum>v \<in> R. num (the (d v)))"

lemma sweep_weight:
  assumes G: "ordered R num P" and ok: "idoms_ok R num d" "idoms_ok R num d'"
    and def: "\<forall>v \<in> R. d v \<noteq> None" "\<forall>v \<in> R. d' v \<noteq> None"
    and M: "shrinks d d'" and "d' \<noteq> d"
  shows "tree_weight R num d' < tree_weight R num d"
proof -
  have le: "num (the (d' v)) \<le> num (the (d v)) \<and> (d' v \<noteq> d v \<longrightarrow> num (the (d' v)) < num (the (d v)))"
    if v: "v \<in> R" for v
  proof (cases "v = 0")
    case False
    obtain u u' where u: "d v = Some u" "d' v = Some u'" using def v by blast
    then have "u' \<in> chain d' v" by (auto simp: chain_iff)
    then have "u' \<in> chain d v" using M by (auto simp: shrinks_def)
    moreover have "u' \<noteq> v" using u(2) ok(2) False by (auto simp: idoms_ok_def)
    ultimately have "u' \<in> chain d u" using chain_step [OF ok(1) u(1)] by simp
    moreover have "d u \<noteq> None" using ok(1) u(1) by (auto simp: idoms_ok_def)
    ultimately have "num u' \<le> num u \<and> (num u' = num u \<longrightarrow> u' = u)"
      using anc_num [OF ok(1), of u u'] by (simp add: chain_iff)
    then show ?thesis using u by auto
  qed (use ok in \<open>auto simp: idoms_ok_def\<close>)
  moreover obtain v where "d' v \<noteq> d v" using assms(7) by blast
  moreover have "v \<in> R" using calculation(2) ok unfolding idoms_ok_def by (metis not_None_eq)
  moreover have "finite R" using G by (simp add: ordered_def)
  ultimately show ?thesis unfolding tree_weight_def by (intro sum_strict_mono_ex1) auto
qed

subsection \<open>The tree is the dominator tree\<close>

text \<open>\<open>x\<close> dominates \<open>v\<close>: no path from the entry block to \<open>v\<close> avoids \<open>x\<close>.\<close>

abbreviation avoiding :: "(nat \<Rightarrow> nat set) \<Rightarrow> nat \<Rightarrow> nat \<Rightarrow> nat \<Rightarrow> bool" where
  "avoiding P x \<equiv> (\<lambda>u w. u \<in> P w \<and> w \<noteq> x)\<^sup>*\<^sup>*"

definition dom_by :: "(nat \<Rightarrow> nat set) \<Rightarrow> nat \<Rightarrow> nat \<Rightarrow> bool" where
  "dom_by P x v \<longleftrightarrow> x = 0 \<or> \<not> avoiding P x 0 v"

definition complete :: "nat set \<Rightarrow> (nat \<Rightarrow> nat set) \<Rightarrow> (nat \<Rightarrow> nat option) \<Rightarrow> bool" where
  "complete R P d \<longleftrightarrow> (\<forall>v \<in> R. \<forall>x. dom_by P x v \<longrightarrow> x \<in> chain d v)"

lemma dom_by_pred:
  assumes "dom_by P x v" and "x \<noteq> v" and "p \<in> P v"
  shows "dom_by P x p"
  using assms unfolding dom_by_def by (auto intro: rtranclp.rtrancl_into_rtrancl)

lemma complete_start: "complete R P start"
  unfolding complete_def dom_by_def by (auto simp: chain_iff start_def split: if_splits)

lemma sound_fixpoint:
  assumes sw: "sweep R num P d d" and closed: "\<And>u w. u \<in> R \<Longrightarrow> u \<in> P w \<Longrightarrow> w \<in> R" and "0 \<in> R"
    and "v \<in> R" and "x \<in> chain d v"
  shows "dom_by P x v"
proof (rule ccontr)
  assume "\<not> dom_by P x v"
  then have "x \<noteq> 0" "avoiding P x 0 v" by (auto simp: dom_by_def)
  from this(2) have "v \<in> R \<and> x \<notin> chain d v"
  proof (induction rule: rtranclp_induct)
    case base
    then show ?case
      using sw \<open>x \<noteq> 0\<close> \<open>0 \<in> R\<close> by (auto simp: chain_iff sweep_def idoms_ok_def dest: anc_zero)
  next
    case (step u w)
    then have w: "w \<in> R" using closed by blast
    show ?case
    proof (cases "w = 0")
      case False
      then obtain c where "d w = Some c" "chain d c = (\<Inter>p \<in> P w. chain d p)"
        using sw w by (auto simp: sweep_def swept_at_def hyb_same)
      then show ?thesis
        using sw step w chain_step [of R num d w c] by (auto simp: sweep_def)
    qed (use sw \<open>x \<noteq> 0\<close> \<open>0 \<in> R\<close> in \<open>auto simp: chain_iff sweep_def idoms_ok_def dest: anc_zero\<close>)
  qed
  then show False using assms(5) by blast
qed

text \<open>Any tree of forward edges, such as the search tree, carries the dominators on its branches.\<close>

definition branch_tree :: "nat set \<Rightarrow> (nat \<Rightarrow> nat) \<Rightarrow> (nat \<Rightarrow> nat set) \<Rightarrow> (nat \<Rightarrow> nat option) \<Rightarrow> bool" where
  "branch_tree R num P t \<longleftrightarrow>
     idoms_ok R num t \<and> (\<forall>v \<in> R. t v \<noteq> None) \<and> (\<forall>v u. t v = Some u \<and> v \<noteq> 0 \<longrightarrow> u \<in> P v)"

lemma branch_tree_ex:
  assumes "ordered R num P"
  shows "\<exists>t. branch_tree R num P t"
proof -
  have "\<forall>v. \<exists>p. v \<in> R \<and> v \<noteq> 0 \<longrightarrow> p \<in> P v \<and> p \<in> R \<and> num p < num v"
    using assms unfolding ordered_def by blast
  then obtain f where f: "\<And>v. v \<in> R \<Longrightarrow> v \<noteq> 0 \<Longrightarrow> f v \<in> P v \<and> f v \<in> R \<and> num (f v) < num v" by metis
  let ?t = "\<lambda>v. if v = 0 then Some 0 else if v \<in> R then Some (f v) else None"
  have "branch_tree R num P ?t"
    using f assms by (auto simp: branch_tree_def idoms_ok_def ordered_def)
  then show ?thesis by blast
qed

lemma avoiding_branch:
  assumes t: "branch_tree R num P t" and "v \<in> R" and "anc t v u" and "avoiding P x 0 u" and "num x \<le> num u"
  shows "avoiding P x 0 v"
  using assms(2,3)
proof (induction "num v" arbitrary: v rule: less_induct)
  case less
  show ?case
  proof (cases "u = v")
    case False
    have ok: "idoms_ok R num t" and def: "t v \<noteq> None" using t less.prems(1) by (auto simp: branch_tree_def)
    obtain p where p: "t v = Some p" "anc t p u" using less.prems(2) False by (blast elim: anc_stepE)
    have "v \<noteq> 0" using False less.prems(2) ok anc_zero [of t u] by (metis idoms_ok_def)
    then have p': "p \<in> R" "num p < num v" "p \<in> P v" using p ok t by (auto simp: idoms_ok_def branch_tree_def)
    have "num u < num v" using anc_num [OF ok less.prems(2) def] False by (metis le_neq_implies_less)
    then have "v \<noteq> x" using assms(5) by auto
    then show ?thesis using less.hyps [OF p'(2,1) p(2)] p'(3) by (auto intro: rtranclp.rtrancl_into_rtrancl)
  qed (use assms(4) in simp)
qed

lemma dom_by_branch:
  assumes t: "branch_tree R num P t" and "v \<in> R" and "dom_by P x v"
  shows "anc t v x"
proof (rule ccontr)
  assume not: "\<not> anc t v x"
  have "avoiding P x 0 w" if "w \<in> R" "\<not> anc t w x" for w
    using that
  proof (induction "num w" arbitrary: w rule: less_induct)
    case less
    have ok: "idoms_ok R num t" using t by (simp add: branch_tree_def)
    obtain p where p: "t w = Some p" using t less.prems(1) by (auto simp: branch_tree_def)
    show ?case
    proof (cases "w = 0")
      case False
      then have p': "p \<in> R" "num p < num w" "p \<in> P w" using p ok t by (auto simp: idoms_ok_def branch_tree_def)
      moreover have "\<not> anc t p x" "w \<noteq> x"
        using less.prems(2) p by (auto intro: converse_rtranclp_into_rtranclp)
      ultimately show ?thesis using less.hyps by (auto intro: rtranclp.rtrancl_into_rtrancl)
    qed simp
  qed
  moreover have "x \<noteq> 0" using not anc_root [of R num t v] t assms(2) by (metis branch_tree_def)
  ultimately show False using assms(2,3) not by (auto simp: dom_by_def)
qed

lemma settled_branch:
  assumes t: "branch_tree R num P t" and d: "settled R num P d" and "v \<in> R" and "anc d v x"
  shows "anc t v x"
  using assms(3,4)
proof (induction "num v" arbitrary: v rule: less_induct)
  case less
  show ?case
  proof (cases "x = v")
    case False
    have ok: "idoms_ok R num d" "idoms_ok R num t" using t d by (auto simp: branch_tree_def settled_def)
    obtain u where u: "d v = Some u" "anc d u x" using less.prems(2) False by (blast elim: anc_stepE)
    have "v \<noteq> 0" using False less.prems(2) ok anc_zero [of d x] by (metis idoms_ok_def)
    obtain q where q: "t v = Some q" using t less.prems(1) by (auto simp: branch_tree_def)
    then have q': "q \<in> R" "num q < num v" "q \<in> P v"
      using ok t \<open>v \<noteq> 0\<close> by (auto simp: idoms_ok_def branch_tree_def)
    then have "anc d q x" using d u \<open>v \<noteq> 0\<close> unfolding settled_def by (meson IntI rtranclp_trans)
    then show ?thesis using less.hyps [OF q'(2,1)] q by (auto intro: converse_rtranclp_into_rtranclp)
  qed simp
qed

lemma complete_update:
  assumes G: "ordered R num P" and d: "before R num P d" and sw: "sweep R num P d d'"
    and v: "v \<in> R" "v \<noteq> 0" and comp: "complete R P (hyb num (num v) d' d)"
  shows "complete R P (hyb num (Suc (num v)) d' d)"
proof -
  let ?i = "num v" and ?h = "hyb num (num v) d' d" and ?h' = "hyb num (Suc (num v)) d' d"
  obtain t where t: "branch_tree R num P t" using branch_tree_ex [OF G] by blast
  have ok: "idoms_ok R num d" "idoms_ok R num d'" using sw by (auto simp: sweep_def)
  have hok: "idoms_ok R num ?h" "idoms_ok R num ?h'"
    using ok sw sweep_total by (intro hyb_ok; blast)+
  obtain c where c: "d' v = Some c" "num c < ?i" "chain ?h c = (\<Inter>p \<in> P v. chain ?h p)"
    using sw v by (auto simp: sweep_def swept_at_def)
  have "x \<in> chain ?h' p" if "p \<in> R" "dom_by P x p" for p x
    using that
  proof (induction "num p" arbitrary: p rule: less_induct)
    case less
    have def': "d' p \<noteq> None" using sweep_total [OF sw less.prems(1)] .
    have hx: "x \<in> chain ?h p" using comp less.prems by (auto simp: complete_def)
    consider "num p < ?i" | "p = v" | "?i < num p"
      using less.prems(1) v(1) G unfolding ordered_def by (metis inj_onD linorder_neqE_nat)
    then show ?case
    proof cases
      case 1
      then show ?thesis using hx hyb_chain_low [OF ok(2) 1 def', of d] hyb_chain_low [OF ok(2) _ def', of "Suc ?i" d] by simp
    next
      case 2
      have "x \<in> chain ?h' c" if "x \<noteq> v"
      proof -
        have "x \<in> chain ?h q" if q: "q \<in> P v" for q
        proof (cases "q \<in> R")
          case True
          then show ?thesis
            using comp dom_by_pred [of P x v q] less.prems(2) q 2 \<open>x \<noteq> v\<close> by (auto simp: complete_def)
        next
          case False
          then have "?h q = None" using hok(1) unfolding idoms_ok_def by (metis not_None_eq)
          then show ?thesis by (simp add: chain_iff)
        qed
        then have "x \<in> chain ?h c" using c(3) by blast
        moreover have "d' c \<noteq> None" using ok(2) c(1) by (auto simp: idoms_ok_def)
        ultimately show ?thesis
          using hyb_chain_low [OF ok(2) c(2), of d] hyb_chain_low [OF ok(2), of c "Suc ?i" d] c(2) by simp
      qed
      moreover have "?h' v = Some c" using c(1) by (simp add: hyb_def)
      ultimately show ?thesis using chain_step [OF hok(2)] 2 by blast
    next
      case 3
      show ?thesis
      proof (cases "d p")
        case None
        then show ?thesis using 3 by (simp add: chain_iff hyb_def)
      next
        case (Some u)
        then have hp: "?h p = Some u" "?h' p = Some u" using 3 by (auto simp: hyb_def)
        have "p \<noteq> 0" using 3 G by (metis ordered_def not_less0)
        then have set: "settled R num P d" using d Some by (auto simp: before_def start_def split: if_splits)
        have u: "u \<in> R" "num u < num p" using ok(1) Some \<open>p \<noteq> 0\<close> by (auto simp: idoms_ok_def)
        show ?thesis
        proof (cases "x = p")
          case False
          then have "x \<in> chain ?h u" using hx chain_step [OF hok(1) hp(1)] by simp
          moreover have "?h u \<noteq> None" using hok(1) hp(1) by (auto simp: idoms_ok_def)
          ultimately have le: "num x \<le> num u" using anc_num [OF hok(1), of u x] by (simp add: chain_iff)
          have "anc t p u" using settled_branch [OF t set less.prems(1), of u] Some by auto
          then have "dom_by P x u"
            using avoiding_branch [OF t less.prems(1) _ _ le] less.prems(2) by (auto simp: dom_by_def)
          then show ?thesis using less.hyps [OF u(2,1)] chain_step [OF hok(2) hp(2)] by blast
        qed (simp add: chain_iff)
      qed
    qed
  qed
  then show ?thesis by (auto simp: complete_def)
qed

lemma complete_sweep:
  assumes G: "ordered R num P" and d: "before R num P d" and sw: "sweep R num P d d'" and "complete R P d"
  shows "complete R P d'"
proof -
  have ok: "idoms_ok R num d" "idoms_ok R num d'" using sw by (auto simp: sweep_def)
  have out: "d' w = d w" if "w \<notin> R \<or> w = 0" for w
    using that ok unfolding idoms_ok_def by (metis not_None_eq)
  have "complete R P (hyb num i d' d)" for i
  proof (induction i)
    case 0
    then show ?case using assms(4) by (simp add: hyb_def)
  next
    case (Suc i)
    show ?case
    proof (cases "\<exists>v \<in> R. v \<noteq> 0 \<and> num v = i")
      case True
      then show ?thesis using complete_update [OF G d sw] Suc by auto
    next
      case False
      then have "hyb num (Suc i) d' d = hyb num i d' d"
        using out by (auto simp: hyb_def fun_eq_iff less_Suc_eq)
      then show ?thesis using Suc by simp
    qed
  qed
  moreover obtain n where "\<forall>v \<in> R. num v < n"
    using G finite_nat_set_iff_bounded [of "num ` R"] unfolding ordered_def by auto
  then have "hyb num n d' d = d'" using out by (auto simp: hyb_def fun_eq_iff)
  ultimately show ?thesis by metis
qed

subsection \<open>The outer loop ends\<close>

definition dom_setting :: "nat list \<Rightarrow> (nat \<Rightarrow> nat) \<Rightarrow> merlin_block list \<Rightarrow> bool" where
  "dom_setting order num bs \<longleftrightarrow>
     numbered order num \<and> parented bs order num \<and> table_idoms_ok (set order) num bs"

abbreviation preds :: "merlin_block list \<Rightarrow> nat \<Rightarrow> nat set" where
  "preds bs v \<equiv> {j. edge bs j v}"

lemma dom_setting_ordered:
  assumes "dom_setting order num bs"
  shows "ordered (set order) num (preds bs)"
proof -
  have "0 \<in> set order" using assms unfolding dom_setting_def numbered_def by (metis length_greater_0_conv nth_mem)
  then show ?thesis
    using assms unfolding dom_setting_def table_idoms_ok_def parented_def ordered_def by blast
qed

lemma full_sweep:
  assumes S: "dom_setting order num bs"
  obtains bs' where "dom_sweep num (tl order) bs False = Some (bs', idoms bs' \<noteq> idoms bs)"
    and "dom_setting order num bs'" and "strip bs' = strip bs"
    and "sweep (set order) num (preds bs) (idoms bs) (idoms bs')"
proof -
  let ?R = "set order"
  have ok: "table_idoms_ok ?R num bs" and G: "ordered ?R num (preds bs)" and num: "numbered order num"
    and par: "parented bs order num"
    using S dom_setting_ordered [OF S] by (auto simp: dom_setting_def)
  have zero: "num v = 0 \<longrightarrow> v = 0" if "v \<in> ?R" for v
    using that G unfolding ordered_def by (metis inj_onD)
  have def: "\<forall>v \<in> ?R. num v < 1 \<longrightarrow> idoms bs v \<noteq> None"
    using ok zero by (auto simp: table_idoms_ok_def idoms_ok_def)
  have one: "0 < (1 :: nat)" "1 \<le> length order" using num by (auto simp: numbered_def Suc_le_eq)
  obtain bs' where bs': "dom_sweep num (drop 1 order) bs False = Some (bs', False \<or> idoms bs' \<noteq> idoms bs)"
      "table_idoms_ok ?R num bs'" "strip bs' = strip bs"
      "\<forall>v \<in> ?R. 1 \<le> num v \<longrightarrow> swept_at num (preds bs) (idoms bs) (idoms bs') v"
    using dom_sweep_returns [OF num par ok one def, of False] by blast
  have "sweep ?R num (preds bs) (idoms bs) (idoms bs')"
    using bs'(2,4) ok zero by (auto simp: sweep_def table_idoms_ok_def Suc_le_eq)
  moreover have "dom_setting order num bs'"
    using bs'(2) num par by (simp add: dom_setting_def parented_def strip_edge [OF bs'(3)])
  ultimately show ?thesis using that bs'(1,3) by (simp add: drop_Suc)
qed

lemma dom_loop_settled:
  assumes "dom_setting order num bs" and "before (set order) num (preds bs) d"
    and "sweep (set order) num (preds bs) d (idoms bs)" and "shrinks d (idoms bs)"
    and "complete (set order) (preds bs) (idoms bs)"
  shows "\<exists>bs'. dom_loop num order bs = Some bs' \<and> dom_setting order num bs' \<and> strip bs' = strip bs \<and>
    sweep (set order) num (preds bs) (idoms bs') (idoms bs') \<and> complete (set order) (preds bs) (idoms bs')"
  using assms
proof (induction "tree_weight (set order) num (idoms bs)" arbitrary: bs d rule: less_induct)
  case less
  let ?R = "set order"
  obtain bs1 where bs1: "dom_sweep num (tl order) bs False = Some (bs1, idoms bs1 \<noteq> idoms bs)"
      "dom_setting order num bs1" "strip bs1 = strip bs"
      "sweep ?R num (preds bs) (idoms bs) (idoms bs1)"
    using full_sweep [OF less.prems(1)] .
  have G: "ordered ?R num (preds bs)" using dom_setting_ordered [OF less.prems(1)] .
  have M: "shrinks (idoms bs) (idoms bs1)"
    using sweep_shrinks [OF G less.prems(2,3) bs1(4) less.prems(4)] .
  have P: "preds bs1 = preds bs" using strip_edge [OF bs1(3)] by simp
  have C: "complete ?R (preds bs) (idoms bs1)"
    using complete_sweep [OF G _ bs1(4) less.prems(5)] sweep_settled [OF less.prems(3)] by (simp add: before_def)
  show ?case
  proof (cases "idoms bs1 = idoms bs")
    case True
    then show ?thesis using bs1 C by (auto simp: dom_loop.simps)
  next
    case False
    have "tree_weight ?R num (idoms bs1) < tree_weight ?R num (idoms bs)"
      using bs1(4) sweep_total [OF less.prems(3)] sweep_total [OF bs1(4)] M False
      by (intro sweep_weight [OF G]) (auto simp: sweep_def)
    moreover have "before ?R num (preds bs1) (idoms bs)"
      using sweep_settled [OF less.prems(3)] P by (simp add: before_def)
    ultimately obtain bs' where "dom_loop num order bs1 = Some bs'" "dom_setting order num bs'"
        "strip bs' = strip bs1" "sweep ?R num (preds bs1) (idoms bs') (idoms bs')" "complete ?R (preds bs1) (idoms bs')"
      using less.hyps [of bs1 "idoms bs"] bs1(2,4) M P C by auto
    then show ?thesis
      using bs1(1,3) False P by (subst dom_loop.simps) auto
  qed
qed

lemma dom_loop_returns:
  assumes S: "dom_setting order num bs" and start: "idoms bs = start"
  shows "\<exists>bs'. dom_loop num order bs = Some bs' \<and> dom_setting order num bs' \<and> strip bs' = strip bs \<and>
    sweep (set order) num (preds bs) (idoms bs') (idoms bs') \<and> complete (set order) (preds bs) (idoms bs')"
proof -
  obtain bs1 where bs1: "dom_sweep num (tl order) bs False = Some (bs1, idoms bs1 \<noteq> idoms bs)"
      "dom_setting order num bs1" "strip bs1 = strip bs"
      "sweep (set order) num (preds bs) start (idoms bs1)"
    using full_sweep [OF S] unfolding start .
  have P: "preds bs1 = preds bs" using strip_edge [OF bs1(3)] by simp
  have C: "complete (set order) (preds bs) (idoms bs1)"
    using complete_sweep [OF dom_setting_ordered [OF S] _ bs1(4) complete_start] by (simp add: before_def)
  show ?thesis
  proof (cases "idoms bs1 = idoms bs")
    case True
    then show ?thesis using bs1 start C by (auto simp: dom_loop.simps)
  next
    case False
    have "shrinks start (idoms bs1)" using bs1(4) by (intro start_shrinks [of "set order" num]) (simp add: sweep_def)
    then show ?thesis
      using dom_loop_settled [of order num bs1 start] bs1 P C False
      by (subst dom_loop.simps) (auto simp: before_def)
  qed
qed

lemma dom_tree:
  assumes S: "dom_setting order num bs" and sw: "sweep (set order) num (preds bs) (idoms bs) (idoms bs)"
    and C: "complete (set order) (preds bs) (idoms bs)"
    and closed: "\<And>u w. u \<in> set order \<Longrightarrow> edge bs u w \<Longrightarrow> w \<in> set order" and v: "v \<in> set order"
  shows "anc (idoms bs) v x \<longleftrightarrow> dom_by (preds bs) x v"
proof -
  have "idoms bs v \<noteq> None" using sweep_total [OF sw v] .
  then have "anc (idoms bs) v x \<longleftrightarrow> x \<in> chain (idoms bs) v" by (simp add: chain_iff)
  moreover have "0 \<in> set order" using dom_setting_ordered [OF S] by (simp add: ordered_def)
  ultimately show ?thesis
    using sound_fixpoint [OF sw _ _ v, of x] closed C v by (auto simp: complete_def)
qed

end
