(* ===== verification/Cfg_Build.thy ===== *)
theory Cfg_Build
  imports Cfg_Dominators
begin

text \<open>
  \<open>merlin_cfg_build\<close> as a whole (\<open>kernel/merlin/cfg.c\<close>): it returns for every text, and an accepted
  graph partitions the text, covers its control flow, lists the reachable blocks in an order that
  respects the search, and records exactly the edges whose target dominates their source.
\<close>

subsection \<open>From the order to the numbering\<close>

lemma rpo_of_nth:
  assumes "distinct order" and "i < length order"
  shows "rpo_of order (order ! i) = i"
proof -
  have "List.find (\<lambda>k. order ! k = order ! i) [0..<length order] = Some i"
    using assms by (auto simp: find_Some_iff nth_eq_iff_index_eq)
  then show ?thesis by (simp add: rpo_of_def)
qed

lemma rpo_numbered: "rpo_ok bs order \<Longrightarrow> numbered order (rpo_of order)"
  by (auto simp: numbered_def rpo_ok_def rpo_of_nth hd_conv_nth)

lemma after_rpo_of:
  assumes "after order p v" and "distinct order"
  shows "rpo_of order p < rpo_of order v"
proof -
  obtain as cs where o: "order = as @ cs" "p \<in> set as" "v \<in> set cs"
    using assms(1) by (auto simp: after_def)
  then obtain i j where "i < length as" "p = as ! i" "j < length cs" "v = cs ! j"
    by (auto simp: in_set_conv_nth)
  then show ?thesis
    using rpo_of_nth [OF assms(2), of i] rpo_of_nth [OF assms(2), of "length as + j"] o
    by (simp add: nth_append)
qed

lemma rpo_parented:
  assumes "rpo_ok bs order"
  shows "parented bs order (rpo_of order)"
proof -
  have "p \<in> set order" if "after order p v" for p v
    using that by (auto simp: after_def)
  then show ?thesis
    using assms after_rpo_of unfolding parented_def rpo_ok_def by blast
qed

lemma rpo_bound:
  assumes "bs \<noteq> []" and "succs_in_range bs" and "reaches bs v"
  shows "v < length bs"
  using assms(3) by cases (use assms(1,2) in \<open>auto simp: succs_in_range_def\<close>)

lemma rpo_inj: "rpo_ok bs order \<Longrightarrow> inj_on (rpo_of order) (set order)"
  unfolding rpo_ok_def inj_on_def by (metis in_set_conv_nth rpo_of_nth)

subsection \<open>Dominators\<close>

lemma initial_idoms:
  fixes bs :: "merlin_block list"
  assumes "bs \<noteq> []"
  defines "bs1 \<equiv> map (\<lambda>b. b\<lparr>idom := None\<rparr>) bs"
  shows "idoms (bs1[0 := (blk bs1 0)\<lparr>idom := Some 0\<rparr>]) = start"
    and "strip (bs1[0 := (blk bs1 0)\<lparr>idom := Some 0\<rparr>]) = strip bs"
proof -
  have "0 < length bs1" using assms by simp
  then show "idoms (bs1[0 := (blk bs1 0)\<lparr>idom := Some 0\<rparr>]) = start"
    and "strip (bs1[0 := (blk bs1 0)\<lparr>idom := Some 0\<rparr>]) = strip bs"
    using set_idom [of 0 bs1 "Some 0"] by (auto simp: bs1_def idoms_def start_def fun_eq_iff strip_def)
qed

lemma cfg_compute_dominators_returns:
  assumes "bs \<noteq> []" and "succs_in_range bs" and order: "rpo_ok bs order"
  shows "\<exists>bs'. cfg_compute_dominators order bs = Some bs' \<and> strip bs' = strip bs \<and>
    table_idoms_ok (set order) (rpo_of order) bs' \<and> (\<forall>v \<in> set order. idoms bs' v \<noteq> None) \<and>
    (\<forall>v \<in> set order. \<forall>x. anc (idoms bs') v x \<longleftrightarrow> dom_by (preds bs) x v)"
proof -
  define bs1 where "bs1 = map (\<lambda>b. b\<lparr>idom := None\<rparr>) bs"
  define bs2 where "bs2 = bs1[0 := (blk bs1 0)\<lparr>idom := Some 0\<rparr>]"
  have bs2: "idoms bs2 = start" "strip bs2 = strip bs"
    using initial_idoms [OF assms(1)] by (auto simp: bs2_def bs1_def)
  have E: "edge bs2 = edge bs" using strip_edge [OF bs2(2)] .
  have R: "set order = {v. reaches bs v}" using order by (simp add: rpo_ok_def)
  have "rpo_of order 0 = 0" using rpo_numbered [OF order] by (metis length_greater_0_conv numbered_def)
  then have "table_idoms_ok (set order) (rpo_of order) bs2"
    using rpo_inj [OF order] rpo_bound [OF assms(1,2)] strip_length [OF bs2(2)] bs2(1) R
    by (auto simp: table_idoms_ok_def idoms_ok_def start_def)
  then have "dom_setting order (rpo_of order) bs2"
    using rpo_numbered [OF order] rpo_parented [OF order] E by (simp add: dom_setting_def parented_def)
  then obtain bs' where bs': "dom_loop (rpo_of order) order bs2 = Some bs'"
      "dom_setting order (rpo_of order) bs'" "strip bs' = strip bs2"
      "sweep (set order) (rpo_of order) (preds bs2) (idoms bs') (idoms bs')"
      "complete (set order) (preds bs2) (idoms bs')"
    using dom_loop_returns [OF _ bs2(1)] by blast
  have E': "edge bs' = edge bs" using strip_edge [OF bs'(3)] E by simp
  have "anc (idoms bs') v x \<longleftrightarrow> dom_by (preds bs) x v" if "v \<in> set order" for v x
    using dom_tree [OF bs'(2) _ _ _ that, of x] bs'(4,5) E E' R
    by (auto intro: rtranclp.rtrancl_into_rtrancl)
  moreover have "cfg_compute_dominators order bs = Some bs'"
    using bs'(1) by (simp add: cfg_compute_dominators_def bs2_def bs1_def Let_def)
  ultimately show ?thesis
    using bs'(2,3) bs2(2) sweep_total [OF bs'(4)] by (auto simp: dom_setting_def)
qed

subsection \<open>Back edges\<close>

lemma cfg_dominates_tree:
  assumes ok: "table_idoms_ok R num bs" and "idoms bs v \<noteq> None"
  shows "cfg_dominates bs t (Some v) = Some (anc (idoms bs) v t)"
  using assms(2)
proof (induction "num v" arbitrary: v rule: less_induct)
  case less
  obtain u where u: "idoms bs v = Some u" using less.prems by blast
  then have blk: "idom (blk bs v) = Some u" by (auto simp: idoms_def blk_def split: if_splits)
  have d: "idoms_ok R num (idoms bs)" using ok by (simp add: table_idoms_ok_def)
  show ?case
  proof (cases "v = 0")
    case True
    then have "anc (idoms bs) v t \<longleftrightarrow> t = 0" "u = 0"
      using d u anc_zero [of "idoms bs" t] by (auto simp: idoms_ok_def)
    then show ?thesis using blk True by (auto simp: cfg_dominates.simps)
  next
    case False
    then have "num u < num v" "idoms bs u \<noteq> None" using d u by (auto simp: idoms_ok_def)
    moreover have "u \<noteq> v" using calculation by auto
    moreover have "anc (idoms bs) v t \<longleftrightarrow> v = t \<or> anc (idoms bs) u t"
      using u by (auto elim: anc_stepE intro: converse_rtranclp_into_rtranclp)
    ultimately show ?thesis using less.hyps blk by (simp add: cfg_dominates.simps [of bs t "Some v"])
  qed
qed

lemma cfg_dominates_unreached:
  assumes "v < length bs" and "idoms bs v = None"
  shows "cfg_dominates bs t (Some v) = Some (v = t)"
  using assms by (simp add: cfg_dominates.simps idoms_def blk_def)

lemma back_edge_loop_filter:
  assumes "\<And>i t. (i, t) \<in> set es \<Longrightarrow> cfg_dominates bs t (Some i) = Some (D i t)"
    and "length acc + length es \<le> MERLIN_CFG_MAX_EDGES"
  shows "back_edge_loop bs es acc = Some (Inr (acc @ filter (\<lambda>(i, t). D i t) es))"
  using assms
proof (induction es arbitrary: acc)
  case (Cons e es)
  obtain i t where e: "e = (i, t)" by (cases e)
  then have "cfg_dominates bs t (Some i) = Some (D i t)" using Cons.prems(1) by simp
  then show ?case using Cons.IH Cons.prems e by (cases "D i t") auto
qed simp

lemma set_edge_list: "set (edge_list bs) = {(i, t). edge bs i t}"
  by (auto simp: edge_list_def edge_def)

lemma length_edge_list: "length (edge_list bs) \<le> 2 * length bs"
proof -
  have le: "length (succs b) \<le> 2" for b by (simp add: succs_def split: option.split)
  have "sum_list (map (\<lambda>i. length (succs (bs ! i))) is) \<le> 2 * length is" for "is"
  proof (induction "is")
    case (Cons i "is")
    then show ?case using le [of "bs ! i"] by simp
  qed simp
  from this [of "[0..<length bs]"] show ?thesis by (simp add: edge_list_def length_concat comp_def)
qed

subsection \<open>The build as a whole\<close>

lemma edge_reach_marks [simp]: "edge (reach_marks bs) = edge bs"
  by (auto simp: edge_def reach_marks_def fun_eq_iff)

lemma length_reach_marks [simp]: "length (reach_marks bs) = length bs"
  by (simp add: reach_marks_def)

lemma succs_in_range_marks [simp]: "succs_in_range (reach_marks bs) = succs_in_range bs"
  by (simp add: succs_in_range_def)

lemma rpo_ok_marks [simp]: "rpo_ok (reach_marks bs) = rpo_ok bs"
  by (simp add: rpo_ok_def fun_eq_iff)

text \<open>What an accepted graph promises, over the segments \<open>S\<close> of the text that are its blocks.\<close>

definition recorded :: "merlin_block list \<Rightarrow> nat \<Rightarrow> nat \<Rightarrow> bool" where
  "recorded bs i t \<longleftrightarrow> (if reaches bs i then dom_by (preds bs) t i else i = t)"

definition graph_ok :: "u8 list \<Rightarrow> u32 \<Rightarrow> (nat \<times> nat) list \<Rightarrow> merlin_cfg \<Rightarrow> bool" where
  "graph_ok text toff S G \<longleftrightarrow>
     segs_cover text S \<and> (\<exists>bs. table_ok text toff S bs \<and> strip (blocks G) = strip (reach_marks bs)) \<and>
     rpo_ok (blocks G) (rpo G) \<and>
     (\<forall>v. reaches (blocks G) v \<longrightarrow> (\<forall>x. anc (idoms (blocks G)) v x \<longleftrightarrow> dom_by (preds (blocks G)) x v)) \<and>
     set (back_edges G) = {(i, t). edge (blocks G) i t \<and> recorded (blocks G) i t} \<and>
     length (back_edges G) \<le> MERLIN_CFG_MAX_EDGES \<and> reducible G"

lemma cfg_find_back_edges_returns:
  assumes "length bs \<le> MERLIN_CFG_MAX_BLOCKS" and ok: "table_idoms_ok R num bs"
    and R: "R = {v. reaches bs v}" and "\<forall>v \<in> R. idoms bs v \<noteq> None"
    and dom: "\<forall>v \<in> R. \<forall>x. anc (idoms bs) v x \<longleftrightarrow> dom_by (preds bs) x v"
  shows "\<exists>es. cfg_find_back_edges bs = Some (Inr es) \<and> length es \<le> MERLIN_CFG_MAX_EDGES \<and>
    set es = {(i, t). edge bs i t \<and> recorded bs i t}"
proof -
  have "cfg_dominates bs t (Some i) = Some (recorded bs i t)" if "(i, t) \<in> set (edge_list bs)" for i t
  proof (cases "i \<in> R")
    case True
    then show ?thesis using cfg_dominates_tree [OF ok] assms(4) dom R by (auto simp: recorded_def)
  next
    case False
    moreover have "i < length bs" using that by (auto simp: set_edge_list edge_def)
    ultimately show ?thesis
      using cfg_dominates_unreached table_idoms_undefined [OF ok False] R by (simp add: recorded_def)
  qed
  moreover have len: "length [] + length (edge_list bs) \<le> MERLIN_CFG_MAX_EDGES"
    using length_edge_list [of bs] assms(1) by simp
  ultimately have "cfg_find_back_edges bs = Some (Inr (filter (\<lambda>(i, t). recorded bs i t) (edge_list bs)))"
    using back_edge_loop_filter [of "edge_list bs" bs "recorded bs" "[]"] by (simp add: cfg_find_back_edges_def)
  moreover have "length (filter (\<lambda>(i, t). recorded bs i t) (edge_list bs)) \<le> MERLIN_CFG_MAX_EDGES"
    using len length_filter_le [of _ "edge_list bs"] by (metis add_0 le_trans list.size(3))
  ultimately show ?thesis by (auto simp: set_edge_list)
qed

lemma table_build:
  assumes cover: "segs_cover text S" and table: "table_ok text toff S bs"
  shows "\<exists>order bs' es. cfg_compute_rpo bs = Some (reach_marks bs, order) \<and>
    cfg_compute_dominators order (reach_marks bs) = Some bs' \<and> cfg_find_back_edges bs' = Some (Inr es) \<and>
    graph_ok text toff S \<lparr>blocks = bs', rpo = order, back_edges = es, reducible = True\<rparr>"
proof -
  have bs: "bs \<noteq> []" "length bs \<le> MERLIN_CFG_MAX_BLOCKS"
    using cover table_length [OF table] by (auto simp: segs_cover_def)
  obtain order where order: "cfg_compute_rpo bs = Some (reach_marks bs, order)" "rpo_ok bs order"
    using cfg_compute_rpo_returns [OF bs(1) table_succs [OF table] table_not_reachable [OF table]] by blast
  have "reach_marks bs \<noteq> []" using bs(1) by (simp add: reach_marks_def)
  then obtain bs' where bs': "cfg_compute_dominators order (reach_marks bs) = Some bs'"
      "strip bs' = strip (reach_marks bs)" "table_idoms_ok (set order) (rpo_of order) bs'"
      "\<forall>v \<in> set order. idoms bs' v \<noteq> None"
      "\<forall>v \<in> set order. \<forall>x. anc (idoms bs') v x \<longleftrightarrow> dom_by (preds bs) x v"
    using cfg_compute_dominators_returns [of "reach_marks bs" order] order(2) table_succs [OF table] by auto
  have E: "edge bs' = edge bs" using strip_edge [OF bs'(2)] by simp
  have R: "set order = {v. reaches bs' v}" using order(2) E by (simp add: rpo_ok_def)
  have len: "length bs' \<le> MERLIN_CFG_MAX_BLOCKS" using strip_length [OF bs'(2)] bs(2) by simp
  obtain es where es: "cfg_find_back_edges bs' = Some (Inr es)" "set es = {(i, t). edge bs' i t \<and> recorded bs' i t}"
      "length es \<le> MERLIN_CFG_MAX_EDGES"
    using cfg_find_back_edges_returns [OF len bs'(3) R bs'(4)] bs'(5) E by auto
  have "rpo_ok bs' order" using order(2) E by (simp add: rpo_ok_def)
  then have "graph_ok text toff S \<lparr>blocks = bs', rpo = order, back_edges = es, reducible = True\<rparr>"
    using cover table bs'(2,5) es(2,3) R E by (auto simp: graph_ok_def)
  then show ?thesis using order(1) bs'(1) es(1) by blast
qed

lemma merlin_cfg_build_empty:
  "\<exists>G. merlin_cfg_build [] toff = Some (Inr G) \<and> blocks G = []"
proof -
  have "cfg_build_from bm [] toff = Some (Inr \<lparr>blocks = [], rpo = [0], back_edges = [], reducible = True\<rparr>)" for bm
    by (simp add: cfg_build_from_def cfg_find_leaders_def cfg_build_blocks_def cfg_compute_rpo_def
        rpo_loop.simps next_unvisited_def blk_def zero_block_def succs_def mark_reachable_def
        cfg_compute_dominators_def dom_loop.simps cfg_find_back_edges_def edge_list_def)
  then show ?thesis by (simp add: merlin_cfg_build_code)
qed

lemma merlin_cfg_build_accepts:
  assumes "text \<noteq> []"
  shows "(\<exists>e. merlin_cfg_build text toff = Some (Inl e)) \<or>
    (\<exists>S G. merlin_cfg_build text toff = Some (Inr G) \<and> graph_ok text toff S G \<and>
       length text mod 4 = 0 \<and> length text \<le> 4 * CFG_MAX_INSNS)"
proof (cases "length text mod 4 = 0 \<and> length text div 4 \<le> CFG_MAX_INSNS")
  case True
  let ?m = "CFG_MAX_INSNS div 8 + 1"
  have size: "length text mod 4 = 0" "length text div 4 < 8 * ?m" "length text \<le> 4 * CFG_MAX_INSNS"
    using True by auto
  have eq: "merlin_cfg_build text toff = cfg_build_from (replicate ?m 0) text toff"
    using True unfolding merlin_cfg_build_def by (simp only: not_le [symmetric] simp_thms if_False)
  show ?thesis
  proof (cases "\<exists>bm bs. cfg_find_leaders text (replicate ?m 0) = Inr bm \<and> cfg_build_blocks text toff bm = Inr bs")
    case True
    then obtain bm bs where bs: "cfg_find_leaders text (replicate ?m 0) = Inr bm"
        "cfg_build_blocks text toff bm = Inr bs" by blast
    then obtain S where S: "segs_cover text S" "table_ok text toff S bs"
      using cfg_blocks_table [OF bs size(1,2) assms] by blast
    show ?thesis
      using table_build [OF S] bs size unfolding eq cfg_build_from_def by fastforce
  next
    case False
    then show ?thesis
      unfolding eq cfg_build_from_def
      by (cases "cfg_find_leaders text (replicate ?m 0)") (auto split: sum.splits)
  qed
next
  case False
  then show ?thesis by (auto simp: merlin_cfg_build_def)
qed

lemma merlin_cfg_build_graph:
  assumes "merlin_cfg_build text toff = Some (Inr G)" and "text \<noteq> []"
  obtains S where "graph_ok text toff S G" and "length text mod 4 = 0" and "length text < 2 ^ 32"
proof -
  obtain S where "graph_ok text toff S G" "length text mod 4 = 0" "length text \<le> 4 * CFG_MAX_INSNS"
    using merlin_cfg_build_accepts [OF assms(2), of toff] assms(1) by auto
  then show ?thesis using that by simp
qed

lemma graph_fields:
  assumes G: "graph_ok text toff S G" and i: "i < length S" and small: "length text < 2 ^ 32"
  shows "length (blocks G) = length S"
    and "start_pc (blocks G ! i) = toff + of_nat (4 * fst (S ! i))"
    and "unat (start_pc (blocks G ! i) - toff) = 4 * fst (S ! i)"
    and "unat (end_pc (blocks G ! i) - toff) = 4 * (snd (S ! i) - 1)"
    and "reachable (blocks G ! i) = reaches (blocks G) i"
proof -
  obtain bs where bs: "segs_cover text S" "table_ok text toff S bs" "strip (blocks G) = strip (reach_marks bs)"
    using G by (auto simp: graph_ok_def)
  have len: "length bs = length S" "length (blocks G) = length S"
    using table_length [OF bs(2)] strip_length [OF bs(3)] by auto
  then show "length (blocks G) = length S" by simp
  have nth: "(blocks G ! i)\<lparr>idom := None\<rparr> = (reach_marks bs ! i)\<lparr>idom := None\<rparr>"
    using arg_cong [OF bs(3), of "\<lambda>xs. xs ! i"] len i by (simp add: strip_def)
  have same: "start_pc (blocks G ! i) = start_pc (bs ! i) \<and> end_pc (blocks G ! i) = end_pc (bs ! i) \<and>
      reachable (blocks G ! i) = reaches bs i"
    using arg_cong [OF nth, of start_pc] arg_cong [OF nth, of end_pc] arg_cong [OF nth, of reachable] len i
    by (simp add: reach_marks_def)
  have pos: "4 * fst (S ! i) < 2 ^ LENGTH(32)" "4 * (snd (S ! i) - 1) < 2 ^ LENGTH(32)"
    using segs_cover_nth [OF bs(1) i] small by auto
  show "start_pc (blocks G ! i) = toff + of_nat (4 * fst (S ! i))"
    using same table_fields(1) [OF bs(2) i] by simp
  then show "unat (start_pc (blocks G ! i) - toff) = 4 * fst (S ! i)"
    using unat_of_nat_small [OF pos(1)] by (simp del: of_nat_mult)
  show "unat (end_pc (blocks G ! i) - toff) = 4 * (snd (S ! i) - 1)"
    using same table_fields(2) [OF bs(2) i] unat_of_nat_small [OF pos(2)] by (simp del: of_nat_mult)
  show "reachable (blocks G ! i) = reaches (blocks G) i"
    using same strip_edge [OF bs(3)] by simp
qed

lemma graph_succs:
  assumes "graph_ok text toff S G" and "i < length S" and "j \<in> set (succs (blocks G ! i))"
  shows "j < length S"
proof -
  obtain bs where bs: "table_ok text toff S bs" "strip (blocks G) = strip (reach_marks bs)"
    using assms(1) by (auto simp: graph_ok_def)
  have "edge bs i j"
    using assms(2,3) table_length [OF bs(1)] strip_length [OF bs(2)] strip_edge [OF bs(2)]
    by (auto simp: edge_def fun_eq_iff)
  then show ?thesis using table_succs [OF bs(1)] table_length [OF bs(1)] by (auto simp: succs_in_range_def)
qed

lemma wire_plain_succs:
  fixes raw :: "merlin_block list"
  assumes "\<not> is_return (raw ! i)" and "\<not> is_control text (unat (end_pc (raw ! i) - toff))"
    and "succ0 (raw ! i) = None" and "succ1 (raw ! i) = None"
  shows "set (succs (wire_block text toff raw i)) \<subseteq> {Suc i}"
  using assms unfolding wire_block_def is_control_def succs_def Let_def by simp

text \<open>A block that does not end in a control transfer only falls through.\<close>

lemma graph_plain_succs:
  assumes G: "graph_ok text toff S G" and i: "i < length S" and small: "length text < 2 ^ 32"
    and plain: "\<not> is_control text (4 * (snd (S ! i) - 1))"
  shows "set (succs (blocks G ! i)) \<subseteq> {Suc i}"
proof -
  obtain bs where bs: "table_ok text toff S bs" "strip (blocks G) = strip (reach_marks bs)"
    using G by (auto simp: graph_ok_def)
  let ?raw = "map (\<lambda>(a, b). block_terminator text toff (4 * (b - 1)) (plain_block toff a b)) S"
  have raw: "?raw ! i = plain_block toff (fst (S ! i)) (snd (S ! i))"
    using i plain by (simp add: split_beta block_terminator_plain)
  have "4 * (snd (S ! i) - 1) < 2 ^ LENGTH(32)"
    using segs_cover_nth [OF _ i, of "text"] G small by (auto simp: graph_ok_def)
  from unat_of_nat_small [OF this]
  have "unat (end_pc (?raw ! i) - toff) = 4 * (snd (S ! i) - 1)"
    unfolding raw by (simp del: of_nat_mult)
  then have "set (succs (wire_block text toff ?raw i)) \<subseteq> {Suc i}"
    using wire_plain_succs [of ?raw i "text" toff] plain unfolding raw by simp
  moreover have "succs (blocks G ! i) = succs (bs ! i)"
    using strip_succs [OF bs(2)] strip_length [OF bs(2)] table_length [OF bs(1)] i by (simp add: reach_marks_def)
  moreover have "bs ! i = wire_block text toff ?raw i"
    using bs(1) i by (simp add: table_ok_def Let_def)
  ultimately show ?thesis by simp
qed

lemma segs_cover_unique:
  assumes cover: "segs_cover text S" and k: "k < length text div 4"
  shows "\<exists>!i. i < length S \<and> fst (S ! i) \<le> k \<and> k < snd (S ! i)"
proof (rule ex_ex1I)
  define a where "a = Max {j. j \<le> k \<and> is_leader text j}"
  have fin: "finite {j. j \<le> k \<and> is_leader text j}" by simp
  have "0 \<in> {j. j \<le> k \<and> is_leader text j}" by (simp add: is_leader_def)
  then have "a \<in> {j. j \<le> k \<and> is_leader text j}" unfolding a_def by (intro Max_in [OF fin]) blast
  then have a: "a \<le> k" "is_leader text a" by auto
  then have "a \<in> fst ` set S" using cover k by (simp add: segs_cover_def)
  then obtain i where i: "i < length S" "fst (S ! i) = a" by (metis imageE in_set_conv_nth)
  have "k < snd (S ! i)"
  proof (rule ccontr)
    assume "\<not> k < snd (S ! i)"
    then have b: "snd (S ! i) \<le> k" by simp
    then have "Suc i < length S" "fst (S ! Suc i) = snd (S ! i)" using cover i k by (auto simp: segs_cover_def)
    then have "snd (S ! i) \<in> fst ` set S" by (metis imageI nth_mem)
    then have "is_leader text (snd (S ! i))" using cover by (auto simp: segs_cover_def)
    then have "snd (S ! i) \<le> a" using b unfolding a_def by (intro Max_ge [OF fin]) simp
    then show False using segs_cover_nth [OF cover i(1)] i(2) by simp
  qed
  then show "\<exists>i. i < length S \<and> fst (S ! i) \<le> k \<and> k < snd (S ! i)" using i a(1) by auto
next
  fix i j
  assume ij: "i < length S \<and> fst (S ! i) \<le> k \<and> k < snd (S ! i)" "j < length S \<and> fst (S ! j) \<le> k \<and> k < snd (S ! j)"
  have leader: "is_leader text (fst (S ! l)) \<and> (\<forall>m. fst (S ! l) < m \<and> m < snd (S ! l) \<longrightarrow> \<not> is_leader text m)"
    if "l < length S" for l
    using that cover nth_mem [OF that] unfolding segs_cover_def by (metis (no_types, lifting) case_prodE imageI mem_Collect_eq prod.sel)
  have "fst (S ! i) = fst (S ! j)"
    using ij leader by (metis le_less_trans linorder_neqE_nat)
  moreover have "sorted_wrt (<) (map fst S)" using cover by (simp add: segs_cover_def)
  ultimately show "i = j"
    using ij by (metis length_map nth_eq_iff_index_eq nth_map strict_sorted_iff)
qed

subsection \<open>Properties\<close>

text \<open>
  The graph construction returns for every byte string: the leader and block passes are bounded,
  the depth-first search, the dominator iteration with its nested intersection walks, and the walks up
  the dominator tree all end, and none of them reads an index outside the block table.
\<close>

theorem cfg_build_returns: "\<exists>r. merlin_cfg_build text toff = Some r"
proof (cases "text = []")
  case True
  then show ?thesis using merlin_cfg_build_empty [of toff] by auto
next
  case False
  then show ?thesis using merlin_cfg_build_accepts [OF False, of toff] by auto
qed

text \<open>The sample program of the witnesses: a two-instruction loop and a return.\<close>

definition sample_text :: "u8 list" where
  "sample_text = [0x13, 0, 0, 0, 0x13, 0, 0, 0, 0xe3, 0x0e, 0x00, 0xfe, 0x67, 0x80, 0x00, 0x00]"

definition sample_cfg :: merlin_cfg where
  "sample_cfg = \<lparr>blocks =
     [\<lparr>start_pc = 0, end_pc = 0, insn_count = 1, succ0 = Some 1, succ1 = None, succ_pc0 = 4,
       succ_pc1 = 0, is_return = False, reachable = True, idom = Some 0\<rparr>,
      \<lparr>start_pc = 4, end_pc = 8, insn_count = 2, succ0 = Some 2, succ1 = Some 1, succ_pc0 = 12,
       succ_pc1 = 4, is_return = False, reachable = True, idom = Some 0\<rparr>,
      \<lparr>start_pc = 12, end_pc = 12, insn_count = 1, succ0 = None, succ1 = None, succ_pc0 = 0,
       succ_pc1 = 0, is_return = True, reachable = True, idom = Some 1\<rparr>],
     rpo = [0, 1, 2], back_edges = [(1, 1)], reducible = True\<rparr>"

lemma sample_build: "merlin_cfg_build sample_text 0 = Some (Inr sample_cfg)"
  by code_simp

text \<open>
  C16: the blocks partition the text. In an accepted graph every instruction lies in exactly one
  block, between its \<open>start_pc\<close> and its \<open>end_pc\<close>.
\<close>

theorem cfg_blocks_partition:
  assumes "merlin_cfg_build text toff = Some (Inr G)" and "k < length text div 4"
  shows "\<exists>!i. i < length (blocks G) \<and> unat (start_pc (blocks G ! i) - toff) \<le> 4 * k \<and>
    4 * k \<le> unat (end_pc (blocks G ! i) - toff)"
proof -
  have "text \<noteq> []" using assms(2) by auto
  then obtain S where S: "graph_ok text toff S G" "length text < 2 ^ 32"
    using merlin_cfg_build_graph [OF assms(1)] by blast
  have cover: "segs_cover text S" using S(1) by (simp add: graph_ok_def)
  have "i < length (blocks G) \<and> unat (start_pc (blocks G ! i) - toff) \<le> 4 * k \<and>
      4 * k \<le> unat (end_pc (blocks G ! i) - toff) \<longleftrightarrow> i < length S \<and> fst (S ! i) \<le> k \<and> k < snd (S ! i)" for i
  proof (cases "i < length S")
    case True
    then show ?thesis
      using graph_fields [OF S(1) True S(2)] segs_cover_nth [OF cover True] by auto
  next
    case False
    then show ?thesis
      using graph_fields(1) [OF S(1) _ S(2), of 0] cover by (auto simp: segs_cover_def)
  qed
  then show ?thesis using segs_cover_unique [OF cover assms(2)] by simp
qed

theorem cfg_blocks_partition_witness:
  "\<exists>!i. i < length (blocks sample_cfg) \<and> unat (start_pc (blocks sample_cfg ! i) - 0) \<le> 4 * 2 \<and>
    4 * 2 \<le> unat (end_pc (blocks sample_cfg ! i) - 0)"
  by (rule cfg_blocks_partition [OF sample_build]) (simp add: sample_text_def)



text \<open>
  \<open>rpo\<close> lists every block that control can reach from block 0 exactly once, block 0 first and
  every other block after one of its predecessors; \<open>reachable\<close> marks the same blocks.
\<close>

theorem cfg_rpo_order:
  assumes "merlin_cfg_build text toff = Some (Inr G)" and "text \<noteq> []"
  shows "distinct (rpo G) \<and> set (rpo G) = {v. reaches (blocks G) v} \<and> hd (rpo G) = 0 \<and>
    (\<forall>v \<in> set (rpo G). v \<noteq> 0 \<longrightarrow> (\<exists>p. edge (blocks G) p v \<and> after (rpo G) p v)) \<and>
    (\<forall>i < length (blocks G). reachable (blocks G ! i) = reaches (blocks G) i)"
proof -
  obtain S where S: "graph_ok text toff S G" "length text < 2 ^ 32"
    using merlin_cfg_build_graph [OF assms] by blast
  then have "length (blocks G) = length S"
    using graph_fields(1) [OF S(1) _ S(2), of 0] by (simp add: graph_ok_def segs_cover_def)
  then show ?thesis
    using graph_fields(5) [OF S(1) _ S(2)] S(1) by (auto simp: graph_ok_def rpo_ok_def)
qed

theorem cfg_rpo_order_witness:
  "set [0, 1, 2] = {v. reaches (blocks sample_cfg) v}"
  using cfg_rpo_order [OF sample_build] by (simp add: sample_cfg_def sample_text_def)

text \<open>
  C14: the dominator tree and the back edges are exact. For a reachable block the ancestors along
  \<open>idom\<close> are the blocks that lie on every path from block 0, and an edge is recorded as a back edge
  if and only if its target dominates its source (or, for a source control cannot reach, is the source).
\<close>

theorem cfg_back_edges_exact:
  assumes "merlin_cfg_build text toff = Some (Inr G)" and "text \<noteq> []"
  shows "(\<forall>v x. reaches (blocks G) v \<longrightarrow> (anc (idoms (blocks G)) v x \<longleftrightarrow> dom_by (preds (blocks G)) x v)) \<and>
    set (back_edges G) = {(i, t). edge (blocks G) i t \<and> recorded (blocks G) i t}"
proof -
  obtain S where "graph_ok text toff S G" using merlin_cfg_build_graph [OF assms] by blast
  then show ?thesis unfolding graph_ok_def by blast
qed

theorem cfg_back_edges_exact_witness:
  "{(1, 1)} = {(i, t). edge (blocks sample_cfg) i t \<and> recorded (blocks sample_cfg) i t}"
proof -
  have "sample_text \<noteq> []" by (simp add: sample_text_def)
  from cfg_back_edges_exact [OF sample_build this] show ?thesis by (simp add: sample_cfg_def)
qed

end
