(* ===== verification/Verifier.thy ===== *)
theory Verifier
  imports Tnum Cfg_Build
begin

text \<open>
  The in-kernel verifier, \<open>kernel/merlin/verifier.c\<close>: abstract register values, the transfer
  function of one instruction, joins at block entries, the worklist, and the per-program-type
  configuration. Log messages are not modelled; memory allocation is taken to succeed. The counters
  \<open>steps\<close> and \<open>rejected\<close> are the 32-bit words of the code and wrap as they do.
\<close>

subsection \<open>Abstract values and states\<close>

datatype merlin_rval_kind =
    RVAL_UNINIT | RVAL_SCALAR | RVAL_PTR_CTX | RVAL_PTR_STACK | RVAL_PTR_HELPER_RET
  | RVAL_PTR_KFUNC_SLOT

record merlin_rval =
  kind :: merlin_rval_kind
  scal :: merlin_scalar
  off_min :: s64
  off_max :: s64
  helper_id :: u32

record merlin_vstate =
  xr :: "merlin_rval list"
  valid :: bool

record merlin_verifier_cfg =
  helper_allow :: "u8 list"
  kfunc_allow :: "u8 list"
  callback_allow :: "u8 list"
  max_stack_bytes :: u32
  allow_back_edges :: bool
  is_callback_body :: bool
  step_cap :: u32

datatype merlin_verify_result = MERLIN_VERIFY_OK | MERLIN_VERIFY_REJECT

abbreviation MERLIN_MAX_HELPER_ID :: u32 where "MERLIN_MAX_HELPER_ID \<equiv> 4095"
abbreviation MERLIN_MAX_KFUNC_ID :: u32 where "MERLIN_MAX_KFUNC_ID \<equiv> 4095"
abbreviation MERLIN_MAX_CB_ID :: u32 where "MERLIN_MAX_CB_ID \<equiv> 4095"
abbreviation MERLIN_HELPER_LOOP_BOUND :: u32 where "MERLIN_HELPER_LOOP_BOUND \<equiv> 0x142"
abbreviation MERLIN_HELPER_KFUNC_RESOLVE :: u32 where "MERLIN_HELPER_KFUNC_RESOLVE \<equiv> 0x143"
abbreviation MERLIN_HELPER_LOOP_CB :: u32 where "MERLIN_HELPER_LOOP_CB \<equiv> 0x144"
abbreviation MERLIN_VERIFY_STEP_CAP_DEFAULT :: u32 where "MERLIN_VERIFY_STEP_CAP_DEFAULT \<equiv> 0x100000"

text \<open>Designated initialisers leave the other fields zero.\<close>

definition rv_uninit :: merlin_rval where
  "rv_uninit =
     \<lparr>kind = RVAL_UNINIT, scal = \<lparr>smin = 0, smax = 0, umin = 0, umax = 0, tn = tnum_const 0\<rparr>,
      off_min = 0, off_max = 0, helper_id = 0\<rparr>"

definition rv_scalar :: "merlin_scalar \<Rightarrow> merlin_rval" where
  "rv_scalar s = rv_uninit\<lparr>kind := RVAL_SCALAR, scal := s\<rparr>"

definition rv_const :: "s64 \<Rightarrow> merlin_rval" where
  "rv_const v = rv_scalar (scalar_const v)"

definition rv_scalar_top :: merlin_rval where
  "rv_scalar_top = rv_scalar scalar_top"

definition rv_ptr :: "merlin_rval_kind \<Rightarrow> s64 \<Rightarrow> s64 \<Rightarrow> merlin_rval" where
  "rv_ptr k lo hi = rv_uninit\<lparr>kind := k, off_min := lo, off_max := hi\<rparr>"

definition rv_id :: "merlin_rval_kind \<Rightarrow> u32 \<Rightarrow> merlin_rval" where
  "rv_id k i = rv_uninit\<lparr>kind := k, helper_id := i\<rparr>"

definition vstate_init_entry :: "merlin_verifier_cfg \<Rightarrow> merlin_vstate" where
  "vstate_init_entry c =
     (let x0 = (replicate 32 rv_uninit)[0 := rv_const 0];
          x1 = (if is_callback_body c
                then x0[10 := rv_scalar \<lparr>smin = 0, smax = S64_MAX, umin = 0, umax = 0, tn = tnum_top\<rparr>,
                        11 := rv_ptr RVAL_PTR_CTX 0 0]
                else x0[10 := rv_ptr RVAL_PTR_CTX 0 0])
      in \<lparr>xr = x1[2 := rv_ptr RVAL_PTR_STACK 0 0], valid = True\<rparr>)"

definition rval_join :: "merlin_rval \<Rightarrow> merlin_rval \<Rightarrow> merlin_rval" where
  "rval_join a b =
     (if kind a = RVAL_UNINIT then b
      else if kind b = RVAL_UNINIT then a
      else if kind a \<noteq> kind b then rv_scalar_top
      else if kind a = RVAL_SCALAR then rv_scalar (scalar_join (scal a) (scal b))
      else if kind a = RVAL_PTR_HELPER_RET \<or> kind a = RVAL_PTR_KFUNC_SLOT then
        (if helper_id a \<noteq> helper_id b then rv_scalar_top else a)
      else a\<lparr>off_min := (if off_min a <s off_min b then off_min a else off_min b),
             off_max := (if off_max b <s off_max a then off_max a else off_max b)\<rparr>)"

definition rval_equal :: "merlin_rval \<Rightarrow> merlin_rval \<Rightarrow> bool" where
  "rval_equal a b \<longleftrightarrow>
     kind a = kind b \<and>
     (case kind a of
        RVAL_UNINIT \<Rightarrow> True
      | RVAL_SCALAR \<Rightarrow> scalar_equal (scal a) (scal b)
      | RVAL_PTR_HELPER_RET \<Rightarrow> helper_id a = helper_id b
      | RVAL_PTR_KFUNC_SLOT \<Rightarrow> helper_id a = helper_id b
      | _ \<Rightarrow> off_min a = off_min b \<and> off_max a = off_max b)"

definition join_reg :: "merlin_rval \<Rightarrow> merlin_rval \<Rightarrow> merlin_rval" where
  "join_reg d s = (let nv = rval_join d s in if rval_equal nv d then d else nv)"

definition vstate_join :: "merlin_vstate \<Rightarrow> merlin_vstate \<Rightarrow> merlin_vstate \<times> bool" where
  "vstate_join dst src =
     (if \<not> valid src then (dst, False)
      else if \<not> valid dst then (src, True)
      else (dst\<lparr>xr := map2 join_reg (xr dst) (xr src)\<rparr>,
            list_ex (\<lambda>(d, s). \<not> rval_equal (rval_join d s) d) (zip (xr dst) (xr src))))"

subsection \<open>Allow-lists\<close>

definition allow_get :: "u8 list \<Rightarrow> u32 \<Rightarrow> u32 \<Rightarrow> bool" where
  "allow_get bm max_id i =
     (if i > max_id then False
      else bm ! (unat i div 8) AND push_bit (unat i mod 8) 1 \<noteq> 0)"

definition helper_allowed :: "merlin_verifier_cfg \<Rightarrow> u32 \<Rightarrow> bool" where
  "helper_allowed c i = allow_get (helper_allow c) MERLIN_MAX_HELPER_ID i"

definition kfunc_allowed :: "merlin_verifier_cfg \<Rightarrow> u32 \<Rightarrow> bool" where
  "kfunc_allowed c i = allow_get (kfunc_allow c) MERLIN_MAX_KFUNC_ID i"

definition callback_allowed :: "merlin_verifier_cfg \<Rightarrow> u32 \<Rightarrow> bool" where
  "callback_allowed c i = allow_get (callback_allow c) MERLIN_MAX_CB_ID i"

definition ptr_kind :: "merlin_rval_kind \<Rightarrow> bool" where
  "ptr_kind k \<longleftrightarrow> k = RVAL_PTR_CTX \<or> k = RVAL_PTR_STACK \<or> k = RVAL_PTR_HELPER_RET"

fun ld_width :: "merlin_load_kind \<Rightarrow> nat" where
  "ld_width LD_LB = 1" | "ld_width LD_LBU = 1" | "ld_width LD_LH = 2" | "ld_width LD_LHU = 2"
| "ld_width LD_LW = 4" | "ld_width LD_LWU = 4" | "ld_width LD_LD = 8"

fun st_width :: "merlin_store_kind \<Rightarrow> nat" where
  "st_width ST_SB = 1" | "st_width ST_SH = 2" | "st_width ST_SW = 4" | "st_width ST_SD = 8"

subsection \<open>The transfer function\<close>

text \<open>What one block walk updates: the state, the rejection counter and the pending loop bound.\<close>

record vctx =
  vst :: merlin_vstate
  rejected :: u32
  pending :: u32

definition reg :: "vctx \<Rightarrow> nat \<Rightarrow> merlin_rval" where
  "reg v r = xr (vst v) ! r"

definition set_reg :: "nat \<Rightarrow> merlin_rval \<Rightarrow> vctx \<Rightarrow> vctx" where
  "set_reg r a v = v\<lparr>vst := (vst v)\<lparr>xr := (xr (vst v))[r := a]\<rparr>\<rparr>"

text \<open>A write through a guard \<open>rd != 0\<close>.\<close>

definition write_rd :: "nat \<Rightarrow> merlin_rval \<Rightarrow> vctx \<Rightarrow> vctx" where
  "write_rd r a v = (if r \<noteq> 0 then set_reg r a v else v)"

definition REJECT :: "vctx \<Rightarrow> vctx" where
  "REJECT v = v\<lparr>rejected := rejected v + 1\<rparr>"

definition reject_if :: "bool \<Rightarrow> vctx \<Rightarrow> vctx" where
  "reject_if p v = (if p then REJECT v else v)"

definition reject_sp :: "vctx \<Rightarrow> vctx" where
  "reject_sp v = set_reg 2 rv_scalar_top (REJECT v)"

definition clobber :: "nat list \<Rightarrow> vctx \<Rightarrow> vctx" where
  "clobber rs v = foldl (\<lambda>v r. set_reg r rv_uninit v) v rs"

definition caller_saved :: "nat list" where
  "caller_saved = [11..<18] @ [5..<8] @ [28..<32]"

definition const_scalar :: "merlin_rval \<Rightarrow> bool" where
  "const_scalar a \<longleftrightarrow> kind a = RVAL_SCALAR \<and> scalar_is_const (scal a)"

definition const_u32 :: "merlin_rval \<Rightarrow> u32" where
  "const_u32 a = ucast (tn_value (tn (scal a)))"

definition step_kfunc_resolve :: "merlin_verifier_cfg \<Rightarrow> vctx \<Rightarrow> vctx" where
  "step_kfunc_resolve c v =
     (let a0 = reg v 10 in
      if const_scalar a0 \<and> kfunc_allowed c (const_u32 a0)
      then set_reg 10 (rv_id RVAL_PTR_KFUNC_SLOT (const_u32 a0)) (clobber caller_saved v)
      else clobber caller_saved (set_reg 10 rv_scalar_top (REJECT v)))"

definition step_loop_cb :: "merlin_verifier_cfg \<Rightarrow> vctx \<Rightarrow> vctx" where
  "step_loop_cb c v =
     (let a0 = reg v 10; a1 = reg v 11;
          v1 = (if \<not> const_scalar a0 \<or> smin (scal a0) <s 1 then REJECT v
                else if \<not> const_scalar a1 then REJECT v
                else if \<not> callback_allowed c (const_u32 a1) then REJECT v
                else v\<lparr>pending := const_u32 a0\<rparr>)
      in set_reg 10 rv_scalar_top (clobber (10 # caller_saved) v1))"

definition step_ecall :: "merlin_verifier_cfg \<Rightarrow> vctx \<Rightarrow> vctx" where
  "step_ecall c v =
     (let a7 = reg v 17; hid = const_u32 a7 in
      if \<not> const_scalar a7 then set_reg 10 rv_scalar_top (REJECT v)
      else if \<not> helper_allowed c hid then set_reg 10 rv_scalar_top (REJECT v)
      else
        let v1 = (if hid = MERLIN_HELPER_LOOP_BOUND
                  then v\<lparr>pending := (if const_scalar (reg v 10) then const_u32 (reg v 10) else 0xffffffff)\<rparr>
                  else v)
        in if hid = MERLIN_HELPER_KFUNC_RESOLVE then step_kfunc_resolve c v1
           else if hid = MERLIN_HELPER_LOOP_CB then step_loop_cb c v1
           else clobber caller_saved (set_reg 10 (rv_id RVAL_PTR_HELPER_RET hid) v1))"

definition stack_oob :: "merlin_verifier_cfg \<Rightarrow> merlin_rval \<Rightarrow> s64 \<Rightarrow> nat \<Rightarrow> bool" where
  "stack_oob c a i w =
     (let lo = off_min a + i; hi = off_max a + i; budget = ucast (max_stack_bytes c)
      in lo <s - budget \<or> 0 <s hi + of_nat w)"

definition mem_check :: "merlin_verifier_cfg \<Rightarrow> merlin_rval \<Rightarrow> s64 \<Rightarrow> nat \<Rightarrow> vctx \<Rightarrow> vctx" where
  "mem_check c a i w v =
     (if \<not> ptr_kind (kind a) then REJECT v
      else if kind a = RVAL_PTR_STACK then reject_if (stack_oob c a i w) v
      else v)"

definition step_load :: "merlin_verifier_cfg \<Rightarrow> merlin_insn \<Rightarrow> vctx \<Rightarrow> vctx" where
  "step_load c i v =
     (let v1 = mem_check c (reg v (rs1 i)) (imm i) (ld_width (ld_kind i)) v
      in if rd i = 2 then reject_sp v1 else write_rd (rd i) rv_scalar_top v1)"

definition step_store :: "merlin_verifier_cfg \<Rightarrow> merlin_insn \<Rightarrow> vctx \<Rightarrow> vctx" where
  "step_store c i v = mem_check c (reg v (rs1 i)) (imm i) (st_width (st_kind i)) v"

definition step_addi_ptr :: "merlin_verifier_cfg \<Rightarrow> merlin_insn \<Rightarrow> merlin_rval \<Rightarrow> vctx \<Rightarrow> vctx" where
  "step_addi_ptr c i src v =
     (if rd i = 0 then v
      else let r = src\<lparr>off_min := off_min src + imm i, off_max := off_max src + imm i\<rparr>;
               budget = ucast (max_stack_bytes c);
               sp_write = (rd i = 2 \<and> kind src = RVAL_PTR_STACK);
               v1 = reject_if (sp_write \<and> off_min r <s - budget) v;
               v2 = reject_if (sp_write \<and> 0 <s off_max r) v1
           in set_reg (rd i) r v2)"

definition step_addi :: "merlin_verifier_cfg \<Rightarrow> merlin_insn \<Rightarrow> vctx \<Rightarrow> vctx" where
  "step_addi c i v =
     (let src = reg v (rs1 i) in
      if rs1 i = 0 then
        (if rd i = 2 then reject_sp v else write_rd (rd i) (rv_const (imm i)) v)
      else if rd i = 2 \<and> rs1 i \<noteq> 2 then reject_sp v
      else if kind src = RVAL_SCALAR then
        (if rd i = 2 then reject_sp v
         else write_rd (rd i) (rv_scalar (scalar_add (scal src) (scalar_const (imm i)))) v)
      else if kind src = RVAL_PTR_CTX \<or> kind src = RVAL_PTR_STACK then step_addi_ptr c i src v
      else if rd i = 2 then reject_sp v
      else write_rd (rd i) rv_scalar_top v)"

definition step_alu_imm :: "merlin_verifier_cfg \<Rightarrow> merlin_insn \<Rightarrow> vctx \<Rightarrow> vctx" where
  "step_alu_imm c i v =
     (if alu_op i = ALU_ADD then step_addi c i v
      else if rd i = 2 then reject_sp v
      else write_rd (rd i) rv_scalar_top v)"

definition step_upper :: "merlin_insn \<Rightarrow> merlin_rval \<Rightarrow> vctx \<Rightarrow> vctx" where
  "step_upper i a v = (if rd i = 2 then reject_sp v else write_rd (rd i) a v)"

definition step_alu_reg :: "merlin_insn \<Rightarrow> vctx \<Rightarrow> vctx" where
  "step_alu_reg i v =
     (let p1 = ptr_kind (kind (reg v (rs1 i))); p2 = ptr_kind (kind (reg v (rs2 i)));
          v1 = reject_if (p1 \<and> p2) v
      in if rd i = 2 then reject_sp v1
         else if p1 \<or> p2 then
           (let p = (if p1 then reg v (rs1 i) else reg v (rs2 i))
            in write_rd (rd i) (p\<lparr>off_min := - (2 ^ 30), off_max := 2 ^ 30\<rparr>) v1)
         else write_rd (rd i) rv_scalar_top v1)"

definition step_control :: "merlin_verifier_cfg \<Rightarrow> merlin_insn \<Rightarrow> vctx \<Rightarrow> vctx" where
  "step_control c i v =
     (if cls i = INSN_JAL \<and> rd i = 2 then reject_sp v
      else
        let v1 = (if cls i = INSN_JAL then write_rd (rd i) rv_scalar_top v else v);
            tgt = reg v1 (rs1 i);
            is_ret = (rs1 i = 1);
            is_kfunc = (kind tgt = RVAL_PTR_KFUNC_SLOT \<and> kfunc_allowed c (helper_id tgt))
        in if cls i = INSN_JALR then reject_if (\<not> is_ret \<and> \<not> is_kfunc) v1 else v1)"

definition step_insn :: "merlin_verifier_cfg \<Rightarrow> merlin_insn \<Rightarrow> vctx \<Rightarrow> vctx" where
  "step_insn c i v =
     (if \<not> merlin_insn_permitted_default i then REJECT v
      else case cls i of
        INSN_ECALL \<Rightarrow> step_ecall c v
      | INSN_LOAD \<Rightarrow> step_load c i v
      | INSN_STORE \<Rightarrow> step_store c i v
      | INSN_ALU_IMM \<Rightarrow> step_alu_imm c i v
      | INSN_LUI \<Rightarrow> step_upper i (rv_const (imm i)) v
      | INSN_AUIPC \<Rightarrow> step_upper i rv_scalar_top v
      | INSN_ALU_REG \<Rightarrow> step_alu_reg i v
      | INSN_BRANCH \<Rightarrow> step_control c i v
      | INSN_JAL \<Rightarrow> step_control c i v
      | INSN_JALR \<Rightarrow> step_control c i v
      | _ \<Rightarrow> write_rd (rd i) rv_scalar_top v)"

subsection \<open>The worklist\<close>

definition ws_push :: "nat \<Rightarrow> nat \<Rightarrow> nat list \<Rightarrow> nat list" where
  "ws_push cap b q = (if b \<in> set q then q else if length q < cap then b # q else q)"

text \<open>The byte offsets of the instructions of a block, in the order of the walk.\<close>

definition block_offsets :: "nat \<Rightarrow> u32 \<Rightarrow> merlin_block \<Rightarrow> nat list" where
  "block_offsets text_size text_offset b =
     takeWhile (\<lambda>off. off \<le> unat (end_pc b - text_offset) \<and> off < text_size)
       (map (\<lambda>k. unat (start_pc b - text_offset) + 4 * k) [0..<Suc (text_size div 4)])"

text \<open>The walk of one block; the flag is the jump to \<open>finalize\<close> when the step cap is exceeded.\<close>

fun walk :: "merlin_verifier_cfg \<Rightarrow> u8 list \<Rightarrow> u32 \<Rightarrow> nat list \<Rightarrow> u32 \<Rightarrow> vctx \<Rightarrow> bool \<times> u32 \<times> vctx" where
  "walk c text cap [] steps v = (False, steps, v)"
| "walk c text cap (off # offs) steps v =
     (case insn_at text off of
        None \<Rightarrow> walk c text cap offs steps (REJECT v)
      | Some i \<Rightarrow>
          if steps + 1 > cap then (True, steps + 1, REJECT v)
          else walk c text cap offs (steps + 1) (step_insn c i v))"

record vrun =
  entry_state :: "merlin_vstate list"
  loop_header_ok :: "bool list"
  queue :: "nat list"
  nsteps :: u32
  nrejected :: u32

definition vstate_zero :: merlin_vstate where
  "vstate_zero = \<lparr>xr = replicate 32 rv_uninit, valid = False\<rparr>"

definition join_succ :: "nat \<Rightarrow> merlin_vstate \<Rightarrow> vrun \<Rightarrow> nat \<Rightarrow> vrun" where
  "join_succ cap st g n =
     (let (dst, changed) = vstate_join (entry_state g ! n) st
      in g\<lparr>entry_state := (entry_state g)[n := dst],
           queue := (if changed then ws_push cap n (queue g) else queue g)\<rparr>)"

definition mark_header :: "merlin_block \<Rightarrow> u32 \<Rightarrow> vrun \<Rightarrow> vrun" where
  "mark_header b p g =
     (case succ0 b of
        Some n \<Rightarrow> if p \<noteq> 0 then g\<lparr>loop_header_ok := (loop_header_ok g)[n := True]\<rparr> else g
      | None \<Rightarrow> g)"

text \<open>One iteration for the popped block \<open>i\<close>: \<open>Inl\<close> is the jump to \<open>finalize\<close>.\<close>

definition visit :: "merlin_verifier_cfg \<Rightarrow> u8 list \<Rightarrow> u32 \<Rightarrow> u32 \<Rightarrow> merlin_block list \<Rightarrow> nat \<Rightarrow> vrun \<Rightarrow> u32 + vrun" where
  "visit c text text_offset cap bs i g =
     (if \<not> valid (entry_state g ! i) then Inr g
      else
        case walk c text cap (block_offsets (length text) text_offset (bs ! i)) (nsteps g)
               \<lparr>vst = entry_state g ! i, rejected = nrejected g, pending = 0\<rparr> of
          (True, _, v) \<Rightarrow> Inl (rejected v)
        | (False, steps, v) \<Rightarrow>
            Inr (foldl (join_succ (length bs) (vst v))
                   (mark_header (bs ! i) (pending v) (g\<lparr>nsteps := steps, nrejected := rejected v\<rparr>))
                   (succs (bs ! i))))"

partial_function (option) worklist :: "merlin_verifier_cfg \<Rightarrow> u8 list \<Rightarrow> u32 \<Rightarrow> u32 \<Rightarrow> merlin_block list \<Rightarrow>
    vrun \<Rightarrow> (u32 + vrun) option" where
  "worklist c text text_offset cap bs g =
     (case queue g of
        [] \<Rightarrow> Some (Inr g)
      | i # q \<Rightarrow>
          (case visit c text text_offset cap bs i (g\<lparr>queue := q\<rparr>) of
             Inl r \<Rightarrow> Some (Inl r)
           | Inr g' \<Rightarrow> worklist c text text_offset cap bs g'))"

declare worklist.simps [code]

definition unguarded :: "(nat \<times> nat) list \<Rightarrow> bool list \<Rightarrow> nat" where
  "unguarded es ok = length (filter (\<lambda>(src, dst). \<not> ok ! dst) es)"

definition initial_run :: "merlin_verifier_cfg \<Rightarrow> nat \<Rightarrow> vrun" where
  "initial_run c n =
     \<lparr>entry_state = (replicate n vstate_zero)[0 := vstate_init_entry c],
      loop_header_ok = replicate n False, queue = ws_push n 0 [], nsteps = 0, nrejected = 0\<rparr>"

definition verdict :: "u32 \<Rightarrow> merlin_verify_result" where
  "verdict rej = (if rej \<noteq> 0 then MERLIN_VERIFY_REJECT else MERLIN_VERIFY_OK)"

definition effective_cap :: "merlin_verifier_cfg \<Rightarrow> u32" where
  "effective_cap c = (if step_cap c \<noteq> 0 then step_cap c else MERLIN_VERIFY_STEP_CAP_DEFAULT)"

text \<open>
  \<^const>\<open>None\<close> is a call that gives no verdict: a loop that does not return, or, for a program without
  blocks, the store of the entry state into the zero-size allocation.
\<close>

definition merlin_verify_text :: "merlin_verifier_cfg \<Rightarrow> u8 list \<Rightarrow> u32 \<Rightarrow> merlin_verify_result option" where
  "merlin_verify_text c text text_offset =
     (if length text mod 4 \<noteq> 0 then Some MERLIN_VERIFY_REJECT
      else case merlin_cfg_build text text_offset of
        None \<Rightarrow> None
      | Some (Inl e) \<Rightarrow> Some MERLIN_VERIFY_REJECT
      | Some (Inr G) \<Rightarrow>
          if blocks G = [] then None
          else
            (case worklist c text text_offset (effective_cap c) (blocks G)
                    (initial_run c (length (blocks G))) of
               None \<Rightarrow> None
             | Some (Inl r) \<Rightarrow> Some (verdict r)
             | Some (Inr g) \<Rightarrow>
                 Some (verdict (nrejected g + of_nat (unguarded (back_edges G) (loop_header_ok g))))))"

subsection \<open>The configuration of a program type\<close>

abbreviation MERLIN_PROG_TYPE_XDP_V :: u32 where "MERLIN_PROG_TYPE_XDP_V \<equiv> 5"
abbreviation MERLIN_PROG_TYPE_TC_V :: u32 where "MERLIN_PROG_TYPE_TC_V \<equiv> 6"
abbreviation MERLIN_PROG_TYPE_MVDP :: u32 where "MERLIN_PROG_TYPE_MVDP \<equiv> 7"
abbreviation MERLIN_F_SLEEPABLE :: u32 where "MERLIN_F_SLEEPABLE \<equiv> 0x10"
abbreviation MERLIN_STACK_SIZE_DEFAULT :: u32 where "MERLIN_STACK_SIZE_DEFAULT \<equiv> 512"
abbreviation MERLIN_STACK_SIZE_SLEEPABLE :: u32 where "MERLIN_STACK_SIZE_SLEEPABLE \<equiv> 8192"

definition allow_set :: "u8 list \<Rightarrow> nat \<Rightarrow> u8 list" where
  "allow_set bm i = bm[i div 8 := bm ! (i div 8) OR push_bit (i mod 8) 1]"

definition merlin_verifier_cfg_for_prog :: "u32 \<Rightarrow> u32 \<Rightarrow> merlin_verifier_cfg" where
  "merlin_verifier_cfg_for_prog prog_type prog_flags =
     (let zeros = replicate 512 0;
          always = foldl allow_set zeros [0x142, 0x143, 0x144];
          net = (prog_type = MERLIN_PROG_TYPE_XDP_V \<or> prog_type = MERLIN_PROG_TYPE_TC_V \<or>
                 prog_type = MERLIN_PROG_TYPE_MVDP)
      in \<lparr>helper_allow = (if net then allow_set always 1 else always),
          kfunc_allow = (if net then foldl allow_set zeros [1, 2, 3] else zeros),
          callback_allow = (if net then allow_set zeros 1 else zeros),
          max_stack_bytes = (if prog_flags AND MERLIN_F_SLEEPABLE \<noteq> 0 then MERLIN_STACK_SIZE_SLEEPABLE
                             else MERLIN_STACK_SIZE_DEFAULT),
          allow_back_edges = True, is_callback_body = False,
          step_cap = MERLIN_VERIFY_STEP_CAP_DEFAULT\<rparr>)"

end
