(* ===== verification/Verifier_Joins.thy ===== *)
theory Verifier_Joins
  imports Verifier
begin

text \<open>
  The laws of the joins at block entries (\<open>rval_join\<close>, \<open>rval_equal\<close>, \<open>vstate_join\<close> of
  \<open>kernel/merlin/verifier.c\<close>): a state that covers another keeps covering it when it is joined
  further, so one unchanged join is a certificate that later joins cannot undo.
\<close>

subsection \<open>Scalars\<close>

lemma tnum_join_mask_bit: "bit (tn_mask (tnum_join a b)) n \<longleftrightarrow>
    bit (tn_mask a) n \<or> bit (tn_mask b) n \<or> bit (tn_value a) n \<noteq> bit (tn_value b) n"
  by (simp add: tnum_join_def Let_def bit_or_iff bit_xor_iff)

lemma tnum_join_value_bit: "bit (tn_value (tnum_join a b)) n \<longleftrightarrow>
    bit (tn_value a) n \<and> bit (tn_value b) n \<and> \<not> bit (tn_mask a) n \<and> \<not> bit (tn_mask b) n"
  by (auto simp: tnum_join_def Let_def bit_or_iff bit_xor_iff bit_and_iff bit_not_iff dest: bit_imp_le_length)

lemma tnum_eqI:
  assumes "\<And>n. bit (tn_mask a) n = bit (tn_mask b) n" and "\<And>n. bit (tn_value a) n = bit (tn_value b) n"
  shows "a = (b :: merlin_tnum)"
  using assms by (cases a, cases b) (auto intro: bit_eqI)

lemma tnum_join_assoc: "tnum_join (tnum_join a b) c = tnum_join a (tnum_join b c)"
  by (rule tnum_eqI) (auto simp: tnum_join_mask_bit tnum_join_value_bit)

lemma tnum_join_absorb: "tnum_join (tnum_join a b) b = tnum_join a b"
  by (rule tnum_eqI) (auto simp: tnum_join_mask_bit tnum_join_value_bit)

lemma tnum_join_idem: "tnum_wf a \<Longrightarrow> tnum_join a a = a"
  by (rule tnum_eqI) (auto simp: tnum_join_mask_bit tnum_join_value_bit tnum_wf_iff)

lemma tnum_join_top [simp]: "tnum_join tnum_top b = tnum_top"
  by (simp add: tnum_join_def tnum_top_def Let_def)

definition smin_of :: "s64 \<Rightarrow> s64 \<Rightarrow> s64" where
  "smin_of a b = (if a <s b then a else b)"

definition smax_of :: "s64 \<Rightarrow> s64 \<Rightarrow> s64" where
  "smax_of a b = (if b <s a then a else b)"

lemma sint_smin_of: "sint (smin_of a b) = min (sint a) (sint b)"
  by (simp add: smin_of_def word_sless_alt)

lemma sint_smax_of: "sint (smax_of a b) = max (sint a) (sint b)"
  by (simp add: smax_of_def word_sless_alt)

lemma sint_eqI: "sint a = sint b \<Longrightarrow> a = b" for a b :: "'a::len word"
  by (metis signed_word_eqI)

lemma signed_pick_laws:
  "smin_of (smin_of a b) c = smin_of a (smin_of b c)" "smax_of (smax_of a b) c = smax_of a (smax_of b c)"
  "smin_of (smin_of a b) b = smin_of a b" "smax_of (smax_of a b) b = smax_of a b"
  "smin_of a a = a" "smax_of a a = a" "smin_of S64_MIN b = S64_MIN" "smax_of S64_MAX b = S64_MAX"
  "smin_of a b = smin_of b a" "smax_of a b = smax_of b a"
  using sint_ge [of b] sint_lt [of b]
  by (auto intro!: sint_eqI simp: sint_smin_of sint_smax_of min.assoc max.assoc min.commute max.commute)

lemma scalar_join_eq:
  "scalar_join a b =
     \<lparr>smin = smin_of (smin a) (smin b), smax = smax_of (smax a) (smax b),
      umin = min (umin a) (umin b), umax = max (umax a) (umax b), tn = tnum_join (tn a) (tn b)\<rparr>"
  by (auto simp: scalar_join_def smin_of_def smax_of_def)

lemma scalar_join_assoc: "scalar_join (scalar_join a b) c = scalar_join a (scalar_join b c)"
  by (simp add: scalar_join_eq tnum_join_assoc signed_pick_laws(1,2) min.assoc max.assoc)

lemma scalar_join_absorb: "scalar_join (scalar_join a b) b = scalar_join a b"
  by (simp add: scalar_join_eq tnum_join_absorb signed_pick_laws(3,4) min.assoc max.assoc)

lemma scalar_join_idem: "tnum_wf (tn a) \<Longrightarrow> scalar_join a a = a"
  by (simp add: scalar_join_eq tnum_join_idem signed_pick_laws)

lemma scalar_join_keeps: "scalar_join d s = d \<Longrightarrow> scalar_join (scalar_join d t) s = scalar_join d t"
  by (metis scalar_join_assoc scalar_join_commute)

lemma scalar_join_top [simp]: "scalar_join scalar_top b = scalar_top" "scalar_join b scalar_top = scalar_top"
proof -
  show "scalar_join scalar_top b = scalar_top"
    by (simp add: scalar_join_eq scalar_top_def signed_pick_laws(7,8) max_absorb1)
  then show "scalar_join b scalar_top = scalar_top" by (metis scalar_join_commute)
qed

subsection \<open>Register values\<close>

text \<open>\<open>covered s d\<close>: joining \<open>s\<close> into \<open>d\<close> leaves \<open>d\<close> unchanged, the test of \<open>vstate_join\<close>.\<close>

definition covered :: "merlin_rval \<Rightarrow> merlin_rval \<Rightarrow> bool" where
  "covered s d \<longleftrightarrow> rval_equal (rval_join d s) d"

definition rval_wf :: "merlin_rval \<Rightarrow> bool" where
  "rval_wf a \<longleftrightarrow> tnum_wf (tn (scal a))"

lemma kind_simps [simp]:
  "kind rv_uninit = RVAL_UNINIT" "kind (rv_scalar s) = RVAL_SCALAR" "scal (rv_scalar s) = s"
  "kind rv_scalar_top = RVAL_SCALAR" "scal rv_scalar_top = scalar_top"
  "kind (rv_ptr k lo hi) = k" "kind (rv_id k j) = k" "helper_id (rv_id k j) = j"
  "off_min (rv_ptr k lo hi) = lo" "off_max (rv_ptr k lo hi) = hi"
  by (simp_all add: rv_uninit_def rv_scalar_def rv_scalar_top_def rv_ptr_def rv_id_def)

lemma covered_iff:
  "covered s d \<longleftrightarrow>
     (if kind s = RVAL_UNINIT then True
      else if kind d = RVAL_SCALAR then
        (if kind s = RVAL_SCALAR then scalar_join (scal d) (scal s) = scal d else scal d = scalar_top)
      else kind s = kind d \<and>
        (if kind d = RVAL_PTR_HELPER_RET \<or> kind d = RVAL_PTR_KFUNC_SLOT then helper_id d = helper_id s
         else smin_of (off_min d) (off_min s) = off_min d \<and> smax_of (off_max d) (off_max s) = off_max d))"
  by (cases "kind s"; cases "kind d")
    (auto simp: covered_def rval_join_def rval_equal_def smin_of_def smax_of_def split: if_splits)

lemma covered_refl: "rval_wf a \<Longrightarrow> covered a a"
  by (auto simp: covered_iff rval_wf_def scalar_join_idem signed_pick_laws)

lemma smin_keeps: "smin_of d s = d \<Longrightarrow> smin_of (smin_of d t) s = smin_of d t"
  by (metis signed_pick_laws(1,9))

lemma smax_keeps: "smax_of d s = d \<Longrightarrow> smax_of (smax_of d t) s = smax_of d t"
  by (metis signed_pick_laws(2,10))

lemma rval_join_eq:
  "rval_join d s =
     (if kind d = RVAL_UNINIT then s else if kind s = RVAL_UNINIT then d
      else if kind d \<noteq> kind s then rv_scalar_top
      else if kind d = RVAL_SCALAR then rv_scalar (scalar_join (scal d) (scal s))
      else if kind d = RVAL_PTR_HELPER_RET \<or> kind d = RVAL_PTR_KFUNC_SLOT then
        (if helper_id d = helper_id s then d else rv_scalar_top)
      else d\<lparr>off_min := smin_of (off_min d) (off_min s), off_max := smax_of (off_max d) (off_max s)\<rparr>)"
  by (simp add: rval_join_def smin_of_def smax_of_def)

lemma covered_rval_join: "rval_wf s \<Longrightarrow> covered s (rval_join d s)"
  by (cases "kind s"; cases "kind d")
    (auto simp: rval_join_eq covered_iff scalar_join_absorb signed_pick_laws(3,4) rval_wf_def
      scalar_join_idem signed_pick_laws(5,6))

lemma covered_rval_keeps: "covered s d \<Longrightarrow> covered s (rval_join d t)"
  by (cases "kind s"; cases "kind d"; cases "kind t")
    (auto simp: rval_join_eq covered_iff scalar_join_keeps smin_keeps smax_keeps split: if_splits)

lemma join_reg_covers: "rval_wf s \<Longrightarrow> covered s (join_reg d s)"
  using covered_rval_join [of s d] by (simp add: join_reg_def covered_def Let_def)

lemma join_reg_keeps: "covered s d \<Longrightarrow> covered s (join_reg d t)"
  using covered_rval_keeps [of s d t] by (simp add: join_reg_def covered_def Let_def)

lemma scalar_add_wf: "tnum_wf (tn (scalar_add a b))"
  by (auto simp: scalar_add_def Let_def tnum_wf_iff tnum_add_def bit_and_iff bit_not_iff bit_or_iff)

lemma rval_join_wf: "rval_wf d \<Longrightarrow> rval_wf s \<Longrightarrow> rval_wf (rval_join d s)"
  by (simp add: rval_join_def rval_wf_def scalar_join_eq rv_scalar_top_def scalar_top_def)

lemma join_reg_wf: "rval_wf d \<Longrightarrow> rval_wf s \<Longrightarrow> rval_wf (join_reg d s)"
  by (simp add: join_reg_def Let_def rval_join_wf)

subsection \<open>States\<close>

text \<open>The type invariant of a state: 32 registers, canonical tristate numbers, \<open>x0\<close> the constant 0.\<close>

definition state_ok :: "merlin_vstate \<Rightarrow> bool" where
  "state_ok s \<longleftrightarrow> length (xr s) = 32 \<and> (\<forall>a \<in> set (xr s). rval_wf a) \<and> (valid s \<longrightarrow> xr s ! 0 = rv_const 0)"

definition state_covered :: "merlin_vstate \<Rightarrow> merlin_vstate \<Rightarrow> bool" where
  "state_covered s d \<longleftrightarrow> (valid s \<longrightarrow> valid d \<and> list_all2 covered (xr s) (xr d))"

text \<open>
  The interface of an accumulating join: what is joined in is covered, and what was covered stays
  covered under further joins.
\<close>

locale accumulating =
  fixes ok :: "'a \<Rightarrow> bool"
    and covers :: "'a \<Rightarrow> 'a \<Rightarrow> bool"
    and upd :: "'a \<Rightarrow> 'a \<Rightarrow> 'a"
  assumes upd_ok: "ok d \<Longrightarrow> ok s \<Longrightarrow> ok (upd d s)"
    and upd_covers: "ok d \<Longrightarrow> ok s \<Longrightarrow> covers s (upd d s)"
    and upd_keeps: "ok d \<Longrightarrow> ok s \<Longrightarrow> ok t \<Longrightarrow> covers s d \<Longrightarrow> covers s (upd d t)"
begin

lemma fold_ok: "ok d \<Longrightarrow> \<forall>t \<in> set ts. ok t \<Longrightarrow> ok (foldl upd d ts)"
  by (induction ts arbitrary: d) (auto simp: upd_ok)

lemma fold_keeps: "ok d \<Longrightarrow> ok s \<Longrightarrow> \<forall>t \<in> set ts. ok t \<Longrightarrow> covers s d \<Longrightarrow> covers s (foldl upd d ts)"
  by (induction ts arbitrary: d) (auto simp: upd_ok upd_keeps)

lemma fold_covers: "ok d \<Longrightarrow> \<forall>t \<in> set ts. ok t \<Longrightarrow> s \<in> set ts \<Longrightarrow> covers s (foldl upd d ts)"
  by (induction ts arbitrary: d) (auto simp: upd_ok upd_covers fold_keeps)

end

interpretation reg_join: accumulating rval_wf covered join_reg
  by unfold_locales (auto simp: join_reg_wf join_reg_covers join_reg_keeps)

lemma join_reg_const: "join_reg (rv_const v) (rv_const v) = rv_const v"
  by (auto simp: join_reg_def rval_join_def rv_const_def rval_equal_def scalar_join_idem scalar_const_def Let_def)

lemma set_map2_wf:
  "\<forall>a \<in> set xs. rval_wf a \<Longrightarrow> \<forall>a \<in> set ys. rval_wf a \<Longrightarrow> \<forall>a \<in> set (map2 join_reg xs ys). rval_wf a"
  by (auto intro!: join_reg_wf dest: set_zip_leftD set_zip_rightD)

lemma map2_covers:
  assumes "length xs = length ys" and "\<forall>a \<in> set ys. rval_wf a"
  shows "list_all2 covered ys (map2 join_reg xs ys)"
  using assms by (induction xs ys rule: list_induct2) (auto simp: join_reg_covers)

lemma map2_keeps:
  assumes "list_all2 covered ss xs" and "length xs = length ys"
  shows "list_all2 covered ss (map2 join_reg xs ys)"
  using assms
proof (induction ss xs arbitrary: ys rule: list_all2_induct)
  case (Cons s ss x xs)
  then show ?case by (cases ys) (auto simp: join_reg_keeps)
qed simp

interpretation state_join: accumulating state_ok state_covered "\<lambda>d s. fst (vstate_join d s)"
proof
  fix d s t :: merlin_vstate
  assume d: "state_ok d" and s: "state_ok s"
  show "state_ok (fst (vstate_join d s))"
    using d s set_map2_wf [of "xr d" "xr s"]
    by (auto simp: vstate_join_def state_ok_def join_reg_const)
  show "state_covered s (fst (vstate_join d s))"
    using d s map2_covers [of "xr d" "xr s"]
    by (auto simp: vstate_join_def state_ok_def state_covered_def list_all2_same intro: covered_refl)
  show "state_covered s (fst (vstate_join d t))" if "state_ok t" "state_covered s d"
    using d s that map2_keeps [of "xr s" "xr d" "xr t"]
    by (auto simp: vstate_join_def state_ok_def state_covered_def)
qed

lemma vstate_join_unchanged:
  assumes "state_ok d" and "state_ok s"
  shows "snd (vstate_join d s) \<longleftrightarrow> \<not> state_covered s d"
  using assms
  by (auto simp: vstate_join_def state_ok_def state_covered_def list_ex_iff list_all2_conv_all_nth
      covered_def set_zip)

end
