(* ===== verification/Verifier_Step.thy ===== *)
theory Verifier_Step
  imports Verifier_Joins
begin

text \<open>
  The transfer function \<open>step_insn\<close> and the walk over one block (\<open>kernel/merlin/verifier.c\<close>): the
  type invariant of states, how far the rejection counter can rise, and that the abstract state does
  not depend on it.
\<close>

subsection \<open>Rejections do not influence the state\<close>

definition bump :: "u32 \<Rightarrow> vctx \<Rightarrow> vctx" where
  "bump n v = v\<lparr>rejected := rejected v + n\<rparr>"

named_theorems vstep

lemma bump_ops [vstep]:
  "reg (bump n v) r = reg v r" "set_reg r a (bump n v) = bump n (set_reg r a v)"
  "REJECT (bump n v) = bump n (REJECT v)" "reject_if p (bump n v) = bump n (reject_if p v)"
  "reject_sp (bump n v) = bump n (reject_sp v)" "write_rd r a (bump n v) = bump n (write_rd r a v)"
  "(bump n v)\<lparr>pending := l\<rparr> = bump n (v\<lparr>pending := l\<rparr>)"
  by (simp_all add: bump_def reg_def set_reg_def REJECT_def reject_if_def reject_sp_def write_rd_def)

lemma clobber_bump [vstep]: "clobber rs (bump n v) = bump n (clobber rs v)"
  by (induction rs arbitrary: v) (simp_all add: clobber_def vstep)

lemma step_mem_bump [vstep]:
  "mem_check c a i w (bump n v) = bump n (mem_check c a i w v)"
  "step_load c ins (bump n v) = bump n (step_load c ins v)"
  "step_store c ins (bump n v) = bump n (step_store c ins v)"
  by (simp_all add: mem_check_def step_load_def step_store_def vstep)

lemma step_alu_bump [vstep]:
  "step_addi_ptr c ins src (bump n v) = bump n (step_addi_ptr c ins src v)"
  "step_addi c ins (bump n v) = bump n (step_addi c ins v)"
  "step_alu_imm c ins (bump n v) = bump n (step_alu_imm c ins v)"
  "step_upper ins a (bump n v) = bump n (step_upper ins a v)"
  "step_alu_reg ins (bump n v) = bump n (step_alu_reg ins v)"
  "step_control c ins (bump n v) = bump n (step_control c ins v)"
  by (simp_all add: step_addi_ptr_def step_addi_def step_alu_imm_def step_upper_def step_alu_reg_def
      step_control_def vstep Let_def)

lemma step_call_bump [vstep]:
  "step_kfunc_resolve c (bump n v) = bump n (step_kfunc_resolve c v)"
  "step_loop_cb c (bump n v) = bump n (step_loop_cb c v)"
  "step_ecall c (bump n v) = bump n (step_ecall c v)"
proof -
  show kf: "step_kfunc_resolve c (bump n v) = bump n (step_kfunc_resolve c v)" for v
    by (simp add: step_kfunc_resolve_def vstep Let_def)
  show cb: "step_loop_cb c (bump n v) = bump n (step_loop_cb c v)" for v
    by (simp add: step_loop_cb_def vstep Let_def)
  show "step_ecall c (bump n v) = bump n (step_ecall c v)"
    by (simp add: step_ecall_def vstep kf cb Let_def)
qed

lemma step_insn_bump: "step_insn c i (bump n v) = bump n (step_insn c i v)"
  by (cases "cls i") (simp_all add: step_insn_def vstep)

subsection \<open>The rejection counter\<close>

text \<open>\<open>rises n v w\<close>: between \<open>v\<close> and \<open>w\<close> at most \<open>n\<close> rejections are counted.\<close>

definition rises :: "nat \<Rightarrow> vctx \<Rightarrow> vctx \<Rightarrow> bool" where
  "rises n v w \<longleftrightarrow> (\<exists>k \<le> n. rejected w = rejected v + of_nat k)"

lemma rises_refl: "rises n v v"
  unfolding rises_def by (intro exI [of _ 0]) simp

lemma rises_trans: "rises m u v \<Longrightarrow> rises n v w \<Longrightarrow> rises (m + n) u w"
proof -
  assume "rises m u v" "rises n v w"
  then obtain k l where "k \<le> m" "rejected v = rejected u + of_nat k" "l \<le> n" "rejected w = rejected v + of_nat l"
    by (auto simp: rises_def)
  then show ?thesis unfolding rises_def by (intro exI [of _ "k + l"]) simp
qed

lemma rises_mono: "rises m u v \<Longrightarrow> m \<le> n \<Longrightarrow> rises n u v"
  unfolding rises_def by (meson order_trans)

lemma rejected_ops [simp]:
  "rejected (set_reg r a v) = rejected v" "rejected (write_rd r a v) = rejected v"
  "rejected (v\<lparr>pending := l\<rparr>) = rejected v" "rejected (REJECT v) = rejected v + 1"
  "rejected (reject_sp v) = rejected v + 1"
  "rejected (reject_if p v) = rejected v + (if p then 1 else 0)"
  by (simp_all add: set_reg_def write_rd_def REJECT_def reject_sp_def reject_if_def)

lemma rejected_clobber [simp]: "rejected (clobber rs v) = rejected v"
  by (induction rs arbitrary: v) (simp_all add: clobber_def)

lemma rises_by: "rejected w = rejected v \<or> rejected w = rejected v + 1 \<or> rejected w = rejected v + 2 \<Longrightarrow> rises 2 v w"
proof -
  assume "rejected w = rejected v \<or> rejected w = rejected v + 1 \<or> rejected w = rejected v + 2"
  then have "rejected w = rejected v + of_nat 0 \<or> rejected w = rejected v + of_nat 1 \<or> rejected w = rejected v + of_nat 2"
    by simp
  then show ?thesis unfolding rises_def by (elim disjE) (blast intro: order_refl zero_le one_le_numeral)+
qed

lemma step_insn_rises: "rises 2 v (step_insn c i v)"
  by (rule rises_by, cases "cls i")
    (simp_all add: step_insn_def step_ecall_def step_kfunc_resolve_def step_loop_cb_def step_load_def
      step_store_def mem_check_def step_alu_imm_def step_addi_def step_addi_ptr_def step_upper_def
      step_alu_reg_def step_control_def Let_def add.assoc)

subsection \<open>The type invariant\<close>

definition good :: "vctx \<Rightarrow> bool" where
  "good v \<longleftrightarrow> state_ok (vst v) \<and> valid (vst v)"

lemma rval_wf_values [simp]:
  "rval_wf rv_uninit" "rval_wf rv_scalar_top" "rval_wf (rv_const v)" "rval_wf (rv_id k j)"
  "rval_wf (rv_ptr k lo hi)" "rval_wf (rv_scalar (scalar_add s t))"
  by (simp_all add: rval_wf_def rv_uninit_def rv_scalar_top_def rv_const_def rv_scalar_def rv_id_def
      rv_ptr_def scalar_top_def scalar_const_def scalar_add_wf)

lemma rval_wf_offsets [simp]: "rval_wf (a\<lparr>off_min := lo, off_max := hi\<rparr>) = rval_wf a"
  by (simp add: rval_wf_def)

lemma good_reg: "good v \<Longrightarrow> r < 32 \<Longrightarrow> rval_wf (reg v r)"
  by (simp add: good_def state_ok_def reg_def)

lemma good_ops:
  "good v \<Longrightarrow> rval_wf a \<Longrightarrow> r \<noteq> 0 \<Longrightarrow> good (set_reg r a v)"
  "good v \<Longrightarrow> rval_wf a \<Longrightarrow> good (write_rd r a v)"
  "good v \<Longrightarrow> good (REJECT v)" "good v \<Longrightarrow> good (reject_if p v)" "good v \<Longrightarrow> good (reject_sp v)"
  "good v \<Longrightarrow> good (v\<lparr>pending := l\<rparr>)"
  by (auto simp: good_def state_ok_def set_reg_def write_rd_def REJECT_def reject_if_def reject_sp_def
      dest: set_update_subset_insert [THEN subsetD])

lemma good_clobber: "good v \<Longrightarrow> 0 \<notin> set rs \<Longrightarrow> good (clobber rs v)"
  unfolding clobber_def by (induction rs arbitrary: v) (auto simp: good_ops(1))

lemma caller_saved_nonzero: "0 \<notin> set caller_saved" "0 \<notin> set (10 # caller_saved)"
  by (auto simp: caller_saved_def)

lemmas good_intros = good_ops good_clobber caller_saved_nonzero

lemma good_mem: "good v \<Longrightarrow> good (mem_check c a i w v)"
  by (simp add: mem_check_def good_intros)

lemma good_call:
  "good v \<Longrightarrow> good (step_kfunc_resolve c v)" "good v \<Longrightarrow> good (step_loop_cb c v)" "good v \<Longrightarrow> good (step_ecall c v)"
  by (auto simp: step_kfunc_resolve_def step_loop_cb_def step_ecall_def Let_def intro!: good_intros)

lemma good_alu:
  assumes "good v" and "rs1 i < 32" and "rs2 i < 32"
  shows "good (step_alu_imm c i v)" and "good (step_alu_reg i v)" and "good (step_control c i v)"
    and "rval_wf a \<Longrightarrow> good (step_upper i a v)"
  using assms good_reg [OF assms(1,2)] good_reg [OF assms(1,3)]
  by (auto simp: step_alu_imm_def step_addi_def step_addi_ptr_def step_alu_reg_def step_control_def
      step_upper_def Let_def intro!: good_intros)

lemma step_insn_good:
  assumes "good v" and "rs1 i < 32" and "rs2 i < 32"
  shows "good (step_insn c i v)"
  using good_alu [OF assms] good_call(3) [OF assms(1)] assms(1)
  by (cases "cls i") (auto simp: step_insn_def step_load_def step_store_def Let_def intro!: good_intros good_mem)

end
