(* ===== verification/Verifier_Run.thy ===== *)
theory Verifier_Run
  imports Verifier_Step
begin

text \<open>
  The worklist of \<open>merlin_verify_text\<close> (\<open>kernel/merlin/verifier.c\<close>): it returns, and when it
  accepts, the entry states it leaves are a certificate for the whole graph.
\<close>

subsection \<open>The walk over one block\<close>

definition xfer :: "merlin_verifier_cfg \<Rightarrow> u8 list \<Rightarrow> nat list \<Rightarrow> vctx \<Rightarrow> vctx" where
  "xfer c text offs v =
     foldl (\<lambda>v off. case insn_at text off of None \<Rightarrow> REJECT v | Some i \<Rightarrow> step_insn c i v) v offs"

definition decodes :: "u8 list \<Rightarrow> nat list \<Rightarrow> nat" where
  "decodes text offs = length (filter (\<lambda>off. insn_at text off \<noteq> None) offs)"

lemma xfer_simps [simp]:
  "xfer c text [] v = v"
  "xfer c text (off # offs) v =
     xfer c text offs (case insn_at text off of None \<Rightarrow> REJECT v | Some i \<Rightarrow> step_insn c i v)"
  by (simp_all add: xfer_def)

lemma decodes_simps [simp]:
  "decodes text [] = 0"
  "decodes text (off # offs) = decodes text offs + of_bool (insn_at text off \<noteq> None)"
  by (simp_all add: decodes_def)

lemma xfer_bump: "xfer c text offs (bump n v) = bump n (xfer c text offs v)"
  by (induction offs arbitrary: v) (simp_all add: step_insn_bump bump_ops(3) split: option.split)

lemma insn_at_regs: "insn_at text off = Some i \<Longrightarrow> rs1 i < 32 \<and> rs2 i < 32 \<and> rd i < 32"
  unfolding insn_at_def using merlin_decode_fields by blast

lemma xfer_good: "good v \<Longrightarrow> good (xfer c text offs v)"
  by (induction offs arbitrary: v)
    (auto simp: step_insn_good insn_at_regs good_ops(3) split: option.split)

lemma xfer_rises: "rises (2 * length offs) v (xfer c text offs v)"
proof (induction offs arbitrary: v)
  case (Cons off offs)
  let ?w = "case insn_at text off of None \<Rightarrow> REJECT v | Some i \<Rightarrow> step_insn c i v"
  have "rises 2 v ?w" using step_insn_rises by (auto intro: rises_by split: option.split)
  then show ?case using rises_trans [OF _ Cons, of 2 v ?w] by (simp add: add.commute)
qed (simp add: rises_refl)

lemma walk_xfer:
  assumes "walk c text cap offs steps v = (False, steps', v')" and "cap \<noteq> -1" and "steps \<le> cap"
  shows "v' = xfer c text offs v \<and> steps' \<le> cap \<and> unat steps' = unat steps + decodes text offs"
  using assms
proof (induction offs arbitrary: steps v)
  case (Cons off offs)
  show ?case
  proof (cases "insn_at text off")
    case None
    then show ?thesis using Cons by simp
  next
    case (Some i)
    then have le: "steps + 1 \<le> cap" using Cons.prems(1) by (auto split: if_splits)
    have "unat (steps + 1) = unat steps + 1"
      using Cons.prems(2,3) by (metis Suc_eq_plus1 add.commute unatSuc word_order.extremum_uniqueI
          add_eq_0_iff)
    moreover have "walk c text cap offs (steps + 1) (step_insn c i v) = (False, steps', v')"
      using Cons.prems(1) Some by (simp split: if_splits)
    ultimately show ?thesis using Cons.IH [of "steps + 1" "step_insn c i v"] Cons.prems(2) Some le by simp
  qed
qed simp

lemma walk_capped:
  assumes "walk c text cap offs steps v = (True, steps', v')" and "cap \<noteq> -1" and "steps \<le> cap"
    and "decodes text offs = length offs"
  shows "\<exists>k. 0 < k \<and> k \<le> 2 * (unat cap - unat steps) + 1 \<and> rejected v' = rejected v + of_nat k"
  using assms
proof (induction offs arbitrary: steps v)
  case (Cons off offs)
  have "decodes text offs \<le> length offs" by (simp add: decodes_def)
  then obtain i where i: "insn_at text off = Some i" "decodes text offs = length offs"
    using Cons.prems(4) by (cases "insn_at text off") auto
  show ?case
  proof (cases "steps + 1 > cap")
    case True
    then have "rejected v' = rejected v + of_nat 1" using Cons.prems(1) i by auto
    then show ?thesis by (intro exI [of _ 1]) simp
  next
    case False
    have unat: "unat (steps + 1) = unat steps + 1"
      using Cons.prems(2,3) by (metis Suc_eq_plus1 add.commute unatSuc word_order.extremum_uniqueI
          add_eq_0_iff)
    then have "unat steps + 1 \<le> unat cap" using False by (metis not_less word_le_nat_alt)
    have "walk c text cap offs (steps + 1) (step_insn c i v) = (True, steps', v')"
      using Cons.prems(1) i False by simp
    then obtain k where k: "0 < k" "k \<le> 2 * (unat cap - unat (steps + 1)) + 1"
        "rejected v' = rejected (step_insn c i v) + of_nat k"
      using Cons.IH Cons.prems(2) i(2) False by (meson not_less)
    obtain l where "l \<le> 2" "rejected (step_insn c i v) = rejected v + of_nat l"
      using step_insn_rises [of v c i] by (auto simp: rises_def)
    then show ?thesis
      using k unat \<open>unat steps + 1 \<le> unat cap\<close> by (intro exI [of _ "l + k"]) auto
  qed
qed simp

subsection \<open>The blocks of an accepted graph\<close>

lemma takeWhile_upto:
  assumes "j \<le> m" and "\<And>k. k < j \<Longrightarrow> P (f k)" and "j < m \<Longrightarrow> \<not> P (f j)"
  shows "takeWhile P (map f [0..<m]) = map f [0..<j]"
proof (cases "j = m")
  case True
  then show ?thesis using assms(2) by (simp add: takeWhile_eq_all_conv)
next
  case False
  then have "j < m" using assms(1) by simp
  then have "[0..<m] = [0..<j] @ j # [Suc j..<m]"
    using upt_add_eq_append [of 0 j "m - j"] upt_conv_Cons [of j m] by simp
  then have "map f [0..<m] = map f [0..<j] @ f j # map f [Suc j..<m]" by simp
  moreover have "takeWhile P (map f [0..<j] @ ys) = map f [0..<j] @ takeWhile P ys" for ys
    by (rule takeWhile_append2) (use assms(2) in auto)
  ultimately show ?thesis using assms(3) \<open>j < m\<close> by simp
qed

lemma block_offsets_segs:
  assumes G: "graph_ok text toff S G" and i: "i < length S" and small: "length text < 2 ^ 32"
  shows "block_offsets (length text) toff (blocks G ! i) = map (\<lambda>k. 4 * k) [fst (S ! i)..<snd (S ! i)]"
proof -
  let ?a = "fst (S ! i)" and ?b = "snd (S ! i)"
  have ab: "?a < ?b" "?b \<le> length text div 4"
    using segs_cover_nth [OF _ i] G by (auto simp: graph_ok_def)
  have "block_offsets (length text) toff (blocks G ! i) = map (\<lambda>k. 4 * ?a + 4 * k) [0..<?b - ?a]"
    unfolding block_offsets_def graph_fields(3,4) [OF G i small]
    by (rule takeWhile_upto) (use ab in auto)
  also have "\<dots> = map (\<lambda>k. 4 * k) (map (\<lambda>k. k + ?a) [0..<?b - ?a])" by simp
  finally show ?thesis using ab by (simp only: map_add_upt) simp
qed

text \<open>What the worklist relies on: the successors of a block exist, and a block that costs no step only falls through.\<close>

definition walkable :: "u8 list \<Rightarrow> u32 \<Rightarrow> merlin_block list \<Rightarrow> bool" where
  "walkable text toff bs \<longleftrightarrow>
     (\<forall>i < length bs. set (succs (bs ! i)) \<subseteq> {..<length bs} \<and>
        (decodes text (block_offsets (length text) toff (bs ! i)) = 0 \<longrightarrow> set (succs (bs ! i)) \<subseteq> {Suc i}))"

lemma graph_walkable:
  assumes G: "graph_ok text toff S G" and small: "length text < 2 ^ 32"
  shows "walkable text toff (blocks G)"
proof -
  have ne: "S \<noteq> []" using G by (simp add: graph_ok_def segs_cover_def)
  then have len: "length (blocks G) = length S" using graph_fields(1) [OF G _ small] by blast
  have "set (succs (blocks G ! i)) \<subseteq> {Suc i}"
    if i: "i < length S" and none: "decodes text (block_offsets (length text) toff (blocks G ! i)) = 0" for i
  proof (rule graph_plain_succs [OF G i small])
    let ?b = "snd (S ! i)"
    have ab: "fst (S ! i) < ?b" using segs_cover_nth [OF _ i] G by (auto simp: graph_ok_def)
    have "insn_at text off = None" if "off \<in> set (block_offsets (length text) toff (blocks G ! i))" for off
      using none that by (simp add: decodes_def filter_empty_conv)
    moreover have "4 * (?b - 1) \<in> set (block_offsets (length text) toff (blocks G ! i))"
      using ab unfolding block_offsets_segs [OF G i small] by auto
    ultimately have "insn_at text (4 * (?b - 1)) = None" by blast
    then show "\<not> is_control text (4 * (?b - 1))" by (simp add: is_control_def)
  qed
  then show ?thesis using graph_succs [OF G] len unfolding walkable_def by auto
qed

subsection \<open>The state of the worklist\<close>

definition run_ok :: "u32 \<Rightarrow> nat \<Rightarrow> vrun \<Rightarrow> bool" where
  "run_ok cap n g \<longleftrightarrow>
     length (entry_state g) = n \<and> (\<forall>s \<in> set (entry_state g). state_ok s) \<and> length (loop_header_ok g) = n \<and>
     distinct (queue g) \<and> set (queue g) \<subseteq> {..<n} \<and> nsteps g \<le> cap"

lemma ws_push_set:
  assumes "distinct q" and "set q \<subseteq> {..<n}" and "b < n"
  shows "set (ws_push n b q) = insert b (set q)" and "distinct (ws_push n b q)"
proof -
  have "length q < n" if "b \<notin> set q"
  proof -
    have "set q \<subseteq> {..<n} - {b}" using assms that by auto
    then have "card (set q) \<le> card ({..<n} - {b})" by (intro card_mono) auto
    then show ?thesis using assms by (simp add: distinct_card)
  qed
  then show "set (ws_push n b q) = insert b (set q)" and "distinct (ws_push n b q)"
    using assms(1) by (auto simp: ws_push_def)
qed

lemma join_same:
  assumes "state_ok d" and "state_ok s" and "state_covered s d" and "valid s"
  shows "fst (vstate_join d s) = d"
proof -
  have "map2 join_reg (xr d) (xr s) = xr d"
    using assms by (intro nth_equalityI)
      (auto simp: state_ok_def state_covered_def list_all2_conv_all_nth join_reg_def covered_def Let_def)
  then show ?thesis using assms by (simp add: vstate_join_def state_covered_def)
qed

text \<open>What joining a state into a list of successors leaves.\<close>

definition joined :: "nat \<Rightarrow> merlin_vstate \<Rightarrow> nat set \<Rightarrow> vrun \<Rightarrow> vrun \<Rightarrow> bool" where
  "joined n st ms g g' \<longleftrightarrow>
     nsteps g' = nsteps g \<and> nrejected g' = nrejected g \<and> loop_header_ok g' = loop_header_ok g \<and>
     (\<forall>m \<in> ms. state_covered st (entry_state g' ! m)) \<and>
     (\<forall>m < n. \<forall>s. state_ok s \<and> state_covered s (entry_state g ! m) \<longrightarrow> state_covered s (entry_state g' ! m)) \<and>
     (\<forall>m < n. m \<notin> set (queue g') \<longrightarrow> m \<notin> set (queue g) \<and> entry_state g' ! m = entry_state g ! m) \<and>
     set (queue g') \<subseteq> set (queue g) \<union> ms"

lemma join_succ_joined:
  assumes g: "run_ok cap n g" and st: "state_ok st" "valid st" and m: "m < n"
  shows "run_ok cap n (join_succ n st g m)" and "joined n st {m} g (join_succ n st g m)"
proof -
  let ?d = "entry_state g ! m"
  have d: "state_ok ?d" using g m by (auto simp: run_ok_def)
  have eq: "join_succ n st g m =
      g\<lparr>entry_state := (entry_state g)[m := fst (vstate_join ?d st)],
        queue := (if state_covered st ?d then queue g else ws_push n m (queue g))\<rparr>"
    using vstate_join_unchanged [OF d st(1)] by (simp add: join_succ_def split_beta)
  have q: "distinct (queue g)" "set (queue g) \<subseteq> {..<n}" using g by (auto simp: run_ok_def)
  show "run_ok cap n (join_succ n st g m)"
    using g m ws_push_set [OF q m] state_join.upd_ok [OF d st(1)] unfolding eq run_ok_def
    by (auto dest: set_update_subset_insert [THEN subsetD])
  have len: "length (entry_state g) = n" using g by (simp add: run_ok_def)
  have "state_covered s ((entry_state g)[m := fst (vstate_join ?d st)] ! k)"
    if "k < n" "state_ok s" "state_covered s (entry_state g ! k)" for k s
    using that state_join.upd_keeps [OF d _ st(1), of s] len by (cases "k = m") auto
  then show "joined n st {m} g (join_succ n st g m)"
    unfolding joined_def eq
    using state_join.upd_covers [OF d st(1)] ws_push_set [OF q m] join_same [OF d st(1) _ st(2)] len m
    by (auto simp: nth_list_update)
qed

lemma joined_refl: "joined n st {} g g"
  by (simp add: joined_def)

lemma joined_trans:
  assumes "joined n st ms g g'" and "joined n st ms' g' g''" and "ms \<subseteq> {..<n}" and "state_ok st"
  shows "joined n st (ms \<union> ms') g g''"
  using assms unfolding joined_def by (auto simp: subset_iff)

lemma join_succs_joined:
  assumes "run_ok cap n g" and "state_ok st" "valid st" and "set ms \<subseteq> {..<n}"
  shows "run_ok cap n (foldl (join_succ n st) g ms) \<and> joined n st (set ms) g (foldl (join_succ n st) g ms)"
  using assms
proof (induction ms arbitrary: g)
  case (Cons m ms)
  have m: "m < n" using Cons.prems by simp
  note step = join_succ_joined [OF Cons.prems(1-3) m]
  have "run_ok cap n (foldl (join_succ n st) (join_succ n st g m) ms) \<and>
      joined n st (set ms) (join_succ n st g m) (foldl (join_succ n st) (join_succ n st g m) ms)"
    using Cons.IH [OF step(1)] Cons.prems by simp
  then show ?case using joined_trans [OF step(2)] m Cons.prems(2) by fastforce
qed (simp add: joined_refl)

subsection \<open>One visit\<close>

definition ctx0 :: "merlin_vstate \<Rightarrow> vctx" where
  "ctx0 st = \<lparr>vst = st, rejected = 0, pending = 0\<rparr>"

definition out :: "merlin_verifier_cfg \<Rightarrow> u8 list \<Rightarrow> u32 \<Rightarrow> merlin_block \<Rightarrow> merlin_vstate \<Rightarrow> vctx" where
  "out c text toff b st = xfer c text (block_offsets (length text) toff b) (ctx0 st)"

lemma bump_fields [simp]: "vst (bump n v) = vst v" "pending (bump n v) = pending v" "rejected (bump n v) = rejected v + n"
  by (simp_all add: bump_def)

lemma mark_header_fields [simp]:
  "entry_state (mark_header b p g) = entry_state g" "queue (mark_header b p g) = queue g"
  "nsteps (mark_header b p g) = nsteps g" "nrejected (mark_header b p g) = nrejected g"
  "length (loop_header_ok (mark_header b p g)) = length (loop_header_ok g)"
  by (simp_all add: mark_header_def split: option.split)

lemma visit_step:
  assumes g: "run_ok cap n g" and n: "n = length bs" and i: "i < n" and walk: "walkable text toff bs"
    and cap: "cap \<noteq> -1" and valid: "valid (entry_state g ! i)" and v: "visit c text toff cap bs i g = Inr g'"
  defines "w \<equiv> out c text toff (bs ! i) (entry_state g ! i)"
  shows "good w" and "run_ok cap n g'" and "nrejected g' = nrejected g + rejected w"
    and "unat (nsteps g') = unat (nsteps g) + decodes text (block_offsets (length text) toff (bs ! i))"
    and "loop_header_ok g' = loop_header_ok (mark_header (bs ! i) (pending w) g)"
    and "\<exists>h. entry_state h = entry_state g \<and> queue h = queue g \<and> joined n (vst w) (set (succs (bs ! i))) h g'"
proof -
  let ?e = "entry_state g ! i" and ?offs = "block_offsets (length text) toff (bs ! i)"
  have e: "state_ok ?e" and steps: "nsteps g \<le> cap" using g i by (auto simp: run_ok_def)
  show good: "good w" using e valid unfolding w_def out_def by (intro xfer_good) (simp add: good_def ctx0_def)
  obtain steps' v' where wk: "walk c text cap ?offs (nsteps g) \<lparr>vst = ?e, rejected = nrejected g, pending = 0\<rparr> = (False, steps', v')"
      and g': "g' = foldl (join_succ (length bs) (vst v'))
         (mark_header (bs ! i) (pending v') (g\<lparr>nsteps := steps', nrejected := rejected v'\<rparr>)) (succs (bs ! i))"
    using v valid by (auto simp: visit_def split: prod.splits bool.splits)
  have "\<lparr>vst = ?e, rejected = nrejected g, pending = 0\<rparr> = bump (nrejected g) (ctx0 ?e)"
    by (simp add: bump_def ctx0_def)
  then have v': "v' = bump (nrejected g) w" "steps' \<le> cap" "unat steps' = unat (nsteps g) + decodes text ?offs"
    using walk_xfer [OF wk cap steps] by (simp_all add: w_def out_def xfer_bump)
  define h where "h = mark_header (bs ! i) (pending v') (g\<lparr>nsteps := steps', nrejected := rejected v'\<rparr>)"
  have h: "run_ok cap n h" using g v'(2) by (simp add: run_ok_def h_def)
  have st: "state_ok (vst v')" "valid (vst v')" using good v'(1) by (auto simp: good_def)
  have succs: "set (succs (bs ! i)) \<subseteq> {..<n}" using walk i n by (auto simp: walkable_def)
  from join_succs_joined [OF h st succs]
  have run: "run_ok cap n g'" and j: "joined n (vst w) (set (succs (bs ! i))) h g'"
    using v'(1) by (simp_all add: g' h_def n)
  show "run_ok cap n g'" by (fact run)
  show "nrejected g' = nrejected g + rejected w"
    and "unat (nsteps g') = unat (nsteps g) + decodes text ?offs"
    using j v' by (simp_all add: joined_def h_def add.commute)
  show "loop_header_ok g' = loop_header_ok (mark_header (bs ! i) (pending w) g)"
    using j v'(1) by (simp add: joined_def h_def mark_header_def split: option.split)
  show "\<exists>h. entry_state h = entry_state g \<and> queue h = queue g \<and> joined n (vst w) (set (succs (bs ! i))) h g'"
    using j by (intro exI [of _ h]) (simp add: h_def)
qed

subsection \<open>The worklist returns\<close>

definition queue_weight :: "nat \<Rightarrow> vrun \<Rightarrow> nat" where
  "queue_weight n g = (\<Sum>j \<in> set (queue g). n - j)"

definition run_order :: "u32 \<Rightarrow> nat \<Rightarrow> (vrun \<times> vrun) set" where
  "run_order cap n = measures [\<lambda>g. unat cap - unat (nsteps g), queue_weight n]"

lemma visit_decreases:
  assumes g: "run_ok cap n g" and q: "queue g = i # q" and n: "n = length bs" and walk: "walkable text toff bs"
    and cap: "cap \<noteq> -1" and v: "visit c text toff cap bs i (g\<lparr>queue := q\<rparr>) = Inr g'"
  shows "run_ok cap n g'" and "(g', g) \<in> run_order cap n"
proof -
  let ?g = "g\<lparr>queue := q\<rparr>"
  have g0: "run_ok cap n ?g" and i: "i < n" "i \<notin> set q" using g q by (auto simp: run_ok_def)
  have weight: "queue_weight n g = (\<Sum>j \<in> set q. n - j) + (n - i)"
    using i(2) q by (simp add: queue_weight_def)
  have "run_ok cap n g' \<and> (g', g) \<in> run_order cap n"
  proof (cases "valid (entry_state g ! i)")
    case False
    then have "g' = ?g" using v by (simp add: visit_def)
    then show ?thesis using g0 i weight by (simp add: run_order_def queue_weight_def)
  next
    case True
    then have valid: "valid (entry_state ?g ! i)" by simp
    note step = visit_step [OF g0 n i(1) walk cap valid v]
    obtain h where h: "queue h = q" "joined n (vst (out c text toff (bs ! i) (entry_state ?g ! i))) (set (succs (bs ! i))) h g'"
      using step(6) by auto
    show ?thesis
    proof (cases "decodes text (block_offsets (length text) toff (bs ! i)) = 0")
      case True
      then have "set (succs (bs ! i)) \<subseteq> {Suc i}" using walk i(1) n by (auto simp: walkable_def)
      then have "set (queue g') \<subseteq> set q \<union> {Suc i}" using h by (auto simp: joined_def)
      then have "(\<Sum>j \<in> set (queue g'). n - j) \<le> (\<Sum>j \<in> set q \<union> {Suc i}. n - j)"
        by (intro sum_mono2) auto
      also have "\<dots> \<le> (\<Sum>j \<in> set q. n - j) + (n - Suc i)"
        by (simp add: sum.insert_if)
      finally have "queue_weight n g' < queue_weight n g" using weight i(1) by (simp add: queue_weight_def)
      moreover have "nsteps g' = nsteps g" using step(4) True by (simp add: word_unat_eq_iff)
      ultimately show ?thesis using step(2) by (simp add: run_order_def)
    next
      case False
      then have "unat (nsteps g) < unat (nsteps g')" "unat (nsteps g') \<le> unat cap"
        using step(2,4) by (auto simp: run_ok_def word_le_nat_alt)
      then have "unat cap - unat (nsteps g') < unat cap - unat (nsteps g)" by linarith
      then show ?thesis using step(2) by (simp add: run_order_def)
    qed
  qed
  then show "run_ok cap n g'" and "(g', g) \<in> run_order cap n" by auto
qed

text \<open>
  Induction along the worklist: a property that every visit keeps holds at the end, and the end is
  reached.
\<close>

lemma worklist_induct:
  assumes g: "run_ok cap n g" and n: "n = length bs" and walk: "walkable text toff bs" and cap: "cap \<noteq> -1"
    and inv: "I g"
    and keep: "\<And>g i q g'. run_ok cap n g \<Longrightarrow> I g \<Longrightarrow> queue g = i # q \<Longrightarrow>
      visit c text toff cap bs i (g\<lparr>queue := q\<rparr>) = Inr g' \<Longrightarrow> I g'"
  shows "\<exists>r. worklist c text toff cap bs g = Some r \<and>
    (\<forall>g'. r = Inr g' \<longrightarrow> run_ok cap n g' \<and> I g' \<and> queue g' = []) \<and>
    (\<forall>x. r = Inl x \<longrightarrow> (\<exists>h i q. run_ok cap n h \<and> I h \<and> queue h = i # q \<and>
       visit c text toff cap bs i (h\<lparr>queue := q\<rparr>) = Inl x))"
proof -
  have "wf (run_order cap n)" by (simp add: run_order_def)
  then show ?thesis using g inv
  proof (induction g rule: wf_induct_rule)
    case (less g)
    show ?case
    proof (cases "queue g")
      case Nil
      then show ?thesis using less.prems by (subst worklist.simps) auto
    next
      case (Cons i q)
      show ?thesis
      proof (cases "visit c text toff cap bs i (g\<lparr>queue := q\<rparr>)")
        case (Inl x)
        then show ?thesis using less.prems Cons by (subst worklist.simps) auto
      next
        case (Inr g')
        note dec = visit_decreases [OF less.prems(1) Cons n walk cap Inr]
        have "worklist c text toff cap bs g = worklist c text toff cap bs g'"
          using Cons Inr by (subst worklist.simps) simp
        then show ?thesis
          using less.IH [OF dec(2,1) keep [OF less.prems(1,2) Cons Inr]] by simp
      qed
    qed
  qed
qed

subsection \<open>What the entry states certify\<close>

text \<open>A settled block: its walk from the entry state is clean and its result is covered by its successors.\<close>

definition flows_out :: "merlin_verifier_cfg \<Rightarrow> u8 list \<Rightarrow> u32 \<Rightarrow> merlin_block list \<Rightarrow> merlin_vstate list \<Rightarrow> nat \<Rightarrow> bool" where
  "flows_out c text toff bs es i \<longleftrightarrow>
     (\<forall>m \<in> set (succs (bs ! i)). state_covered (vst (out c text toff (bs ! i) (es ! i))) (es ! m))"

definition clean :: "merlin_verifier_cfg \<Rightarrow> u8 list \<Rightarrow> u32 \<Rightarrow> merlin_block list \<Rightarrow> merlin_vstate list \<Rightarrow> nat \<Rightarrow> bool" where
  "clean c text toff bs es i \<longleftrightarrow> rejected (out c text toff (bs ! i) (es ! i)) = 0"

definition guarded_by_call :: "u8 list \<Rightarrow> u32 \<Rightarrow> merlin_block list \<Rightarrow> nat \<Rightarrow> bool" where
  "guarded_by_call text toff bs m \<longleftrightarrow>
     (\<exists>j < length bs. succ0 (bs ! j) = Some m \<and>
       (\<exists>off \<in> set (block_offsets (length text) toff (bs ! j)). \<exists>i. insn_at text off = Some i \<and> cls i = INSN_ECALL))"

text \<open>The invariant of the worklist, with the number \<open>T\<close> of rejections so far.\<close>

definition run_inv :: "merlin_verifier_cfg \<Rightarrow> u8 list \<Rightarrow> u32 \<Rightarrow> merlin_block list \<Rightarrow> vrun \<Rightarrow> nat \<Rightarrow> bool" where
  "run_inv c text toff bs g T \<longleftrightarrow>
     state_covered (vstate_init_entry c) (entry_state g ! 0) \<and>
     (\<forall>i < length bs. i \<notin> set (queue g) \<and> valid (entry_state g ! i) \<longrightarrow>
        flows_out c text toff bs (entry_state g) i \<and> (T = 0 \<longrightarrow> clean c text toff bs (entry_state g) i)) \<and>
     nrejected g = of_nat T \<and> T \<le> 2 * unat (nsteps g) \<and>
     (\<forall>m < length bs. loop_header_ok g ! m \<longrightarrow> guarded_by_call text toff bs m)"

lemma init_entry_ok: "state_ok (vstate_init_entry c)" "valid (vstate_init_entry c)"
proof -
  have "rval_wf (rv_scalar \<lparr>smin = 0, smax = S64_MAX, umin = 0, umax = 0, tn = tnum_top\<rparr>)"
    by (simp add: rval_wf_def)
  then show "state_ok (vstate_init_entry c)" "valid (vstate_init_entry c)"
    by (auto simp: vstate_init_entry_def state_ok_def Let_def dest!: set_update_subset_insert [THEN subsetD])
qed

lemma pending_step:
  assumes "cls i \<noteq> INSN_ECALL"
  shows "pending (step_insn c i v) = pending v"
  using assms
  by (cases "cls i") (simp_all add: step_insn_def step_load_def step_store_def mem_check_def step_alu_imm_def
      step_addi_def step_addi_ptr_def step_upper_def step_alu_reg_def step_control_def Let_def
      set_reg_def write_rd_def REJECT_def reject_if_def reject_sp_def)

lemma pending_xfer:
  assumes "pending (xfer c text offs v) \<noteq> pending v"
  shows "\<exists>off \<in> set offs. \<exists>i. insn_at text off = Some i \<and> cls i = INSN_ECALL"
  using assms
proof (induction offs arbitrary: v)
  case (Cons off offs)
  show ?case
  proof (cases "\<exists>i. insn_at text off = Some i \<and> cls i = INSN_ECALL")
    case False
    let ?v = "case insn_at text off of None \<Rightarrow> REJECT v | Some i \<Rightarrow> step_insn c i v"
    have "pending ?v = pending v"
      using False by (auto simp: pending_step REJECT_def split: option.split)
    then show ?thesis using Cons.IH [of ?v] Cons.prems by auto
  qed auto
qed simp

lemma out_rejected:
  assumes "decodes text (block_offsets (length text) toff b) = length (block_offsets (length text) toff b)"
  shows "\<exists>k \<le> 2 * decodes text (block_offsets (length text) toff b). rejected (out c text toff b st) = of_nat k"
  using xfer_rises [of "block_offsets (length text) toff b" "ctx0 st" c "text"] assms
  by (simp add: rises_def out_def ctx0_def)

lemma run_inv_keep:
  assumes g: "run_ok cap (length bs) g" and inv: "run_inv c text toff bs g T" and q: "queue g = i # q"
    and walk: "walkable text toff bs" and cap: "cap \<noteq> -1" and ne: "bs \<noteq> []"
    and dec: "\<And>j. j < length bs \<Longrightarrow> decodes text (block_offsets (length text) toff (bs ! j)) = length (block_offsets (length text) toff (bs ! j))"
    and v: "visit c text toff cap bs i (g\<lparr>queue := q\<rparr>) = Inr g'"
  shows "\<exists>T'. run_inv c text toff bs g' T'"
proof (cases "valid (entry_state g ! i)")
  case False
  then have "g' = g\<lparr>queue := q\<rparr>" using v by (simp add: visit_def)
  then show ?thesis using inv q False unfolding run_inv_def by (intro exI [of _ T]) auto
next
  case True
  let ?g = "g\<lparr>queue := q\<rparr>" and ?n = "length bs"
  have g0: "run_ok cap ?n ?g" and i: "i < ?n" "i \<notin> set q" using g q by (auto simp: run_ok_def)
  have valid: "valid (entry_state ?g ! i)" using True by simp
  let ?w = "out c text toff (bs ! i) (entry_state g ! i)"
  note step = visit_step [OF g0 refl i(1) walk cap valid v, simplified]
  obtain h where h: "entry_state h = entry_state g" "queue h = q" "joined ?n (vst ?w) (set (succs (bs ! i))) h g'"
    using step(6) by auto
  have succs: "set (succs (bs ! j)) \<subseteq> {..<?n}" if "j < ?n" for j using walk that by (auto simp: walkable_def)
  have keep: "state_covered s (entry_state g' ! m)" if "m < ?n" "state_ok s" "state_covered s (entry_state g ! m)" for m s
    using h that by (auto simp: joined_def)
  obtain k where k: "k \<le> 2 * decodes text (block_offsets (length text) toff (bs ! i))" "rejected ?w = of_nat k"
    using out_rejected [OF dec [OF i(1)]] by blast
  have k0: "clean c text toff bs (entry_state g) i" if "T + k = 0" using that k(2) by (simp add: clean_def)
  have init: "state_covered (vstate_init_entry c) (entry_state g' ! 0)"
    using keep [OF _ init_entry_ok(1)] inv ne by (auto simp: run_inv_def)
  have settled: "flows_out c text toff bs (entry_state g') j \<and> (T + k = 0 \<longrightarrow> clean c text toff bs (entry_state g') j)"
    if j: "j < ?n" "j \<notin> set (queue g')" "valid (entry_state g' ! j)" for j
  proof -
    have same: "j \<notin> set q" "entry_state g' ! j = entry_state g ! j" using h j by (auto simp: joined_def)
    show ?thesis
    proof (cases "j = i")
      case True
      then show ?thesis using h(3) same k0 by (auto simp: flows_out_def clean_def joined_def)
    next
      case False
      then have old: "flows_out c text toff bs (entry_state g) j" "T = 0 \<longrightarrow> clean c text toff bs (entry_state g) j"
        using inv q j same by (auto simp: run_inv_def)
      have "good (out c text toff (bs ! j) (entry_state g ! j))"
        using g j same unfolding out_def by (intro xfer_good) (auto simp: good_def ctx0_def run_ok_def)
      then show ?thesis
        using old keep succs [OF j(1)] same(2) by (auto simp: flows_out_def clean_def good_def)
    qed
  qed
  have header: "guarded_by_call text toff bs m" if m: "m < ?n" "loop_header_ok g' ! m" for m
  proof (cases "loop_header_ok g ! m")
    case True
    then show ?thesis using inv m by (auto simp: run_inv_def)
  next
    case False
    then have "succ0 (bs ! i) = Some m" "pending ?w \<noteq> 0"
      using m step(5) by (auto simp: mark_header_def split: option.splits if_splits) (metis nth_list_update_neq)
    then show ?thesis
      using pending_xfer [of c "text" "block_offsets (length text) toff (bs ! i)" "ctx0 (entry_state g ! i)"] i(1)
      by (auto simp: guarded_by_call_def out_def ctx0_def)
  qed
  have "nrejected g' = of_nat (T + k)" "T + k \<le> 2 * unat (nsteps g')"
    using step(3,4) inv k by (auto simp: run_inv_def)
  then show ?thesis
    unfolding run_inv_def using init settled header by (intro exI [of _ "T + k"]) blast
qed

end
