(* ===== verification/Verifier_Props.thy ===== *)
theory Verifier_Props
  imports Verifier_Run
begin

text \<open>
  The properties of the in-kernel verifier (\<open>kernel/merlin/verifier.c\<close>): it always answers, what an
  accepted text is certified for, which instructions an accepted block can contain, and the inputs on
  which the verdict is not the intended one.
\<close>

subsection \<open>The start of the worklist\<close>

lemma vstate_zero_ok: "state_ok vstate_zero"
  by (simp add: vstate_zero_def state_ok_def)

lemma initial_run_ok: "0 < n \<Longrightarrow> run_ok cap n (initial_run c n)"
  using init_entry_ok vstate_zero_ok
  by (auto simp: initial_run_def run_ok_def ws_push_def dest!: set_update_subset_insert [THEN subsetD])

lemma initial_run_inv:
  assumes "bs \<noteq> []"
  shows "run_inv c text toff bs (initial_run c (length bs)) 0"
proof -
  have "list_all2 covered xs xs" if "\<forall>a \<in> set xs. rval_wf a" for xs
    using that by (simp add: list_all2_same covered_refl)
  then have "state_covered (vstate_init_entry c) (vstate_init_entry c)"
    using init_entry_ok [of c] by (simp add: state_covered_def state_ok_def)
  then show ?thesis
    using assms by (auto simp: run_inv_def initial_run_def ws_push_def vstate_zero_def)
qed

lemma worklist_returns:
  assumes "graph_ok text toff S G" and "length text < 2 ^ 32" and "cap \<noteq> -1"
  shows "\<exists>r. worklist c text toff cap (blocks G) (initial_run c (length (blocks G))) = Some r"
proof -
  have "S \<noteq> []" using assms(1) by (simp add: graph_ok_def segs_cover_def)
  then have "0 < length (blocks G)" using graph_fields(1) [OF assms(1) _ assms(2), of 0] by simp
  from worklist_induct [OF initial_run_ok [OF this] refl graph_walkable [OF assms(1,2)] assms(3), of "\<lambda>_. True" c c]
  show ?thesis by auto
qed

subsection \<open>Acceptance\<close>

definition all_decode :: "u8 list \<Rightarrow> bool" where
  "all_decode text \<longleftrightarrow> (\<forall>k < length text div 4. insn_at text (4 * k) \<noteq> None)"

lemma all_decode_blocks:
  assumes G: "graph_ok text toff S G" and small: "length text < 2 ^ 32" and dec: "all_decode text" and i: "i < length (blocks G)"
  shows "decodes text (block_offsets (length text) toff (blocks G ! i)) = length (block_offsets (length text) toff (blocks G ! i))"
proof -
  have "S \<noteq> []" using G by (simp add: graph_ok_def segs_cover_def)
  then have iS: "i < length S" using graph_fields(1) [OF G _ small, of 0] i by simp
  have "snd (S ! i) \<le> length text div 4" using segs_cover_nth [OF _ iS] G by (auto simp: graph_ok_def)
  then have "\<forall>off \<in> set (block_offsets (length text) toff (blocks G ! i)). insn_at text off \<noteq> None"
    using dec unfolding block_offsets_segs [OF G iS small] all_decode_def by auto
  then show ?thesis by (simp add: decodes_def)
qed

lemma of_nat_u32_zero:
  assumes "(of_nat n :: u32) = 0" and "n < 2 ^ 32"
  shows "n = 0"
proof -
  have "n < 2 ^ LENGTH(32)" using assms(2) by simp
  from unat_of_nat_small [OF this] show ?thesis using assms(1) by simp
qed

lemma worklist_certificate:
  assumes G: "graph_ok text toff S G" and small: "length text < 2 ^ 32" and cap: "unat cap \<le> 2 ^ 30"
    and dec: "all_decode text"
    and run: "worklist c text toff cap (blocks G) (initial_run c (length (blocks G))) = Some r"
  shows "(\<forall>x. r = Inl x \<longrightarrow> x \<noteq> 0) \<and>
    (\<forall>g. r = Inr g \<longrightarrow> run_ok cap (length (blocks G)) g \<and> queue g = [] \<and>
       (\<exists>T \<le> 2 ^ 31. run_inv c text toff (blocks G) g T))"
proof -
  let ?bs = "blocks G"
  have "S \<noteq> []" using G by (simp add: graph_ok_def segs_cover_def)
  then have ne: "?bs \<noteq> []" using graph_fields(1) [OF G _ small, of 0] by auto
  have cap1: "cap \<noteq> -1" 
  proof
    assume "cap = -1"
    then have "cap = 0xffffffff" by simp
    then show False using cap by simp
  qed
  note walk = graph_walkable [OF G small]
  have pos: "0 < length ?bs" using ne by simp
  have "\<exists>T. run_inv c text toff ?bs (initial_run c (length ?bs)) T" using initial_run_inv [OF ne] by blast
  moreover have "\<exists>T. run_inv c text toff ?bs g' T"
    if "run_ok cap (length ?bs) g" "\<exists>T. run_inv c text toff ?bs g T" "queue g = i # q"
      "visit c text toff cap ?bs i (g\<lparr>queue := q\<rparr>) = Inr g'" for g i q g'
    using that run_inv_keep [OF that(1) _ that(3) walk cap1 ne all_decode_blocks [OF G small dec] that(4)] by blast
  ultimately have ind: "(\<forall>g. r = Inr g \<longrightarrow> run_ok cap (length ?bs) g \<and> (\<exists>T. run_inv c text toff ?bs g T) \<and> queue g = []) \<and>
      (\<forall>x. r = Inl x \<longrightarrow> (\<exists>h i q. run_ok cap (length ?bs) h \<and> (\<exists>T. run_inv c text toff ?bs h T) \<and> queue h = i # q \<and>
         visit c text toff cap ?bs i (h\<lparr>queue := q\<rparr>) = Inl x))"
    using worklist_induct [OF initial_run_ok [OF pos] refl walk cap1,
        of "\<lambda>g. \<exists>T. run_inv c text toff ?bs g T" c c] run by simp
  have "x \<noteq> 0" if r: "r = Inl x" for x
  proof -
    obtain h i q T where h: "run_ok cap (length ?bs) h" "run_inv c text toff ?bs h T" "queue h = i # q"
        "visit c text toff cap ?bs i (h\<lparr>queue := q\<rparr>) = Inl x"
      using ind r by blast
    then have i: "i < length ?bs" and st: "nsteps h \<le> cap" by (auto simp: run_ok_def)
    obtain steps' v' where wk: "walk c text cap (block_offsets (length text) toff (?bs ! i)) (nsteps h)
        \<lparr>vst = entry_state h ! i, rejected = nrejected h, pending = 0\<rparr> = (True, steps', v')" and x: "x = rejected v'"
      using h(4) by (auto simp: visit_def split: if_splits prod.splits bool.splits)
    obtain k where k: "0 < k" "k \<le> 2 * (unat cap - unat (nsteps h)) + 1" "x = nrejected h + of_nat k"
      using walk_capped [OF wk cap1 st all_decode_blocks [OF G small dec i]] x by auto
    have T: "nrejected h = of_nat T" "T \<le> 2 * unat (nsteps h)" using h(2) by (auto simp: run_inv_def)
    have "unat (nsteps h) \<le> unat cap" using st by (simp add: word_le_nat_alt)
    then have "T + k < 2 ^ 32" using k(2) T(2) cap by simp
    then show ?thesis using of_nat_u32_zero [of "T + k"] k(1,3) T(1) by auto
  qed
  moreover have "T \<le> 2 ^ 31" if "run_ok cap (length ?bs) g" "run_inv c text toff ?bs g T" for g T
  proof -
    have "T \<le> 2 * unat (nsteps g)" "unat (nsteps g) \<le> unat cap"
      using that by (auto simp: run_inv_def run_ok_def word_le_nat_alt)
    then show ?thesis using cap by simp
  qed
  ultimately show ?thesis using ind by blast
qed

subsection \<open>What a clean walk means for each instruction\<close>

definition access_safe :: "merlin_verifier_cfg \<Rightarrow> merlin_rval \<Rightarrow> s64 \<Rightarrow> nat \<Rightarrow> bool" where
  "access_safe c a i w \<longleftrightarrow> ptr_kind (kind a) \<and> (kind a = RVAL_PTR_STACK \<longrightarrow> \<not> stack_oob c a i w)"

definition call_safe :: "merlin_verifier_cfg \<Rightarrow> vctx \<Rightarrow> bool" where
  "call_safe c v \<longleftrightarrow>
     (let a7 = reg v 17; a0 = reg v 10; a1 = reg v 11; hid = const_u32 a7 in
      const_scalar a7 \<and> helper_allowed c hid \<and>
      (hid = MERLIN_HELPER_KFUNC_RESOLVE \<longrightarrow> const_scalar a0 \<and> kfunc_allowed c (const_u32 a0)) \<and>
      (hid = MERLIN_HELPER_LOOP_CB \<longrightarrow>
         const_scalar a0 \<and> \<not> smin (scal a0) <s 1 \<and> const_scalar a1 \<and> callback_allowed c (const_u32 a1)))"

definition sp_update_safe :: "merlin_verifier_cfg \<Rightarrow> merlin_insn \<Rightarrow> vctx \<Rightarrow> bool" where
  "sp_update_safe c i v \<longleftrightarrow>
     alu_op i = ALU_ADD \<and> rs1 i = 2 \<and>
     (kind (reg v 2) = RVAL_PTR_CTX \<or>
      kind (reg v 2) = RVAL_PTR_STACK \<and>
        \<not> off_min (reg v 2) + imm i <s - ucast (max_stack_bytes c) \<and> \<not> 0 <s off_max (reg v 2) + imm i)"

definition insn_safe :: "merlin_verifier_cfg \<Rightarrow> merlin_insn \<Rightarrow> vctx \<Rightarrow> bool" where
  "insn_safe c i v \<longleftrightarrow>
     merlin_insn_permitted_default i \<and>
     (case cls i of
        INSN_ECALL \<Rightarrow> call_safe c v
      | INSN_LOAD \<Rightarrow> access_safe c (reg v (rs1 i)) (imm i) (ld_width (ld_kind i)) \<and> rd i \<noteq> 2
      | INSN_STORE \<Rightarrow> access_safe c (reg v (rs1 i)) (imm i) (st_width (st_kind i))
      | INSN_ALU_IMM \<Rightarrow> rd i = 2 \<longrightarrow> sp_update_safe c i v
      | INSN_LUI \<Rightarrow> rd i \<noteq> 2
      | INSN_AUIPC \<Rightarrow> rd i \<noteq> 2
      | INSN_ALU_REG \<Rightarrow> rd i \<noteq> 2 \<and> \<not> (ptr_kind (kind (reg v (rs1 i))) \<and> ptr_kind (kind (reg v (rs2 i))))
      | INSN_JAL \<Rightarrow> rd i \<noteq> 2
      | INSN_JALR \<Rightarrow> rs1 i = 1 \<or>
          (kind (reg v (rs1 i)) = RVAL_PTR_KFUNC_SLOT \<and> kfunc_allowed c (helper_id (reg v (rs1 i))))
      | _ \<Rightarrow> True)"

lemma mem_check_safe: "rejected (mem_check c a i w v) = rejected v + (if access_safe c a i w then 0 else 1)"
  by (simp add: mem_check_def access_safe_def)

lemma step_addi_safe:
  "alu_op i = ALU_ADD \<Longrightarrow> rejected (step_addi c i v) = rejected v \<longleftrightarrow> (rd i = 2 \<longrightarrow> sp_update_safe c i v)"
  by (cases "rd i = 2"; cases "rs1 i = 2"; cases "kind (reg v (rs1 i))")
    (auto simp: step_addi_def step_addi_ptr_def sp_update_safe_def Let_def)

lemma step_ecall_safe: "rejected (step_ecall c v) = rejected v \<longleftrightarrow> call_safe c v"
  by (auto simp: step_ecall_def step_kfunc_resolve_def step_loop_cb_def call_safe_def Let_def reg_def)

lemma step_insn_safe: "rejected (step_insn c i v) = rejected v \<longleftrightarrow> insn_safe c i v"
  by (cases "cls i")
    (auto simp: step_insn_def insn_safe_def step_ecall_safe step_load_def step_store_def mem_check_safe
      step_alu_imm_def step_addi_safe step_upper_def step_alu_reg_def step_control_def Let_def
      sp_update_safe_def)

lemma xfer_append: "xfer c text (xs @ ys) v = xfer c text ys (xfer c text xs v)"
  by (simp add: xfer_def)

lemma clean_steps:
  assumes "rejected (xfer c text offs (ctx0 st)) = 0" and "length offs < 2 ^ 30" and "offs = pre @ off # suf"
    and "insn_at text off = Some i"
  shows "insn_safe c i (xfer c text pre (ctx0 st))"
proof -
  let ?v = "xfer c text pre (ctx0 st)"
  obtain k where k: "k \<le> 2 * length pre" "rejected ?v = of_nat k"
    using xfer_rises [of pre "ctx0 st" c "text"] by (auto simp: rises_def ctx0_def)
  obtain l where l: "l \<le> 2" "rejected (step_insn c i ?v) = rejected ?v + of_nat l"
    using step_insn_rises [of ?v c i] by (auto simp: rises_def)
  obtain m where m: "m \<le> 2 * length suf" "rejected (xfer c text suf (step_insn c i ?v)) = rejected (step_insn c i ?v) + of_nat m"
    using xfer_rises [of suf "step_insn c i ?v" c "text"] by (auto simp: rises_def)
  have "(of_nat (k + l + m) :: u32) = 0"
    using assms(1,3,4) k(2) l(2) m(2) by (simp add: xfer_append)
  moreover have "k + l + m < 2 ^ 32" using k(1) l(1) m(1) assms(2,3) by simp
  ultimately have "l = 0" using of_nat_u32_zero [of "k + l + m"] by simp
  then show ?thesis using l(2) step_insn_safe by simp
qed

subsection \<open>Properties\<close>

text \<open>
  C11: the verifier always answers. For every non-empty text, every load offset and every configuration
  whose step cap is below the largest 32-bit number, \<open>merlin_verify_text\<close> returns a verdict: the
  graph is built, and the worklist ends even when blocks of undecodable words cost no step.
\<close>

theorem verify_returns:
  assumes "text \<noteq> []" and "effective_cap c \<noteq> -1"
  shows "\<exists>r. merlin_verify_text c text toff = Some r"
proof -
  consider e where "merlin_cfg_build text toff = Some (Inl e)"
    | S G where "merlin_cfg_build text toff = Some (Inr G)" "graph_ok text toff S G" "length text \<le> 4 * CFG_MAX_INSNS"
    using merlin_cfg_build_accepts [OF assms(1), of toff] by blast
  then show ?thesis
  proof cases
    case 1
    then show ?thesis by (simp add: merlin_verify_text_def)
  next
    case (2 S G)
    have small: "length text < 2 ^ 32" using 2(3) by simp
    have "S \<noteq> []" using 2(2) by (simp add: graph_ok_def segs_cover_def)
    then have "blocks G \<noteq> []" using graph_fields(1) [OF 2(2) _ small, of 0] by auto
    moreover obtain r where "worklist c text toff (effective_cap c) (blocks G) (initial_run c (length (blocks G))) = Some r"
      using worklist_returns [OF 2(2) small assms(2)] by blast
    ultimately show ?thesis using 2(1) by (auto simp: merlin_verify_text_def split: sum.split)
  qed
qed

theorem verify_returns_witness:
  "\<exists>r. merlin_verify_text (merlin_verifier_cfg_for_prog 5 0) sample_text 0 = Some r"
  by (rule verify_returns) (simp_all add: sample_text_def effective_cap_def merlin_verifier_cfg_for_prog_def Let_def)

text \<open>
  The certificate of an accepted text: entry states for the blocks such that block 0 covers the
  initial state, every block with a valid entry state passes every check of its walk and its result is
  covered by the entry states of its successors, and every back edge ends in a block that some block
  with a helper call falls into.
\<close>

definition certified :: "merlin_verifier_cfg \<Rightarrow> u8 list \<Rightarrow> u32 \<Rightarrow> merlin_cfg \<Rightarrow> merlin_vstate list \<Rightarrow> bool" where
  "certified c text toff G es \<longleftrightarrow>
     length es = length (blocks G) \<and> (\<forall>s \<in> set es. state_ok s) \<and>
     state_covered (vstate_init_entry c) (es ! 0) \<and>
     (\<forall>i < length (blocks G). valid (es ! i) \<longrightarrow>
        flows_out c text toff (blocks G) es i \<and> clean c text toff (blocks G) es i) \<and>
     (\<forall>e \<in> set (back_edges G). guarded_by_call text toff (blocks G) (snd e))"

lemma accepted_certified:
  assumes ok: "merlin_verify_text c text toff = Some MERLIN_VERIFY_OK" and "all_decode text"
    and cap: "unat (effective_cap c) \<le> 2 ^ 30"
  shows "\<exists>S G es. merlin_cfg_build text toff = Some (Inr G) \<and> graph_ok text toff S G \<and> length text < 2 ^ 32 \<and> certified c text toff G es"
proof -
  obtain G r where G: "merlin_cfg_build text toff = Some (Inr G)" "blocks G \<noteq> []"
      and r: "worklist c text toff (effective_cap c) (blocks G) (initial_run c (length (blocks G))) = Some r"
    using ok by (auto simp: merlin_verify_text_def split: if_splits option.splits sum.splits)
  have "text \<noteq> []" using G merlin_cfg_build_empty [of toff] by auto
  then obtain S where S: "graph_ok text toff S G" "length text < 2 ^ 32"
    using merlin_cfg_build_graph [OF G(1)] by blast
  note cert = worklist_certificate [OF S cap assms(2) r]
  obtain g where g: "r = Inr g" "nrejected g + of_nat (unguarded (back_edges G) (loop_header_ok g)) = 0"
    using ok G r cert by (cases r) (auto simp: merlin_verify_text_def verdict_def split: if_splits)
  then obtain T where T: "T \<le> 2 ^ 31" "run_inv c text toff (blocks G) g T" "queue g = []"
      "run_ok (effective_cap c) (length (blocks G)) g"
    using cert by blast
  let ?u = "unguarded (back_edges G) (loop_header_ok g)"
  have "?u \<le> length (back_edges G)" by (simp add: unguarded_def)
  moreover have "length (back_edges G) \<le> MERLIN_CFG_MAX_EDGES" using S(1) unfolding graph_ok_def by blast
  ultimately have "T + ?u < 2 ^ 32" using T(1) by simp
  moreover have "(of_nat (T + ?u) :: u32) = 0" using g(2) T(2) by (simp add: run_inv_def)
  ultimately have zero: "T = 0" "?u = 0" using of_nat_u32_zero [of "T + ?u"] by auto
  have "guarded_by_call text toff (blocks G) (snd e)" if e: "e \<in> set (back_edges G)" for e
  proof -
    have "edge (blocks G) (fst e) (snd e)" using S(1) e unfolding graph_ok_def by auto
    then have "snd e < length (blocks G)"
      using graph_succs [OF S(1)] graph_fields(1) [OF S(1) _ S(2)] G(2)
      by (metis S(1) edge_def graph_ok_def length_greater_0_conv segs_cover_def)
    moreover have "loop_header_ok g ! snd e" using zero(2) e by (auto simp: unguarded_def filter_empty_conv)
    ultimately show ?thesis using T(2) by (auto simp: run_inv_def)
  qed
  then have "certified c text toff G (entry_state g)"
    using T zero(1) by (auto simp: certified_def run_inv_def run_ok_def)
  then show ?thesis using G(1) S by blast
qed

text \<open>The program of the witnesses: a single \<open>ret\<close>.\<close>

definition ret_text :: "u8 list" where
  "ret_text = [0x67, 0x80, 0x00, 0x00]"

definition xdp_cfg :: merlin_verifier_cfg where
  "xdp_cfg = merlin_verifier_cfg_for_prog MERLIN_PROG_TYPE_XDP_V 0"

lemma xdp_cap: "unat (effective_cap xdp_cfg) \<le> 2 ^ 30"
  by (simp add: effective_cap_def xdp_cfg_def merlin_verifier_cfg_for_prog_def Let_def)

lemma ret_accepted: "merlin_verify_text xdp_cfg ret_text 0 = Some MERLIN_VERIFY_OK"
  by code_simp

lemma ret_decodes: "all_decode ret_text"
proof -
  have "insn_at ret_text 0 \<noteq> None" by code_simp
  then show ?thesis by (auto simp: all_decode_def ret_text_def less_Suc_eq)
qed

text \<open>
  C1: acceptance carries a certificate. When every word of the text decodes, the step cap is at most
  2^30 and the verdict is OK, there are entry states such that block 0 covers the initial state, each
  state reached has 32 canonical registers with \<open>x0\<close> the constant zero, every reached block is
  walked without a rejection, every successor covers the state its predecessor leaves, and every back
  edge ends behind a block with a helper call.
\<close>

theorem verify_certificate:
  assumes "merlin_verify_text c text toff = Some MERLIN_VERIFY_OK" and "all_decode text"
    and "unat (effective_cap c) \<le> 2 ^ 30"
  shows "\<exists>G es. merlin_cfg_build text toff = Some (Inr G) \<and> certified c text toff G es"
  using accepted_certified [OF assms] by blast

theorem verify_certificate_witness:
  "\<exists>G es. merlin_cfg_build ret_text 0 = Some (Inr G) \<and> certified xdp_cfg ret_text 0 G es"
  by (rule verify_certificate [OF ret_accepted ret_decodes xdp_cap])



lemma signed_small_neg: "0 \<le> k \<Longrightarrow> k < 2 ^ 32 \<Longrightarrow> signed_take_bit 63 (- k) = - k" for k :: int
  by (rule signed_take_bit_int_eq_self) simp_all

text \<open>
  The stack check confines accesses to the frame. If the check passes for a stack pointer whose
  offsets have not wrapped, then for every offset the pointer may hold the accessed bytes lie between
  the bottom of the stack budget and the stack pointer at entry.
\<close>

theorem stack_access_window:
  assumes "access_safe c a i w" and "kind a = RVAL_PTR_STACK" and "w \<le> 8"
    and "\<bar>sint (off_min a)\<bar> < 2 ^ 62" "\<bar>sint (off_max a)\<bar> < 2 ^ 61" "\<bar>sint i\<bar> < 2 ^ 61"
    and "sint (off_min a) \<le> o'" "o' \<le> sint (off_max a)"
  shows "- int (unat (max_stack_bytes c)) \<le> o' + sint i \<and> o' + sint i + int w \<le> 0"
proof -
  let ?b = "ucast (max_stack_bytes c) :: s64"
  have exact: "sint (x + y) = sint x + sint y" if "- (2 ^ 63) \<le> sint x + sint y" "sint x + sint y < 2 ^ 63" for x y :: s64
    using that by (simp add: sint_word_ariths signed_take_bit_int_eq_self)
  have w: "sint (of_nat w :: s64) = int w"
    using assms(3) by (simp add: sint_uint uint_nat unat_of_nat_small signed_take_bit_int_eq_self)
  have u: "uint (max_stack_bytes c) < 2 ^ LENGTH(32)" by (rule unsigned_less)
  then have "signed_take_bit 63 (uint (max_stack_bytes c)) = uint (max_stack_bytes c)"
    by (intro signed_take_bit_int_eq_self) (auto intro: order_trans [of _ 0])
  then have b: "sint ?b = int (unat (max_stack_bytes c))" "int (unat (max_stack_bytes c)) < 2 ^ 32"
    using u by (auto simp: sint_uint unsigned_ucast_eq take_bit_int_eq_self)
  have "signed_take_bit 63 (- int (unat (max_stack_bytes c))) = - int (unat (max_stack_bytes c))"
    using b(2) by (intro signed_small_neg) simp_all
  then have nb: "sint (- ?b) = - sint ?b" using b(1) by (simp add: sint_word_ariths)
  have lo: "sint (off_min a + i) = sint (off_min a) + sint i" and hi: "sint (off_max a + i) = sint (off_max a) + sint i"
    using assms(4-6) by (intro exact; simp)+
  then have hw: "sint (off_max a + i + of_nat w) = sint (off_max a) + sint i + int w"
    using assms(3,5,6) w by (subst exact) simp_all
  show ?thesis
    using assms(1,2,7,8) b nb lo hw by (auto simp: access_safe_def stack_oob_def word_sless_alt Let_def)
qed

theorem stack_access_window_witness:
  "access_safe xdp_cfg (rv_ptr RVAL_PTR_STACK 0 0) (- 8) 8 \<and> - int (unat (max_stack_bytes xdp_cfg)) \<le> 0 + sint (- 8 :: s64)"
proof
  show safe: "access_safe xdp_cfg (rv_ptr RVAL_PTR_STACK 0 0) (- 8) 8" by code_simp
  show "- int (unat (max_stack_bytes xdp_cfg)) \<le> 0 + sint (- 8 :: s64)"
    using stack_access_window [OF safe, of 0] by simp
qed


text \<open>
  Joins are stable. After joining \<open>s\<close> into \<open>d\<close> the result covers \<open>s\<close>; whatever \<open>d\<close> covered
  stays covered under any further join; and \<open>vstate_join\<close> reports a change exactly when \<open>d\<close> did not
  cover \<open>s\<close>, so an unchanged entry state needs no new visit.
\<close>

theorem vstate_join_stable:
  assumes "state_ok d" and "state_ok s" and "state_ok t"
  shows "state_covered s (fst (vstate_join d s)) \<and>
    (state_covered s d \<longrightarrow> state_covered s (fst (vstate_join d t))) \<and>
    (snd (vstate_join d s) \<longleftrightarrow> \<not> state_covered s d) \<and> state_ok (fst (vstate_join d s))"
  using assms state_join.upd_covers state_join.upd_keeps state_join.upd_ok vstate_join_unchanged by simp

theorem vstate_join_stable_witness:
  "state_covered (vstate_init_entry xdp_cfg) (fst (vstate_join vstate_zero (vstate_init_entry xdp_cfg)))"
  using vstate_join_stable [OF vstate_zero_ok init_entry_ok(1) init_entry_ok(1)] by blast

text \<open>
  C26: the abstract states are well typed. The entry state has 32 registers with canonical tristate numbers
  and the constant 0 in \<open>x0\<close>; a step on a decoded instruction and a join of two such states give such a
  state again.
\<close>

theorem states_well_typed:
  assumes "state_ok d" and "valid d" and "state_ok s" and "merlin_decode w p = Some i"
  shows "state_ok (vstate_init_entry c) \<and> valid (vstate_init_entry c) \<and>
    state_ok (vst (step_insn c i \<lparr>vst = d, rejected = n, pending = l\<rparr>)) \<and>
    valid (vst (step_insn c i \<lparr>vst = d, rejected = n, pending = l\<rparr>)) \<and>
    state_ok (fst (vstate_join d s))"
proof -
  have "good \<lparr>vst = d, rejected = n, pending = l\<rparr>" using assms(1,2) by (simp add: good_def)
  then have "good (step_insn c i \<lparr>vst = d, rejected = n, pending = l\<rparr>)"
    using merlin_decode_fields [OF assms(4)] by (simp add: step_insn_good)
  then show ?thesis
    using init_entry_ok [of c] state_join.upd_ok [OF assms(1,3)] by (simp add: good_def)
qed

theorem states_well_typed_witness:
  "state_ok (fst (vstate_join (vstate_init_entry xdp_cfg) (vstate_init_entry xdp_cfg)))"
proof -
  have "merlin_decode 0x8067 0 = Some (the (merlin_decode 0x8067 0))" by code_simp
  from states_well_typed [OF init_entry_ok init_entry_ok(1) this, of xdp_cfg xdp_cfg] show ?thesis by blast
qed

subsection \<open>Allow-lists\<close>

definition allow_bit :: "u8 list \<Rightarrow> nat \<Rightarrow> bool" where
  "allow_bit bm i \<longleftrightarrow> bm ! (i div 8) AND push_bit (i mod 8) 1 \<noteq> 0"

lemma and_exp_bit: "x AND 2 ^ k \<noteq> 0 \<longleftrightarrow> bit x k" for x :: "'a::len word"
  by (metis bit_iff_and_push_bit_not_eq_0 push_bit_of_1)

lemma allow_bit_iff: "allow_bit bm i \<longleftrightarrow> bit (bm ! (i div 8)) (i mod 8)"
  by (simp add: allow_bit_def and_exp_bit)

interpretation allow: bitmap allow_bit allow_set "\<lambda>bm i. i div 8 < length bm"
proof
  fix b :: "u8 list" and i j :: nat
  have same_index: "j = i \<longleftrightarrow> j div 8 = i div 8 \<and> j mod 8 = i mod 8"
    by (metis div_mult_mod_eq)
  show "(j div 8 < length (allow_set b i)) = (j div 8 < length b)"
    by (simp add: allow_set_def)
  assume "i div 8 < length b" "j div 8 < length b"
  then show "allow_bit (allow_set b i) j = (j = i \<or> allow_bit b j)"
    by (auto simp: allow_bit_iff allow_set_def bit_or_exp nth_list_update same_index)
qed

lemma allow_get_puts:
  assumes "unat m < 4096" and "\<forall>k \<in> set ks. k < 4096"
  shows "allow_get (foldl allow_set (replicate 512 0) ks) m i \<longleftrightarrow> i \<le> m \<and> unat i \<in> set ks"
proof (cases "i \<le> m")
  case True
  then have "unat i div 8 < length (replicate 512 (0 :: u8))"
    using assms(1) by (simp add: word_le_nat_alt less_mult_imp_div_less)
  moreover have "\<forall>k \<in> set ks. k div 8 < length (replicate 512 (0 :: u8))"
    using assms(2) by (simp add: less_mult_imp_div_less)
  ultimately have "allow_bit (foldl allow_set (replicate 512 0) ks) (unat i) \<longleftrightarrow> unat i \<in> set ks"
    using allow.get_puts [of ks "replicate 512 0" "unat i"] by (simp add: allow_bit_iff)
  then show ?thesis using True by (auto simp: allow_get_def allow_bit_def)
qed (simp add: allow_get_def not_le)

definition net_type :: "u32 \<Rightarrow> bool" where
  "net_type p \<longleftrightarrow> p = MERLIN_PROG_TYPE_XDP_V \<or> p = MERLIN_PROG_TYPE_TC_V \<or> p = MERLIN_PROG_TYPE_MVDP"

text \<open>
  What a configuration admits. For every program type and flags the allow-lists built by
  \<open>merlin_verifier_cfg_for_prog\<close> admit exactly the three marker helpers, and helper 1 for the network
  types; kfuncs 1 to 3 and callback 1 are admitted for the network types only.
\<close>

theorem cfg_for_prog_allows:
  "(helper_allowed (merlin_verifier_cfg_for_prog p f) i \<longleftrightarrow> i \<in> {0x142, 0x143, 0x144} \<or> net_type p \<and> i = 1) \<and>
   (kfunc_allowed (merlin_verifier_cfg_for_prog p f) i \<longleftrightarrow> net_type p \<and> i \<in> {1, 2, 3}) \<and>
   (callback_allowed (merlin_verifier_cfg_for_prog p f) i \<longleftrightarrow> net_type p \<and> i = 1)"
proof -
  let ?c = "merlin_verifier_cfg_for_prog p f"
  let ?z = "replicate 512 (0 :: u8)"
  have lists: "helper_allow ?c = foldl allow_set ?z (0x142 # 0x143 # 0x144 # (if net_type p then [1] else []))"
    "kfunc_allow ?c = foldl allow_set ?z (if net_type p then [1, 2, 3] else [])"
    "callback_allow ?c = foldl allow_set ?z (if net_type p then [1] else [])"
    by (simp_all add: merlin_verifier_cfg_for_prog_def net_type_def Let_def)
  have eq: "unat i = 0x142 \<longleftrightarrow> i = 0x142" "unat i = 0x143 \<longleftrightarrow> i = 0x143" "unat i = 0x144 \<longleftrightarrow> i = 0x144"
    "unat i = Suc 0 \<longleftrightarrow> i = 1" "unat i = 2 \<longleftrightarrow> i = 2" "unat i = 3 \<longleftrightarrow> i = 3"
    by (auto simp: word_unat_eq_iff)
  show ?thesis
    unfolding helper_allowed_def kfunc_allowed_def callback_allowed_def lists
    by (subst (1 2 3) allow_get_puts) (auto simp: eq word_le_nat_alt)
qed

text \<open>
  An empty text gives no verdict: the graph has no block and the initial state is stored through
  the zero-size allocation.
\<close>

theorem empty_text_faults: "merlin_verify_text c [] toff = None"
  using merlin_cfg_build_empty [of toff] by (auto simp: merlin_verify_text_def)

text \<open>
  A loop the verifier does not see. The one-instruction program \<open>jal x0, 0\<close> loaded at offset 0
  jumps to itself for ever, but the successor program counter 0 is read as no successor, so no back
  edge is recorded and the program is accepted.
\<close>

theorem self_loop_accepted:
  "flow [0x6f, 0, 0, 0] 0 0 \<and> merlin_verify_text xdp_cfg [0x6f, 0, 0, 0] 0 = Some MERLIN_VERIFY_OK"
proof
  show "flow [0x6f, 0, 0, 0] 0 0" by code_simp
  show "merlin_verify_text xdp_cfg [0x6f, 0, 0, 0] 0 = Some MERLIN_VERIFY_OK" by code_simp
qed

definition uninit_store_text :: "u8 list" where
  "uninit_store_text =
     [0x63, 0x04, 0x00, 0x00, 0x6f, 0x00, 0x80, 0x00, 0x93, 0x02, 0x01, 0x00, 0x23, 0x8c, 0x02, 0xfe,
      0x67, 0x80, 0x00, 0x00]"


text \<open>
  The return check trusts any value in \<open>ra\<close>. A program that loads a constant into \<open>ra\<close> and
  executes \<open>jalr x0, 4(ra)\<close> is accepted.
\<close>

theorem forged_return_accepted:
  "merlin_verify_text xdp_cfg [0x93, 0x00, 0x00, 0x10, 0x67, 0x80, 0x40, 0x00] 0 = Some MERLIN_VERIFY_OK"
  by code_simp

text \<open>
  The usual frame set-up \<open>addi sp, sp, -16\<close> is rejected, because the decoder reads the immediate
  as +4080.
\<close>

theorem frame_setup_rejected:
  "merlin_verify_text xdp_cfg [0x13, 0x01, 0x01, 0xff, 0x13, 0x01, 0x01, 0x01, 0x67, 0x80, 0x00, 0x00] 0 = Some MERLIN_VERIFY_REJECT"
  by code_simp

end
