(* ===== verification/Txn_Map.thy ===== *)
theory Txn_Map
  imports Merlin_Prelude
begin

text \<open>
  The fixed-size map of \<open>tools/merlin-txn/store.c\<close>: an array of 256 slots searched linearly.
  The theory holds the slot array and its operations, the abstract bounded map they implement
  (a partial function with a capacity), the interface between the two as the locale
  \<open>bounded_map\<close>, and the interpretation that discharges it for the code's operations.
\<close>

datatype errno = EINVAL | ENOSPC | EBADF | EEXIST | ENOENT | EBUSY

subsection \<open>First index of a linear search\<close>

fun find_index :: "('a \<Rightarrow> bool) \<Rightarrow> 'a list \<Rightarrow> nat option" where
  "find_index P [] = None"
| "find_index P (x # xs) = (if P x then Some 0 else map_option Suc (find_index P xs))"

lemma find_index_None: "find_index P xs = None \<longleftrightarrow> (\<forall>x \<in> set xs. \<not> P x)"
  by (induction xs) auto

lemma find_index_Some_split:
  "find_index P xs = Some i \<Longrightarrow>
   \<exists>A x B. xs = A @ x # B \<and> length A = i \<and> P x \<and> (\<forall>a \<in> set A. \<not> P a)"
proof (induction xs arbitrary: i)
  case (Cons y ys)
  show ?case
  proof (cases "P y")
    case True
    with Cons.prems show ?thesis by auto
  next
    case False
    with Cons.prems obtain j where j: "find_index P ys = Some j" "i = Suc j" by auto
    from Cons.IH [OF j(1)] obtain A x B
      where s: "ys = A @ x # B" "length A = j" "P x" "\<forall>a \<in> set A. \<not> P a"
      by blast
    have "y # ys = (y # A) @ x # B \<and> length (y # A) = i \<and> P x \<and> (\<forall>a \<in> set (y # A). \<not> P a)"
      using s j(2) False by auto
    then show ?thesis by blast
  qed
qed simp

lemma find_index_SomeE:
  assumes "find_index P xs = Some i"
  obtains A x B where "xs = A @ x # B" "length A = i" "P x" "\<forall>a \<in> set A. \<not> P a"
  using find_index_Some_split [OF assms] by blast

lemma find_index_bound: "find_index P xs = Some i \<Longrightarrow> i < length xs \<and> P (xs ! i)"
  by (erule find_index_SomeE) auto

subsection \<open>The map of the code\<close>

record merlin_map_entry =
  ekey :: u64
  evalue :: u64
  eused :: bool

record merlin_map =
  mhandle :: u32
  mvalid :: bool
  entries :: "merlin_map_entry list"
  count :: u32
  version :: u32

abbreviation (input) MERLIN_STORE_MAX_ENTRIES :: nat where "MERLIN_STORE_MAX_ENTRIES \<equiv> 256"

definition entry_zero :: merlin_map_entry where
  "entry_zero = \<lparr>ekey = 0, evalue = 0, eused = False\<rparr>"

definition entry_is :: "u64 \<Rightarrow> merlin_map_entry \<Rightarrow> bool" where
  "entry_is k e \<longleftrightarrow> eused e \<and> ekey e = k"

definition map_find :: "merlin_map \<Rightarrow> u64 \<Rightarrow> nat option" where
  "map_find m k = find_index (entry_is k) (entries m)"

definition map_insert :: "merlin_map \<Rightarrow> u64 \<Rightarrow> u64 \<Rightarrow> errno + merlin_map" where
  "map_insert m k v =
     (case map_find m k of
        Some _ \<Rightarrow> Inl EEXIST
      | None \<Rightarrow>
          (case find_index (\<lambda>e. \<not> eused e) (entries m) of
             Some i \<Rightarrow> Inr (m\<lparr>entries := (entries m)[i := \<lparr>ekey = k, evalue = v, eused = True\<rparr>],
                              count := count m + 1\<rparr>)
           | None \<Rightarrow> Inl ENOSPC))"

definition map_update :: "merlin_map \<Rightarrow> u64 \<Rightarrow> u64 \<Rightarrow> errno + merlin_map" where
  "map_update m k v =
     (case map_find m k of
        Some i \<Rightarrow> Inr (m\<lparr>entries := (entries m)[i := (entries m ! i)\<lparr>evalue := v\<rparr>]\<rparr>)
      | None \<Rightarrow> Inl ENOENT)"

definition map_upsert :: "merlin_map \<Rightarrow> u64 \<Rightarrow> u64 \<Rightarrow> errno + merlin_map" where
  "map_upsert m k v =
     (case map_find m k of
        Some i \<Rightarrow> Inr (m\<lparr>entries := (entries m)[i := (entries m ! i)\<lparr>evalue := v\<rparr>]\<rparr>)
      | None \<Rightarrow> map_insert m k v)"

definition map_delete :: "merlin_map \<Rightarrow> u64 \<Rightarrow> errno + merlin_map" where
  "map_delete m k =
     (case map_find m k of
        Some i \<Rightarrow> Inr (m\<lparr>entries := (entries m)[i := (entries m ! i)\<lparr>eused := False\<rparr>],
                         count := count m - 1\<rparr>)
      | None \<Rightarrow> Inl ENOENT)"

definition map_replace_all :: "merlin_map \<Rightarrow> u64 list \<Rightarrow> u64 list \<Rightarrow> nat \<Rightarrow> merlin_map" where
  "map_replace_all m keys vals n =
     m\<lparr>entries := map (\<lambda>i. if i < n then \<lparr>ekey = keys ! i, evalue = vals ! i, eused = True\<rparr>
                           else entry_zero) [0..<MERLIN_STORE_MAX_ENTRIES],
       count := of_nat (min n MERLIN_STORE_MAX_ENTRIES)\<rparr>"

text \<open>The loop of \<open>merlin_store_next\<close>: the slot found at or after \<open>pos\<close>, and the new \<open>pos\<close>.\<close>

function next_used :: "merlin_map_entry list \<Rightarrow> nat \<Rightarrow> (u64 \<times> u64) option \<times> nat" where
  "next_used es pos =
     (if pos < MERLIN_STORE_MAX_ENTRIES
      then if eused (es ! pos) then (Some (ekey (es ! pos), evalue (es ! pos)), pos + 1)
           else next_used es (pos + 1)
      else (None, pos))"
  by pat_completeness auto
termination by (relation "measure (\<lambda>(_, pos). MERLIN_STORE_MAX_ENTRIES - pos)") auto

declare next_used.simps [simp del]

subsection \<open>The abstract bounded map\<close>

type_synonym amap = "u64 \<rightharpoonup> u64"

definition spec_insert :: "nat \<Rightarrow> ('k \<rightharpoonup> 'v) \<Rightarrow> 'k \<Rightarrow> 'v \<Rightarrow> errno + ('k \<rightharpoonup> 'v)" where
  "spec_insert cap f k v =
     (if k \<in> dom f then Inl EEXIST
      else if card (dom f) < cap then Inr (f(k \<mapsto> v)) else Inl ENOSPC)"

definition spec_update :: "('k \<rightharpoonup> 'v) \<Rightarrow> 'k \<Rightarrow> 'v \<Rightarrow> errno + ('k \<rightharpoonup> 'v)" where
  "spec_update f k v = (if k \<in> dom f then Inr (f(k \<mapsto> v)) else Inl ENOENT)"

definition spec_delete :: "('k \<rightharpoonup> 'v) \<Rightarrow> 'k \<Rightarrow> errno + ('k \<rightharpoonup> 'v)" where
  "spec_delete f k = (if k \<in> dom f then Inr (f(k := None)) else Inl ENOENT)"

definition spec_upsert :: "nat \<Rightarrow> ('k \<rightharpoonup> 'v) \<Rightarrow> 'k \<Rightarrow> 'v \<Rightarrow> errno + ('k \<rightharpoonup> 'v)" where
  "spec_upsert cap f k v =
     (if k \<in> dom f \<or> card (dom f) < cap then Inr (f(k \<mapsto> v)) else Inl ENOSPC)"

text \<open>
  What a transaction relies on: each operation of the representation commutes with its abstract
  counterpart through \<open>look\<close> and keeps the representation invariant.
\<close>

locale bounded_map =
  fixes ok :: "'m \<Rightarrow> bool"
    and look :: "'m \<Rightarrow> ('k \<rightharpoonup> 'v)"
    and cap :: nat
    and ins :: "'m \<Rightarrow> 'k \<Rightarrow> 'v \<Rightarrow> errno + 'm"
    and upd :: "'m \<Rightarrow> 'k \<Rightarrow> 'v \<Rightarrow> errno + 'm"
    and del :: "'m \<Rightarrow> 'k \<Rightarrow> errno + 'm"
  assumes ins_look: "ok m \<Longrightarrow> map_sum id look (ins m k v) = spec_insert cap (look m) k v"
    and upd_look: "ok m \<Longrightarrow> map_sum id look (upd m k v) = spec_update (look m) k v"
    and del_look: "ok m \<Longrightarrow> map_sum id look (del m k) = spec_delete (look m) k"
    and ins_ok: "ok m \<Longrightarrow> ins m k v = Inr m' \<Longrightarrow> ok m'"
    and upd_ok: "ok m \<Longrightarrow> upd m k v = Inr m' \<Longrightarrow> ok m'"
    and del_ok: "ok m \<Longrightarrow> del m k = Inr m' \<Longrightarrow> ok m'"
    and look_bound: "ok m \<Longrightarrow> finite (dom (look m)) \<and> card (dom (look m)) \<le> cap"
begin

lemma ins_cases:
  assumes "ok m"
  shows "ins m k v = Inr m' \<Longrightarrow>
           k \<notin> dom (look m) \<and> card (dom (look m)) < cap \<and> look m' = (look m)(k \<mapsto> v)"
    and "ins m k v = Inl e \<Longrightarrow>
           e = EEXIST \<and> k \<in> dom (look m) \<or>
           e = ENOSPC \<and> k \<notin> dom (look m) \<and> card (dom (look m)) = cap"
  using ins_look [OF assms, of k v] look_bound [OF assms]
  by (auto simp: spec_insert_def split: if_splits)

lemma del_cases:
  assumes "ok m"
  shows "del m k = Inr m' \<Longrightarrow> k \<in> dom (look m) \<and> look m' = (look m)(k := None)"
    and "del m k = Inl e \<Longrightarrow> e = ENOENT \<and> k \<notin> dom (look m)"
  using del_look [OF assms, of k] by (auto simp: spec_delete_def split: if_splits)

text \<open>Deleting what was just inserted succeeds and restores the contents.\<close>

lemma del_after_ins:
  assumes "ok m" and "ins m k v = Inr m'"
  shows "\<exists>m''. del m' k = Inr m'' \<and> look m'' = look m"
proof -
  note i = ins_cases(1) [OF assms]
  have ok': "ok m'" using ins_ok [OF assms] .
  show ?thesis
  proof (cases "del m' k")
    case (Inl e)
    with del_cases(2) [OF ok' Inl] i show ?thesis by auto
  next
    case (Inr m'')
    with del_cases(1) [OF ok' Inr] i have "look m'' = look m" by (auto simp: domIff)
    with Inr show ?thesis by blast
  qed
qed

text \<open>Updating when the key is there and inserting otherwise is the abstract upsert.\<close>

lemma upd_or_ins_look:
  assumes "ok m"
  shows "map_sum id look (case upd m k v of Inr m' \<Rightarrow> Inr m' | Inl _ \<Rightarrow> ins m k v)
           = spec_upsert cap (look m) k v"
  using upd_look [OF assms, of k v] ins_look [OF assms, of k v]
  by (auto simp: spec_update_def spec_insert_def spec_upsert_def split: sum.split if_splits)

end

subsection \<open>Contents and invariant of the slot array\<close>

definition live :: "merlin_map_entry list \<Rightarrow> (u64 \<times> u64) list" where
  "live es = map (\<lambda>e. (ekey e, evalue e)) (filter eused es)"

definition contents :: "merlin_map \<Rightarrow> amap" where
  "contents m = map_of (live (entries m))"

definition map_ok :: "merlin_map \<Rightarrow> bool" where
  "map_ok m \<longleftrightarrow> length (entries m) = MERLIN_STORE_MAX_ENTRIES \<and> distinct (map fst (live (entries m))) \<and>
     count m = of_nat (length (live (entries m)))"

lemma live_simps [simp]:
  "live [] = []"
  "live (A @ B) = live A @ live B"
  "live (e # A) = (if eused e then (ekey e, evalue e) # live A else live A)"
  by (simp_all add: live_def)

lemma live_length: "length (live es) \<le> length es"
  by (simp add: live_def)

lemma live_replicate [simp]: "live (replicate n entry_zero) = []"
  by (simp add: live_def entry_zero_def filter_replicate)

lemma live_full: "\<forall>e \<in> set es. eused e \<Longrightarrow> length (live es) = length es"
  by (simp add: live_def)

lemma live_keys: "k \<in> fst ` set (live es) \<longleftrightarrow> (\<exists>e \<in> set es. entry_is k e)"
  by (auto simp: live_def entry_is_def image_iff)

lemma live_no_key: "\<forall>e \<in> set es. \<not> entry_is k e \<Longrightarrow> k \<notin> fst ` set (live es)"
  by (simp add: live_keys)

lemma dom_contents: "dom (contents m) = fst ` set (live (entries m))"
  by (simp add: contents_def dom_map_of_conv_image_fst)

lemma map_find_None: "map_find m k = None \<longleftrightarrow> k \<notin> dom (contents m)"
  by (simp add: map_find_def find_index_None dom_contents live_keys)

lemma card_contents: "map_ok m \<Longrightarrow> card (dom (contents m)) = length (live (entries m))"
  by (simp add: map_ok_def dom_contents distinct_card [of "map fst (live (entries m))", simplified])

text \<open>The slot a search finds, with the live pairs on both sides of it.\<close>

lemma map_find_SomeE:
  assumes "map_ok m" and "map_find m k = Some i"
  obtains A e B where "entries m = A @ e # B" "i = length A" "eused e" "ekey e = k"
    "k \<notin> fst ` set (live A)" "k \<notin> fst ` set (live B)" "contents m k = Some (evalue e)"
proof -
  from assms(2) obtain A e B where s: "entries m = A @ e # B" "length A = i" "entry_is k e"
    "\<forall>a \<in> set A. \<not> entry_is k a"
    unfolding map_find_def by (rule find_index_SomeE)
  have u: "eused e" "ekey e = k" using s(3) by (simp_all add: entry_is_def)
  have A: "k \<notin> fst ` set (live A)" using s(4) by (rule live_no_key)
  have B: "k \<notin> fst ` set (live B)" using assms(1) s(1) u by (auto simp: map_ok_def)
  have "contents m k = Some (evalue e)"
    using A by (simp add: contents_def s(1) u map_add_def map_of_eq_None_iff [THEN iffD2])
  with s u A B show thesis by (intro that [of A e B]) simp_all
qed

lemma map_of_insert_mid: "k \<notin> fst ` set A \<Longrightarrow> map_of (A @ (k, v) # B) = (map_of (A @ B))(k \<mapsto> v)"
  by (induction A) (auto simp: fun_upd_twist)

lemma map_insert_refines:
  assumes "map_ok m"
  shows "map_sum id contents (map_insert m k v) = spec_insert MERLIN_STORE_MAX_ENTRIES (contents m) k v"
    and "map_insert m k v = Inr m' \<Longrightarrow> map_ok m'"
proof -
  have *: "map_sum id contents (map_insert m k v) = spec_insert MERLIN_STORE_MAX_ENTRIES (contents m) k v \<and>
      (\<forall>m'. map_insert m k v = Inr m' \<longrightarrow> map_ok m')"
  proof (cases "map_find m k")
    case (Some i)
    then have "k \<in> dom (contents m)" using map_find_None [of m k] by simp
    with Some show ?thesis by (simp add: map_insert_def spec_insert_def)
  next
    case None
    then have k: "k \<notin> dom (contents m)" by (simp add: map_find_None)
    show ?thesis
    proof (cases "find_index (\<lambda>e. \<not> eused e) (entries m)")
      case full: None
      then have "length (live (entries m)) = length (entries m)"
        by (intro live_full) (simp add: find_index_None)
      then have "card (dom (contents m)) = MERLIN_STORE_MAX_ENTRIES"
        using assms by (simp add: card_contents map_ok_def)
      then show ?thesis using None full k by (simp add: map_insert_def spec_insert_def)
    next
      case (Some i)
      then obtain A e B where s: "entries m = A @ e # B" "length A = i" "\<not> eused e"
        by (rule find_index_SomeE) blast
      have less: "card (dom (contents m)) < MERLIN_STORE_MAX_ENTRIES"
        using assms s(1,3) live_length [of A] live_length [of B]
        by (simp add: card_contents) (simp add: map_ok_def)
      have "k \<notin> fst ` set (live A)" "k \<notin> fst ` set (live B)"
        using k s(1,3) by (auto simp: dom_contents)
      then have "map_of (live A @ (k, v) # live B) = (contents m)(k \<mapsto> v)"
        using map_of_insert_mid [of k "live A" v "live B"] s by (simp add: contents_def)
      moreover have "map_insert m k v = Inr (m\<lparr>entries := A @ \<lparr>ekey = k, evalue = v, eused = True\<rparr> # B,
          count := count m + 1\<rparr>)" (is "_ = Inr ?m")
        using None Some s by (auto simp: map_insert_def)
      moreover have "map_ok ?m"
        using \<open>k \<notin> fst ` set (live A)\<close> \<open>k \<notin> fst ` set (live B)\<close> assms s by (auto simp: map_ok_def)
      ultimately show ?thesis
        using k less by (simp add: spec_insert_def contents_def)
    qed
  qed
  then show "map_sum id contents (map_insert m k v) = spec_insert MERLIN_STORE_MAX_ENTRIES (contents m) k v" ..
  show "map_insert m k v = Inr m' \<Longrightarrow> map_ok m'" using * by blast
qed

lemma map_update_refines:
  assumes "map_ok m"
  shows "map_sum id contents (map_update m k v) = spec_update (contents m) k v"
    and "map_update m k v = Inr m' \<Longrightarrow> map_ok m'"
proof -
  have *: "map_sum id contents (map_update m k v) = spec_update (contents m) k v \<and>
      (\<forall>m'. map_update m k v = Inr m' \<longrightarrow> map_ok m')"
  proof (cases "map_find m k")
    case None
    then show ?thesis using map_find_None [of m k] by (simp add: map_update_def spec_update_def)
  next
    case (Some i)
    from assms Some obtain A e B where s: "entries m = A @ e # B" "i = length A" "eused e" "ekey e = k"
      "k \<notin> fst ` set (live A)" "k \<notin> fst ` set (live B)" "contents m k = Some (evalue e)"
      by (rule map_find_SomeE)
    then show ?thesis
      using Some assms
      by (auto simp: map_update_def spec_update_def contents_def map_of_insert_mid map_ok_def
          simp del: map_of_append)
  qed
  then show "map_sum id contents (map_update m k v) = spec_update (contents m) k v" ..
  show "map_update m k v = Inr m' \<Longrightarrow> map_ok m'" using * by blast
qed

lemma map_of_delete_mid:
  assumes "k \<notin> fst ` set A" "k \<notin> fst ` set B"
  shows "map_of (A @ B) = (map_of (A @ (k, v) # B))(k := None)"
proof -
  have "map_of (A @ B) k = None"
    using assms by (auto simp: map_of_eq_None_iff)
  then show ?thesis
    using assms by (simp add: map_of_insert_mid fun_upd_idem del: map_of_append)
qed

lemma map_delete_refines:
  assumes "map_ok m"
  shows "map_sum id contents (map_delete m k) = spec_delete (contents m) k"
    and "map_delete m k = Inr m' \<Longrightarrow> map_ok m'"
proof -
  have *: "map_sum id contents (map_delete m k) = spec_delete (contents m) k \<and>
      (\<forall>m'. map_delete m k = Inr m' \<longrightarrow> map_ok m')"
  proof (cases "map_find m k")
    case None
    then show ?thesis using map_find_None [of m k] by (simp add: map_delete_def spec_delete_def)
  next
    case (Some i)
    from assms Some obtain A e B where s: "entries m = A @ e # B" "i = length A" "eused e" "ekey e = k"
      "k \<notin> fst ` set (live A)" "k \<notin> fst ` set (live B)" "contents m k = Some (evalue e)"
      by (rule map_find_SomeE)
    then show ?thesis
      using Some assms map_of_delete_mid [OF s(5,6), of "evalue e"]
      by (auto simp: map_delete_def spec_delete_def contents_def map_ok_def simp del: map_of_append)
  qed
  then show "map_sum id contents (map_delete m k) = spec_delete (contents m) k" ..
  show "map_delete m k = Inr m' \<Longrightarrow> map_ok m'" using * by blast
qed

lemma contents_bound:
  "map_ok m \<Longrightarrow> finite (dom (contents m)) \<and> card (dom (contents m)) \<le> MERLIN_STORE_MAX_ENTRIES"
  using live_length [of "entries m"] by (simp add: card_contents) (simp add: map_ok_def dom_contents)

interpretation slots: bounded_map map_ok contents MERLIN_STORE_MAX_ENTRIES map_insert map_update map_delete
  by unfold_locales
    (fact map_insert_refines map_update_refines map_delete_refines contents_bound)+

lemma map_upsert_eq:
  "map_upsert m k v = (case map_update m k v of Inr m' \<Rightarrow> Inr m' | Inl _ \<Rightarrow> map_insert m k v)"
  by (simp add: map_upsert_def map_update_def split: option.split)

lemma map_upsert_refines:
  assumes "map_ok m"
  shows "map_sum id contents (map_upsert m k v) = spec_upsert MERLIN_STORE_MAX_ENTRIES (contents m) k v"
    and "map_upsert m k v = Inr m' \<Longrightarrow> map_ok m'"
proof -
  show "map_sum id contents (map_upsert m k v) = spec_upsert MERLIN_STORE_MAX_ENTRIES (contents m) k v"
    unfolding map_upsert_eq by (rule slots.upd_or_ins_look [OF assms])
  show "map_upsert m k v = Inr m' \<Longrightarrow> map_ok m'"
    unfolding map_upsert_eq
    using slots.upd_ok [OF assms] slots.ins_ok [OF assms] by (auto split: sum.splits)
qed

end
