(* ===== verification/Txn_Store.thy ===== *)
theory Txn_Store
  imports Txn_Map
begin

text \<open>
  The transaction engine of \<open>tools/merlin-txn/store.c\<close>: the global map table, the read
  operations, and the transaction calls begin, stage, commit and abort. A commit is compared with
  an abstract transaction on partial functions, and the calls together form a step relation whose
  reachable states satisfy the engine's invariant.
\<close>

record store =
  g_maps :: "merlin_map list"
  g_map_locked :: "bool list"

abbreviation (input) MERLIN_STORE_MAX_MAPS :: nat where "MERLIN_STORE_MAX_MAPS \<equiv> 64"
abbreviation (input) MERLIN_TXN_MAX_OPS :: nat where "MERLIN_TXN_MAX_OPS \<equiv> 4096"
abbreviation (input) MERLIN_TXN_F_FAST :: u32 where "MERLIN_TXN_F_FAST \<equiv> 2"

definition map_zero :: merlin_map where
  "map_zero = \<lparr>mhandle = 0, mvalid = False,
     entries = replicate MERLIN_STORE_MAX_ENTRIES entry_zero, count = 0, version = 0\<rparr>"

definition merlin_store_init :: "store \<Rightarrow> store" where
  "merlin_store_init st =
     st\<lparr>g_maps := map (\<lambda>i. map_zero\<lparr>mhandle := of_nat i + 1\<rparr>) [0..<MERLIN_STORE_MAX_MAPS]\<rparr>"

definition merlin_store_map_create :: "store \<Rightarrow> u32 \<times> store" where
  "merlin_store_map_create st =
     (case find_index (\<lambda>m. \<not> mvalid m) (g_maps st) of
        Some i \<Rightarrow>
          let m = (g_maps st ! i)\<lparr>mvalid := True, count := 0, version := 0,
                    entries := replicate MERLIN_STORE_MAX_ENTRIES entry_zero\<rparr>
          in (mhandle m, st\<lparr>g_maps := (g_maps st)[i := m]\<rparr>)
      | None \<Rightarrow> (0, st))"

definition handle_in_range :: "u32 \<Rightarrow> bool" where
  "handle_in_range h \<longleftrightarrow> h \<noteq> 0 \<and> unat h \<le> MERLIN_STORE_MAX_MAPS"

definition slot :: "u32 \<Rightarrow> nat" where
  "slot h = unat (h - 1)"

definition merlin_store_map_destroy :: "u32 \<Rightarrow> store \<Rightarrow> store" where
  "merlin_store_map_destroy h st =
     (if \<not> handle_in_range h then st
      else st\<lparr>g_maps := (g_maps st)[slot h := (g_maps st ! slot h)\<lparr>mvalid := False, count := 0\<rparr>]\<rparr>)"

definition find_map :: "merlin_map list \<Rightarrow> u32 \<Rightarrow> merlin_map option" where
  "find_map ms h =
     (if \<not> handle_in_range h then None
      else if mvalid (ms ! slot h) then Some (ms ! slot h) else None)"

definition merlin_store_lookup :: "store \<Rightarrow> u32 \<Rightarrow> u64 \<Rightarrow> u64 option" where
  "merlin_store_lookup st h k =
     (case find_map (g_maps st) h of
        None \<Rightarrow> None
      | Some m \<Rightarrow> map_option (\<lambda>i. evalue (entries m ! i)) (map_find m k))"

definition merlin_store_count :: "store \<Rightarrow> u32 \<Rightarrow> u32" where
  "merlin_store_count st h = (case find_map (g_maps st) h of None \<Rightarrow> 0 | Some m \<Rightarrow> count m)"

definition merlin_store_next :: "store \<Rightarrow> u32 \<Rightarrow> nat \<Rightarrow> (u64 \<times> u64) option \<times> nat" where
  "merlin_store_next st h pos =
     (case find_map (g_maps st) h of None \<Rightarrow> (None, pos) | Some m \<Rightarrow> next_used (entries m) pos)"

text \<open>
  The caller's loop over \<open>merlin_store_next\<close> (\<open>map-dump\<close> of the command line tool); each
  successful call moves \<open>pos\<close> past the slot it returned.
\<close>

lemma next_used_advances: "next_used es pos = (Some kv, pos') \<Longrightarrow> pos < pos' \<and> pos' \<le> MERLIN_STORE_MAX_ENTRIES"
proof (induction es pos rule: next_used.induct)
  case (1 es pos)
  then show ?case by (subst (asm) (2) next_used.simps) (auto split: if_splits)
qed

function map_dump :: "store \<Rightarrow> u32 \<Rightarrow> nat \<Rightarrow> (u64 \<times> u64) list" where
  "map_dump st h pos =
     (case merlin_store_next st h pos of
        (None, _) \<Rightarrow> []
      | (Some kv, pos') \<Rightarrow> kv # map_dump st h pos')"
  by pat_completeness auto
termination
proof (relation "measure (\<lambda>(_, _, pos). MERLIN_STORE_MAX_ENTRIES - pos)", goal_cases)
  case (2 st h pos r pos' kv)
  then have "pos < pos' \<and> pos' \<le> MERLIN_STORE_MAX_ENTRIES"
    by (auto simp: merlin_store_next_def split: option.splits dest!: sym [of "(Some _, _)"] next_used_advances)
  then show ?case by auto
qed simp

declare map_dump.simps [simp del]

subsection \<open>Transactions\<close>

record merlin_txn_op_v1 =
  map_handle :: u32
  op :: u32
  key :: u64
  val :: u64

abbreviation (input) MERLIN_MAP_TXN_INSERT :: u32 where "MERLIN_MAP_TXN_INSERT \<equiv> 1"
abbreviation (input) MERLIN_MAP_TXN_UPDATE :: u32 where "MERLIN_MAP_TXN_UPDATE \<equiv> 2"
abbreviation (input) MERLIN_MAP_TXN_UPSERT :: u32 where "MERLIN_MAP_TXN_UPSERT \<equiv> 3"
abbreviation (input) MERLIN_MAP_TXN_DELETE :: u32 where "MERLIN_MAP_TXN_DELETE \<equiv> 4"
abbreviation (input) MERLIN_MAP_TXN_REPLACE_ALL :: u32 where "MERLIN_MAP_TXN_REPLACE_ALL \<equiv> 5"

text \<open>The staging log and the touched set are the used prefixes of the C arrays.\<close>

record merlin_txn =
  topen :: bool
  committed :: bool
  aborted :: bool
  ns_id :: u32
  ops :: "merlin_txn_op_v1 list"
  touched :: "u32 list"

record merlin_txn_stats_v1 =
  ops_staged :: u32
  ops_applied :: u32
  ops_skipped :: u32
  conflict_map_handle :: u32
  commit_time_ns :: u64

definition txn_zero :: merlin_txn where
  "txn_zero = \<lparr>topen = False, committed = False, aborted = False, ns_id = 0, ops = [], touched = []\<rparr>"

definition merlin_txn_begin :: "u32 \<Rightarrow> merlin_txn" where
  "merlin_txn_begin ns = txn_zero\<lparr>topen := True, ns_id := ns\<rparr>"

definition track_touched :: "u32 list \<Rightarrow> u32 \<Rightarrow> u32 list" where
  "track_touched hs h =
     (if h \<notin> set hs \<and> length hs < MERLIN_STORE_MAX_MAPS then hs @ [h] else hs)"

definition merlin_txn_stage ::
  "store \<Rightarrow> merlin_txn \<Rightarrow> u32 \<Rightarrow> u32 \<Rightarrow> u64 \<Rightarrow> u64 \<Rightarrow> errno + merlin_txn" where
  "merlin_txn_stage st txn h opc k v =
     (if \<not> topen txn \<or> committed txn \<or> aborted txn then Inl EINVAL
      else if MERLIN_TXN_MAX_OPS \<le> length (ops txn) then Inl ENOSPC
      else if find_map (g_maps st) h = None then Inl EBADF
      else Inr (txn\<lparr>ops := ops txn @ [\<lparr>map_handle = h, op = opc, key = k, val = v\<rparr>],
                    touched := track_touched (touched txn) h\<rparr>))"

definition merlin_txn_abort :: "merlin_txn \<Rightarrow> merlin_txn" where
  "merlin_txn_abort txn = txn\<lparr>topen := False, aborted := True\<rparr>"

text \<open>One pass of the \<open>switch\<close> over the operation code.\<close>

definition apply_op :: "merlin_txn_op_v1 \<Rightarrow> merlin_map \<Rightarrow> errno + merlin_map" where
  "apply_op o1 m =
     (if op o1 = MERLIN_MAP_TXN_INSERT then map_insert m (key o1) (val o1)
      else if op o1 = MERLIN_MAP_TXN_UPDATE then map_update m (key o1) (val o1)
      else if op o1 = MERLIN_MAP_TXN_UPSERT then map_upsert m (key o1) (val o1)
      else if op o1 = MERLIN_MAP_TXN_DELETE then map_delete m (key o1)
      else if op o1 = MERLIN_MAP_TXN_REPLACE_ALL then Inr (map_replace_all m [key o1] [val o1] 1)
      else Inl EINVAL)"

definition soft_error :: "errno \<Rightarrow> bool" where
  "soft_error e \<longleftrightarrow> e = EEXIST \<or> e = ENOENT"

fun apply_ops ::
  "merlin_txn_op_v1 list \<Rightarrow> merlin_map list \<Rightarrow> u32 \<Rightarrow> u32
     \<Rightarrow> errno option \<times> merlin_map list \<times> u32 \<times> u32" where
  "apply_ops [] ms applied skipped = (None, ms, applied, skipped)"
| "apply_ops (o1 # os) ms applied skipped =
     (case find_map ms (map_handle o1) of
        None \<Rightarrow> (Some EBADF, ms, applied, skipped)
      | Some m \<Rightarrow>
          (case apply_op o1 m of
             Inl e \<Rightarrow> if soft_error e then apply_ops os ms applied (skipped + 1)
                      else (Some e, ms, applied, skipped)
           | Inr m' \<Rightarrow> apply_ops os (ms[slot (map_handle o1) := m'\<lparr>version := version m' + 1\<rparr>])
                         (applied + 1) skipped))"

definition lock_touched :: "bool \<Rightarrow> u32 list \<Rightarrow> bool list \<Rightarrow> bool list" where
  "lock_touched b hs ls = foldl (\<lambda>ls h. if handle_in_range h then ls[slot h := b] else ls) ls hs"

definition first_locked :: "store \<Rightarrow> u32 list \<Rightarrow> u32 option" where
  "first_locked st hs = find (\<lambda>h. handle_in_range h \<and> g_map_locked st ! slot h) hs"

text \<open>
  \<open>merlin_txn_commit\<close>: \<open>t0\<close> and \<open>t1\<close> are the two readings of the monotonic clock, \<open>so\<close> the
  statistics buffer of the caller if it passed one; the first component is the errno, if any.
\<close>

definition merlin_txn_commit ::
  "u64 \<Rightarrow> u64 \<Rightarrow> u32 \<Rightarrow> merlin_txn_stats_v1 option \<Rightarrow> merlin_txn \<Rightarrow> store
     \<Rightarrow> errno option \<times> merlin_txn_stats_v1 option \<times> merlin_txn \<times> store" where
  "merlin_txn_commit t0 t1 flags so txn st =
     (if \<not> topen txn \<or> committed txn \<or> aborted txn then (Some EINVAL, so, txn, st)
      else case (if flags AND MERLIN_TXN_F_FAST = 0 then first_locked st (touched txn) else None) of
        Some h \<Rightarrow> (Some EBUSY, map_option (\<lambda>s. s\<lparr>conflict_map_handle := h\<rparr>) so, txn, st)
      | None \<Rightarrow>
          let locked = lock_touched True (touched txn) (g_map_locked st);
              (rc, ms, applied, skipped) = apply_ops (ops txn) (g_maps st) 0 0;
              unlocked = lock_touched False (touched txn) locked
          in (rc,
              map_option (\<lambda>s. s\<lparr>ops_staged := of_nat (length (ops txn)), ops_applied := applied,
                ops_skipped := skipped, conflict_map_handle := 0, commit_time_ns := t1 - t0\<rparr>) so,
              (if rc = None then txn\<lparr>committed := True, topen := False\<rparr>
               else txn\<lparr>aborted := True, topen := False\<rparr>),
              st\<lparr>g_maps := ms, g_map_locked := unlocked\<rparr>))"

subsection \<open>Invariant of the map table\<close>

definition maps_ok :: "merlin_map list \<Rightarrow> bool" where
  "maps_ok ms \<longleftrightarrow> length ms = MERLIN_STORE_MAX_MAPS \<and>
     (\<forall>i < MERLIN_STORE_MAX_MAPS. mhandle (ms ! i) = of_nat i + 1 \<and> (mvalid (ms ! i) \<longrightarrow> map_ok (ms ! i)))"

definition abs_maps :: "merlin_map list \<Rightarrow> u32 \<rightharpoonup> amap" where
  "abs_maps ms h = map_option contents (find_map ms h)"

lemma slot_bound: "handle_in_range h \<Longrightarrow> slot h < MERLIN_STORE_MAX_MAPS"
  unfolding handle_in_range_def slot_def by (auto simp: unat_minus_one unat_gt_0 less_eq_Suc_le [symmetric])

lemma slot_inj: "slot h = slot h' \<longleftrightarrow> h = h'"
  unfolding slot_def by (simp add: word_unat_eq_iff [symmetric])

lemma slot_handle:
  assumes "i < MERLIN_STORE_MAX_MAPS"
  shows "handle_in_range (of_nat i + 1)" "slot (of_nat i + 1) = i"
proof -
  have "unat (of_nat (Suc i) :: u32) = Suc i"
    using assms by (intro unat_of_nat_small) simp
  then have u: "unat (of_nat i + 1 :: u32) = Suc i"
    by (simp add: add.commute)
  then have "of_nat i + 1 \<noteq> (0 :: u32)" by (metis nat.distinct(1) unsigned_0)
  then show "handle_in_range (of_nat i + 1)" "slot (of_nat i + 1) = i"
    using u assms by (simp_all add: handle_in_range_def slot_def unat_of_nat_small)
qed

lemma find_map_ok:
  assumes "maps_ok ms" and "find_map ms h = Some m"
  shows "map_ok m" "mvalid m" "handle_in_range h" "m = ms ! slot h"
  using assms slot_bound [of h] by (auto simp: maps_ok_def find_map_def split: if_splits)

lemma find_map_update:
  assumes "length ms = MERLIN_STORE_MAX_MAPS" and "handle_in_range h"
  shows "find_map (ms[slot h := m]) h' =
     (if h' = h then if mvalid m then Some m else None else find_map ms h')"
  using assms slot_bound [of h] slot_inj [of h h'] by (auto simp: find_map_def)

lemma maps_ok_update:
  assumes "maps_ok ms" and "handle_in_range h" and "mhandle m = mhandle (ms ! slot h)"
    and "mvalid m \<Longrightarrow> map_ok m"
  shows "maps_ok (ms[slot h := m])"
  using assms slot_bound [of h] by (auto simp: maps_ok_def nth_list_update)

lemma map_ok_version [simp]: "map_ok (m\<lparr>version := x\<rparr>) \<longleftrightarrow> map_ok m"
  by (simp add: map_ok_def)

lemma contents_version [simp]: "contents (m\<lparr>version := x\<rparr>) = contents m"
  by (simp add: contents_def)

lemma map_ok_empty:
  "map_ok (m\<lparr>mvalid := b, count := 0, version := x,
     entries := replicate MERLIN_STORE_MAX_ENTRIES entry_zero\<rparr>)"
  by (simp add: map_ok_def)

lemma lookup_contents:
  assumes "maps_ok (g_maps st)"
  shows "merlin_store_lookup st h k = (case abs_maps (g_maps st) h of None \<Rightarrow> None | Some f \<Rightarrow> f k)"
proof (cases "find_map (g_maps st) h")
  case (Some m)
  note m = find_map_ok [OF assms Some]
  have "map_option (\<lambda>i. evalue (entries m ! i)) (map_find m k) = contents m k"
  proof (cases "map_find m k")
    case None
    then show ?thesis using map_find_None [of m k] by (auto simp: domIff)
  next
    case (Some i)
    from m(1) Some show ?thesis by (rule map_find_SomeE) (simp add: Some)
  qed
  then show ?thesis using Some by (simp add: merlin_store_lookup_def abs_maps_def)
qed (simp add: merlin_store_lookup_def abs_maps_def)

subsection \<open>The abstract transaction\<close>

definition spec_op :: "merlin_txn_op_v1 \<Rightarrow> amap \<Rightarrow> errno + amap" where
  "spec_op o1 f =
     (if op o1 = MERLIN_MAP_TXN_INSERT then spec_insert MERLIN_STORE_MAX_ENTRIES f (key o1) (val o1)
      else if op o1 = MERLIN_MAP_TXN_UPDATE then spec_update f (key o1) (val o1)
      else if op o1 = MERLIN_MAP_TXN_UPSERT then spec_upsert MERLIN_STORE_MAX_ENTRIES f (key o1) (val o1)
      else if op o1 = MERLIN_MAP_TXN_DELETE then spec_delete f (key o1)
      else if op o1 = MERLIN_MAP_TXN_REPLACE_ALL then Inr [key o1 \<mapsto> val o1]
      else Inl EINVAL)"

fun spec_ops ::
  "merlin_txn_op_v1 list \<Rightarrow> (u32 \<rightharpoonup> amap) \<Rightarrow> nat \<Rightarrow> nat \<Rightarrow> errno option \<times> (u32 \<rightharpoonup> amap) \<times> nat \<times> nat" where
  "spec_ops [] F a s = (None, F, a, s)"
| "spec_ops (o1 # os) F a s =
     (case F (map_handle o1) of
        None \<Rightarrow> (Some EBADF, F, a, s)
      | Some f \<Rightarrow>
          (case spec_op o1 f of
             Inl e \<Rightarrow> if soft_error e then spec_ops os F a (s + 1) else (Some e, F, a, s)
           | Inr f' \<Rightarrow> spec_ops os (F(map_handle o1 \<mapsto> f')) (a + 1) s))"

lemma live_upd:
  "live (map (\<lambda>i. if i < n then f i else entry_zero) [0..<N]) =
     map (\<lambda>i. (ekey (f i), evalue (f i))) (filter (\<lambda>i. eused (f i)) [0..<min n N])"
proof (induction N)
  case (Suc N)
  then show ?case by (simp add: entry_zero_def min_def not_less le_Suc_eq)
qed simp

lemma map_replace_all_one:
  "map_ok (map_replace_all m [k] [v] 1)" "contents (map_replace_all m [k] [v] 1) = [k \<mapsto> v]"
  by (simp_all add: map_replace_all_def map_ok_def contents_def live_upd upt_rec [of 0 1] del: One_nat_def less_one)

lemma apply_op_refines:
  assumes "map_ok m"
  shows "map_sum id contents (apply_op o1 m) = spec_op o1 (contents m)"
    and "apply_op o1 m = Inr m' \<Longrightarrow> map_ok m'"
  unfolding apply_op_def spec_op_def
  using map_insert_refines [OF assms] map_update_refines [OF assms] map_upsert_refines [OF assms]
    map_delete_refines [OF assms] map_replace_all_one
  by (auto split: if_splits)

lemma map_insert_keeps: "map_insert m k v = Inr m' \<Longrightarrow> mhandle m' = mhandle m \<and> mvalid m' = mvalid m"
  by (auto simp: map_insert_def split: option.splits)

lemma apply_op_keeps: "apply_op o1 m = Inr m' \<Longrightarrow> mhandle m' = mhandle m \<and> mvalid m' = mvalid m"
  by (auto simp: apply_op_def map_update_def map_upsert_def map_delete_def map_replace_all_def
      split: if_splits option.splits dest: map_insert_keeps)

lemma abs_maps_update:
  assumes "maps_ok ms" and "find_map ms h = Some m" and "apply_op o1 m = Inr m'"
  shows "maps_ok (ms[slot h := m'\<lparr>version := x\<rparr>])"
    and "abs_maps (ms[slot h := m'\<lparr>version := x\<rparr>]) = (abs_maps ms)(h \<mapsto> contents m')"
proof -
  note m = find_map_ok [OF assms(1,2)]
  note k = apply_op_keeps [OF assms(3)] and k' = apply_op_refines(2) [OF m(1) assms(3)]
  show "maps_ok (ms[slot h := m'\<lparr>version := x\<rparr>])"
    using maps_ok_update [OF assms(1) m(3), of "m'\<lparr>version := x\<rparr>"] k k' m(4) by simp
  have "length ms = MERLIN_STORE_MAX_MAPS" using assms(1) by (simp add: maps_ok_def)
  from find_map_update [OF this m(3), of "m'\<lparr>version := x\<rparr>"]
  show "abs_maps (ms[slot h := m'\<lparr>version := x\<rparr>]) = (abs_maps ms)(h \<mapsto> contents m')"
    using k m(2) by (auto simp: abs_maps_def fun_eq_iff)
qed

definition abs_result ::
  "errno option \<times> merlin_map list \<times> u32 \<times> u32 \<Rightarrow> errno option \<times> (u32 \<rightharpoonup> amap) \<times> u32 \<times> u32" where
  "abs_result = map_prod id (map_prod abs_maps id)"

lemma apply_ops_refines:
  assumes "maps_ok ms"
  shows "abs_result (apply_ops os ms (of_nat a) (of_nat s)) =
      map_prod id (map_prod id (map_prod of_nat of_nat)) (spec_ops os (abs_maps ms) a s)"
    and "maps_ok (fst (snd (apply_ops os ms x y)))"
proof -
  show "maps_ok (fst (snd (apply_ops os ms x y)))"
    using assms
    by (induction os arbitrary: ms x y) (auto split: option.split sum.split intro!: abs_maps_update(1))
  show "abs_result (apply_ops os ms (of_nat a) (of_nat s)) =
      map_prod id (map_prod id (map_prod of_nat of_nat)) (spec_ops os (abs_maps ms) a s)"
    using assms
  proof (induction os arbitrary: ms a s)
    case Nil
    then show ?case by (simp add: abs_result_def)
  next
    case (Cons o1 os)
    show ?case
    proof (cases "find_map ms (map_handle o1)")
      case None
      then have "abs_maps ms (map_handle o1) = None" by (simp add: abs_maps_def)
      with None show ?thesis by (simp add: abs_result_def)
    next
      case (Some m)
      note ok = find_map_ok(1) [OF Cons.prems Some]
      note r = apply_op_refines [OF ok, of o1]
      have abs: "abs_maps ms (map_handle o1) = Some (contents m)" using Some by (simp add: abs_maps_def)
      show ?thesis
      proof (cases "apply_op o1 m")
        case (Inl e)
        then have "spec_op o1 (contents m) = Inl e" using r(1) by simp
        with Inl Some abs Cons.IH [OF Cons.prems, of a "Suc s"] show ?thesis
          by (simp add: abs_result_def add.commute)
      next
        case (Inr m')
        then have "spec_op o1 (contents m) = Inr (contents m')" using r(1) by simp
        with Inr Some abs Cons.IH [OF abs_maps_update(1) [OF Cons.prems Some Inr], of "version m' + 1" "Suc a" s]
        show ?thesis
          by (simp add: abs_maps_update(2) [OF Cons.prems Some Inr] add.commute del: fun_upd_apply)
      qed
    qed
  qed
qed

lemma spec_ops_counts:
  "spec_ops os F a s = (rc, F', a', s') \<Longrightarrow>
   dom F' = dom F \<and> a' + s' \<le> a + s + length os \<and> (rc = None \<longleftrightarrow> a' + s' = a + s + length os)"
proof (induction os F a s rule: spec_ops.induct)
  case (2 o1 os F a s)
  show ?case
  proof (cases "F (map_handle o1)")
    case None
    with "2.prems" show ?thesis by auto
  next
    case (Some f)
    show ?thesis
    proof (cases "spec_op o1 f")
      case (Inl e)
      with Some "2.prems" "2.IH"(1) [OF Some Inl] show ?thesis by (auto split: if_splits)
    next
      case (Inr f')
      have "dom (F(map_handle o1 \<mapsto> f')) = dom F" using Some by auto
      moreover have "spec_ops os (F(map_handle o1 \<mapsto> f')) (a + 1) s = (rc, F', a', s')"
        using "2.prems" Some Inr by simp
      ultimately show ?thesis using "2.IH"(2) [OF Some Inr] by (simp del: fun_upd_apply)
    qed
  qed
qed auto

subsection \<open>Locks\<close>

lemma lock_touched_length [simp]: "length (lock_touched b hs ls) = length ls"
  unfolding lock_touched_def by (induction hs arbitrary: ls) simp_all

lemma lock_touched_Cons [simp]:
  "lock_touched b (h # hs) ls = lock_touched b hs (if handle_in_range h then ls[slot h := b] else ls)"
  by (simp add: lock_touched_def)

lemma lock_touched_Nil [simp]: "lock_touched b [] ls = ls"
  by (simp add: lock_touched_def)

lemma lock_touched_nth:
  "i < length ls \<Longrightarrow>
   lock_touched b hs ls ! i = (if \<exists>h \<in> set hs. handle_in_range h \<and> slot h = i then b else ls ! i)"
proof (induction hs arbitrary: ls)
  case (Cons h hs)
  let ?ls = "if handle_in_range h then ls[slot h := b] else ls"
  have "?ls ! i = (if handle_in_range h \<and> slot h = i then b else ls ! i)"
    using Cons.prems by (simp add: nth_list_update)
  note ls = this
  have i: "i < length ?ls" using Cons.prems by simp
  have if_or: "(if E then b else if q then b else c) = (if q \<or> E then b else c)" for E q c
    by simp
  show ?case
    unfolding lock_touched_Cons Cons.IH [OF i] ls if_or list.set bex_simps(5) ..
qed simp

lemma lock_unlock:
  assumes "\<forall>l \<in> set ls. \<not> l"
  shows "lock_touched False hs (lock_touched True hs ls) = ls"
proof (rule nth_equalityI)
  fix i assume "i < length (lock_touched False hs (lock_touched True hs ls))"
  then have "i < length ls" "\<not> ls ! i" using assms by (simp_all add: all_set_conv_all_nth)
  then show "lock_touched False hs (lock_touched True hs ls) ! i = ls ! i"
    by (simp add: lock_touched_nth)
qed simp

lemma first_locked_none:
  assumes "\<forall>l \<in> set (g_map_locked st). \<not> l" and "length (g_map_locked st) = MERLIN_STORE_MAX_MAPS"
  shows "first_locked st hs = None"
  unfolding first_locked_def find_None_iff using assms slot_bound by (metis nth_mem)

subsection \<open>Commit\<close>

definition ready :: "merlin_txn \<Rightarrow> bool" where
  "ready txn \<longleftrightarrow> topen txn \<and> \<not> committed txn \<and> \<not> aborted txn"

definition no_conflict :: "u32 \<Rightarrow> merlin_txn \<Rightarrow> store \<Rightarrow> bool" where
  "no_conflict flags txn st \<longleftrightarrow> flags AND MERLIN_TXN_F_FAST \<noteq> 0 \<or> first_locked st (touched txn) = None"

lemma commit_ready:
  assumes "ready txn" and "no_conflict flags txn st"
    and "apply_ops (ops txn) (g_maps st) 0 0 = (rc, ms, applied, skipped)"
  shows "merlin_txn_commit t0 t1 flags so txn st =
     (rc, map_option (\<lambda>s. s\<lparr>ops_staged := of_nat (length (ops txn)), ops_applied := applied,
                ops_skipped := skipped, conflict_map_handle := 0, commit_time_ns := t1 - t0\<rparr>) so,
      (if rc = None then txn\<lparr>committed := True, topen := False\<rparr>
       else txn\<lparr>aborted := True, topen := False\<rparr>),
      st\<lparr>g_maps := ms, g_map_locked :=
        lock_touched False (touched txn) (lock_touched True (touched txn) (g_map_locked st))\<rparr>)"
  using assms unfolding merlin_txn_commit_def ready_def no_conflict_def by auto

lemma commit_abs:
  assumes "maps_ok (g_maps st)" and "ready txn" and "no_conflict flags txn st"
    and "spec_ops (ops txn) (abs_maps (g_maps st)) 0 0 = (rc, F, a, s)"
  obtains ms where "merlin_txn_commit t0 t1 flags so txn st =
     (rc, map_option (\<lambda>x. x\<lparr>ops_staged := of_nat (length (ops txn)), ops_applied := of_nat a,
                ops_skipped := of_nat s, conflict_map_handle := 0, commit_time_ns := t1 - t0\<rparr>) so,
      (if rc = None then txn\<lparr>committed := True, topen := False\<rparr>
       else txn\<lparr>aborted := True, topen := False\<rparr>),
      st\<lparr>g_maps := ms, g_map_locked :=
        lock_touched False (touched txn) (lock_touched True (touched txn) (g_map_locked st))\<rparr>)"
    and "abs_maps ms = F" and "maps_ok ms"
proof -
  obtain ms where run: "apply_ops (ops txn) (g_maps st) 0 0 = (rc, ms, of_nat a, of_nat s)"
    and abs: "abs_maps ms = F"
    using apply_ops_refines(1) [OF assms(1), of "ops txn" 0 0] assms(4)
    by (cases "apply_ops (ops txn) (g_maps st) 0 0") (auto simp: abs_result_def)
  have "maps_ok ms" using apply_ops_refines(2) [OF assms(1), of "ops txn" 0 0] run by simp
  from that [OF commit_ready [OF assms(2,3) run] abs this] show thesis .
qed

text \<open>The same, component by component.\<close>

lemma commit_parts:
  assumes "maps_ok (g_maps st)" and "ready txn" and "no_conflict flags txn st"
    and "spec_ops (ops txn) (abs_maps (g_maps st)) 0 0 = (rc, F, a, s)"
  obtains so' txn' st' where "merlin_txn_commit t0 t1 flags so txn st = (rc, so', txn', st')"
    and "so' = map_option (\<lambda>x. x\<lparr>ops_staged := of_nat (length (ops txn)), ops_applied := of_nat a,
                ops_skipped := of_nat s, conflict_map_handle := 0, commit_time_ns := t1 - t0\<rparr>) so"
    and "\<not> topen txn'" "committed txn' \<longleftrightarrow> rc = None" "aborted txn' \<longleftrightarrow> rc \<noteq> None"
    and "abs_maps (g_maps st') = F" "maps_ok (g_maps st')"
proof (rule commit_abs [OF assms])
  fix ms
  let ?st = "st\<lparr>g_maps := ms, g_map_locked :=
        lock_touched False (touched txn) (lock_touched True (touched txn) (g_map_locked st))\<rparr>"
  let ?txn = "if rc = None then txn\<lparr>committed := True, topen := False\<rparr>
       else txn\<lparr>aborted := True, topen := False\<rparr>"
  assume c: "merlin_txn_commit t0 t1 flags so txn st =
     (rc, map_option (\<lambda>x. x\<lparr>ops_staged := of_nat (length (ops txn)), ops_applied := of_nat a,
                ops_skipped := of_nat s, conflict_map_handle := 0, commit_time_ns := t1 - t0\<rparr>) so, ?txn, ?st)"
    and "abs_maps ms = F" "maps_ok ms"
  then show thesis using assms(2) by (intro that [OF c]) (simp_all add: ready_def)
qed

end
