(* ===== verification/Txn_Engine.thy ===== *)
theory Txn_Engine
  imports Txn_Store
begin

text \<open>
  The transaction engine as a whole: the calls a client makes form a step relation on the global
  store and the client's transaction; its reachable states satisfy the engine's invariant, a commit
  refines the abstract transaction, and iteration returns exactly the contents of a map.
\<close>

subsection \<open>The calls as a step relation\<close>

inductive txn_step :: "store \<times> merlin_txn \<Rightarrow> store \<times> merlin_txn \<Rightarrow> bool" where
  create: "merlin_store_map_create st = (h, st') \<Longrightarrow> txn_step (st, txn) (st', txn)"
| destroy: "txn_step (st, txn) (merlin_store_map_destroy h st, txn)"
| begin_txn: "txn_step (st, txn) (st, merlin_txn_begin ns)"
| stage: "merlin_txn_stage st txn h opc k v = Inr txn' \<Longrightarrow> txn_step (st, txn) (st, txn')"
| commit: "merlin_txn_commit t0 t1 flags so txn st = (rc, so', txn', st') \<Longrightarrow> txn_step (st, txn) (st', txn')"
| abort: "txn_step (st, txn) (st, merlin_txn_abort txn)"

definition boot :: store where
  "boot = merlin_store_init \<lparr>g_maps = [], g_map_locked = replicate MERLIN_STORE_MAX_MAPS False\<rparr>"

inductive reached :: "store \<times> merlin_txn \<Rightarrow> bool" where
  init: "reached (boot, txn_zero)"
| step: "reached s \<Longrightarrow> txn_step s s' \<Longrightarrow> reached s'"

inductive_cases txn_stepE: "txn_step (st, txn) (st', txn')"

definition txn_ok :: "merlin_txn \<Rightarrow> bool" where
  "txn_ok txn \<longleftrightarrow> length (ops txn) \<le> MERLIN_TXN_MAX_OPS \<and> distinct (touched txn) \<and>
     set (touched txn) = map_handle ` set (ops txn) \<and> (\<forall>h \<in> set (touched txn). handle_in_range h) \<and>
     \<not> (topen txn \<and> (committed txn \<or> aborted txn))"

definition locks_free :: "store \<Rightarrow> bool" where
  "locks_free st \<longleftrightarrow> g_map_locked st = replicate MERLIN_STORE_MAX_MAPS False"

lemma locks_free_first: "locks_free st \<Longrightarrow> first_locked st hs = None"
  by (rule first_locked_none) (auto simp: locks_free_def)

lemma maps_ok_create:
  assumes "maps_ok (g_maps st)" and "merlin_store_map_create st = (h, st')"
  shows "maps_ok (g_maps st')" "g_map_locked st' = g_map_locked st"
    and "h = 0 \<or> abs_maps (g_maps st) h = None \<and> abs_maps (g_maps st') = (abs_maps (g_maps st))(h \<mapsto> Map.empty)"
proof -
  let ?ms = "g_maps st"
  have *: "maps_ok (g_maps st') \<and> g_map_locked st' = g_map_locked st \<and>
    (h = 0 \<or> abs_maps ?ms h = None \<and> abs_maps (g_maps st') = (abs_maps ?ms)(h \<mapsto> Map.empty))"
  proof (cases "find_index (\<lambda>m. \<not> mvalid m) ?ms")
    case None
    with assms show ?thesis by (simp add: merlin_store_map_create_def)
  next
    case (Some i)
    from find_index_bound [OF this] assms(1) have i: "i < MERLIN_STORE_MAX_MAPS" "\<not> mvalid (?ms ! i)"
      and l: "length ?ms = MERLIN_STORE_MAX_MAPS" and h': "mhandle (?ms ! i) = of_nat i + 1"
      by (auto simp: maps_ok_def)
    let ?m = "(?ms ! i)\<lparr>mvalid := True, count := 0, version := 0,
                entries := replicate MERLIN_STORE_MAX_ENTRIES entry_zero\<rparr>"
    have h: "h = of_nat i + 1" and st': "st' = st\<lparr>g_maps := ?ms[i := ?m]\<rparr>"
      using assms(2) Some h' by (auto simp: merlin_store_map_create_def Let_def)
    note sl = slot_handle [OF i(1), folded h]
    have "find_map (?ms[i := ?m]) h'' = (if h'' = h then Some ?m else find_map ?ms h'')" for h''
      using find_map_update [OF l sl(1), of ?m h''] sl(2) by simp
    moreover have "find_map ?ms h = None" using sl i(2) by (simp add: find_map_def)
    moreover have "contents ?m = Map.empty" by (simp add: contents_def)
    moreover have "maps_ok (?ms[i := ?m])"
      using maps_ok_update [OF assms(1) sl(1), of ?m] sl(2) map_ok_empty by simp
    ultimately show ?thesis by (auto simp: st' abs_maps_def fun_eq_iff)
  qed
  then show "maps_ok (g_maps st')" "g_map_locked st' = g_map_locked st"
    and "h = 0 \<or> abs_maps ?ms h = None \<and> abs_maps (g_maps st') = (abs_maps ?ms)(h \<mapsto> Map.empty)"
    by blast+
qed

lemma maps_ok_destroy:
  assumes "maps_ok (g_maps st)"
  shows "maps_ok (g_maps (merlin_store_map_destroy h st))"
proof (cases "handle_in_range h")
  case True
  have "maps_ok ((g_maps st)[slot h := (g_maps st ! slot h)\<lparr>mvalid := False, count := 0\<rparr>])"
    by (rule maps_ok_update [OF assms True]) simp_all
  then show ?thesis by (simp add: merlin_store_map_destroy_def True)
qed (simp add: merlin_store_map_destroy_def assms)

lemma locks_destroy [simp]: "g_map_locked (merlin_store_map_destroy h st) = g_map_locked st"
  by (simp add: merlin_store_map_destroy_def)

text \<open>The touched set never fills up: it holds distinct handles and there are only 64 of them.\<close>

lemma touched_room:
  assumes "distinct hs" and "\<forall>h \<in> set hs. handle_in_range h" and "handle_in_range h" and "h \<notin> set hs"
  shows "length hs < MERLIN_STORE_MAX_MAPS"
proof -
  have "length (h # hs) = card (slot ` set (h # hs))"
    using assms by (simp add: card_image inj_on_def slot_inj distinct_card image_iff)
  also have "\<dots> \<le> card {..<MERLIN_STORE_MAX_MAPS}"
    using assms slot_bound by (intro card_mono) auto
  finally show ?thesis by simp
qed

lemma txn_ok_stage:
  assumes "txn_ok txn" and "merlin_txn_stage st txn h opc k v = Inr txn'"
  shows "txn_ok txn'"
proof -
  have h: "handle_in_range h" and r: "topen txn" "\<not> committed txn" "\<not> aborted txn"
      "length (ops txn) < MERLIN_TXN_MAX_OPS"
    and t: "txn' = txn\<lparr>ops := ops txn @ [\<lparr>map_handle = h, op = opc, key = k, val = v\<rparr>],
                    touched := track_touched (touched txn) h\<rparr>"
    using assms(2) by (auto simp: merlin_txn_stage_def find_map_def split: if_splits)
  have "distinct (touched txn)" "\<forall>h \<in> set (touched txn). handle_in_range h"
    using assms(1) by (simp_all add: txn_ok_def)
  from touched_room [OF this h] have
    "track_touched (touched txn) h = (if h \<in> set (touched txn) then touched txn else touched txn @ [h])"
    by (auto simp: track_touched_def)
  with assms(1) h r show ?thesis by (auto simp: t txn_ok_def)
qed

lemma commit_keeps:
  assumes "maps_ok (g_maps st)" and "locks_free st" and "txn_ok txn"
    and "merlin_txn_commit t0 t1 flags so txn st = (rc, so', txn', st')"
  shows "maps_ok (g_maps st') \<and> locks_free st' \<and> txn_ok txn' \<and> rc \<noteq> Some EBUSY"
proof (cases "ready txn")
  case False
  with assms show ?thesis by (auto simp: merlin_txn_commit_def ready_def)
next
  case True
  have nc: "no_conflict flags txn st" using locks_free_first [OF assms(2)] by (simp add: no_conflict_def)
  have un: "lock_touched False (touched txn) (lock_touched True (touched txn) (g_map_locked st))
      = g_map_locked st"
    using assms(2) by (intro lock_unlock) (simp add: locks_free_def)
  obtain rc' F a s where sp: "spec_ops (ops txn) (abs_maps (g_maps st)) 0 0 = (rc', F, a, s)"
    by (cases "spec_ops (ops txn) (abs_maps (g_maps st)) 0 0")
  have "spec_op o1 f \<noteq> Inl EBUSY" for o1 f
    by (simp add: spec_op_def spec_insert_def spec_update_def spec_upsert_def spec_delete_def)
  then have "fst (spec_ops os F' a' s') \<noteq> Some EBUSY" for os F' a' s'
    by (induction os arbitrary: F' a' s')
      (auto split: option.split sum.split simp del: fun_upd_apply)
  from this [of "ops txn" "abs_maps (g_maps st)" 0 0] sp have busy: "rc' \<noteq> Some EBUSY" by simp
  obtain ms where c: "merlin_txn_commit t0 t1 flags so txn st =
     (rc', map_option (\<lambda>x. x\<lparr>ops_staged := of_nat (length (ops txn)), ops_applied := of_nat a,
                ops_skipped := of_nat s, conflict_map_handle := 0, commit_time_ns := t1 - t0\<rparr>) so,
      (if rc' = None then txn\<lparr>committed := True, topen := False\<rparr>
       else txn\<lparr>aborted := True, topen := False\<rparr>), st\<lparr>g_maps := ms, g_map_locked := g_map_locked st\<rparr>)"
    and "maps_ok ms"
    using commit_abs [OF assms(1) True nc sp, of t0 t1 so] unfolding un by blast
  have "rc = rc'" "maps_ok (g_maps st')" "g_map_locked st' = g_map_locked st"
    "txn' = (if rc' = None then txn\<lparr>committed := True, topen := False\<rparr>
       else txn\<lparr>aborted := True, topen := False\<rparr>)"
    using assms(4) \<open>maps_ok ms\<close> unfolding c by auto
  with busy show ?thesis using assms(2,3) by (simp add: locks_free_def txn_ok_def)
qed

lemma maps_ok_init: "maps_ok (g_maps (merlin_store_init st))"
proof -
  let ?f = "\<lambda>i. map_zero\<lparr>mhandle := of_nat i + 1\<rparr>"
  have "map ?f [0..<n] ! i = ?f i" if "i < n" for i n
    using that by simp
  moreover have "mhandle (?f i) = of_nat i + 1 \<and> \<not> mvalid (?f i)" for i
    by (simp add: map_zero_def)
  ultimately show ?thesis
    unfolding maps_ok_def merlin_store_init_def by (simp del: upt_rec_numeral)
qed

lemma boot_ok: "maps_ok (g_maps boot)" "locks_free boot" "txn_ok txn_zero"
  unfolding boot_def by (rule maps_ok_init)
    (simp_all add: merlin_store_init_def locks_free_def txn_ok_def txn_zero_def del: upt_rec_numeral)

definition engine_ok :: "store \<times> merlin_txn \<Rightarrow> bool" where
  "engine_ok s \<longleftrightarrow> maps_ok (g_maps (fst s)) \<and> locks_free (fst s) \<and> txn_ok (snd s)"

lemma txn_step_keeps: "txn_step s s' \<Longrightarrow> engine_ok s \<Longrightarrow> engine_ok s'"
proof (induction rule: txn_step.induct)
  case (create st h st' txn)
  then show ?case using maps_ok_create [of st h st'] by (simp add: engine_ok_def locks_free_def)
next
  case (destroy st txn h)
  then show ?case using maps_ok_destroy [of st h] by (simp add: engine_ok_def locks_free_def)
next
  case (begin_txn st txn ns)
  then show ?case by (simp add: engine_ok_def txn_ok_def merlin_txn_begin_def txn_zero_def)
next
  case (stage st txn h opc k v txn')
  then show ?case using txn_ok_stage [of txn st h opc k v txn'] by (simp add: engine_ok_def)
next
  case (commit t0 t1 flags so txn st rc so' txn' st')
  then show ?case using commit_keeps [OF _ _ _ commit.hyps] by (simp add: engine_ok_def)
next
  case (abort st txn)
  then show ?case by (simp add: engine_ok_def txn_ok_def merlin_txn_abort_def)
qed

lemma reached_engine_ok: "reached s \<Longrightarrow> engine_ok s"
  by (induction rule: reached.induct)
    (simp_all add: engine_ok_def boot_ok txn_step_keeps [unfolded engine_ok_def])

subsection \<open>Iteration\<close>

lemma next_used_live:
  assumes "length es = MERLIN_STORE_MAX_ENTRIES"
  shows "case next_used es pos of
      (Some kv, pos') \<Rightarrow> live (drop pos es) = kv # live (drop pos' es)
    | (None, pos') \<Rightarrow> live (drop pos es) = []"
  using assms
proof (induction es pos rule: next_used.induct)
  case (1 es pos)
  show ?case
  proof (cases "pos < MERLIN_STORE_MAX_ENTRIES")
    case True
    then have "drop pos es = es ! pos # drop (Suc pos) es"
      using "1.prems" by (simp add: Cons_nth_drop_Suc)
    then show ?thesis
      using "1.IH" [OF True] True "1.prems"
      by (subst next_used.simps) (auto simp: split: prod.splits option.splits)
  next
    case False
    then show ?thesis using "1.prems" by (subst next_used.simps) simp
  qed
qed

lemma map_dump_live:
  assumes "maps_ok (g_maps st)" and "find_map (g_maps st) h = Some m"
  shows "map_dump st h pos = live (drop pos (entries m))"
proof (induction "MERLIN_STORE_MAX_ENTRIES - pos" arbitrary: pos rule: less_induct)
  case less
  have len: "length (entries m) = MERLIN_STORE_MAX_ENTRIES"
    using find_map_ok(1) [OF assms] by (simp add: map_ok_def)
  show ?case
  proof (cases "next_used (entries m) pos")
    case (Pair r pos')
    then show ?thesis
      using next_used_live [OF len, of pos] next_used_advances [of "entries m" pos _ pos'] less [of pos'] assms(2)
      by (subst map_dump.simps) (auto simp: merlin_store_next_def split: option.splits)
  qed
qed

subsection \<open>A first map and a first transaction\<close>

definition demo_store :: store where
  "demo_store = snd (merlin_store_map_create boot)"

definition demo_txn :: "merlin_txn_op_v1 list \<Rightarrow> merlin_txn" where
  "demo_txn os = (merlin_txn_begin 0)\<lparr>ops := os, touched := [1]\<rparr>"

definition stats_zero :: merlin_txn_stats_v1 where
  "stats_zero = \<lparr>ops_staged = 0, ops_applied = 0, ops_skipped = 0,
      conflict_map_handle = 0, commit_time_ns = 0\<rparr>"

lemma create_boot: "merlin_store_map_create boot = (1, demo_store)"
proof -
  have "map f [0..<MERLIN_STORE_MAX_MAPS] = f 0 # map f [1..<MERLIN_STORE_MAX_MAPS]" for f :: "nat \<Rightarrow> merlin_map"
    by (subst upt_conv_Cons) simp_all
  then have "fst (merlin_store_map_create boot) = 1"
    by (simp add: merlin_store_map_create_def boot_def merlin_store_init_def map_zero_def
        del: upt_rec_numeral)
  then show ?thesis by (simp add: demo_store_def prod_eq_iff)
qed

lemma reached_demo: "reached (demo_store, txn_zero)"
  using txn_step.create [OF create_boot] reached.init by (rule reached.step [rotated])

lemma demo_ok: "maps_ok (g_maps demo_store)" "locks_free demo_store"
  using reached_engine_ok [OF reached_demo] by (simp_all add: engine_ok_def)

lemma abs_demo: "abs_maps (g_maps demo_store) = [1 \<mapsto> Map.empty]"
proof -
  have "find_map (g_maps boot) h = None" for h
    using maps_ok_init slot_bound [of h]
    by (simp add: find_map_def boot_def merlin_store_init_def map_zero_def del: upt_rec_numeral)
  then have "abs_maps (g_maps boot) = Map.empty" by (simp add: abs_maps_def fun_eq_iff)
  then show ?thesis using maps_ok_create(3) [OF boot_ok(1) create_boot] by simp
qed

lemma ready_demo: "ready (demo_txn os)" "ops (demo_txn os) = os"
  by (simp_all add: ready_def demo_txn_def merlin_txn_begin_def txn_zero_def)

lemma demo_no_conflict: "no_conflict flags txn demo_store"
  using locks_free_first [OF demo_ok(2)] by (simp add: no_conflict_def)

subsection \<open>Properties of the engine\<close>

text \<open>
  C6: a commit refines the abstract transaction. On a well-formed store, for an open transaction whose
  touched maps no other commit has locked, \<open>merlin_txn_commit\<close> returns the error code of the abstract
  transaction, leaves exactly its contents in every map, reports its numbers of applied and skipped
  operations without wrap-around, and closes the transaction as committed or aborted accordingly.
\<close>

theorem commit_refines:
  assumes "maps_ok (g_maps st)" and "ready txn" and "length (ops txn) \<le> MERLIN_TXN_MAX_OPS"
    and "no_conflict flags txn st"
  shows "case spec_ops (ops txn) (abs_maps (g_maps st)) 0 0 of (rc, F, a, s) \<Rightarrow>
     case merlin_txn_commit t0 t1 flags (Some s0) txn st of (rc', so, txn', st') \<Rightarrow>
       rc' = rc \<and> abs_maps (g_maps st') = F \<and> maps_ok (g_maps st') \<and>
       (\<exists>x. so = Some x \<and> unat (ops_applied x) = a \<and> unat (ops_skipped x) = s \<and>
          unat (ops_staged x) = length (ops txn)) \<and>
       \<not> topen txn' \<and> (committed txn' \<longleftrightarrow> rc = None) \<and> (aborted txn' \<longleftrightarrow> rc \<noteq> None)"
proof -
  obtain rc F a s where sp: "spec_ops (ops txn) (abs_maps (g_maps st)) 0 0 = (rc, F, a, s)"
    by (cases "spec_ops (ops txn) (abs_maps (g_maps st)) 0 0")
  have "a + s \<le> MERLIN_TXN_MAX_OPS" using spec_ops_counts [OF sp] assms(3) by simp
  then have n: "unat (of_nat a :: u32) = a" "unat (of_nat s :: u32) = s"
    "unat (of_nat (length (ops txn)) :: u32) = length (ops txn)"
    using assms(3) by (auto intro!: unat_of_nat_small)
  show ?thesis
    by (rule commit_parts [OF assms(1,2,4) sp, of t0 t1 "Some s0"]) (simp add: sp n)
qed

theorem commit_refines_witness:
  "case merlin_txn_commit 5 9 1 (Some stats_zero)
      (demo_txn [\<lparr>map_handle = 1, op = 1, key = 7, val = 70\<rparr>, \<lparr>map_handle = 1, op = 2, key = 8, val = 80\<rparr>])
      demo_store of (rc, so, txn', st') \<Rightarrow> rc = None \<and> abs_maps (g_maps st') = [1 \<mapsto> [7 \<mapsto> 70]]"
proof -
  let ?os = "[\<lparr>map_handle = 1, op = 1, key = 7, val = 70\<rparr>, \<lparr>map_handle = 1, op = 2, key = 8, val = 80\<rparr>]"
  have "spec_ops (ops (demo_txn ?os)) (abs_maps (g_maps demo_store)) 0 0 = (None, [1 \<mapsto> [7 \<mapsto> 70]], 1, 1)"
    by (simp add: abs_demo ready_demo(2) spec_op_def spec_insert_def spec_update_def soft_error_def)
  moreover have "length (ops (demo_txn ?os)) \<le> MERLIN_TXN_MAX_OPS" by (simp add: ready_demo(2))
  ultimately show ?thesis
    using commit_refines [OF demo_ok(1) ready_demo(1) _ demo_no_conflict, of ?os 5 9 1 stats_zero]
    by (auto split: prod.splits)
qed

text \<open>
  C7: the engine's invariant. In every state the calls can reach, each live map's slot array has
  distinct keys and an exact \<open>count\<close>, no map is left locked, the touched set is exactly the set of
  handles in the staging log, and no commit is refused with \<open>-EBUSY\<close>.
\<close>

theorem reached_invariant:
  assumes "reached (st, txn)"
  shows "maps_ok (g_maps st) \<and> locks_free st \<and> txn_ok txn \<and>
     unat (merlin_store_count st h) =
       (case abs_maps (g_maps st) h of None \<Rightarrow> 0 | Some f \<Rightarrow> card (dom f)) \<and>
     fst (merlin_txn_commit t0 t1 flags so txn st) \<noteq> Some EBUSY"
proof -
  have ok: "maps_ok (g_maps st)" "locks_free st" "txn_ok txn"
    using reached_engine_ok [OF assms] by (simp_all add: engine_ok_def)
  have "unat (merlin_store_count st h) = (case abs_maps (g_maps st) h of None \<Rightarrow> 0 | Some f \<Rightarrow> card (dom f))"
  proof (cases "find_map (g_maps st) h")
    case (Some m)
    note m = find_map_ok(1) [OF ok(1) Some]
    then have "length (live (entries m)) \<le> MERLIN_STORE_MAX_ENTRIES"
      using live_length [of "entries m"] by (simp add: map_ok_def)
    then have "unat (count m) = length (live (entries m))"
      using m by (simp add: map_ok_def unat_of_nat_small)
    then show ?thesis using Some m by (simp add: merlin_store_count_def abs_maps_def card_contents)
  qed (simp add: merlin_store_count_def abs_maps_def)
  then show ?thesis
    using ok commit_keeps [OF ok]
    by (cases "merlin_txn_commit t0 t1 flags so txn st") (metis fst_conv)
qed

theorem reached_invariant_witness: "maps_ok (g_maps demo_store) \<and> merlin_store_count demo_store 1 = 0"
  using reached_invariant [OF reached_demo, of 1] by (simp add: abs_demo unat_eq_zero)

text \<open>
  Iteration. Calling \<open>merlin_store_next\<close> from position 0 until it returns false lists every
  key of the map exactly once, with its value, and as many pairs as \<open>merlin_store_count\<close> says.
\<close>

theorem dump_lists_contents:
  assumes "maps_ok (g_maps st)" and "abs_maps (g_maps st) h = Some f"
  shows "map_of (map_dump st h 0) = f \<and> distinct (map fst (map_dump st h 0)) \<and>
     merlin_store_count st h = of_nat (length (map_dump st h 0)) \<and>
     (\<forall>k. merlin_store_lookup st h k = f k)"
proof -
  obtain m where m: "find_map (g_maps st) h = Some m" "f = contents m"
    using assms(2) by (auto simp: abs_maps_def)
  then show ?thesis
    using map_dump_live [OF assms(1) m(1), of 0] find_map_ok(1) [OF assms(1) m(1)] assms
    by (simp add: contents_def map_ok_def merlin_store_count_def lookup_contents)
qed

theorem dump_lists_contents_witness: "map_dump demo_store 1 0 = []"
  using dump_lists_contents [OF demo_ok(1), of 1 Map.empty] by (simp add: abs_demo)

text \<open>
  C36: a failed commit is not undone. When the second operation of a transaction meets a map that was
  destroyed after it was staged, the commit fails with \<open>-EBADF\<close> and the transaction is aborted, yet
  the first operation's insertion stays visible; \<open>txn.h\<close> promises a commit that is atomic or none.
\<close>

theorem failed_commit_partial:
  assumes "maps_ok (g_maps st)" and "ready txn" and "no_conflict flags txn st"
    and "ops txn = [\<lparr>map_handle = h, op = MERLIN_MAP_TXN_INSERT, key = k, val = v\<rparr>, o2]"
    and "abs_maps (g_maps st) h = Some f" and "k \<notin> dom f" and "card (dom f) < MERLIN_STORE_MAX_ENTRIES"
    and "abs_maps (g_maps st) (map_handle o2) = None"
  shows "case merlin_txn_commit t0 t1 flags so txn st of (rc, so', txn', st') \<Rightarrow>
     rc = Some EBADF \<and> aborted txn' \<and> merlin_store_lookup st h k = None \<and>
     merlin_store_lookup st' h k = Some v"
proof -
  have "map_handle o2 \<noteq> h" using assms(5,8) by auto
  then have sp: "spec_ops (ops txn) (abs_maps (g_maps st)) 0 0 =
      (Some EBADF, (abs_maps (g_maps st))(h \<mapsto> f(k \<mapsto> v)), 1, 0)"
    using assms(4-8) by (simp add: spec_op_def spec_insert_def)
  show ?thesis
    by (rule commit_parts [OF assms(1-3) sp, of t0 t1 so])
      (use assms(1,5,6) in \<open>simp add: lookup_contents domIff\<close>)
qed

theorem failed_commit_partial_witness:
  "fst (merlin_txn_commit 0 0 1 None
     (demo_txn [\<lparr>map_handle = 1, op = 1, key = 7, val = 70\<rparr>, \<lparr>map_handle = 2, op = 1, key = 7, val = 70\<rparr>])
     demo_store) = Some EBADF"
  using failed_commit_partial [OF demo_ok(1) ready_demo(1) demo_no_conflict ready_demo(2),
      where h = 1 and k = 7 and v = 70 and f = Map.empty and ?t0.0 = 0 and ?t1.0 = 0 and flags = 1 and so = None
        and ?o2.0 = "\<lparr>map_handle = 2, op = 1, key = 7, val = 70\<rparr>"]
  by (auto simp: abs_demo split: prod.splits)

text \<open>
  Inserting a fresh key and deleting it in one transaction is a round trip: the commit succeeds,
  applies both operations and leaves the contents of every map as they were.
\<close>

theorem insert_delete_roundtrip:
  assumes "maps_ok (g_maps st)" and "ready txn" and "no_conflict flags txn st"
    and "ops txn = [\<lparr>map_handle = h, op = MERLIN_MAP_TXN_INSERT, key = k, val = v\<rparr>,
                    \<lparr>map_handle = h, op = MERLIN_MAP_TXN_DELETE, key = k, val = w\<rparr>]"
    and "abs_maps (g_maps st) h = Some f" and "k \<notin> dom f" and "card (dom f) < MERLIN_STORE_MAX_ENTRIES"
  shows "case merlin_txn_commit t0 t1 flags (Some s0) txn st of (rc, so, txn', st') \<Rightarrow>
     rc = None \<and> committed txn' \<and> map_option ops_applied so = Some 2 \<and>
     abs_maps (g_maps st') = abs_maps (g_maps st)"
proof -
  have "f(k := None) = f" using assms(6) by (simp add: domIff fun_upd_idem)
  then have sp: "spec_ops (ops txn) (abs_maps (g_maps st)) 0 0 = (None, abs_maps (g_maps st), 2, 0)"
    using assms(4-7) by (simp add: spec_op_def spec_insert_def spec_delete_def fun_upd_idem)
  show ?thesis
    by (rule commit_parts [OF assms(1-3) sp, of t0 t1 "Some s0"]) simp
qed

theorem insert_delete_roundtrip_witness:
  "fst (merlin_txn_commit 0 0 1 (Some stats_zero)
     (demo_txn [\<lparr>map_handle = 1, op = 1, key = 7, val = 70\<rparr>, \<lparr>map_handle = 1, op = 4, key = 7, val = 0\<rparr>])
     demo_store) = None"
  using insert_delete_roundtrip [OF demo_ok(1) ready_demo(1) demo_no_conflict ready_demo(2),
      where h = 1 and k = 7 and v = 70 and w = 0 and f = Map.empty and ?t0.0 = 0 and ?t1.0 = 0 and flags = 1
        and ?s0.0 = stats_zero]
  by (auto simp: abs_demo split: prod.splits)

end
