(* ===== verification/C_Text.thy ===== *)
theory C_Text
  imports Merlin_Prelude
begin

text \<open>
  The text conversions of the C library the tools use: numbers printed by \<open>%u\<close> and \<open>%x\<close>, numbers read by
  \<open>strtoul\<close> and \<open>strtoull\<close> with base 0 (both are 64 bits wide here), and the words of \<open>strtok\<close>. A C string is its
  list of characters without the final NUL.
\<close>

subsection \<open>Printing\<close>

definition digit_char :: "nat \<Rightarrow> char" where
  "digit_char d = char_of (if d < 10 then 48 + d else 87 + d)"

fun show_base :: "nat \<Rightarrow> nat \<Rightarrow> string" where
  "show_base b n = (if n < b \<or> b < 2 then [digit_char n] else show_base b (n div b) @ [digit_char (n mod b)])"

declare show_base.simps [simp del]

definition show_u :: "'a::len word \<Rightarrow> string" where
  "show_u w = show_base 10 (unat w)"

definition show_x :: "'a::len word \<Rightarrow> string" where
  "show_x w = show_base 16 (unat w)"

definition show_02x :: "u8 \<Rightarrow> string" where
  "show_02x w = [digit_char (unat w div 16), digit_char (unat w mod 16)]"

subsection \<open>Reading\<close>

definition digit_val :: "char \<Rightarrow> nat" where
  "digit_val c = (let v = of_char c :: nat in
     if 48 \<le> v \<and> v \<le> 57 then v - 48 else if 97 \<le> v \<and> v \<le> 122 then v - 87 else if 65 \<le> v \<and> v \<le> 90 then v - 55 else 99)"

definition is_digit :: "nat \<Rightarrow> char \<Rightarrow> bool" where
  "is_digit b c \<longleftrightarrow> digit_val c < b"

definition isspace :: "char \<Rightarrow> bool" where
  "isspace c \<longleftrightarrow> (let v = of_char c :: nat in v = 32 \<or> 9 \<le> v \<and> v \<le> 13)"

fun scan_digits :: "nat \<Rightarrow> nat \<Rightarrow> string \<Rightarrow> nat \<times> string" where
  "scan_digits b acc [] = (acc, [])"
| "scan_digits b acc (c # cs) = (if is_digit b c then scan_digits b (acc * b + digit_val c) cs else (acc, c # cs))"

fun scan_sign :: "string \<Rightarrow> bool \<times> string" where
  "scan_sign [] = (False, [])"
| "scan_sign (c # cs) = (if c = CHR ''-'' then (True, cs) else if c = CHR ''+'' then (False, cs) else (False, c # cs))"

definition hex_prefix :: "string \<Rightarrow> bool" where
  "hex_prefix s \<longleftrightarrow> 3 \<le> length s \<and> s ! 0 = CHR ''0'' \<and> (s ! 1 = CHR ''x'' \<or> s ! 1 = CHR ''X'') \<and> is_digit 16 (s ! 2)"

definition scan_base :: "string \<Rightarrow> nat \<times> string" where
  "scan_base s = (if hex_prefix s then (16, drop 2 s) else if take 1 s = ''0'' then (8, s) else (10, s))"

definition strtoull :: "string \<Rightarrow> u64 \<times> string" where
  "strtoull s =
     (case scan_sign (dropWhile isspace s) of
        (neg, t) \<Rightarrow>
          (case scan_base t of
             (b, d) \<Rightarrow>
               if d = [] \<or> \<not> is_digit b (hd d) then (0, s)
               else (case scan_digits b 0 d of
                 (n, rest) \<Rightarrow>
                   (if 2 ^ 64 \<le> int n then - 1 else if neg then - of_nat n else of_nat n, rest))))"

definition strtou32 :: "string \<Rightarrow> u32" where
  "strtou32 s = ucast (fst (strtoull s))"

text \<open>\<open>strtok\<close> with one delimiter, called until it returns no more tokens.\<close>

function tokens :: "(char \<Rightarrow> bool) \<Rightarrow> string \<Rightarrow> string list" where
  "tokens sep [] = []"
| "tokens sep (c # cs) =
     (if sep c then tokens sep cs
      else (c # takeWhile (\<lambda>c. \<not> sep c) cs) # tokens sep (dropWhile (\<lambda>c. \<not> sep c) cs))"
  by pat_completeness auto
termination by (relation "measure (\<lambda>(_, s). length s)") (auto simp: le_imp_less_Suc length_dropWhile_le)

subsection \<open>Printed numbers are read back\<close>

lemma digit_val_char: "d < 16 \<Longrightarrow> digit_val (digit_char d) = d"
  by (cases "d < 10") (simp_all add: digit_val_def digit_char_def Let_def)

lemma scan_digits_app:
  assumes "\<forall>c \<in> set s. is_digit b c"
  shows "scan_digits b acc (s @ rest) = scan_digits b (fst (scan_digits b acc s)) rest"
  using assms by (induction s arbitrary: acc) auto

lemma show_base_digits:
  assumes "2 \<le> b" "b \<le> 16"
  shows "\<forall>c \<in> set (show_base b n). \<exists>d < b. c = digit_char d"
  using assms
proof (induction b n rule: show_base.induct)
  case (1 b n)
  then show ?case
    by (subst show_base.simps) (auto intro: exI [of _ "n mod b"])
qed

lemma show_base_value:
  assumes "2 \<le> b" "b \<le> 16"
  shows "scan_digits b acc (show_base b n) = (acc * b ^ length (show_base b n) + n, [])"
  using assms
proof (induction b n rule: show_base.induct)
  case (1 b n)
  show ?case
  proof (cases "n < b")
    case True
    then show ?thesis using 1 by (simp add: show_base.simps [of b n] is_digit_def digit_val_char)
  next
    case False
    have b: "\<not> (n < b \<or> b < 2)" using False 1 by simp
    have d: "\<forall>c \<in> set (show_base b (n div b)). is_digit b c"
      using show_base_digits [of b "n div b"] 1 by (auto simp: is_digit_def digit_val_char)
    have m: "n mod b < b" "digit_val (digit_char (n mod b)) = n mod b"
      using 1(2,3) digit_val_char [of "n mod b"] mod_less_divisor [of b n] by linarith+
    have "scan_digits b acc (show_base b n) =
        scan_digits b (acc * b ^ length (show_base b (n div b)) + n div b) [digit_char (n mod b)]"
      using 1(1) [OF b 1(2,3)] d b by (simp add: show_base.simps [of b n] scan_digits_app)
    also have "\<dots> = (acc * b ^ length (show_base b n) + n, [])"
      using b m by (simp add: show_base.simps [of b n] is_digit_def algebra_simps)
    finally show ?thesis .
  qed
qed

lemma show_base_ne [simp]: "show_base b n \<noteq> []"
  by (subst show_base.simps) simp

lemma scan_show_base:
  assumes "2 \<le> b" "b \<le> 16" and "rest = [] \<or> \<not> is_digit b (hd rest)"
  shows "scan_digits b 0 (show_base b n @ rest) = (n, rest)"
proof -
  have "\<forall>c \<in> set (show_base b n). is_digit b c"
    using show_base_digits [OF assms(1,2), of n] assms(2) by (auto simp: is_digit_def digit_val_char)
  then have "scan_digits b 0 (show_base b n @ rest) = scan_digits b n rest"
    using show_base_value [OF assms(1,2), of 0 n] by (simp add: scan_digits_app)
  with assms(3) show ?thesis by (cases rest) auto
qed

lemma show_u_digits: "c \<in> set (show_u w) \<Longrightarrow> is_digit 10 c"
  using show_base_digits [of 10 "unat w"] by (auto simp: show_u_def is_digit_def digit_val_char)

end
