(* ===== verification/Txn_Script.thy ===== *)
theory Txn_Script
  imports Txn_Engine C_Text
begin

text \<open>
  The transaction driver, \<open>tools/merlin-txn/merlin-txn.c\<close>: the commands over the global store and transaction,
  and the script interpreter. \<open>die\<close> leaves the process with status 1. What a command prints is a value of
  \<open>txn_out\<close>, one constructor per line of output; messages on standard error are left out. The clock is a
  parameter: the two readings of a commit. Scripts contain no NUL.
\<close>

subsection \<open>Commands\<close>

record txn_cli =
  g_store :: store
  g_txn :: merlin_txn
  g_txn_active :: bool
  g_last_map :: u32

datatype txn_out =
    Out_create u32
  | Out_destroy u32
  | Out_dump u32 u32 "(u64 \<times> u64) list"
  | Out_lookup u64 "u64 option"
  | Out_begin u32
  | Out_stage u32 string u64 u64
  | Out_conflict u32
  | Out_commit u32 u32 u32 bool u64
  | Out_abort

datatype cmd_end = Return nat | Exit nat | Overrun

type_synonym cmd_result = "cmd_end \<times> txn_out list \<times> txn_cli"

definition parse_op :: "string \<Rightarrow> u32 option" where
  "parse_op s = (if s = ''insert'' then Some MERLIN_MAP_TXN_INSERT else if s = ''update'' then Some MERLIN_MAP_TXN_UPDATE
     else if s = ''upsert'' then Some MERLIN_MAP_TXN_UPSERT else if s = ''delete'' then Some MERLIN_MAP_TXN_DELETE
     else if s = ''replace-all'' then Some MERLIN_MAP_TXN_REPLACE_ALL else None)"

definition cmd_map_create :: "txn_cli \<Rightarrow> cmd_result" where
  "cmd_map_create c =
     (case merlin_store_map_create (g_store c) of
        (h, st) \<Rightarrow>
          if h = 0 then (Exit 1, [], c\<lparr>g_store := st\<rparr>)
          else (Return 0, [Out_create h], c\<lparr>g_store := st, g_last_map := h\<rparr>))"

definition cmd_map_destroy :: "string list \<Rightarrow> txn_cli \<Rightarrow> cmd_result" where
  "cmd_map_destroy argv c =
     (let h = strtou32 (argv ! 1) in
      (Return 0, [Out_destroy h], c\<lparr>g_store := merlin_store_map_destroy h (g_store c)\<rparr>))"

definition cmd_map_dump :: "string list \<Rightarrow> txn_cli \<Rightarrow> cmd_result" where
  "cmd_map_dump argv c =
     (let h = strtou32 (argv ! 1) in
      (Return 0, [Out_dump h (merlin_store_count (g_store c) h) (map_dump (g_store c) h 0)], c))"

definition cmd_map_lookup :: "string list \<Rightarrow> txn_cli \<Rightarrow> cmd_result" where
  "cmd_map_lookup argv c =
     (let h = strtou32 (argv ! 1); k = fst (strtoull (argv ! 2)) in
      (Return 0, [Out_lookup k (merlin_store_lookup (g_store c) h k)], c))"

definition cmd_txn_begin :: "string list \<Rightarrow> txn_cli \<Rightarrow> cmd_result" where
  "cmd_txn_begin argv c =
     (let ns = if 2 \<le> length argv then strtou32 (argv ! 1) else 0 in
      if g_txn_active c then (Exit 1, [], c)
      else (Return 0, [Out_begin ns], c\<lparr>g_txn := merlin_txn_begin ns, g_txn_active := True\<rparr>))"

definition cmd_txn_stage :: "string list \<Rightarrow> txn_cli \<Rightarrow> cmd_result" where
  "cmd_txn_stage argv c =
     (if \<not> g_txn_active c then (Exit 1, [], c)
      else let h = strtou32 (argv ! 1) in
        case parse_op (argv ! 2) of
          None \<Rightarrow> (Exit 1, [], c)
        | Some opc \<Rightarrow>
            let k = fst (strtoull (argv ! 3));
                v = (if 5 \<le> length argv then fst (strtoull (argv ! 4)) else 0) in
            (case merlin_txn_stage (g_store c) (g_txn c) h opc k v of
               Inl e \<Rightarrow> (Exit 1, [], c)
             | Inr txn \<Rightarrow> (Return 0, [Out_stage h (argv ! 2) k v], c\<lparr>g_txn := txn\<rparr>)))"

abbreviation (input) MERLIN_TXN_F_DRAIN_RCU :: u32 where "MERLIN_TXN_F_DRAIN_RCU \<equiv> 1"

definition cmd_txn_commit :: "u64 \<times> u64 \<Rightarrow> string list \<Rightarrow> txn_cli \<Rightarrow> cmd_result" where
  "cmd_txn_commit clk argv c =
     (if \<not> g_txn_active c then (Exit 1, [], c)
      else let flags = (if 2 \<le> length argv \<and> argv ! 1 = ''fast'' then MERLIN_TXN_F_FAST else MERLIN_TXN_F_DRAIN_RCU) in
        case merlin_txn_commit (fst clk) (snd clk) flags (Some stats_zero) (g_txn c) (g_store c) of
          (rc, so, txn, st) \<Rightarrow>
            let c' = c\<lparr>g_store := st, g_txn := txn, g_txn_active := False\<rparr>; s = the so in
            if rc = Some EBUSY then (Return 2, [Out_conflict (conflict_map_handle s)], c')
            else if rc \<noteq> None then (Exit 1, [], c')
            else (Return 0, [Out_commit (ops_staged s) (ops_applied s) (ops_skipped s)
                    (flags AND MERLIN_TXN_F_DRAIN_RCU \<noteq> 0) (commit_time_ns s)], c'))"

definition cmd_txn_abort :: "txn_cli \<Rightarrow> cmd_result" where
  "cmd_txn_abort c =
     (Return 0, [Out_abort],
      if g_txn_active c then c\<lparr>g_txn := merlin_txn_abort (g_txn c), g_txn_active := False\<rparr> else c)"

definition exec_cmd :: "u64 \<times> u64 \<Rightarrow> string list \<Rightarrow> txn_cli \<Rightarrow> cmd_result" where
  "exec_cmd clk argv c =
     (let argc = length argv; cmd = argv ! 0 in
      if argc < 1 then (Return 0, [], c)
      else if cmd = ''map-create'' then cmd_map_create c
      else if cmd = ''map-destroy'' \<and> 2 \<le> argc then cmd_map_destroy argv c
      else if cmd = ''map-dump'' \<and> 2 \<le> argc then cmd_map_dump argv c
      else if cmd = ''map-lookup'' \<and> 3 \<le> argc then cmd_map_lookup argv c
      else if cmd = ''txn-begin'' then cmd_txn_begin argv c
      else if cmd = ''txn-stage'' \<and> 4 \<le> argc then cmd_txn_stage argv c
      else if cmd = ''txn-commit'' then cmd_txn_commit clk argv c
      else if cmd = ''txn-abort'' then cmd_txn_abort c
      else (Return 1, [], c))"

subsection \<open>Scripts\<close>

text \<open>
  \<open>fgets\<close> into a buffer of 512 bytes: up to 511 characters, ending after a newline. A longer line comes in
  pieces, each of which the loop takes for a line. The words of a line are stored in an array of 32 pointers
  before the command runs; a 33rd word is written past its end.
\<close>

definition fgets :: "nat \<Rightarrow> string \<Rightarrow> string \<times> string" where
  "fgets n s =
     (let w = takeWhile (\<lambda>c. c \<noteq> CHR 0x0A) (take (n - 1) s);
          k = (if length w < length (take (n - 1) s) then Suc (length w) else length w) in (take k s, drop k s))"

definition strip_line :: "string \<Rightarrow> string" where
  "strip_line l = takeWhile (\<lambda>c. c \<noteq> CHR 0x0A \<and> c \<noteq> CHR ''#'') l"

definition line_words :: "string \<Rightarrow> string list" where
  "line_words l = tokens (\<lambda>c. c = CHR '' '' \<or> c = CHR 0x09) (strip_line l)"

abbreviation (input) MAX_WORDS :: nat where "MAX_WORDS \<equiv> 32"

lemma fgets_rest: "s \<noteq> [] \<Longrightarrow> 2 \<le> n \<Longrightarrow> length (snd (fgets n s)) < length s"
  by (cases s; cases "n - 1") (auto simp: fgets_def Let_def)

function script_loop :: "(nat \<Rightarrow> u64 \<times> u64) \<Rightarrow> string \<Rightarrow> nat \<Rightarrow> txn_cli \<Rightarrow> cmd_result" where
  "script_loop clk s lineno c =
     (if s = [] then (Return 0, [], c)
      else case fgets 512 s of
        (line, rest) \<Rightarrow>
          let toks = line_words line in
          if MAX_WORDS < length toks then (Overrun, [], c)
          else if toks = [] then script_loop clk rest (lineno + 1) c
          else (case exec_cmd (clk lineno) toks c of
            (rc, outs, c') \<Rightarrow>
              if rc \<noteq> Return 0 then (rc, outs, c')
              else (case script_loop clk rest (lineno + 1) c' of (rc', outs', c'') \<Rightarrow> (rc', outs @ outs', c''))))"
  by pat_completeness auto
termination
  by (relation "measure (\<lambda>(_, s, _, _). length s)") (auto dest: fgets_rest [of _ 512] simp: prod_eq_iff)

declare script_loop.simps [simp del]

definition run_script :: "(nat \<Rightarrow> u64 \<times> u64) \<Rightarrow> string option \<Rightarrow> txn_cli \<Rightarrow> cmd_result" where
  "run_script clk file_text c = (case file_text of None \<Rightarrow> (Return 1, [], c) | Some s \<Rightarrow> script_loop clk s 1 c)"

definition cli_start :: txn_cli where
  "cli_start = \<lparr>g_store = boot, g_txn = txn_zero, g_txn_active = False, g_last_map = 0\<rparr>"

text \<open>\<open>main\<close>: the arguments after the program name; \<open>files\<close> gives the contents of the files that open.\<close>

definition txn_main :: "(nat \<Rightarrow> u64 \<times> u64) \<Rightarrow> (string \<rightharpoonup> string) \<Rightarrow> string list \<Rightarrow> cmd_result" where
  "txn_main clk files argv =
     (if argv = [] then (Return 2, [], cli_start)
      else if argv ! 0 = ''script'' \<and> length argv = 2 then run_script clk (files (argv ! 1)) cli_start
      else exec_cmd (clk 0) argv cli_start)"

subsection \<open>The driver stays inside the engine\<close>

definition cli_ok :: "txn_cli \<Rightarrow> bool" where
  "cli_ok c \<longleftrightarrow> reached (g_store c, g_txn c)"

definition no_conflict_out :: "txn_out list \<Rightarrow> bool" where
  "no_conflict_out outs \<longleftrightarrow> (\<forall>h. Out_conflict h \<notin> set outs)"

definition keeps_engine :: "cmd_result \<Rightarrow> bool" where
  "keeps_engine r \<longleftrightarrow> cli_ok (snd (snd r)) \<and> no_conflict_out (fst (snd r)) \<and> fst r \<noteq> Return 2"

lemma keeps_engineI:
  "cli_ok c \<Longrightarrow> no_conflict_out outs \<Longrightarrow> rc \<noteq> Return 2 \<Longrightarrow> keeps_engine (rc, outs, c)"
  by (simp add: keeps_engine_def)

lemma cli_ok_step:
  assumes "cli_ok c" and "txn_step (g_store c, g_txn c) (st, txn)"
  shows "cli_ok (c\<lparr>g_store := st, g_txn := txn\<rparr>)" "cli_ok (c\<lparr>g_store := st, g_txn := txn, g_txn_active := b\<rparr>)"
  using reached.step [OF assms(1) [unfolded cli_ok_def] assms(2)] by (simp_all add: cli_ok_def)

lemma map_commands_keep:
  assumes "cli_ok c"
  shows "keeps_engine (cmd_map_create c)" "keeps_engine (cmd_map_destroy argv c)" "keeps_engine (cmd_map_dump argv c)"
    "keeps_engine (cmd_map_lookup argv c)"
  using assms
  by (auto simp: cmd_map_create_def cmd_map_destroy_def cmd_map_dump_def cmd_map_lookup_def Let_def cli_ok_def
      keeps_engine_def no_conflict_out_def intro: reached.step txn_step.create txn_step.destroy split: prod.split)

lemma txn_commands_keep:
  assumes "cli_ok c"
  shows "keeps_engine (cmd_txn_begin argv c)" "keeps_engine (cmd_txn_stage argv c)"
    "keeps_engine (cmd_txn_commit clk argv c)" "keeps_engine (cmd_txn_abort c)"
proof -
  show "keeps_engine (cmd_txn_begin argv c)" "keeps_engine (cmd_txn_abort c)"
    using assms
    by (auto simp: cmd_txn_begin_def cmd_txn_abort_def Let_def cli_ok_def keeps_engine_def no_conflict_out_def
        intro: reached.step txn_step.begin_txn txn_step.abort)
  show "keeps_engine (cmd_txn_stage argv c)"
    using assms
    by (auto simp: cmd_txn_stage_def Let_def cli_ok_def keeps_engine_def no_conflict_out_def
        intro: reached.step txn_step.stage split: option.split sum.split)
  have "engine_ok (g_store c, g_txn c)" using assms reached_engine_ok by (simp add: cli_ok_def)
  then have "rc \<noteq> Some EBUSY" if "merlin_txn_commit t0 t1 flags so (g_txn c) (g_store c) = (rc, so', txn', st')"
    for t0 t1 flags so rc so' txn' st' using commit_keeps [OF _ _ _ that] by (simp add: engine_ok_def)
  then show "keeps_engine (cmd_txn_commit clk argv c)"
    using assms
    by (auto simp: cmd_txn_commit_def Let_def cli_ok_def keeps_engine_def no_conflict_out_def
        intro: reached.step txn_step.commit split: prod.split)
qed

lemma exec_cmd_keeps: "cli_ok c \<Longrightarrow> keeps_engine (exec_cmd clk argv c)"
  using map_commands_keep [of c] txn_commands_keep [of c]
  by (auto simp: exec_cmd_def Let_def keeps_engine_def no_conflict_out_def)

lemma script_loop_keeps: "cli_ok c \<Longrightarrow> keeps_engine (script_loop clk s lineno c)"
proof (induction "length s" arbitrary: s lineno c rule: less_induct)
  case less
  note simps = script_loop.simps [of clk s lineno c]
  have stop: "keeps_engine (Return 0, [], c)" "keeps_engine (Overrun, [], c)"
    using less.prems by (simp_all add: keeps_engine_def no_conflict_out_def)
  obtain line rest where f: "fgets 512 s = (line, rest)" by fastforce
  obtain rc outs c' where e: "exec_cmd (clk lineno) (line_words line) c = (rc, outs, c')" by (cases rule: prod_cases3)
  have now: "keeps_engine (rc, outs, c')" using exec_cmd_keeps [OF less.prems] e by metis
  show ?case
  proof (cases "s = []")
    case False
    then have rest: "length rest < length s" using fgets_rest [of s 512] f by simp
    obtain rc2 outs2 c2 where l: "script_loop clk rest (lineno + 1) c' = (rc2, outs2, c2)" by (cases rule: prod_cases3)
    have "keeps_engine (script_loop clk rest (lineno + 1) c)" "keeps_engine (rc2, outs2, c2)"
      using less.hyps [OF rest] less.prems now l unfolding keeps_engine_def by (metis fst_conv snd_conv)+
    then show ?thesis
      using simps f e l now stop False by (auto simp: Let_def keeps_engine_def no_conflict_out_def)
  qed (use simps stop in simp)
qed

lemma cli_start_ok: "cli_ok cli_start"
  by (simp add: cli_ok_def cli_start_def reached.init)



end
