(* ===== verification/Bytes.thy ===== *)
theory Bytes
  imports Merlin_Prelude
begin

text \<open>
  Little-endian byte images of C integers and arrays: the layout in which the tools write their
  structures to files and sign them, with the round trip between a word and its bytes.
\<close>

definition le_bytes :: "nat \<Rightarrow> 'a::len word \<Rightarrow> u8 list" where
  "le_bytes n w = map (\<lambda>i. ucast (drop_bit (8 * i) w)) [0..<n]"

fun le_word :: "u8 list \<Rightarrow> 'a::len word" where
  "le_word [] = 0"
| "le_word (b # bs) = ucast b OR push_bit 8 (le_word bs)"

lemma length_le_bytes [simp]: "length (le_bytes n w) = n"
  by (simp add: le_bytes_def)

lemma bit_le_word:
  "bit (le_word bs :: 'a::len word) n \<longleftrightarrow>
     n < LENGTH('a) \<and> n div 8 < length bs \<and> bit (bs ! (n div 8)) (n mod 8)"
proof (induction bs arbitrary: n)
  case (Cons b bs)
  show ?case
  proof (cases "n < 8")
    case True
    then show ?thesis by (auto simp: bit_simps)
  next
    case False
    then have "n div 8 = Suc ((n - 8) div 8)" "(n - 8) mod 8 = n mod 8"
      by (simp_all add: le_div_geq le_mod_geq)
    then show ?thesis
      using False Cons.IH [of "n - 8"] by (auto simp: bit_simps dest: bit_imp_le_length)
  qed
qed simp

lemma le_word_bytes:
  assumes "LENGTH('a) \<le> 8 * n"
  shows "le_word (le_bytes n w) = (w :: 'a::len word)"
proof (rule bit_word_eqI)
  fix i
  assume i: "i < LENGTH('a)"
  then have "i div 8 < n" using assms by linarith
  moreover have "8 * (i div 8) + i mod 8 = i" by simp
  ultimately show "bit (le_word (le_bytes n w) :: 'a word) i \<longleftrightarrow> bit w i"
    using i by (simp add: bit_le_word le_bytes_def bit_simps)
qed

lemma le_word_bytes_u32 [simp]: "le_word (le_bytes 4 w) = (w :: u32)"
  by (rule le_word_bytes) simp

lemma le_word_bytes_u64 [simp]: "le_word (le_bytes 8 w) = (w :: u64)"
  by (rule le_word_bytes) simp

text \<open>Arrays: \<open>count\<close> elements of \<open>n\<close> bytes each.\<close>

definition le_array :: "nat \<Rightarrow> 'a::len word list \<Rightarrow> u8 list" where
  "le_array n ws = concat (map (le_bytes n) ws)"

fun le_words :: "nat \<Rightarrow> nat \<Rightarrow> u8 list \<Rightarrow> 'a::len word list" where
  "le_words n 0 bs = []"
| "le_words n (Suc c) bs = le_word (take n bs) # le_words n c (drop n bs)"

lemma length_le_array [simp]: "length (le_array n ws) = n * length ws"
  by (induction ws) (simp_all add: le_array_def)

lemma le_array_Cons: "le_array n (w # ws) = le_bytes n w @ le_array n ws"
  by (simp add: le_array_def)

lemma length_le_words [simp]: "length (le_words n c bs) = c"
  by (induction n c bs rule: le_words.induct) simp_all

lemma le_words_array:
  fixes ws :: "'a::len word list"
  assumes "LENGTH('a) \<le> 8 * n" and "length ws = c"
  shows "le_words n c (le_array n ws @ rest) = ws"
  using assms(2)
proof (induction ws arbitrary: c)
  case (Cons w ws)
  then obtain c' where "c = Suc c'" "length ws = c'" by (cases c) simp_all
  then show ?case using Cons.IH [of c'] le_word_bytes [OF assms(1)] by (simp add: le_array_Cons)
qed simp

text \<open>Reading a field at an offset of an image written as a sequence of pieces.\<close>

definition field :: "nat \<Rightarrow> nat \<Rightarrow> u8 list \<Rightarrow> u8 list" where
  "field off n bs = take n (drop off bs)"

lemma field_skip: "length a \<le> off \<Longrightarrow> field off n (a @ bs) = field (off - length a) n bs"
  by (simp add: field_def)

lemma field_here: "length a = n \<Longrightarrow> field 0 n (a @ bs) = a"
  by (simp add: field_def)

lemma field_last: "length a = n \<Longrightarrow> field 0 n a = a"
  by (simp add: field_def)

end
