(* ===== verification/Namespace.thy ===== *)
theory Namespace
  imports Bytes
begin

text \<open>
  The namespaces of \<open>tools/merlin-ns\<close>: permission bitsets and quotas
  (\<open>docs/design/uapi/merlin/namespace.h\<close>), their file image, the composition of a child namespace
  with its parent and the check of a program's facts against a namespace (\<open>ns.c\<close>).
\<close>

abbreviation (input) MERLIN_NS_MAGIC :: u32 where "MERLIN_NS_MAGIC \<equiv> 0x4D4E5356"
abbreviation (input) MERLIN_NS_VERSION :: u32 where "MERLIN_NS_VERSION \<equiv> 1"
abbreviation (input) MERLIN_NS_NAME_MAX :: nat where "MERLIN_NS_NAME_MAX \<equiv> 32"
abbreviation (input) MERLIN_NS_ATTACH_WORDS :: nat where "MERLIN_NS_ATTACH_WORDS \<equiv> 2"
abbreviation (input) MERLIN_NS_HELPER_WORDS :: nat where "MERLIN_NS_HELPER_WORDS \<equiv> 64"
abbreviation (input) MERLIN_NS_KFUNC_WORDS :: nat where "MERLIN_NS_KFUNC_WORDS \<equiv> 64"

record merlin_ns_config_v1 =
  ns_magic :: u32
  ns_size :: u32
  ns_version :: u32
  ns_flags :: u32
  ns_name :: "u8 list"
  parent_ns_id :: u32
  attest_policy :: u32
  permit_attach :: "u64 list"
  permit_helper :: "u64 list"
  permit_kfunc :: "u64 list"
  max_progs :: u64
  max_maps :: u64
  max_map_memory_bytes :: u64
  max_prog_memory_bytes :: u64
  trust_keyring_id :: u32
  ns_reserved :: "u32 list"

text \<open>The lengths of the arrays, which the C type fixes.\<close>

definition ns_wf :: "merlin_ns_config_v1 \<Rightarrow> bool" where
  "ns_wf c \<longleftrightarrow> length (ns_name c) = MERLIN_NS_NAME_MAX \<and>
     length (permit_attach c) = MERLIN_NS_ATTACH_WORDS \<and>
     length (permit_helper c) = MERLIN_NS_HELPER_WORDS \<and>
     length (permit_kfunc c) = MERLIN_NS_KFUNC_WORDS \<and> length (ns_reserved c) = 7"

subsection \<open>Bitsets\<close>

definition merlin_ns_bit_get :: "u64 list \<Rightarrow> nat \<Rightarrow> nat \<Rightarrow> bool" where
  "merlin_ns_bit_get bs idx nwords =
     (if nwords \<le> idx div 64 then False else drop_bit (idx mod 64) (bs ! (idx div 64)) AND 1 \<noteq> 0)"

definition merlin_ns_bit_set :: "u64 list \<Rightarrow> nat \<Rightarrow> nat \<Rightarrow> u64 list" where
  "merlin_ns_bit_set bs idx nwords =
     (if nwords \<le> idx div 64 then bs
      else bs[idx div 64 := bs ! (idx div 64) OR push_bit (idx mod 64) 1])"

definition merlin_ns_bit_clear :: "u64 list \<Rightarrow> nat \<Rightarrow> nat \<Rightarrow> u64 list" where
  "merlin_ns_bit_clear bs idx nwords =
     (if nwords \<le> idx div 64 then bs
      else bs[idx div 64 := bs ! (idx div 64) AND NOT (push_bit (idx mod 64) 1)])"

text \<open>
  The inner loop of \<open>bitset_subset\<close>: it looks for a set bit and has no bound of its own, so not
  finding one is the value \<^const>\<open>None\<close>.
\<close>

partial_function (option) lowest_bit :: "u64 \<Rightarrow> nat \<Rightarrow> nat option" where
  "lowest_bit w k = (if drop_bit k w AND 1 \<noteq> 0 then Some k else lowest_bit w (k + 1))"

declare lowest_bit.simps [code]

fun bitset_subset_from :: "u64 list \<Rightarrow> u64 list \<Rightarrow> nat \<Rightarrow> nat option" where
  "bitset_subset_from (c # cs) (p # ps) i =
     (let illegal = c AND NOT p in
      if illegal \<noteq> 0 then map_option (\<lambda>k. i * 64 + k) (lowest_bit illegal 0)
      else bitset_subset_from cs ps (i + 1))"
| "bitset_subset_from _ _ i = None"

definition bitset_subset :: "u64 list \<Rightarrow> u64 list \<Rightarrow> nat \<Rightarrow> nat option" where
  "bitset_subset child parent nwords = bitset_subset_from (take nwords child) (take nwords parent) 0"

subsection \<open>Composition\<close>

datatype ns_dim = Dim_attach | Dim_helper | Dim_kfunc
datatype ns_quota = Max_progs | Max_maps | Max_map_memory | Max_prog_memory
datatype ns_widened = Widened_bit ns_dim nat | Widened_quota ns_quota

definition quota_merge :: "ns_quota \<Rightarrow> u64 \<Rightarrow> u64 \<Rightarrow> ns_widened + u64" where
  "quota_merge q child parent =
     (if parent \<noteq> 0 then
        if child = 0 then Inr parent
        else if parent < child then Inl (Widened_quota q) else Inr child
      else Inr child)"

definition bind_sum :: "'e + 'a \<Rightarrow> ('a \<Rightarrow> 'e + 'b) \<Rightarrow> 'e + 'b" where
  "bind_sum x f = (case x of Inl e \<Rightarrow> Inl e | Inr a \<Rightarrow> f a)"

definition merlin_ns_compose ::
  "merlin_ns_config_v1 \<Rightarrow> merlin_ns_config_v1 \<Rightarrow> ns_widened + merlin_ns_config_v1" where
  "merlin_ns_compose child parent =
     (case bitset_subset (permit_attach child) (permit_attach parent) MERLIN_NS_ATTACH_WORDS of
        Some k \<Rightarrow> Inl (Widened_bit Dim_attach k)
      | None \<Rightarrow>
     (case bitset_subset (permit_helper child) (permit_helper parent) MERLIN_NS_HELPER_WORDS of
        Some k \<Rightarrow> Inl (Widened_bit Dim_helper k)
      | None \<Rightarrow>
     (case bitset_subset (permit_kfunc child) (permit_kfunc parent) MERLIN_NS_KFUNC_WORDS of
        Some k \<Rightarrow> Inl (Widened_bit Dim_kfunc k)
      | None \<Rightarrow>
     bind_sum (quota_merge Max_progs (max_progs child) (max_progs parent)) (\<lambda>q1.
     bind_sum (quota_merge Max_maps (max_maps child) (max_maps parent)) (\<lambda>q2.
     bind_sum (quota_merge Max_map_memory (max_map_memory_bytes child) (max_map_memory_bytes parent)) (\<lambda>q3.
     bind_sum (quota_merge Max_prog_memory (max_prog_memory_bytes child) (max_prog_memory_bytes parent)) (\<lambda>q4.
       Inr (child\<lparr>parent_ns_id := parent_ns_id parent, max_progs := q1, max_maps := q2,
                  max_map_memory_bytes := q3, max_prog_memory_bytes := q4\<rparr>))))))))"

subsection \<open>The check of a program\<close>

text \<open>The id arrays of the facts are their used prefixes.\<close>

record merlin_prog_facts =
  attach_type :: u32
  helper_ids :: "u32 list"
  kfunc_ids :: "u32 list"
  map_memory_bytes :: u64
  prog_memory_bytes :: u64

record merlin_ns_usage =
  live_progs :: u64
  live_maps :: u64
  live_map_memory_bytes :: u64
  live_prog_memory_bytes :: u64

datatype merlin_ns_reject =
    MERLIN_NS_OK
  | MERLIN_NS_REJECT_ATTACH_NOT_ALLOWED
  | MERLIN_NS_REJECT_HELPER_NOT_ALLOWED
  | MERLIN_NS_REJECT_KFUNC_NOT_ALLOWED
  | MERLIN_NS_REJECT_QUOTA_PROGS
  | MERLIN_NS_REJECT_QUOTA_MAPS
  | MERLIN_NS_REJECT_QUOTA_MAP_MEM
  | MERLIN_NS_REJECT_QUOTA_PROG_MEM
  | MERLIN_NS_REJECT_SEALED

definition first_denied :: "u64 list \<Rightarrow> nat \<Rightarrow> u32 list \<Rightarrow> u32 option" where
  "first_denied bs nwords ids = find (\<lambda>i. \<not> merlin_ns_bit_get bs (unat i) nwords) ids"

definition check_quotas :: "merlin_ns_config_v1 \<Rightarrow> merlin_ns_usage \<Rightarrow> merlin_prog_facts \<Rightarrow> merlin_ns_reject" where
  "check_quotas cfg usage prog =
     (if max_progs cfg \<noteq> 0 \<and> max_progs cfg < live_progs usage + 1 then MERLIN_NS_REJECT_QUOTA_PROGS
      else if max_maps cfg \<noteq> 0 \<and> max_maps cfg < live_maps usage then MERLIN_NS_REJECT_QUOTA_MAPS
      else if max_map_memory_bytes cfg \<noteq> 0 \<and>
              max_map_memory_bytes cfg < live_map_memory_bytes usage + map_memory_bytes prog
        then MERLIN_NS_REJECT_QUOTA_MAP_MEM
      else if max_prog_memory_bytes cfg \<noteq> 0 \<and>
              max_prog_memory_bytes cfg < live_prog_memory_bytes usage + prog_memory_bytes prog
        then MERLIN_NS_REJECT_QUOTA_PROG_MEM
      else MERLIN_NS_OK)"

text \<open>The second component is what the call stores through \<open>offending_id_out\<close>, if anything.\<close>

definition merlin_ns_check ::
  "merlin_ns_config_v1 \<Rightarrow> merlin_ns_usage \<Rightarrow> merlin_prog_facts \<Rightarrow> merlin_ns_reject \<times> u32 option" where
  "merlin_ns_check cfg usage prog =
     (if \<not> merlin_ns_bit_get (permit_attach cfg) (unat (attach_type prog)) MERLIN_NS_ATTACH_WORDS
      then (MERLIN_NS_REJECT_ATTACH_NOT_ALLOWED, Some (attach_type prog))
      else case first_denied (permit_helper cfg) MERLIN_NS_HELPER_WORDS (helper_ids prog) of
        Some i \<Rightarrow> (MERLIN_NS_REJECT_HELPER_NOT_ALLOWED, Some i)
      | None \<Rightarrow>
          (case first_denied (permit_kfunc cfg) MERLIN_NS_KFUNC_WORDS (kfunc_ids prog) of
             Some i \<Rightarrow> (MERLIN_NS_REJECT_KFUNC_NOT_ALLOWED, Some i)
           | None \<Rightarrow> (check_quotas cfg usage prog, None)))"

definition merlin_ns_reject_name :: "merlin_ns_reject \<Rightarrow> string" where
  "merlin_ns_reject_name r =
     (case r of
        MERLIN_NS_OK \<Rightarrow> ''OK''
      | MERLIN_NS_REJECT_ATTACH_NOT_ALLOWED \<Rightarrow> ''attach_not_allowed''
      | MERLIN_NS_REJECT_HELPER_NOT_ALLOWED \<Rightarrow> ''helper_not_allowed''
      | MERLIN_NS_REJECT_KFUNC_NOT_ALLOWED \<Rightarrow> ''kfunc_not_allowed''
      | MERLIN_NS_REJECT_QUOTA_PROGS \<Rightarrow> ''quota_progs''
      | MERLIN_NS_REJECT_QUOTA_MAPS \<Rightarrow> ''quota_maps''
      | MERLIN_NS_REJECT_QUOTA_MAP_MEM \<Rightarrow> ''quota_map_mem''
      | MERLIN_NS_REJECT_QUOTA_PROG_MEM \<Rightarrow> ''quota_prog_mem''
      | MERLIN_NS_REJECT_SEALED \<Rightarrow> ''sealed'')"

subsection \<open>The file image\<close>

text \<open>
  The structure has no padding: its 1160 bytes are the fields in order, little-endian.
\<close>

abbreviation (input) ns_sizeof :: nat where "ns_sizeof \<equiv> 1160"

definition ns_image :: "merlin_ns_config_v1 \<Rightarrow> u8 list" where
  "ns_image c =
     le_bytes 4 (ns_magic c) @ le_bytes 4 (ns_size c) @ le_bytes 4 (ns_version c) @ le_bytes 4 (ns_flags c) @
     ns_name c @ le_bytes 4 (parent_ns_id c) @ le_bytes 4 (attest_policy c) @
     le_array 8 (permit_attach c) @ le_array 8 (permit_helper c) @ le_array 8 (permit_kfunc c) @
     le_bytes 8 (max_progs c) @ le_bytes 8 (max_maps c) @
     le_bytes 8 (max_map_memory_bytes c) @ le_bytes 8 (max_prog_memory_bytes c) @
     le_bytes 4 (trust_keyring_id c) @ le_array 4 (ns_reserved c)"

definition ns_parse :: "u8 list \<Rightarrow> merlin_ns_config_v1" where
  "ns_parse bs =
     \<lparr>ns_magic = le_word (field 0 4 bs), ns_size = le_word (field 4 4 bs),
      ns_version = le_word (field 8 4 bs), ns_flags = le_word (field 12 4 bs),
      ns_name = field 16 32 bs, parent_ns_id = le_word (field 48 4 bs),
      attest_policy = le_word (field 52 4 bs),
      permit_attach = le_words 8 2 (field 56 16 bs), permit_helper = le_words 8 64 (field 72 512 bs),
      permit_kfunc = le_words 8 64 (field 584 512 bs),
      max_progs = le_word (field 1096 8 bs), max_maps = le_word (field 1104 8 bs),
      max_map_memory_bytes = le_word (field 1112 8 bs), max_prog_memory_bytes = le_word (field 1120 8 bs),
      trust_keyring_id = le_word (field 1128 4 bs), ns_reserved = le_words 4 7 (field 1132 28 bs)\<rparr>"

text \<open>
  The two file operations on the bytes of the file: \<open>merlin_ns_load\<close> reads at most the size of the
  structure over a zeroed buffer, \<open>merlin_ns_save\<close> replaces the file's contents.
\<close>

definition merlin_ns_load :: "u8 list \<Rightarrow> merlin_ns_config_v1 option" where
  "merlin_ns_load file =
     (let n = min (length file) ns_sizeof;
          tmp = ns_parse (take n file @ replicate (ns_sizeof - n) 0)
      in if n < 12 then None
         else if ns_magic tmp \<noteq> MERLIN_NS_MAGIC then None
         else if ns_version tmp \<noteq> MERLIN_NS_VERSION then None
         else if unat (ns_size tmp) \<noteq> ns_sizeof then None
         else if n < unat (ns_size tmp) then None
         else Some tmp)"

definition merlin_ns_save :: "merlin_ns_config_v1 \<Rightarrow> u8 list" where
  "merlin_ns_save cfg = ns_image cfg"

subsection \<open>The bitsets as bitmaps\<close>

lemma ns_bit_get_iff:
  "merlin_ns_bit_get bs idx nwords \<longleftrightarrow> idx div 64 < nwords \<and> bit (bs ! (idx div 64)) (idx mod 64)"
  by (simp add: merlin_ns_bit_get_def drop_bit_and_1)

lemma div_mod_eq_iff: "i div n = j div n \<and> i mod n = j mod n \<longleftrightarrow> i = j" for i j n :: nat
  by (metis div_mult_mod_eq)

interpretation helper_bits: bitmap
  "\<lambda>bs i. merlin_ns_bit_get bs i MERLIN_NS_HELPER_WORDS"
  "\<lambda>bs i. merlin_ns_bit_set bs i MERLIN_NS_HELPER_WORDS"
  "\<lambda>bs i. length bs = MERLIN_NS_HELPER_WORDS \<and> i div 64 < MERLIN_NS_HELPER_WORDS"
proof
  fix b :: "u64 list" and i j :: nat
  show "length (merlin_ns_bit_set b i 64) = 64 \<and> j div 64 < 64 \<longleftrightarrow> length b = 64 \<and> j div 64 < 64"
    by (simp add: merlin_ns_bit_set_def)
  assume "length b = 64 \<and> i div 64 < 64" "length b = 64 \<and> j div 64 < 64"
  then show "merlin_ns_bit_get (merlin_ns_bit_set b i 64) j 64 \<longleftrightarrow> j = i \<or> merlin_ns_bit_get b j 64"
    using div_mod_eq_iff [of j 64 i]
    by (auto simp: ns_bit_get_iff merlin_ns_bit_set_def nth_list_update bit_or_exp push_bit_of_1)
qed

lemma lowest_bit_finds:
  fixes w :: u64
  assumes "bit w n" and "k \<le> n"
  shows "\<exists>m. lowest_bit w k = Some m \<and> k \<le> m \<and> m \<le> n \<and> bit w m \<and> (\<forall>j. k \<le> j \<and> j < m \<longrightarrow> \<not> bit w j)"
  using assms(2)
proof (induction "n - k" arbitrary: k)
  case 0
  then show ?case using assms(1) by (auto simp: lowest_bit.simps [of w k] drop_bit_and_1)
next
  case (Suc d)
  show ?case
  proof (cases "bit w k")
    case True
    then show ?thesis using Suc.prems by (auto simp: lowest_bit.simps [of w k] drop_bit_and_1)
  next
    case False
    have "d = n - (k + 1)" "k + 1 \<le> n" using Suc.hyps(2) by linarith+
    from Suc.hyps(1) [OF this] obtain m where m:
      "lowest_bit w (k + 1) = Some m" "k + 1 \<le> m" "m \<le> n" "bit w m" "\<forall>j. k + 1 \<le> j \<and> j < m \<longrightarrow> \<not> bit w j"
      by blast
    have "\<forall>j. k \<le> j \<and> j < m \<longrightarrow> \<not> bit w j"
      using False m(5) by (metis Suc_eq_plus1 Suc_leI le_neq_implies_less)
    with m False show ?thesis by (simp add: lowest_bit.simps [of w k] drop_bit_and_1)
  qed
qed

lemma lowest_bit_illegal:
  fixes c p :: u64
  assumes "c AND NOT p \<noteq> 0"
  obtains m where "lowest_bit (c AND NOT p) 0 = Some m" "m < 64" "bit c m" "\<not> bit p m"
    "\<And>j. j < m \<Longrightarrow> bit c j \<Longrightarrow> bit p j"
proof -
  from assms obtain n where "bit (c AND NOT p) n" by (auto simp: bit_eq_iff)
  from lowest_bit_finds [OF this, of 0] obtain m where m: "lowest_bit (c AND NOT p) 0 = Some m"
    "bit (c AND NOT p) m" "\<forall>j < m. \<not> bit (c AND NOT p) j" by auto
  have "m < 64" using bit_imp_le_length [OF m(2)] by simp
  moreover have "bit p j" if "j < m" "bit c j" for j
    using m(3) that \<open>m < 64\<close> by (auto simp: bit_simps)
  ultimately show thesis using m that by (auto simp: bit_simps)
qed

definition bit_at :: "u64 list \<Rightarrow> nat \<Rightarrow> bool" where
  "bit_at bs k \<longleftrightarrow> k div 64 < length bs \<and> bit (bs ! (k div 64)) (k mod 64)"

lemma bit_at_Cons: "bit_at (w # ws) k \<longleftrightarrow> (if k < 64 then bit w k else bit_at ws (k - 64))"
proof (cases "k < 64")
  case False
  then have "k div 64 = Suc ((k - 64) div 64)" "(k - 64) mod 64 = k mod 64"
    by (simp_all add: le_div_geq le_mod_geq)
  then show ?thesis using False by (simp add: bit_at_def)
qed (simp add: bit_at_def)

lemma bitset_subset_from_spec:
  assumes "length cs = length ps"
  shows "case bitset_subset_from cs ps i of
      None \<Rightarrow> \<forall>k. bit_at cs k \<longrightarrow> bit_at ps k
    | Some r \<Rightarrow> \<exists>k. r = i * 64 + k \<and> bit_at cs k \<and> \<not> bit_at ps k \<and> (\<forall>j < k. bit_at cs j \<longrightarrow> bit_at ps j)"
  using assms
proof (induction cs ps arbitrary: i rule: list_induct2)
  case Nil
  then show ?case by (simp add: bit_at_def)
next
  case (Cons c cs p ps)
  show ?case
  proof (cases "c AND NOT p = 0")
    case False
    then obtain m where "lowest_bit (c AND NOT p) 0 = Some m" "m < 64" "bit c m" "\<not> bit p m"
      "\<And>j. j < m \<Longrightarrow> bit c j \<Longrightarrow> bit p j"
      by (rule lowest_bit_illegal) blast
    then show ?thesis using False by (auto simp: bit_at_Cons)
  next
    case True
    then have sub: "bit c j \<Longrightarrow> bit p j" for j
      using bit_sub_iff [of c p] by (simp add: bit_sub_def)
    show ?thesis
    proof (cases "bitset_subset_from cs ps (i + 1)")
      case None
      with Cons.IH [of "i + 1"] True sub show ?thesis by (simp add: bit_at_Cons)
    next
      case (Some r)
      with Cons.IH [of "i + 1"] obtain k where k: "r = (i + 1) * 64 + k" "bit_at cs k" "\<not> bit_at ps k"
        "\<forall>j < k. bit_at cs j \<longrightarrow> bit_at ps j" by auto
      have "r = i * 64 + (k + 64)" using k(1) by simp
      moreover have "\<forall>j < k + 64. bit_at (c # cs) j \<longrightarrow> bit_at (p # ps) j"
        using k(4) sub by (simp add: bit_at_Cons)
      moreover have "bit_at (c # cs) (k + 64)" "\<not> bit_at (p # ps) (k + 64)"
        using k(2,3) by (simp_all add: bit_at_Cons)
      ultimately show ?thesis using True Some by auto
    qed
  qed
qed

lemma bitset_subset_spec:
  assumes "length child = n" and "length parent = n"
  shows "case bitset_subset child parent n of
      None \<Rightarrow> \<forall>k. merlin_ns_bit_get child k n \<longrightarrow> merlin_ns_bit_get parent k n
    | Some k \<Rightarrow> merlin_ns_bit_get child k n \<and> \<not> merlin_ns_bit_get parent k n \<and>
        (\<forall>j < k. merlin_ns_bit_get child j n \<longrightarrow> merlin_ns_bit_get parent j n)"
proof -
  have "merlin_ns_bit_get bs k n \<longleftrightarrow> bit_at bs k" if "length bs = n" for bs k
    using that by (simp add: ns_bit_get_iff bit_at_def)
  then show ?thesis
    using bitset_subset_from_spec [of child parent 0] assms
    by (auto simp: bitset_subset_def split: option.splits)
qed

subsection \<open>Composition narrows\<close>

definition quota_within :: "u64 \<Rightarrow> u64 \<Rightarrow> bool" where
  "quota_within q parent \<longleftrightarrow> parent = 0 \<or> q \<noteq> 0 \<and> q \<le> parent"

lemma quota_merge_within: "quota_merge q c p = Inr r \<Longrightarrow> quota_within r p"
  by (auto simp: quota_merge_def quota_within_def not_less split: if_splits)

lemma bind_sum_Inr: "bind_sum x f = Inr b \<longleftrightarrow> (\<exists>a. x = Inr a \<and> f a = Inr b)"
  by (simp add: bind_sum_def split: sum.split)

definition narrows :: "merlin_ns_config_v1 \<Rightarrow> merlin_ns_config_v1 \<Rightarrow> bool" where
  "narrows e p \<longleftrightarrow>
     (\<forall>k. merlin_ns_bit_get (permit_attach e) k MERLIN_NS_ATTACH_WORDS \<longrightarrow>
          merlin_ns_bit_get (permit_attach p) k MERLIN_NS_ATTACH_WORDS) \<and>
     (\<forall>k. merlin_ns_bit_get (permit_helper e) k MERLIN_NS_HELPER_WORDS \<longrightarrow>
          merlin_ns_bit_get (permit_helper p) k MERLIN_NS_HELPER_WORDS) \<and>
     (\<forall>k. merlin_ns_bit_get (permit_kfunc e) k MERLIN_NS_KFUNC_WORDS \<longrightarrow>
          merlin_ns_bit_get (permit_kfunc p) k MERLIN_NS_KFUNC_WORDS) \<and>
     quota_within (max_progs e) (max_progs p) \<and> quota_within (max_maps e) (max_maps p) \<and>
     quota_within (max_map_memory_bytes e) (max_map_memory_bytes p) \<and>
     quota_within (max_prog_memory_bytes e) (max_prog_memory_bytes p)"

lemma compose_narrows:
  assumes "ns_wf child" and "ns_wf parent" and "merlin_ns_compose child parent = Inr eff"
  shows "narrows eff parent \<and> ns_wf eff"
proof -
  let ?sub = "\<lambda>f n. bitset_subset (f child) (f parent) n"
  have n: "?sub permit_attach 2 = None" "?sub permit_helper 64 = None" "?sub permit_kfunc 64 = None"
    using assms(3) by (auto simp: merlin_ns_compose_def split: option.splits)
  obtain q1 q2 q3 q4 where
    "quota_merge Max_progs (max_progs child) (max_progs parent) = Inr q1"
    "quota_merge Max_maps (max_maps child) (max_maps parent) = Inr q2"
    "quota_merge Max_map_memory (max_map_memory_bytes child) (max_map_memory_bytes parent) = Inr q3"
    "quota_merge Max_prog_memory (max_prog_memory_bytes child) (max_prog_memory_bytes parent) = Inr q4"
    and eff: "eff = child\<lparr>parent_ns_id := parent_ns_id parent, max_progs := q1, max_maps := q2,
                  max_map_memory_bytes := q3, max_prog_memory_bytes := q4\<rparr>"
    using assms(3) n by (auto simp: merlin_ns_compose_def bind_sum_Inr)
  then have "quota_within q1 (max_progs parent)" "quota_within q2 (max_maps parent)"
    "quota_within q3 (max_map_memory_bytes parent)" "quota_within q4 (max_prog_memory_bytes parent)"
    by (auto dest: quota_merge_within)
  moreover have
    "\<forall>k. merlin_ns_bit_get (permit_attach child) k 2 \<longrightarrow> merlin_ns_bit_get (permit_attach parent) k 2"
    "\<forall>k. merlin_ns_bit_get (permit_helper child) k 64 \<longrightarrow> merlin_ns_bit_get (permit_helper parent) k 64"
    "\<forall>k. merlin_ns_bit_get (permit_kfunc child) k 64 \<longrightarrow> merlin_ns_bit_get (permit_kfunc parent) k 64"
    using bitset_subset_spec [of "permit_attach child" 2 "permit_attach parent"]
      bitset_subset_spec [of "permit_helper child" 64 "permit_helper parent"]
      bitset_subset_spec [of "permit_kfunc child" 64 "permit_kfunc parent"] n assms(1,2)
    by (simp_all add: ns_wf_def)
  ultimately show ?thesis using assms(1) by (simp add: eff narrows_def ns_wf_def)
qed

subsection \<open>The check\<close>

lemma first_denied_None:
  "first_denied bs n ids = None \<longleftrightarrow> (\<forall>i \<in> set ids. merlin_ns_bit_get bs (unat i) n)"
  by (auto simp: first_denied_def find_None_iff)

lemma quota_exceeds_mono: "quota_within e p \<Longrightarrow> p \<noteq> 0 \<and> p < x \<Longrightarrow> e \<noteq> 0 \<and> e < x"
  by (auto simp: quota_within_def)

lemma check_quotas_OK:
  "check_quotas cfg usage prog = MERLIN_NS_OK \<longleftrightarrow>
     \<not> (max_progs cfg \<noteq> 0 \<and> max_progs cfg < live_progs usage + 1) \<and>
     \<not> (max_maps cfg \<noteq> 0 \<and> max_maps cfg < live_maps usage) \<and>
     \<not> (max_map_memory_bytes cfg \<noteq> 0 \<and>
        max_map_memory_bytes cfg < live_map_memory_bytes usage + map_memory_bytes prog) \<and>
     \<not> (max_prog_memory_bytes cfg \<noteq> 0 \<and>
        max_prog_memory_bytes cfg < live_prog_memory_bytes usage + prog_memory_bytes prog)"
  unfolding check_quotas_def by (simp split del: if_split) (simp split: if_split)

lemma check_OK:
  "merlin_ns_check cfg usage prog = (MERLIN_NS_OK, r) \<longleftrightarrow> r = None \<and>
     merlin_ns_bit_get (permit_attach cfg) (unat (attach_type prog)) MERLIN_NS_ATTACH_WORDS \<and>
     (\<forall>i \<in> set (helper_ids prog). merlin_ns_bit_get (permit_helper cfg) (unat i) MERLIN_NS_HELPER_WORDS) \<and>
     (\<forall>i \<in> set (kfunc_ids prog). merlin_ns_bit_get (permit_kfunc cfg) (unat i) MERLIN_NS_KFUNC_WORDS) \<and>
     check_quotas cfg usage prog = MERLIN_NS_OK"
  unfolding merlin_ns_check_def first_denied_None [symmetric]
  by (auto split: option.split if_splits)

lemma check_mono:
  assumes "narrows e p" and "merlin_ns_check e usage prog = (MERLIN_NS_OK, r)"
  shows "merlin_ns_check p usage prog = (MERLIN_NS_OK, r)"
proof -
  have "check_quotas p usage prog = MERLIN_NS_OK"
    using assms quota_exceeds_mono unfolding check_OK check_quotas_OK narrows_def by blast
  then show ?thesis using assms unfolding check_OK narrows_def by blast
qed

subsection \<open>The image\<close>

lemma ns_parse_image:
  assumes "ns_wf c"
  shows "ns_parse (ns_image c) = c"
proof -
  have l: "length (ns_name c) = 32" "length (permit_attach c) = 2" "length (permit_helper c) = 64"
    "length (permit_kfunc c) = 64" "length (ns_reserved c) = 7"
    using assms by (simp_all add: ns_wf_def)
  have w: "le_words 8 2 (le_array 8 (permit_attach c)) = permit_attach c"
    "le_words 8 64 (le_array 8 (permit_helper c)) = permit_helper c"
    "le_words 8 64 (le_array 8 (permit_kfunc c)) = permit_kfunc c"
    "le_words 4 7 (le_array 4 (ns_reserved c)) = ns_reserved c"
    by (rule le_words_array [where rest = "[]", unfolded append_Nil2]; simp add: l)+
  show ?thesis
    unfolding ns_parse_def ns_image_def
    by (rule merlin_ns_config_v1.equality)
      (simp_all add: field_skip field_here field_last l w del: le_words.simps)
qed

lemma length_ns_image: "ns_wf c \<Longrightarrow> length (ns_image c) = ns_sizeof"
  by (simp add: ns_image_def ns_wf_def)

lemma load_saved:
  assumes "ns_wf c" and "ns_magic c = MERLIN_NS_MAGIC" and "ns_version c = MERLIN_NS_VERSION"
    and "unat (ns_size c) = ns_sizeof"
  shows "merlin_ns_load (merlin_ns_save c) = Some c"
  using assms ns_parse_image [OF assms(1)] length_ns_image [OF assms(1)]
  by (simp add: merlin_ns_load_def merlin_ns_save_def Let_def)

subsection \<open>Examples\<close>

definition ns_all :: merlin_ns_config_v1 where
  "ns_all = \<lparr>ns_magic = MERLIN_NS_MAGIC, ns_size = of_nat ns_sizeof, ns_version = MERLIN_NS_VERSION, ns_flags = 0,
     ns_name = replicate MERLIN_NS_NAME_MAX 0, parent_ns_id = 0, attest_policy = 0,
     permit_attach = replicate MERLIN_NS_ATTACH_WORDS U64_MAX,
     permit_helper = replicate MERLIN_NS_HELPER_WORDS U64_MAX,
     permit_kfunc = replicate MERLIN_NS_KFUNC_WORDS U64_MAX,
     max_progs = 10, max_maps = 0, max_map_memory_bytes = 4096, max_prog_memory_bytes = 0,
     trust_keyring_id = 0, ns_reserved = replicate 7 0\<rparr>"

definition ns_small :: merlin_ns_config_v1 where
  "ns_small = ns_all\<lparr>permit_attach := [6, 0], permit_helper := replicate MERLIN_NS_HELPER_WORDS 3,
     max_progs := 0, max_maps := 4\<rparr>"

definition ns_idle :: merlin_ns_usage where
  "ns_idle = \<lparr>live_progs = 0, live_maps = 0, live_map_memory_bytes = 0, live_prog_memory_bytes = 0\<rparr>"

definition ns_prog :: merlin_prog_facts where
  "ns_prog = \<lparr>attach_type = 1, helper_ids = [0, 1], kfunc_ids = [], map_memory_bytes = 64, prog_memory_bytes = 128\<rparr>"

lemma ns_examples_wf: "ns_wf ns_all" "ns_wf ns_small"
  by (simp_all add: ns_wf_def ns_all_def ns_small_def)

subsection \<open>Properties\<close>

text \<open>
  C8: composition never widens. When \<open>merlin_ns_compose\<close> succeeds, every attach type, helper and
  kfunc the effective namespace permits is permitted by the parent and no quota exceeds the
  parent's; hence any program the effective namespace admits under a given usage is one the parent
  admits under that usage.
\<close>

theorem compose_never_widens:
  assumes "ns_wf child" and "ns_wf parent" and "merlin_ns_compose child parent = Inr eff"
  shows "narrows eff parent \<and>
     (\<forall>usage prog. fst (merlin_ns_check eff usage prog) = MERLIN_NS_OK \<longrightarrow>
                   fst (merlin_ns_check parent usage prog) = MERLIN_NS_OK)"
  using compose_narrows [OF assms] check_mono by (metis eq_fst_iff)

theorem compose_never_widens_witness:
  "\<exists>eff. merlin_ns_compose ns_small ns_all = Inr eff \<and> max_progs eff = 10 \<and>
     fst (merlin_ns_check eff ns_idle ns_prog) = MERLIN_NS_OK \<and>
     fst (merlin_ns_check ns_all ns_idle ns_prog) = MERLIN_NS_OK"
proof -
  let ?eff = "ns_small\<lparr>max_progs := 10, max_map_memory_bytes := 4096\<rparr>"
  have c: "merlin_ns_compose ns_small ns_all = Inr ?eff" by code_simp
  moreover have "fst (merlin_ns_check ?eff ns_idle ns_prog) = MERLIN_NS_OK" by code_simp
  ultimately show ?thesis
    using compose_never_widens [OF ns_examples_wf(2,1) c] by auto
qed

text \<open>
  A refused composition names the first permission the child adds. When the error is a bit of the
  attach, helper or kfunc set, the child holds that bit, the parent does not, and below it the child
  holds nothing the parent lacks.
\<close>

theorem compose_refusal_exact:
  assumes "ns_wf child" and "ns_wf parent" and "merlin_ns_compose child parent = Inl (Widened_bit dim k)"
  shows "let sel = (case dim of Dim_attach \<Rightarrow> permit_attach | Dim_helper \<Rightarrow> permit_helper
                      | Dim_kfunc \<Rightarrow> permit_kfunc);
             n = (case dim of Dim_attach \<Rightarrow> MERLIN_NS_ATTACH_WORDS | Dim_helper \<Rightarrow> MERLIN_NS_HELPER_WORDS
                      | Dim_kfunc \<Rightarrow> MERLIN_NS_KFUNC_WORDS)
         in merlin_ns_bit_get (sel child) k n \<and> \<not> merlin_ns_bit_get (sel parent) k n \<and>
            (\<forall>j < k. merlin_ns_bit_get (sel child) j n \<longrightarrow> merlin_ns_bit_get (sel parent) j n)"
proof -
  have q: "quota_merge q c p \<noteq> Inl (Widened_bit dim k)" for q c p by (simp add: quota_merge_def)
  consider "dim = Dim_attach" "bitset_subset (permit_attach child) (permit_attach parent) 2 = Some k"
    | "dim = Dim_helper" "bitset_subset (permit_helper child) (permit_helper parent) 64 = Some k"
    | "dim = Dim_kfunc" "bitset_subset (permit_kfunc child) (permit_kfunc parent) 64 = Some k"
    using assms(3) q by (auto simp: merlin_ns_compose_def bind_sum_def split: option.splits sum.splits)
  then show ?thesis
    using bitset_subset_spec [of "permit_attach child" 2 "permit_attach parent"]
      bitset_subset_spec [of "permit_helper child" 64 "permit_helper parent"]
      bitset_subset_spec [of "permit_kfunc child" 64 "permit_kfunc parent"] assms(1,2)
    by cases (simp_all add: ns_wf_def)
qed

theorem compose_refusal_exact_witness:
  "merlin_ns_compose ns_all ns_small = Inl (Widened_bit Dim_attach 0) \<and>
   \<not> merlin_ns_bit_get (permit_attach ns_small) 0 MERLIN_NS_ATTACH_WORDS"
proof -
  have c: "merlin_ns_compose ns_all ns_small = Inl (Widened_bit Dim_attach 0)" by code_simp
  from compose_refusal_exact [OF ns_examples_wf c] show ?thesis by (simp add: c Let_def)
qed

text \<open>
  Saving and loading is a round trip. A well-formed configuration with the right magic, version and
  size is read back unchanged from the file \<open>merlin_ns_save\<close> writes, and no strict prefix of that file
  is accepted.
\<close>

theorem ns_save_load_roundtrip:
  assumes "ns_wf c" and "ns_magic c = MERLIN_NS_MAGIC" and "ns_version c = MERLIN_NS_VERSION"
    and "unat (ns_size c) = ns_sizeof"
  shows "merlin_ns_load (merlin_ns_save c) = Some c \<and>
     (\<forall>n < ns_sizeof. merlin_ns_load (take n (merlin_ns_save c)) = None)"
  using assms load_saved [OF assms] length_ns_image [OF assms(1)]
  by (simp add: merlin_ns_load_def merlin_ns_save_def Let_def)

theorem ns_save_load_roundtrip_witness: "merlin_ns_load (merlin_ns_save ns_all) = Some ns_all"
  using ns_save_load_roundtrip [OF ns_examples_wf(1)] by (simp add: ns_all_def)

text \<open>
  The memory quotas are compared after an addition that wraps. A program whose map memory makes the
  sum exceed 64 bits is admitted although it alone is larger than the quota.
\<close>

theorem memory_quota_wraps:
  "merlin_ns_check ns_all (ns_idle\<lparr>live_map_memory_bytes := 1\<rparr>) (ns_prog\<lparr>map_memory_bytes := U64_MAX\<rparr>) = (MERLIN_NS_OK, None) \<and>
   max_map_memory_bytes ns_all = 4096"
  by code_simp

end
