(* ===== verification/Ns_Tool.thy ===== *)
theory Ns_Tool
  imports Namespace C_Text
begin

text \<open>
  The namespace tool, \<open>tools/merlin-ns/merlin-ns.c\<close>: lists of ids and usage strings, and the four commands over
  a file system. The options of a command are the values \<open>getopt_long\<close> returns, in order; \<open>writable\<close> tells
  which files can be written. A command's value is its exit status, what it prints and the files after it.
\<close>

subsection \<open>Lists of ids\<close>

lemma scan_digits_rest: "length (snd (scan_digits b acc s)) \<le> length s"
  by (induction b acc s rule: scan_digits.induct) auto

lemma scan_digits_hd: "s \<noteq> [] \<Longrightarrow> is_digit b (hd s) \<Longrightarrow> length (snd (scan_digits b acc s)) < length s"
  using scan_digits_rest by (cases s) (auto simp: less_Suc_eq_le)

lemma scan_sign_rest: "length (snd (scan_sign s)) \<le> length s"
  by (cases s) auto

lemma strtoull_rest: "snd (strtoull s) \<noteq> s \<Longrightarrow> length (snd (strtoull s)) < length s"
proof -
  obtain neg t where t: "scan_sign (dropWhile isspace s) = (neg, t)" by fastforce
  obtain b d where d: "scan_base t = (b, d)" by fastforce
  have "length t \<le> length s"
    using scan_sign_rest [of "dropWhile isspace s"] length_dropWhile_le [of isspace s] t by simp
  then have "length d \<le> length s" using d by (auto simp: scan_base_def split: if_splits)
  then show "snd (strtoull s) \<noteq> s \<Longrightarrow> ?thesis"
    using t d scan_digits_hd [of d b 0] by (auto simp: strtoull_def split: if_splits prod.splits)
qed

lemma strtoull_rest_le: "length (snd (strtoull s)) \<le> length s"
  using strtoull_rest [of s] by (cases "snd (strtoull s) = s") auto

abbreviation (input) list_sep :: "char \<Rightarrow> bool" where "list_sep c \<equiv> c = CHR '','' \<or> c = CHR '' ''"

function parse_list_from :: "string \<Rightarrow> nat \<Rightarrow> u32 list \<Rightarrow> u32 list option" where
  "parse_list_from p cap out =
     (let q = dropWhile (\<lambda>c. list_sep c) p in
      if q = [] then Some out
      else case strtoull q of
        (v, e) \<Rightarrow>
          if e = q then None
          else if cap \<le> length out then None
          else parse_list_from e cap (out @ [ucast v]))"
  by pat_completeness auto
termination
proof (relation "measure (\<lambda>(p, _, _). length p)", goal_cases)
  case (2 p cap out q v e)
  have "length e < length q" using 2 strtoull_rest [of q] by (metis snd_conv)
  also have "\<dots> \<le> length p" using 2 length_dropWhile_le by metis
  finally show ?case by simp
qed simp

declare parse_list_from.simps [simp del]

definition parse_list :: "string \<Rightarrow> nat \<Rightarrow> u32 list option" where
  "parse_list s cap = parse_list_from s cap []"

definition set_bits :: "nat \<Rightarrow> u32 list \<Rightarrow> u64 list \<Rightarrow> u64 list" where
  "set_bits nwords ids bs = fold (\<lambda>i bs. merlin_ns_bit_set bs (unat i) nwords) ids bs"

subsection \<open>create\<close>

datatype create_opt =
    C_name string | C_from string | C_attach string | C_helpers string | C_kfuncs string
  | C_max_progs string | C_max_maps string | C_max_map_mem string | C_max_prog_mem string
  | C_seal | C_inherit | C_out string | C_unknown

record create_args =
  ca_cfg :: merlin_ns_config_v1
  ca_out :: "string option"
  ca_parent :: "string option"
  ca_name :: string
  ca_att :: "u32 list"
  ca_hlp :: "u32 list"
  ca_kf :: "u32 list"
  ca_seal :: bool
  ca_inherit :: bool

definition ns_fresh :: merlin_ns_config_v1 where
  "ns_fresh = \<lparr>ns_magic = MERLIN_NS_MAGIC, ns_size = of_nat ns_sizeof, ns_version = MERLIN_NS_VERSION, ns_flags = 0,
     ns_name = replicate MERLIN_NS_NAME_MAX 0, parent_ns_id = 0, attest_policy = 0,
     permit_attach = replicate MERLIN_NS_ATTACH_WORDS 0, permit_helper = replicate MERLIN_NS_HELPER_WORDS 0,
     permit_kfunc = replicate MERLIN_NS_KFUNC_WORDS 0,
     max_progs = 0, max_maps = 0, max_map_memory_bytes = 0, max_prog_memory_bytes = 0,
     trust_keyring_id = 0, ns_reserved = replicate 7 0\<rparr>"

definition create_start :: create_args where
  "create_start = \<lparr>ca_cfg = ns_fresh, ca_out = None, ca_parent = None, ca_name = ''<unnamed>'', ca_att = [], ca_hlp = [],
     ca_kf = [], ca_seal = False, ca_inherit = False\<rparr>"

definition create_option :: "create_opt \<Rightarrow> create_args \<Rightarrow> create_args option" where
  "create_option x a =
     (case x of
        C_name s \<Rightarrow> Some (a\<lparr>ca_name := s\<rparr>)
      | C_from s \<Rightarrow> Some (a\<lparr>ca_parent := Some s\<rparr>)
      | C_attach s \<Rightarrow> map_option (\<lambda>l. a\<lparr>ca_att := l\<rparr>) (parse_list s 64)
      | C_helpers s \<Rightarrow> map_option (\<lambda>l. a\<lparr>ca_hlp := l\<rparr>) (parse_list s 256)
      | C_kfuncs s \<Rightarrow> map_option (\<lambda>l. a\<lparr>ca_kf := l\<rparr>) (parse_list s 256)
      | C_max_progs s \<Rightarrow> Some (a\<lparr>ca_cfg := (ca_cfg a)\<lparr>max_progs := fst (strtoull s)\<rparr>\<rparr>)
      | C_max_maps s \<Rightarrow> Some (a\<lparr>ca_cfg := (ca_cfg a)\<lparr>max_maps := fst (strtoull s)\<rparr>\<rparr>)
      | C_max_map_mem s \<Rightarrow> Some (a\<lparr>ca_cfg := (ca_cfg a)\<lparr>max_map_memory_bytes := fst (strtoull s)\<rparr>\<rparr>)
      | C_max_prog_mem s \<Rightarrow> Some (a\<lparr>ca_cfg := (ca_cfg a)\<lparr>max_prog_memory_bytes := fst (strtoull s)\<rparr>\<rparr>)
      | C_seal \<Rightarrow> Some (a\<lparr>ca_seal := True\<rparr>)
      | C_inherit \<Rightarrow> Some (a\<lparr>ca_inherit := True\<rparr>)
      | C_out s \<Rightarrow> Some (a\<lparr>ca_out := Some s\<rparr>)
      | C_unknown \<Rightarrow> None)"

fun create_options :: "create_opt list \<Rightarrow> create_args \<Rightarrow> create_args option" where
  "create_options [] a = Some a"
| "create_options (x # xs) a = Option.bind (create_option x a) (create_options xs)"

abbreviation (input) MERLIN_NS_F_SEALED :: u32 where "MERLIN_NS_F_SEALED \<equiv> 2"
abbreviation (input) MERLIN_NS_F_INHERIT :: u32 where "MERLIN_NS_F_INHERIT \<equiv> 1"

definition strncpy_name :: "string \<Rightarrow> u8 list" where
  "strncpy_name s = map of_char (take (MERLIN_NS_NAME_MAX - 1) s) @
     replicate (MERLIN_NS_NAME_MAX - length (take (MERLIN_NS_NAME_MAX - 1) s)) 0"

definition build_config :: "create_args \<Rightarrow> merlin_ns_config_v1" where
  "build_config a =
     (let cfg = ca_cfg a in
      cfg\<lparr>ns_name := strncpy_name (ca_name a),
        ns_flags := ns_flags cfg OR (if ca_seal a then MERLIN_NS_F_SEALED else 0) OR (if ca_inherit a then MERLIN_NS_F_INHERIT else 0),
        permit_attach := set_bits MERLIN_NS_ATTACH_WORDS (ca_att a) (permit_attach cfg),
        permit_helper := set_bits MERLIN_NS_HELPER_WORDS (ca_hlp a) (permit_helper cfg),
        permit_kfunc := set_bits MERLIN_NS_KFUNC_WORDS (ca_kf a) (permit_kfunc cfg)\<rparr>)"

type_synonym files = "string \<rightharpoonup> u8 list"

definition load_file :: "files \<Rightarrow> string \<Rightarrow> merlin_ns_config_v1 option" where
  "load_file fs path = Option.bind (fs path) merlin_ns_load"

definition save_file :: "(string \<Rightarrow> bool) \<Rightarrow> string \<Rightarrow> merlin_ns_config_v1 \<Rightarrow> files \<Rightarrow> nat \<times> files" where
  "save_file writable path cfg fs = (if writable path then (0, fs(path \<mapsto> merlin_ns_save cfg)) else (1, fs))"

definition inherit_from :: "files \<Rightarrow> string option \<Rightarrow> merlin_ns_config_v1 \<Rightarrow> merlin_ns_config_v1 option" where
  "inherit_from fs parent_path cfg =
     (case parent_path of
        None \<Rightarrow> Some cfg
      | Some path \<Rightarrow>
          (case load_file fs path of
             None \<Rightarrow> None
           | Some par \<Rightarrow>
               (case merlin_ns_compose cfg par of
                  Inl _ \<Rightarrow> None
                | Inr eff \<Rightarrow> Some (eff\<lparr>parent_ns_id := if parent_ns_id par \<noteq> 0 then parent_ns_id par else 1\<rparr>))))"

definition cmd_create :: "(string \<Rightarrow> bool) \<Rightarrow> create_opt list \<Rightarrow> files \<Rightarrow> nat \<times> files" where
  "cmd_create writable opts fs =
     (case create_options opts create_start of
        None \<Rightarrow> (2, fs)
      | Some a \<Rightarrow>
          (case ca_out a of
             None \<Rightarrow> (2, fs)
           | Some out_path \<Rightarrow>
               (case inherit_from fs (ca_parent a) (build_config a) of
                  None \<Rightarrow> (1, fs)
                | Some cfg \<Rightarrow> save_file writable out_path cfg fs)))"

subsection \<open>dump\<close>

definition count_bits :: "u64 list \<Rightarrow> nat \<Rightarrow> nat" where
  "count_bits bs nwords = sum_list (map (\<lambda>w. length (filter (bit w) [0..<64])) (take nwords bs))"

definition set_ids :: "u64 list \<Rightarrow> nat \<Rightarrow> nat \<Rightarrow> nat list" where
  "set_ids bs nwords cap = filter (\<lambda>i. merlin_ns_bit_get bs i nwords) [0..<cap]"

fun ids_text :: "nat list \<Rightarrow> string" where
  "ids_text [] = []"
| "ids_text [i] = ''0x'' @ show_base 16 i"
| "ids_text (i # is) = ''0x'' @ show_base 16 i @ '','' @ ids_text is"

definition print_set_ids :: "u64 list \<Rightarrow> nat \<Rightarrow> nat \<Rightarrow> string" where
  "print_set_ids bs nwords cap = ids_text (set_ids bs nwords cap)"

text \<open>
  The name is printed as a C string: up to the first NUL from the start of the field, through the fields that
  follow it when the field has none; \<^const>\<open>None\<close> if the structure ends first.
\<close>

definition name_text :: "merlin_ns_config_v1 \<Rightarrow> string option" where
  "name_text cfg = (let bs = drop 16 (ns_image cfg) in
     if 0 \<in> set bs then Some (map (\<lambda>b. char_of (unat b)) (takeWhile (\<lambda>b. b \<noteq> 0) bs)) else None)"

record ns_report =
  rep_name :: "string option"
  rep_size :: u32
  rep_flags :: string
  rep_parent :: u32
  rep_attach :: "nat \<times> string"
  rep_helper :: "nat \<times> string"
  rep_kfunc :: "nat \<times> string"
  rep_quotas :: "u64 list"

definition cmd_dump :: "files \<Rightarrow> string \<Rightarrow> nat \<times> ns_report option" where
  "cmd_dump fs path =
     (case load_file fs path of
        None \<Rightarrow> (1, None)
      | Some cfg \<Rightarrow>
          (0, Some \<lparr>rep_name = name_text cfg, rep_size = ns_size cfg,
             rep_flags = ''0x'' @ show_x (ns_flags cfg) @ (if ns_flags cfg AND MERLIN_NS_F_SEALED \<noteq> 0 then '' SEALED'' else []) @
               (if ns_flags cfg AND MERLIN_NS_F_INHERIT \<noteq> 0 then '' INHERIT'' else []),
             rep_parent = parent_ns_id cfg,
             rep_attach = (count_bits (permit_attach cfg) MERLIN_NS_ATTACH_WORDS, print_set_ids (permit_attach cfg) MERLIN_NS_ATTACH_WORDS 128),
             rep_helper = (count_bits (permit_helper cfg) MERLIN_NS_HELPER_WORDS, print_set_ids (permit_helper cfg) MERLIN_NS_HELPER_WORDS 4096),
             rep_kfunc = (count_bits (permit_kfunc cfg) MERLIN_NS_KFUNC_WORDS, print_set_ids (permit_kfunc cfg) MERLIN_NS_KFUNC_WORDS 4096),
             rep_quotas = [max_progs cfg, max_maps cfg, max_map_memory_bytes cfg, max_prog_memory_bytes cfg]\<rparr>))"

subsection \<open>check and compose\<close>

definition usage_zero :: merlin_ns_usage where
  "usage_zero = \<lparr>live_progs = 0, live_maps = 0, live_map_memory_bytes = 0, live_prog_memory_bytes = 0\<rparr>"

definition usage_key :: "string \<Rightarrow> u64 \<Rightarrow> merlin_ns_usage \<Rightarrow> merlin_ns_usage option" where
  "usage_key k v u =
     (if k = ''progs'' then Some (u\<lparr>live_progs := v\<rparr>) else if k = ''maps'' then Some (u\<lparr>live_maps := v\<rparr>)
      else if k = ''map_mem'' then Some (u\<lparr>live_map_memory_bytes := v\<rparr>)
      else if k = ''prog_mem'' then Some (u\<lparr>live_prog_memory_bytes := v\<rparr>) else None)"

function parse_usage_from :: "string \<Rightarrow> merlin_ns_usage \<Rightarrow> merlin_ns_usage option" where
  "parse_usage_from p u =
     (let q = dropWhile (\<lambda>c. list_sep c) p;
          k = takeWhile (\<lambda>c. c \<noteq> CHR '':'') q in
      if q = [] then Some u
      else if length k = length q then None
      else if 32 \<le> length k then None
      else case strtoull (drop (Suc (length k)) q) of
        (v, e) \<Rightarrow> (case usage_key k v u of None \<Rightarrow> None | Some u' \<Rightarrow> parse_usage_from e u'))"
  by pat_completeness auto
termination
proof (relation "measure (\<lambda>(p, _). length p)", goal_cases)
  case (2 p u q k v e u')
  have "length e \<le> length (drop (Suc (length k)) q)" using 2 strtoull_rest_le by (metis snd_conv)
  also have "\<dots> < length q" using 2 by (cases q) auto
  also have "\<dots> \<le> length p" using 2 length_dropWhile_le by metis
  finally show ?case by simp
qed simp

declare parse_usage_from.simps [simp del]

definition parse_usage :: "string option \<Rightarrow> merlin_ns_usage option" where
  "parse_usage s = (case s of None \<Rightarrow> Some usage_zero | Some p \<Rightarrow> parse_usage_from p usage_zero)"

datatype check_opt =
    K_ns string | K_attach string | K_helpers string | K_kfuncs string | K_usage string
  | K_map_mem string | K_prog_mem string | K_unknown

record check_args =
  ka_ns :: "string option"
  ka_usage :: "string option"
  ka_prog :: merlin_prog_facts

definition check_start :: check_args where
  "check_start = \<lparr>ka_ns = None, ka_usage = None,
     ka_prog = \<lparr>attach_type = 0, helper_ids = [], kfunc_ids = [], map_memory_bytes = 0, prog_memory_bytes = 0\<rparr>\<rparr>"

definition check_option :: "check_opt \<Rightarrow> check_args \<Rightarrow> check_args option" where
  "check_option x a =
     (let prog = ka_prog a in
      case x of
        K_ns s \<Rightarrow> Some (a\<lparr>ka_ns := Some s\<rparr>)
      | K_attach s \<Rightarrow> Some (a\<lparr>ka_prog := prog\<lparr>attach_type := strtou32 s\<rparr>\<rparr>)
      | K_helpers s \<Rightarrow> map_option (\<lambda>l. a\<lparr>ka_prog := prog\<lparr>helper_ids := l\<rparr>\<rparr>) (parse_list s 256)
      | K_kfuncs s \<Rightarrow> map_option (\<lambda>l. a\<lparr>ka_prog := prog\<lparr>kfunc_ids := l\<rparr>\<rparr>) (parse_list s 256)
      | K_usage s \<Rightarrow> Some (a\<lparr>ka_usage := Some s\<rparr>)
      | K_map_mem s \<Rightarrow> Some (a\<lparr>ka_prog := prog\<lparr>map_memory_bytes := fst (strtoull s)\<rparr>\<rparr>)
      | K_prog_mem s \<Rightarrow> Some (a\<lparr>ka_prog := prog\<lparr>prog_memory_bytes := fst (strtoull s)\<rparr>\<rparr>)
      | K_unknown \<Rightarrow> None)"

fun check_options :: "check_opt list \<Rightarrow> check_args \<Rightarrow> check_args option" where
  "check_options [] a = Some a"
| "check_options (x # xs) a = Option.bind (check_option x a) (check_options xs)"

text \<open>The verdict is printed with the reason and the offending id, 0 if the check names none.\<close>

definition cmd_check :: "check_opt list \<Rightarrow> files \<Rightarrow> nat \<times> (string \<times> u32) option" where
  "cmd_check opts fs =
     (case check_options opts check_start of
        None \<Rightarrow> (2, None)
      | Some a \<Rightarrow>
          (case ka_ns a of
             None \<Rightarrow> (2, None)
           | Some path \<Rightarrow>
               (case load_file fs path of
                  None \<Rightarrow> (1, None)
                | Some cfg \<Rightarrow>
                    (case parse_usage (ka_usage a) of
                       None \<Rightarrow> (2, None)
                     | Some usage \<Rightarrow>
                         (case merlin_ns_check cfg usage (ka_prog a) of
                            (r, bad) \<Rightarrow>
                              if r = MERLIN_NS_OK then (0, None)
                              else (1, Some (merlin_ns_reject_name r, case bad of None \<Rightarrow> 0 | Some i \<Rightarrow> i)))))))"

datatype compose_opt = P_child string | P_parent string | P_out string | P_unknown

fun compose_options :: "compose_opt list \<Rightarrow> string option \<times> string option \<times> string option
     \<Rightarrow> (string option \<times> string option \<times> string option) option" where
  "compose_options [] a = Some a"
| "compose_options (x # xs) (c, p, f) =
     (case x of
        P_child s \<Rightarrow> compose_options xs (Some s, p, f)
      | P_parent s \<Rightarrow> compose_options xs (c, Some s, f)
      | P_out s \<Rightarrow> compose_options xs (c, p, Some s)
      | P_unknown \<Rightarrow> None)"

definition cmd_compose :: "(string \<Rightarrow> bool) \<Rightarrow> compose_opt list \<Rightarrow> files \<Rightarrow> nat \<times> files" where
  "cmd_compose writable opts fs =
     (case compose_options opts (None, None, None) of
        Some (Some child, Some parent, Some out_path) \<Rightarrow>
          (case (load_file fs child, load_file fs parent) of
             (Some c1, Some p1) \<Rightarrow>
               (case merlin_ns_compose c1 p1 of
                  Inl _ \<Rightarrow> (1, fs)
                | Inr eff \<Rightarrow> save_file writable out_path eff fs)
           | _ \<Rightarrow> (1, fs))
      | _ \<Rightarrow> (2, fs))"

subsection \<open>Configurations the tool writes can be read\<close>

definition cfg_good :: "merlin_ns_config_v1 \<Rightarrow> bool" where
  "cfg_good c \<longleftrightarrow> ns_wf c \<and> ns_magic c = MERLIN_NS_MAGIC \<and> ns_version c = MERLIN_NS_VERSION \<and> unat (ns_size c) = ns_sizeof"

lemma length_set_bits [simp]: "length (set_bits n ids bs) = length bs"
  unfolding set_bits_def by (induction ids arbitrary: bs) (simp_all add: merlin_ns_bit_set_def)

lemma length_strncpy_name [simp]: "length (strncpy_name s) = MERLIN_NS_NAME_MAX"
  by (simp add: strncpy_name_def)

lemma create_option_good:
  "create_option x a = Some a' \<Longrightarrow> cfg_good (ca_cfg a) \<Longrightarrow> cfg_good (ca_cfg a')"
  by (cases x) (auto simp: create_option_def cfg_good_def ns_wf_def)

lemma create_options_good:
  "create_options xs a = Some a' \<Longrightarrow> cfg_good (ca_cfg a) \<Longrightarrow> cfg_good (ca_cfg a')"
  by (induction xs arbitrary: a) (auto dest: create_option_good split: Option.bind_splits)

lemma build_config_good: "create_options xs create_start = Some a \<Longrightarrow> cfg_good (build_config a)"
proof -
  assume "create_options xs create_start = Some a"
  moreover have "cfg_good (ca_cfg create_start)" by (simp add: create_start_def ns_fresh_def cfg_good_def ns_wf_def)
  ultimately have "cfg_good (ca_cfg a)" by (rule create_options_good)
  then show ?thesis by (simp add: build_config_def cfg_good_def ns_wf_def Let_def)
qed

lemma load_wf: "merlin_ns_load f = Some c \<Longrightarrow> cfg_good c"
  by (auto simp: merlin_ns_load_def ns_parse_def cfg_good_def ns_wf_def field_def Let_def simp del: le_words.simps
      split: if_splits)

lemma compose_good:
  assumes "cfg_good c" "cfg_good p" "merlin_ns_compose c p = Inr e"
  shows "cfg_good e" "narrows e p"
proof -
  have "ns_magic e = ns_magic c" "ns_version e = ns_version c" "ns_size e = ns_size c"
    using assms(3) by (auto simp: merlin_ns_compose_def bind_sum_Inr split: option.splits)
  then show "cfg_good e" "narrows e p"
    using compose_narrows [OF _ _ assms(3)] assms(1,2) by (simp_all add: cfg_good_def)
qed

lemma load_file_saved:
  assumes "cfg_good c" "save_file writable path c fs = (0, fs')"
  shows "load_file fs' path = Some c"
  using assms load_saved [of c] by (auto simp: save_file_def load_file_def cfg_good_def split: if_splits)

lemma narrows_parent_id: "narrows (c\<lparr>parent_ns_id := i\<rparr>) p = narrows c p"
  by (simp add: narrows_def)

lemma check_parent_id: "merlin_ns_check (c\<lparr>parent_ns_id := i\<rparr>) u g = merlin_ns_check c u g"
  by (simp add: merlin_ns_check_def check_quotas_def cong: option.case_cong)

lemma created_from_parent:
  assumes "create_options opts create_start = Some a" "ca_parent a = Some par" "ca_out a = Some new"
    and "cmd_create writable opts fs = (0, fs')"
  obtains p c where "load_file fs par = Some p" "load_file fs' new = Some c" "narrows c p"
proof -
  obtain p e where p: "load_file fs par = Some p" and e: "merlin_ns_compose (build_config a) p = Inr e"
    and saved: "save_file writable new (e\<lparr>parent_ns_id := if parent_ns_id p \<noteq> 0 then parent_ns_id p else 1\<rparr>) fs = (0, fs')"
    using assms by (auto simp: cmd_create_def inherit_from_def split: option.splits sum.splits)
  have "cfg_good p" using p load_wf by (auto simp: load_file_def split: Option.bind_splits)
  note e' = compose_good [OF build_config_good [OF assms(1)] this e]
  let ?c = "e\<lparr>parent_ns_id := if parent_ns_id p \<noteq> 0 then parent_ns_id p else 1\<rparr>"
  have "cfg_good ?c" using e'(1) by (simp add: cfg_good_def ns_wf_def)
  from load_file_saved [OF this saved] p e'(2) show thesis using that narrows_parent_id by blast
qed

lemma check_option_ns:
  "(\<forall>s. x \<noteq> K_ns s) \<Longrightarrow> check_option x (a\<lparr>ka_ns := n\<rparr>) = map_option (\<lambda>a. a\<lparr>ka_ns := n\<rparr>) (check_option x a)"
  by (cases x) (auto simp: check_option_def Let_def map_option_case split: option.split)

lemma check_options_ns:
  "(\<forall>s. K_ns s \<notin> set ks) \<Longrightarrow> check_options ks (a\<lparr>ka_ns := n\<rparr>) = map_option (\<lambda>a. a\<lparr>ka_ns := n\<rparr>) (check_options ks a)"
proof (induction ks arbitrary: a)
  case (Cons x ks)
  then have "\<forall>s. x \<noteq> K_ns s" by auto
  then have "check_option x (a\<lparr>ka_ns := n\<rparr>) = map_option (\<lambda>a. a\<lparr>ka_ns := n\<rparr>) (check_option x a)" by (rule check_option_ns)
  with Cons show ?case by (cases "check_option x a") simp_all
qed simp

lemma cmd_check_ns:
  assumes "\<forall>s. K_ns s \<notin> set ks"
  shows "fst (cmd_check (K_ns path # ks) fs) = 0 \<longleftrightarrow>
    (\<exists>a c u. check_options ks check_start = Some a \<and> load_file fs path = Some c \<and> parse_usage (ka_usage a) = Some u \<and>
       fst (merlin_ns_check c u (ka_prog a)) = MERLIN_NS_OK)"
  using check_options_ns [OF assms, of "Some path" check_start]
  by (auto simp: cmd_check_def check_option_def Let_def split: option.splits prod.splits)

subsection \<open>Printed lists are read back\<close>

lemma strtoull_hex:
  assumes "i < 2 ^ 64" and "rest = [] \<or> \<not> is_digit 16 (hd rest)"
  shows "strtoull (''0x'' @ show_base 16 i @ rest) = (of_nat i, rest)"
proof -
  obtain c cs where c: "show_base 16 i = c # cs" by (cases "show_base 16 i") auto
  have d: "is_digit 16 c" using show_base_digits [of 16 i] c by (auto simp: is_digit_def digit_val_char)
  have "scan_digits 16 0 (show_base 16 i @ rest) = (i, rest)" using assms(2) by (intro scan_show_base) auto
  moreover have "scan_base (''0x'' @ show_base 16 i @ rest) = (16, show_base 16 i @ rest)"
    using d by (simp add: scan_base_def hex_prefix_def c)
  ultimately show ?thesis using assms(1) d by (simp add: strtoull_def isspace_def c)
qed

lemma parse_list_skip: "list_sep c \<Longrightarrow> parse_list_from (c # t) cap out = parse_list_from t cap out"
  by (auto simp: parse_list_from.simps [of "c # t"] parse_list_from.simps [of t])

lemma parse_list_number:
  assumes "i < 2 ^ 32" and "rest = [] \<or> hd rest = CHR '',''"
  shows "parse_list_from (''0x'' @ show_base 16 i @ rest) cap out =
     (if cap \<le> length out then None else parse_list_from rest cap (out @ [of_nat i]))"
proof -
  have "\<not> is_digit 16 (CHR '','')" by (simp add: is_digit_def digit_val_def)
  then have n: "strtoull (''0x'' @ show_base 16 i @ rest) = (of_nat i, rest)"
    using assms by (intro strtoull_hex) auto
  have "(ucast (of_nat i :: u64) :: u32) = of_nat i" using assms(1) by (simp add: unsigned_of_nat take_bit_nat_eq_self)
  then show ?thesis
    by (subst parse_list_from.simps) (simp add: n [simplified])
qed

lemma parse_ids_text:
  assumes "\<forall>i \<in> set is. i < 2 ^ 32"
  shows "parse_list_from (ids_text is) cap out =
     (if length out + length is \<le> cap \<or> is = [] then Some (out @ map of_nat is) else None)"
  using assms
proof (induction "is" arbitrary: out rule: ids_text.induct)
  case 1
  then show ?case by (simp add: parse_list_from.simps [of "[]"])
next
  case (2 i)
  then show ?case using parse_list_number [of i "[]" cap out] by (simp add: parse_list_from.simps [of "[]"])
next
  case (3 i j "is")
  then show ?case
    using parse_list_number [of i "CHR '','' # ids_text (j # is)" cap out] by (simp add: parse_list_skip)
qed

lemma get_set_bits:
  assumes "length bs = n" "k < 64 * n"
  shows "merlin_ns_bit_get (set_bits n ids bs) k n \<longleftrightarrow> merlin_ns_bit_get bs k n \<or> k \<in> unat ` set ids"
  using assms(1)
proof (induction ids arbitrary: bs)
  case (Cons i ids)
  have "k div 64 < n" using assms(2) by (simp add: less_mult_imp_div_less mult.commute)
  then have "merlin_ns_bit_get (merlin_ns_bit_set bs (unat i) n) k n \<longleftrightarrow> k = unat i \<or> merlin_ns_bit_get bs k n"
    using Cons.prems div_mod_eq_iff [of k 64 "unat i"]
    by (auto simp: ns_bit_get_iff merlin_ns_bit_set_def nth_list_update bit_or_exp push_bit_of_1)
  moreover have "length (merlin_ns_bit_set bs (unat i) n) = n" using Cons.prems by (simp add: merlin_ns_bit_set_def)
  ultimately show ?case using Cons.IH by (auto simp: set_bits_def)
qed (simp add: set_bits_def)

lemma bitset_eqI:
  assumes "length as = n" "length bs = n" "\<And>k. k < 64 * n \<Longrightarrow> merlin_ns_bit_get as k n = merlin_ns_bit_get bs k n"
  shows "as = bs"
proof (rule nth_equalityI)
  fix i assume i: "i < length as"
  have "bit (as ! i) j = bit (bs ! i) j" if "j < 64" for j
    using assms(3) [of "i * 64 + j"] assms(1) i that by (simp add: ns_bit_get_iff)
  then show "as ! i = bs ! i" by (auto simp: bit_eq_iff)
qed (simp add: assms)

lemma ids_restored:
  assumes "length bs = n" "n \<le> 64"
  shows "set_bits n (map of_nat (set_ids bs n (64 * n))) (replicate n 0) = bs"
proof (rule bitset_eqI)
  fix k assume k: "k < 64 * n"
  have small: "unat (of_nat i :: u32) = i" if "i < 64 * n" for i
    using that assms(2) by (simp add: unat_of_nat_small)
  have "\<not> merlin_ns_bit_get (replicate n 0) k n"
    using k by (simp add: ns_bit_get_iff less_mult_imp_div_less mult.commute)
  then show "merlin_ns_bit_get (set_bits n (map of_nat (set_ids bs n (64 * n))) (replicate n 0)) k n = merlin_ns_bit_get bs k n"
    using get_set_bits [of "replicate n 0" n k] k small by (force simp: set_ids_def image_iff)
qed (simp_all add: assms)

lemma bit_get_at: "length bs = n \<Longrightarrow> merlin_ns_bit_get bs k n = bit_at bs k"
  by (simp add: ns_bit_get_iff bit_at_def)

lemma count_bit_at: "length (filter (bit_at bs) [0..<64 * length bs]) = sum_list (map (\<lambda>w. length (filter (bit w) [0..<64])) bs)"
proof (induction bs)
  case (Cons w ws)
  have split: "[0..<64 * length (w # ws)] = [0..<64] @ map (\<lambda>i. i + 64) [0..<64 * length ws]"
    using upt_add_eq_append [of 0 64 "64 * length ws"] map_add_upt [of 64 "64 * length ws"] by (simp add: add.commute)
  have "filter (bit_at (w # ws)) [0..<64] = filter (bit w) [0..<64]" by (rule filter_cong) (simp_all add: bit_at_Cons)
  moreover have "filter (bit_at (w # ws)) (map (\<lambda>i. i + 64) xs) = map (\<lambda>i. i + 64) (filter (bit_at ws) xs)" for xs
    by (simp add: filter_map comp_def bit_at_Cons)
  ultimately show ?case using Cons.IH by (simp only: split filter_append length_append length_map list.map sum_list.Cons)
qed simp

lemma count_bits_ids: "length bs = n \<Longrightarrow> count_bits bs n = length (set_ids bs n (64 * n))"
  using count_bit_at [of bs] bit_get_at [of bs n] by (simp add: count_bits_def set_ids_def cong: filter_cong)

subsection \<open>Properties\<close>

text \<open>
  C31: Whatever a created namespace admits, its parent admits. When \<open>create --from\<close> succeeds, the file it writes can be
  read, and every program facts and usage for which \<open>check\<close> accepts against the new file are accepted against the
  parent's file.
\<close>

theorem created_admits_less:
  assumes "create_options opts create_start = Some a" "ca_parent a = Some par" "ca_out a = Some new"
    and "cmd_create writable opts fs = (0, fs')"
    and "\<forall>s. K_ns s \<notin> set ks" and "fst (cmd_check (K_ns new # ks) fs') = 0"
  shows "fst (cmd_check (K_ns par # ks) fs) = 0"
proof -
  obtain p c where pc: "load_file fs par = Some p" "load_file fs' new = Some c" "narrows c p"
    using created_from_parent [OF assms(1-4)] .
  from assms(6) obtain b u where b: "check_options ks check_start = Some b" "parse_usage (ka_usage b) = Some u"
      "fst (merlin_ns_check c u (ka_prog b)) = MERLIN_NS_OK"
    unfolding cmd_check_ns [OF assms(5)] using pc(2) by auto
  then have "fst (merlin_ns_check p u (ka_prog b)) = MERLIN_NS_OK" using check_mono [OF pc(3)] by (metis eq_fst_iff)
  then show ?thesis unfolding cmd_check_ns [OF assms(5)] using b pc(1) by auto
qed

definition demo_files :: files where
  "demo_files = [''p'' \<mapsto> merlin_ns_save ns_all]"

abbreviation (input) demo_create :: "create_opt list" where
  "demo_create \<equiv> [C_from ''p'', C_attach ''1'', C_helpers ''0x0, 1'', C_out ''c'']"

abbreviation (input) demo_check :: "check_opt list" where
  "demo_check \<equiv> [K_attach ''1'', K_helpers ''1'', K_usage ''progs:2'']"

lemma demo_parent_loads: "load_file demo_files ''p'' = Some ns_all"
  using load_saved [OF ns_examples_wf(1)] by (simp add: load_file_def demo_files_def ns_all_def)

lemma demo_options:
  "map_option ca_parent (create_options demo_create create_start) = Some (Some ''p'')"
  "map_option ca_out (create_options demo_create create_start) = Some (Some ''c'')"
  "map_option (\<lambda>a. isl (merlin_ns_compose (build_config a) ns_all)) (create_options demo_create create_start) = Some False"
  "map_option (\<lambda>a. fst (merlin_ns_check (projr (merlin_ns_compose (build_config a) ns_all)) (ns_idle\<lparr>live_progs := 2\<rparr>)
     (ka_prog (the (check_options demo_check check_start))))) (create_options demo_create create_start) = Some MERLIN_NS_OK"
  "map_option ka_usage (check_options demo_check check_start) = Some (Some ''progs:2'')"
  "parse_usage (Some ''progs:2'') = Some (ns_idle\<lparr>live_progs := 2\<rparr>)"
  by code_simp+

theorem created_admits_less_witness:
  "fst (cmd_create (\<lambda>_. True) demo_create demo_files) = 0 \<and> fst (cmd_check (K_ns ''p'' # demo_check) demo_files) = 0"
proof -
  obtain a where a: "create_options demo_create create_start = Some a" "ca_parent a = Some ''p''" "ca_out a = Some ''c''"
    using demo_options(1,2) by fastforce
  obtain e where e: "merlin_ns_compose (build_config a) ns_all = Inr e"
    using demo_options(3) a(1) by (cases "merlin_ns_compose (build_config a) ns_all") auto
  let ?c = "e\<lparr>parent_ns_id := 1\<rparr>" and ?fs = "demo_files(''c'' \<mapsto> merlin_ns_save (e\<lparr>parent_ns_id := 1\<rparr>))"
  have made: "cmd_create (\<lambda>_. True) demo_create demo_files = (0, ?fs)"
    using a e demo_parent_loads by (simp add: cmd_create_def inherit_from_def save_file_def ns_all_def)
  have "cfg_good ns_all" using ns_examples_wf(1) by (simp add: cfg_good_def ns_all_def)
  from compose_good(1) [OF build_config_good [OF a(1)] this e] have "cfg_good ?c" by (simp add: cfg_good_def ns_wf_def)
  then have "load_file ?fs ''c'' = Some ?c"
    using load_file_saved [of ?c "\<lambda>_. True" "''c''" demo_files ?fs] by (simp add: save_file_def)
  moreover obtain k where k: "check_options demo_check check_start = Some k" "ka_usage k = Some ''progs:2''"
    using demo_options(5) by fastforce
  moreover have "fst (merlin_ns_check ?c (ns_idle\<lparr>live_progs := 2\<rparr>) (ka_prog k)) = MERLIN_NS_OK"
    using demo_options(4) unfolding a(1) k(1) check_parent_id by (simp add: e)
  moreover have no: "\<forall>s. K_ns s \<notin> set demo_check" by simp
  ultimately have "fst (cmd_check (K_ns ''c'' # demo_check) ?fs) = 0"
    unfolding cmd_check_ns [OF no] using demo_options(6) by auto
  from created_admits_less [OF a made no this] made show ?thesis by simp
qed

text \<open>
  The lists of ids are a faithful notation. Reading back the list \<open>dump\<close> prints for a bitset and setting those
  bits restores the bitset, as long as the number of bits, which \<open>dump\<close> prints before the list, is within the
  reader's capacity; otherwise the list is refused.
\<close>

theorem dump_list_roundtrip:
  assumes "length bs = n" and "n \<le> 64"
  shows "map_option (\<lambda>ids. set_bits n ids (replicate n 0)) (parse_list (print_set_ids bs n (64 * n)) cap) =
     (if count_bits bs n \<le> cap then Some bs else None)"
proof -
  let ?ids = "set_ids bs n (64 * n)"
  have "\<forall>i \<in> set ?ids. i < 2 ^ 32" using assms(2) by (auto simp: set_ids_def)
  from parse_ids_text [OF this, of cap "[]"] show ?thesis
    using ids_restored [OF assms] count_bits_ids [OF assms(1)] by (auto simp: parse_list_def print_set_ids_def)
qed

theorem dump_list_roundtrip_witness:
  "map_option (\<lambda>ids. set_bits 2 ids (replicate 2 0)) (parse_list (print_set_ids [5, 1] 2 (64 * 2)) 64) = Some [5, 1]"
proof -
  have "count_bits [5, 1] 2 \<le> 64" by code_simp
  with dump_list_roundtrip [of "[5, 1]" 2 64] show ?thesis by simp
qed

end
