(* ===== verification/Dispatch.thy ===== *)
theory Dispatch
  imports Merlin_Prelude
begin

text \<open>
  Helper dispatch, \<open>kernel/merlin/dispatch.c\<close>, with the errno values the kernel code returns as
  negative integers. What the helpers read of the kernel (the clock, the random source) is the
  argument \<open>kenv\<close>; \<open>pr_debug\<close> output is not modelled.
\<close>

abbreviation (input) E_PERM :: int where "E_PERM \<equiv> 1"
abbreviation (input) E_2BIG :: int where "E_2BIG \<equiv> 7"
abbreviation (input) E_NOEXEC :: int where "E_NOEXEC \<equiv> 8"
abbreviation (input) E_BADF :: int where "E_BADF \<equiv> 9"
abbreviation (input) E_NOMEM :: int where "E_NOMEM \<equiv> 12"
abbreviation (input) E_ACCES :: int where "E_ACCES \<equiv> 13"
abbreviation (input) E_FAULT :: int where "E_FAULT \<equiv> 14"
abbreviation (input) E_NODEV :: int where "E_NODEV \<equiv> 19"
abbreviation (input) E_INVAL :: int where "E_INVAL \<equiv> 22"
abbreviation (input) E_NOTTY :: int where "E_NOTTY \<equiv> 25"
abbreviation (input) E_NOSYS :: int where "E_NOSYS \<equiv> 38"
abbreviation (input) E_OPNOTSUPP :: int where "E_OPNOTSUPP \<equiv> 95"

record kenv =
  ktime_get_ns :: u64
  get_random_u32 :: u32

type_synonym helper_args = "u64 \<times> u64 \<times> u64 \<times> u64 \<times> u64 \<times> u64"
type_synonym merlin_helper_fn = "kenv \<Rightarrow> helper_args \<Rightarrow> u64"

definition helper_trace_printk :: merlin_helper_fn where
  "helper_trace_printk env args = 0"

definition helper_map_lookup :: merlin_helper_fn where
  "helper_map_lookup env args = 0"

definition helper_map_update :: merlin_helper_fn where
  "helper_map_update env args = of_int (- E_OPNOTSUPP)"

definition helper_map_delete :: merlin_helper_fn where
  "helper_map_delete env args = of_int (- E_OPNOTSUPP)"

definition helper_ktime_get_ns :: merlin_helper_fn where
  "helper_ktime_get_ns env args = ktime_get_ns env"

definition helper_prandom_u32 :: merlin_helper_fn where
  "helper_prandom_u32 env args = ucast (get_random_u32 env)"

record merlin_helper_entry =
  he_id :: u32
  he_name :: string
  he_fn :: "merlin_helper_fn option"

definition builtin_helpers :: "merlin_helper_entry list" where
  "builtin_helpers =
     [\<lparr>he_id = 0, he_name = ''(reserved)'', he_fn = None\<rparr>,
      \<lparr>he_id = 1, he_name = ''trace_printk'', he_fn = Some helper_trace_printk\<rparr>,
      \<lparr>he_id = 2, he_name = ''map_lookup_elem'', he_fn = Some helper_map_lookup\<rparr>,
      \<lparr>he_id = 3, he_name = ''map_update_elem'', he_fn = Some helper_map_update\<rparr>,
      \<lparr>he_id = 4, he_name = ''map_delete_elem'', he_fn = Some helper_map_delete\<rparr>,
      \<lparr>he_id = 5, he_name = ''ktime_get_ns'', he_fn = Some helper_ktime_get_ns\<rparr>,
      \<lparr>he_id = 6, he_name = ''get_prandom_u32'', he_fn = Some helper_prandom_u32\<rparr>]"

abbreviation (input) MERLIN_NR_BUILTIN_HELPERS :: nat where "MERLIN_NR_BUILTIN_HELPERS \<equiv> 7"

definition merlin_dispatch_helper :: "kenv \<Rightarrow> u32 \<Rightarrow> helper_args \<Rightarrow> u64" where
  "merlin_dispatch_helper env i args =
     (if unat i < MERLIN_NR_BUILTIN_HELPERS then
        (case he_fn (builtin_helpers ! unat i) of
           Some f \<Rightarrow> f env args
         | None \<Rightarrow> of_int (- E_INVAL))
      else of_int (- E_INVAL))"

lemma dispatch_unknown:
  assumes "i = 0 \<or> 7 \<le> unat i"
  shows "merlin_dispatch_helper env i args = of_int (- E_INVAL)"
  using assms by (auto simp: merlin_dispatch_helper_def builtin_helpers_def)

lemma builtin_helpers_indexed: "map he_id builtin_helpers = map of_nat [0..<MERLIN_NR_BUILTIN_HELPERS]"
  by code_simp

end
