(* ===== verification/Jit_X86.thy ===== *)
theory Jit_X86
  imports Dispatch Decode Cfg
begin

text \<open>
  The JIT backends: the x86_64 translator \<open>kernel/merlin/jit/arch/x86_64.c\<close> with its emit buffer,
  the pass-through backend \<open>jit/pass_through.c\<close> and the selection \<open>jit/select.c\<close>.

  An emitter runs in a memory environment that says whether an allocation of a given size
  succeeds, on a buffer, and returns the C return code with the new buffer: \<open>||\<close> between emitters
  yields 0 or 1, \<open>if (e) return -1\<close> yields -1.
\<close>

subsection \<open>The emit buffer\<close>

record kbuf =
  buf :: "u8 list"
  cap :: nat

type_synonym mem_env = "nat \<Rightarrow> bool"
type_synonym emitter = "mem_env \<Rightarrow> kbuf \<Rightarrow> int \<times> kbuf"

definition kbuf_init :: "mem_env \<Rightarrow> nat \<Rightarrow> int + kbuf" where
  "kbuf_init m initial = (if m initial then Inr \<lparr>buf = [], cap = initial\<rparr> else Inl (- E_NOMEM))"

text \<open>The doubling loop; the initial capacity is positive, so it is never entered with 0.\<close>

function grow :: "nat \<Rightarrow> nat \<Rightarrow> nat" where
  "grow need c = (if c = 0 \<or> need \<le> c then c else grow need (c * 2))"
  by pat_completeness auto
termination by (relation "measure (\<lambda>(need, c). need - c)") auto

declare grow.simps [simp del]

definition kbuf_reserve :: "nat \<Rightarrow> emitter" where
  "kbuf_reserve n m b =
     (if length (buf b) + n \<le> cap b then (0, b)
      else let ncap = grow (length (buf b) + n) (cap b) in
        if m ncap then (0, b\<lparr>cap := ncap\<rparr>) else (- E_NOMEM, b))"

definition put_bytes :: "u8 list \<Rightarrow> emitter" where
  "put_bytes bs m b =
     (case kbuf_reserve (length bs) m b of
        (r, b') \<Rightarrow> if r \<noteq> 0 then (- E_NOMEM, b') else (0, b'\<lparr>buf := buf b' @ bs\<rparr>))"

definition EMIT :: "u8 \<Rightarrow> emitter" where
  "EMIT byte = put_bytes [byte]"

definition emit_u32le :: "u32 \<Rightarrow> emitter" where
  "emit_u32le v =
     put_bytes [ucast v, ucast (drop_bit 8 v), ucast (drop_bit 16 v), ucast (drop_bit 24 v)]"

definition emit_u64le :: "u64 \<Rightarrow> emitter" where
  "emit_u64le v = put_bytes (map (\<lambda>i. ucast (drop_bit (i * 8) v)) [0, 1, 2, 3, 4, 5, 6, 7])"

text \<open>C's \<open>e1 || e2\<close>, \<open>if (e1) return -1; e2\<close> and the empty sequence.\<close>

definition or_emit :: "emitter \<Rightarrow> emitter \<Rightarrow> emitter" where
  "or_emit e1 e2 m b =
     (case e1 m b of
        (r, b') \<Rightarrow> if r \<noteq> 0 then (1, b')
                   else (case e2 m b' of (r2, b'') \<Rightarrow> (if r2 \<noteq> 0 then 1 else 0, b'')))"

definition then_emit :: "emitter \<Rightarrow> emitter \<Rightarrow> emitter" where
  "then_emit e1 e2 m b = (case e1 m b of (r, b') \<Rightarrow> if r \<noteq> 0 then (- 1, b') else e2 m b')"

definition skip_emit :: "int \<Rightarrow> emitter" where
  "skip_emit r m b = (r, b)"

subsection \<open>x86_64 instruction emitters\<close>

abbreviation (input) REGS_BYTES :: u32 where "REGS_BYTES \<equiv> 256"

definition DISP32 :: "nat \<Rightarrow> u32" where
  "DISP32 rv = of_nat (rv * 8)"

definition emit_push_rbx :: emitter where "emit_push_rbx = EMIT 0x53"
definition emit_pop_rbx :: emitter where "emit_pop_rbx = EMIT 0x5b"
definition emit_ret :: emitter where "emit_ret = EMIT 0xc3"

definition emit_sub_rsp_imm32 :: "u32 \<Rightarrow> emitter" where
  "emit_sub_rsp_imm32 v = or_emit (or_emit (or_emit (EMIT 0x48) (EMIT 0x81)) (EMIT 0xec)) (emit_u32le v)"

definition emit_add_rsp_imm32 :: "u32 \<Rightarrow> emitter" where
  "emit_add_rsp_imm32 v = or_emit (or_emit (or_emit (EMIT 0x48) (EMIT 0x81)) (EMIT 0xc4)) (emit_u32le v)"

definition emit_mov_rbx_rsp :: emitter where
  "emit_mov_rbx_rsp = or_emit (or_emit (EMIT 0x48) (EMIT 0x89)) (EMIT 0xe3)"

definition emit_store_rax :: "u32 \<Rightarrow> emitter" where
  "emit_store_rax disp = or_emit (or_emit (or_emit (EMIT 0x48) (EMIT 0x89)) (EMIT 0x83)) (emit_u32le disp)"

definition emit_load_rax :: "u32 \<Rightarrow> emitter" where
  "emit_load_rax disp = or_emit (or_emit (or_emit (EMIT 0x48) (EMIT 0x8b)) (EMIT 0x83)) (emit_u32le disp)"

definition emit_load_rcx :: "u32 \<Rightarrow> emitter" where
  "emit_load_rcx disp = or_emit (or_emit (or_emit (EMIT 0x48) (EMIT 0x8b)) (EMIT 0x8b)) (emit_u32le disp)"

definition emit_store_rdi :: "u32 \<Rightarrow> emitter" where
  "emit_store_rdi disp = or_emit (or_emit (or_emit (EMIT 0x48) (EMIT 0x89)) (EMIT 0xbb)) (emit_u32le disp)"

definition emit_xor_rax_rax :: emitter where
  "emit_xor_rax_rax = or_emit (or_emit (EMIT 0x48) (EMIT 0x31)) (EMIT 0xc0)"

definition emit_mov_rax_imm64 :: "u64 \<Rightarrow> emitter" where
  "emit_mov_rax_imm64 v = or_emit (or_emit (EMIT 0x48) (EMIT 0xb8)) (emit_u64le v)"

definition emit_add_rax_imm32 :: "u32 \<Rightarrow> emitter" where
  "emit_add_rax_imm32 v = or_emit (or_emit (EMIT 0x48) (EMIT 0x05)) (emit_u32le v)"

definition emit_add_rax_rcx :: emitter where
  "emit_add_rax_rcx = or_emit (or_emit (EMIT 0x48) (EMIT 0x01)) (EMIT 0xc8)"

definition emit_sub_rax_rcx :: emitter where
  "emit_sub_rax_rcx = or_emit (or_emit (EMIT 0x48) (EMIT 0x29)) (EMIT 0xc8)"

definition emit_or_rax_rcx :: emitter where
  "emit_or_rax_rcx = or_emit (or_emit (EMIT 0x48) (EMIT 0x09)) (EMIT 0xc8)"

definition emit_and_rax_rcx :: emitter where
  "emit_and_rax_rcx = or_emit (or_emit (EMIT 0x48) (EMIT 0x21)) (EMIT 0xc8)"

definition emit_xor_rax_rcx :: emitter where
  "emit_xor_rax_rcx = or_emit (or_emit (EMIT 0x48) (EMIT 0x31)) (EMIT 0xc8)"

definition emit_imul_rax_rcx :: emitter where
  "emit_imul_rax_rcx = or_emit (or_emit (or_emit (EMIT 0x48) (EMIT 0x0f)) (EMIT 0xaf)) (EMIT 0xc1)"

definition emit_shl_rax_imm8 :: "u8 \<Rightarrow> emitter" where
  "emit_shl_rax_imm8 v = or_emit (or_emit (or_emit (EMIT 0x48) (EMIT 0xc1)) (EMIT 0xe0)) (EMIT v)"

definition emit_shr_rax_imm8 :: "u8 \<Rightarrow> emitter" where
  "emit_shr_rax_imm8 v = or_emit (or_emit (or_emit (EMIT 0x48) (EMIT 0xc1)) (EMIT 0xe8)) (EMIT v)"

definition emit_sar_rax_imm8 :: "u8 \<Rightarrow> emitter" where
  "emit_sar_rax_imm8 v = or_emit (or_emit (or_emit (EMIT 0x48) (EMIT 0xc1)) (EMIT 0xf8)) (EMIT v)"

definition emit_mov_rdi_rbx :: emitter where
  "emit_mov_rdi_rbx = or_emit (or_emit (EMIT 0x48) (EMIT 0x89)) (EMIT 0xdf)"

definition emit_call_rax :: emitter where
  "emit_call_rax = or_emit (EMIT 0xff) (EMIT 0xd0)"

subsection \<open>Composed sequences\<close>

definition emit_load_rs_pair :: "nat \<Rightarrow> nat \<Rightarrow> emitter" where
  "emit_load_rs_pair r1 r2 = or_emit (emit_load_rax (DISP32 r1)) (emit_load_rcx (DISP32 r2))"

definition emit_store_rd :: "nat \<Rightarrow> emitter" where
  "emit_store_rd r = (if r = 0 then skip_emit 0 else emit_store_rax (DISP32 r))"

fun emit_zero_regs :: "nat list \<Rightarrow> emitter \<Rightarrow> emitter" where
  "emit_zero_regs [] rest = rest"
| "emit_zero_regs (r # rs) rest = then_emit (emit_store_rax (DISP32 r)) (emit_zero_regs rs rest)"

definition emit_prologue :: emitter where
  "emit_prologue =
     then_emit emit_push_rbx (then_emit (emit_sub_rsp_imm32 REGS_BYTES)
       (then_emit emit_mov_rbx_rsp (then_emit emit_xor_rax_rax
         (emit_zero_regs [0..<32] (emit_store_rdi (DISP32 10))))))"

definition emit_epilogue :: emitter where
  "emit_epilogue =
     then_emit (emit_load_rax (DISP32 10)) (then_emit (emit_add_rsp_imm32 REGS_BYTES)
       (then_emit emit_pop_rbx emit_ret))"

subsection \<open>Per-instruction translation\<close>

definition alu_reg_emit :: "merlin_alu_op \<Rightarrow> emitter" where
  "alu_reg_emit aop =
     (case aop of
        ALU_ADD \<Rightarrow> emit_add_rax_rcx | ALU_SUB \<Rightarrow> emit_sub_rax_rcx | ALU_OR \<Rightarrow> emit_or_rax_rcx
      | ALU_AND \<Rightarrow> emit_and_rax_rcx | ALU_XOR \<Rightarrow> emit_xor_rax_rcx | _ \<Rightarrow> emit_xor_rax_rax)"

definition translate_one :: "u64 \<Rightarrow> merlin_insn \<Rightarrow> emitter" where
  "translate_one tramp i =
     (case cls i of
        INSN_LUI \<Rightarrow> then_emit (emit_mov_rax_imm64 (imm i)) (emit_store_rd (rd i))
      | INSN_ALU_IMM \<Rightarrow>
          then_emit (emit_load_rax (DISP32 (rs1 i)))
            (then_emit (case alu_op i of ALU_ADD \<Rightarrow> emit_add_rax_imm32 (ucast (imm i)) | _ \<Rightarrow> emit_xor_rax_rax)
              (emit_store_rd (rd i)))
      | INSN_ALU_REG \<Rightarrow>
          then_emit (emit_load_rs_pair (rs1 i) (rs2 i))
            (then_emit (alu_reg_emit (alu_op i)) (emit_store_rd (rd i)))
      | INSN_MUL \<Rightarrow>
          (if alu_op i \<noteq> ALU_MUL then then_emit emit_xor_rax_rax (emit_store_rd (rd i))
           else then_emit (emit_load_rs_pair (rs1 i) (rs2 i))
                  (then_emit emit_imul_rax_rcx (emit_store_rd (rd i))))
      | INSN_SHIFT_IMM \<Rightarrow>
          then_emit (emit_load_rax (DISP32 (rs1 i)))
            (case alu_op i of
               ALU_SLL \<Rightarrow> then_emit (emit_shl_rax_imm8 (ucast (imm i))) (emit_store_rd (rd i))
             | ALU_SRL \<Rightarrow> then_emit (emit_shr_rax_imm8 (ucast (imm i))) (emit_store_rd (rd i))
             | ALU_SRA \<Rightarrow> then_emit (emit_sar_rax_imm8 (ucast (imm i))) (emit_store_rd (rd i))
             | _ \<Rightarrow> skip_emit (- 1))
      | INSN_ECALL \<Rightarrow>
          then_emit emit_mov_rdi_rbx (then_emit (emit_mov_rax_imm64 tramp) emit_call_rax)
      | INSN_JALR \<Rightarrow> emit_epilogue
      | INSN_FENCE \<Rightarrow> skip_emit 0
      | INSN_BRANCH \<Rightarrow> skip_emit 0
      | INSN_JAL \<Rightarrow> skip_emit 0
      | INSN_LOAD \<Rightarrow> skip_emit 0
      | INSN_STORE \<Rightarrow> skip_emit 0
      | _ \<Rightarrow> skip_emit (- E_NOSYS))"

text \<open>The trampoline works on the register array of the translated function's frame.\<close>

definition merlin_jit_x86_helper_trampoline :: "kenv \<Rightarrow> u64 list \<Rightarrow> u64 list" where
  "merlin_jit_x86_helper_trampoline env regs =
     regs[10 := merlin_dispatch_helper env (ucast (regs ! 17))
       (regs ! 10, regs ! 11, regs ! 12, regs ! 13, regs ! 14, regs ! 15)]"

subsection \<open>The translation loop\<close>

text \<open>
  The loop over the instructions from byte offset \<open>p\<close>: the result is the return code with the
  buffer and whether a \<open>jalr\<close> ended it.
\<close>

function translate_loop :: "u64 \<Rightarrow> u8 list \<Rightarrow> nat \<Rightarrow> mem_env \<Rightarrow> kbuf \<Rightarrow> int \<times> kbuf \<times> bool" where
  "translate_loop tramp txt p m b =
     (if p < length txt then
        case insn_at txt p of
          None \<Rightarrow> (- E_INVAL, b, False)
        | Some i \<Rightarrow>
            (case translate_one tramp i m b of
               (r, b') \<Rightarrow>
                 if r \<noteq> 0 then (r, b', False)
                 else if cls i = INSN_JALR then (0, b', True)
                 else translate_loop tramp txt (p + 4) m b')
      else (0, b, False))"
  by pat_completeness auto
termination by (relation "measure (\<lambda>(_, txt, p, _, _). length txt - p)") auto

declare translate_loop.simps [simp del]

text \<open>The image holds the code bytes; the rest of its pages is not described.\<close>

record merlin_jit_image =
  image :: "u8 list"
  image_len :: nat
  code_len :: nat

record jit_env =
  jmem :: mem_env
  vmalloc_exec_ok :: bool
  kzalloc_ok :: bool
  tramp_addr :: u64

abbreviation (input) PAGE_SIZE :: nat where "PAGE_SIZE \<equiv> 4096"

definition x86_translate :: "jit_env \<Rightarrow> u8 list \<Rightarrow> int + merlin_jit_image" where
  "x86_translate env txt =
     (if length txt = 0 \<or> length txt mod 4 \<noteq> 0 then Inl (- E_INVAL)
      else case kbuf_init (jmem env) 4096 of
        Inl r \<Rightarrow> Inl r
      | Inr b0 \<Rightarrow>
          (case emit_prologue (jmem env) b0 of
             (r, b1) \<Rightarrow>
               if r \<noteq> 0 then Inl (- E_NOMEM)
               else (case translate_loop (tramp_addr env) txt 0 (jmem env) b1 of
                 (r, b2, saw_ret) \<Rightarrow>
                   if r \<noteq> 0 then Inl r
                   else (case (if saw_ret then (0, b2) else emit_epilogue (jmem env) b2) of
                     (r, b3) \<Rightarrow>
                       if r \<noteq> 0 then Inl (- E_NOMEM)
                       else let cl = length (buf b3); pages = (cl + PAGE_SIZE - 1) div PAGE_SIZE in
                         if \<not> vmalloc_exec_ok env then Inl (- E_NOMEM)
                         else if \<not> kzalloc_ok env then Inl (- E_NOMEM)
                         else Inr \<lparr>image = buf b3, image_len = pages * PAGE_SIZE, code_len = cl\<rparr>))))"

definition passthrough_translate :: "jit_env \<Rightarrow> u8 list \<Rightarrow> int + merlin_jit_image" where
  "passthrough_translate env txt =
     (if length txt = 0 then Inl (- E_INVAL)
      else if \<not> kzalloc_ok env then Inl (- E_NOMEM)
      else if \<not> vmalloc_exec_ok env then Inl (- E_NOMEM)
      else Inr \<lparr>image = txt, image_len = length txt, code_len = length txt\<rparr>)"

text \<open>The backend is chosen by the kernel's build configuration; the profile is ignored.\<close>

datatype host = Host_riscv | Host_x86_64 | Host_other

definition merlin_select_jit :: "host \<Rightarrow> u32 \<Rightarrow> (jit_env \<Rightarrow> u8 list \<Rightarrow> int + merlin_jit_image) option" where
  "merlin_select_jit h profile =
     (case h of
        Host_riscv \<Rightarrow> Some passthrough_translate
      | Host_x86_64 \<Rightarrow> Some x86_translate
      | Host_other \<Rightarrow> None)"

end
