(* ===== verification/X86_Machine.thy ===== *)
theory X86_Machine
  imports Bytes Jit_X86
begin

text \<open>
  The target of the JIT: the x86_64 instructions it emits, their encodings and a disassembler, and
  their effect on the registers and on memory seen as 64-bit cells. It follows the processor manual,
  not the repository; the JIT is proved against it.
\<close>

datatype xinsn =
    X_push_rbx | X_pop_rbx | X_ret | X_sub_rsp u32 | X_add_rsp u32 | X_mov_rbx_rsp
  | X_store_rax u32 | X_load_rax u32 | X_load_rcx u32 | X_store_rdi u32
  | X_xor_rax_rax | X_mov_rax u64 | X_add_rax_imm u32
  | X_add | X_sub | X_or | X_and | X_xor | X_imul
  | X_shl u8 | X_shr u8 | X_sar u8 | X_mov_rdi_rbx | X_call_rax

fun xbytes :: "xinsn \<Rightarrow> u8 list" where
  "xbytes X_push_rbx = [0x53]"
| "xbytes X_pop_rbx = [0x5b]"
| "xbytes X_ret = [0xc3]"
| "xbytes (X_sub_rsp v) = [0x48, 0x81, 0xec] @ le_bytes 4 v"
| "xbytes (X_add_rsp v) = [0x48, 0x81, 0xc4] @ le_bytes 4 v"
| "xbytes X_mov_rbx_rsp = [0x48, 0x89, 0xe3]"
| "xbytes (X_store_rax d) = [0x48, 0x89, 0x83] @ le_bytes 4 d"
| "xbytes (X_load_rax d) = [0x48, 0x8b, 0x83] @ le_bytes 4 d"
| "xbytes (X_load_rcx d) = [0x48, 0x8b, 0x8b] @ le_bytes 4 d"
| "xbytes (X_store_rdi d) = [0x48, 0x89, 0xbb] @ le_bytes 4 d"
| "xbytes X_xor_rax_rax = [0x48, 0x31, 0xc0]"
| "xbytes (X_mov_rax v) = [0x48, 0xb8] @ le_bytes 8 v"
| "xbytes (X_add_rax_imm v) = [0x48, 0x05] @ le_bytes 4 v"
| "xbytes X_add = [0x48, 0x01, 0xc8]"
| "xbytes X_sub = [0x48, 0x29, 0xc8]"
| "xbytes X_or = [0x48, 0x09, 0xc8]"
| "xbytes X_and = [0x48, 0x21, 0xc8]"
| "xbytes X_xor = [0x48, 0x31, 0xc8]"
| "xbytes X_imul = [0x48, 0x0f, 0xaf, 0xc1]"
| "xbytes (X_shl v) = [0x48, 0xc1, 0xe0, v]"
| "xbytes (X_shr v) = [0x48, 0xc1, 0xe8, v]"
| "xbytes (X_sar v) = [0x48, 0xc1, 0xf8, v]"
| "xbytes X_mov_rdi_rbx = [0x48, 0x89, 0xdf]"
| "xbytes X_call_rax = [0xff, 0xd0]"

subsection \<open>Disassembly\<close>

definition with_imm32 :: "(u32 \<Rightarrow> xinsn) \<Rightarrow> u8 list \<Rightarrow> (xinsn \<times> u8 list) option" where
  "with_imm32 f bs = (if 4 \<le> length bs then Some (f (le_word (take 4 bs)), drop 4 bs) else None)"

definition with_imm64 :: "(u64 \<Rightarrow> xinsn) \<Rightarrow> u8 list \<Rightarrow> (xinsn \<times> u8 list) option" where
  "with_imm64 f bs = (if 8 \<le> length bs then Some (f (le_word (take 8 bs)), drop 8 bs) else None)"

definition with_imm8 :: "(u8 \<Rightarrow> xinsn) \<Rightarrow> u8 list \<Rightarrow> (xinsn \<times> u8 list) option" where
  "with_imm8 f bs = (case bs of [] \<Rightarrow> None | b # rest \<Rightarrow> Some (f b, rest))"

definition xdecode_rexw3 :: "u8 \<Rightarrow> u8 \<Rightarrow> u8 list \<Rightarrow> (xinsn \<times> u8 list) option" where
  "xdecode_rexw3 b1 b2 rest =
     (if b1 = 0x81 then
        if b2 = 0xec then with_imm32 X_sub_rsp rest
        else if b2 = 0xc4 then with_imm32 X_add_rsp rest else None
      else if b1 = 0x89 then
        if b2 = 0xe3 then Some (X_mov_rbx_rsp, rest)
        else if b2 = 0x83 then with_imm32 X_store_rax rest
        else if b2 = 0xbb then with_imm32 X_store_rdi rest
        else if b2 = 0xdf then Some (X_mov_rdi_rbx, rest) else None
      else if b1 = 0x8b then
        if b2 = 0x83 then with_imm32 X_load_rax rest
        else if b2 = 0x8b then with_imm32 X_load_rcx rest else None
      else if b1 = 0x31 then
        if b2 = 0xc0 then Some (X_xor_rax_rax, rest)
        else if b2 = 0xc8 then Some (X_xor, rest) else None
      else if b1 = 0x01 \<and> b2 = 0xc8 then Some (X_add, rest)
      else if b1 = 0x29 \<and> b2 = 0xc8 then Some (X_sub, rest)
      else if b1 = 0x09 \<and> b2 = 0xc8 then Some (X_or, rest)
      else if b1 = 0x21 \<and> b2 = 0xc8 then Some (X_and, rest)
      else if b1 = 0x0f \<and> b2 = 0xaf then
        (case rest of [] \<Rightarrow> None | b3 # r3 \<Rightarrow> if b3 = 0xc1 then Some (X_imul, r3) else None)
      else if b1 = 0xc1 then
        if b2 = 0xe0 then with_imm8 X_shl rest
        else if b2 = 0xe8 then with_imm8 X_shr rest
        else if b2 = 0xf8 then with_imm8 X_sar rest else None
      else None)"

definition xdecode_rexw :: "u8 list \<Rightarrow> (xinsn \<times> u8 list) option" where
  "xdecode_rexw bs =
     (case bs of
        [] \<Rightarrow> None
      | b1 # r1 \<Rightarrow>
          if b1 = 0xb8 then with_imm64 X_mov_rax r1
          else if b1 = 0x05 then with_imm32 X_add_rax_imm r1
          else (case r1 of [] \<Rightarrow> None | b2 # r2 \<Rightarrow> xdecode_rexw3 b1 b2 r2))"

definition xdecode :: "u8 list \<Rightarrow> (xinsn \<times> u8 list) option" where
  "xdecode bs =
     (case bs of
        [] \<Rightarrow> None
      | b0 # r0 \<Rightarrow>
          if b0 = 0x53 then Some (X_push_rbx, r0)
          else if b0 = 0x5b then Some (X_pop_rbx, r0)
          else if b0 = 0xc3 then Some (X_ret, r0)
          else if b0 = 0xff then
            (case r0 of [] \<Rightarrow> None | b1 # r1 \<Rightarrow> if b1 = 0xd0 then Some (X_call_rax, r1) else None)
          else if b0 = 0x48 then xdecode_rexw r0
          else None)"

lemmas xdecode_defs = xdecode_def xdecode_rexw_def xdecode_rexw3_def with_imm8_def with_imm32_def
  with_imm64_def

lemma xdecode_xbytes: "xdecode (xbytes i @ rest) = Some (i, rest)"
  by (cases i) (simp_all add: xdecode_defs)

subsection \<open>Execution\<close>

record xstate =
  rax :: u64
  rcx :: u64
  rdi :: u64
  rbx :: u64
  rsp :: u64
  xmem :: "u64 \<Rightarrow> u64"

text \<open>
  A call is a call of the helper trampoline \<open>xcallee\<close> at address \<open>xtramp\<close>: it works on the 32 cells at
  \<open>rdi\<close>, of which it changes the eleventh, and leaves \<open>xjunk\<close> in the registers a callee may change and in
  the cell of its return address.
\<close>

record xenv =
  xcallee :: "u64 list \<Rightarrow> u64 list"
  xtramp :: u64
  xjunk :: u64

definition cell :: "u64 \<Rightarrow> nat \<Rightarrow> u64" where
  "cell base r = base + of_nat (8 * r)"

definition frame_of :: "(u64 \<Rightarrow> u64) \<Rightarrow> u64 \<Rightarrow> u64 list" where
  "frame_of mem base = map (\<lambda>r. mem (cell base r)) [0..<32]"

definition xcall :: "xenv \<Rightarrow> xstate \<Rightarrow> xstate option" where
  "xcall e s =
     (if rax s \<noteq> xtramp e then None
      else Some (s\<lparr>rax := xjunk e, rcx := xjunk e, rdi := xjunk e,
        xmem := (xmem s)(rsp s - 8 := xjunk e,
          cell (rdi s) 10 := xcallee e (frame_of (xmem s) (rdi s)) ! 10)\<rparr>))"

fun xstep :: "xenv \<Rightarrow> xinsn \<Rightarrow> xstate \<Rightarrow> xstate option" where
  "xstep e X_push_rbx s = Some (s\<lparr>rsp := rsp s - 8, xmem := (xmem s)(rsp s - 8 := rbx s)\<rparr>)"
| "xstep e X_pop_rbx s = Some (s\<lparr>rbx := xmem s (rsp s), rsp := rsp s + 8\<rparr>)"
| "xstep e X_ret s = Some (s\<lparr>rsp := rsp s + 8\<rparr>)"
| "xstep e (X_sub_rsp v) s = Some (s\<lparr>rsp := rsp s - scast v\<rparr>)"
| "xstep e (X_add_rsp v) s = Some (s\<lparr>rsp := rsp s + scast v\<rparr>)"
| "xstep e X_mov_rbx_rsp s = Some (s\<lparr>rbx := rsp s\<rparr>)"
| "xstep e (X_store_rax d) s = Some (s\<lparr>xmem := (xmem s)(rbx s + scast d := rax s)\<rparr>)"
| "xstep e (X_load_rax d) s = Some (s\<lparr>rax := xmem s (rbx s + scast d)\<rparr>)"
| "xstep e (X_load_rcx d) s = Some (s\<lparr>rcx := xmem s (rbx s + scast d)\<rparr>)"
| "xstep e (X_store_rdi d) s = Some (s\<lparr>xmem := (xmem s)(rbx s + scast d := rdi s)\<rparr>)"
| "xstep e X_xor_rax_rax s = Some (s\<lparr>rax := 0\<rparr>)"
| "xstep e (X_mov_rax v) s = Some (s\<lparr>rax := v\<rparr>)"
| "xstep e (X_add_rax_imm v) s = Some (s\<lparr>rax := rax s + scast v\<rparr>)"
| "xstep e X_add s = Some (s\<lparr>rax := rax s + rcx s\<rparr>)"
| "xstep e X_sub s = Some (s\<lparr>rax := rax s - rcx s\<rparr>)"
| "xstep e X_or s = Some (s\<lparr>rax := rax s OR rcx s\<rparr>)"
| "xstep e X_and s = Some (s\<lparr>rax := rax s AND rcx s\<rparr>)"
| "xstep e X_xor s = Some (s\<lparr>rax := rax s XOR rcx s\<rparr>)"
| "xstep e X_imul s = Some (s\<lparr>rax := rax s * rcx s\<rparr>)"
| "xstep e (X_shl v) s = Some (s\<lparr>rax := push_bit (unat v mod 64) (rax s)\<rparr>)"
| "xstep e (X_shr v) s = Some (s\<lparr>rax := drop_bit (unat v mod 64) (rax s)\<rparr>)"
| "xstep e (X_sar v) s = Some (s\<lparr>rax := signed_drop_bit (unat v mod 64) (rax s)\<rparr>)"
| "xstep e X_mov_rdi_rbx s = Some (s\<lparr>rdi := rbx s\<rparr>)"
| "xstep e X_call_rax s = xcall e s"

text \<open>
  Running a code image: at most \<open>n\<close> instructions, up to the \<open>ret\<close> that leaves the function.
  \<^const>\<open>None\<close> is an undecodable byte, a call elsewhere or running out of steps or of code.
\<close>

fun xrun :: "xenv \<Rightarrow> nat \<Rightarrow> u8 list \<Rightarrow> xstate \<Rightarrow> xstate option" where
  "xrun e 0 bs s = None"
| "xrun e (Suc n) bs s =
     (case xdecode bs of
        None \<Rightarrow> None
      | Some (i, rest) \<Rightarrow>
          (case xstep e i s of
             None \<Rightarrow> None
           | Some s' \<Rightarrow> if i = X_ret then Some s' else xrun e n rest s'))"

fun xsteps :: "xenv \<Rightarrow> xinsn list \<Rightarrow> xstate \<Rightarrow> xstate option" where
  "xsteps e [] s = Some s"
| "xsteps e (i # is) s = (case xstep e i s of None \<Rightarrow> None | Some s' \<Rightarrow> xsteps e is s')"

abbreviation code_bytes :: "xinsn list \<Rightarrow> u8 list" where
  "code_bytes is \<equiv> concat (map xbytes is)"

lemma xsteps_append [simp]:
  "xsteps e (is @ js) s = (case xsteps e is s of None \<Rightarrow> None | Some s' \<Rightarrow> xsteps e js s')"
  by (induction "is" arbitrary: s) (simp_all split: option.split)

text \<open>An assembled sequence without \<open>ret\<close> runs instruction by instruction.\<close>

lemma xrun_steps:
  assumes "X_ret \<notin> set is" and "xsteps e is s = Some s'"
  shows "xrun e (length is + n) (code_bytes is @ rest) s = xrun e n rest s'"
  using assms by (induction "is" arbitrary: s) (auto simp: xdecode_xbytes split: option.splits)

lemma xbytes_nonempty: "1 \<le> length (xbytes i)"
  by (cases i) simp_all

lemma length_code_bytes: "length is \<le> length (code_bytes is)"
proof (induction "is")
  case (Cons i "is")
  then show ?case using xbytes_nonempty [of i] by simp
qed simp

end
