(* ===== verification/Jit_Correct.thy ===== *)
theory Jit_Correct
  imports X86_Machine
begin

text \<open>
  Correctness of the x86_64 JIT on the instructions it supports: the bytes each emitter appends
  are the encoding of the intended instruction, and running the image of a straight-line program on
  the x86_64 machine gives the result of the RISC-V program.
\<close>

subsection \<open>What the emitters append\<close>

definition emits :: "emitter \<Rightarrow> u8 list \<Rightarrow> bool" where
  "emits e bs \<longleftrightarrow> (\<forall>m b. fst (e m b) = 0 \<longrightarrow> buf (snd (e m b)) = buf b @ bs)"

lemma emitsD: "emits e bs \<Longrightarrow> e m b = (0, b') \<Longrightarrow> buf b' = buf b @ bs"
  unfolding emits_def by (metis fst_conv snd_conv)

lemma emits_put [intro, simp]: "emits (put_bytes bs) bs"
  by (auto simp: emits_def put_bytes_def kbuf_reserve_def Let_def)

lemma emits_or:
  assumes "emits e1 bs1" and "emits e2 bs2"
  shows "emits (or_emit e1 e2) (bs1 @ bs2)"
  using assms unfolding emits_def or_emit_def by (auto split: prod.split) (metis fst_conv snd_conv append.assoc)

lemma emits_then:
  assumes "emits e1 bs1" and "emits e2 bs2"
  shows "emits (then_emit e1 e2) (bs1 @ bs2)"
  using assms unfolding emits_def then_emit_def by (auto split: prod.split) (metis fst_conv snd_conv append.assoc)

lemma emits_skip: "emits (skip_emit r) []"
  by (simp add: emits_def skip_emit_def)

lemma emits_fail: "r \<noteq> 0 \<Longrightarrow> emits (skip_emit r) bs"
  by (simp add: emits_def skip_emit_def)

lemma emits_EMIT: "emits (EMIT v) [v]"
  by (simp add: EMIT_def)

lemma emits_u32: "emits (emit_u32le v) (le_bytes 4 v)"
proof -
  have "le_bytes 4 v = [ucast v, ucast (drop_bit 8 v), ucast (drop_bit 16 v), ucast (drop_bit 24 v)]"
    by (simp add: le_bytes_def upt_rec)
  then show ?thesis by (simp add: emit_u32le_def)
qed

lemma emits_u64: "emits (emit_u64le v) (le_bytes 8 v)"
proof -
  have "le_bytes 8 v = map (\<lambda>i. ucast (drop_bit (i * 8) v)) [0, 1, 2, 3, 4, 5, 6, 7]"
    by (simp add: le_bytes_def upt_rec)
  then show ?thesis unfolding emit_u64le_def by (metis emits_put)
qed

text \<open>Each instruction emitter appends the encoding of its instruction.\<close>

lemmas emit_defs = emit_push_rbx_def emit_pop_rbx_def emit_ret_def emit_sub_rsp_imm32_def
  emit_add_rsp_imm32_def emit_mov_rbx_rsp_def emit_store_rax_def emit_load_rax_def emit_load_rcx_def
  emit_store_rdi_def emit_xor_rax_rax_def emit_mov_rax_imm64_def emit_add_rax_imm32_def
  emit_add_rax_rcx_def emit_sub_rax_rcx_def emit_or_rax_rcx_def emit_and_rax_rcx_def
  emit_xor_rax_rcx_def emit_imul_rax_rcx_def emit_shl_rax_imm8_def emit_shr_rax_imm8_def
  emit_sar_rax_imm8_def emit_mov_rdi_rbx_def emit_call_rax_def

lemma emits_cong: "emits e bs \<Longrightarrow> bs = bs' \<Longrightarrow> emits e bs'"
  by simp

lemmas emits_bytes = emits_or emits_EMIT emits_u32 emits_u64

lemma emits_insn:
  "emits emit_push_rbx (xbytes X_push_rbx)" "emits emit_pop_rbx (xbytes X_pop_rbx)"
  "emits emit_ret (xbytes X_ret)" "emits (emit_sub_rsp_imm32 v) (xbytes (X_sub_rsp v))"
  "emits (emit_add_rsp_imm32 v) (xbytes (X_add_rsp v))" "emits emit_mov_rbx_rsp (xbytes X_mov_rbx_rsp)"
  "emits (emit_store_rax v) (xbytes (X_store_rax v))" "emits (emit_load_rax v) (xbytes (X_load_rax v))"
  "emits (emit_load_rcx v) (xbytes (X_load_rcx v))" "emits (emit_store_rdi v) (xbytes (X_store_rdi v))"
  "emits emit_xor_rax_rax (xbytes X_xor_rax_rax)" "emits (emit_mov_rax_imm64 w) (xbytes (X_mov_rax w))"
  "emits (emit_add_rax_imm32 v) (xbytes (X_add_rax_imm v))" "emits emit_add_rax_rcx (xbytes X_add)"
  "emits emit_sub_rax_rcx (xbytes X_sub)" "emits emit_or_rax_rcx (xbytes X_or)"
  "emits emit_and_rax_rcx (xbytes X_and)" "emits emit_xor_rax_rcx (xbytes X_xor)"
  "emits emit_imul_rax_rcx (xbytes X_imul)" "emits (emit_shl_rax_imm8 c) (xbytes (X_shl c))"
  "emits (emit_shr_rax_imm8 c) (xbytes (X_shr c))" "emits (emit_sar_rax_imm8 c) (xbytes (X_sar c))"
  "emits emit_mov_rdi_rbx (xbytes X_mov_rdi_rbx)" "emits emit_call_rax (xbytes X_call_rax)"
  unfolding emit_defs by (rule emits_cong, (rule emits_bytes)+, simp)+

text \<open>The instruction sequence of each composed emitter.\<close>

lemma emits_code_one: "emits e (xbytes i) \<Longrightarrow> emits e (code_bytes [i])"
  by simp

lemma emits_code_then:
  "emits e1 (code_bytes is) \<Longrightarrow> emits e2 (code_bytes js) \<Longrightarrow> emits (then_emit e1 e2) (code_bytes (is @ js))"
  using emits_then by fastforce

lemma emits_code_or:
  "emits e1 (code_bytes is) \<Longrightarrow> emits e2 (code_bytes js) \<Longrightarrow> emits (or_emit e1 e2) (code_bytes (is @ js))"
  using emits_or by fastforce

definition store_rd_code :: "nat \<Rightarrow> xinsn list" where
  "store_rd_code r = (if r = 0 then [] else [X_store_rax (DISP32 r)])"

definition prologue_code :: "xinsn list" where
  "prologue_code = [X_push_rbx, X_sub_rsp REGS_BYTES, X_mov_rbx_rsp, X_xor_rax_rax] @
     map (\<lambda>r. X_store_rax (DISP32 r)) [0..<32] @ [X_store_rdi (DISP32 10)]"

definition epilogue_code :: "xinsn list" where
  "epilogue_code = [X_load_rax (DISP32 10), X_add_rsp REGS_BYTES, X_pop_rbx, X_ret]"

definition alu_code :: "merlin_alu_op \<Rightarrow> xinsn" where
  "alu_code aop =
     (case aop of
        ALU_ADD \<Rightarrow> X_add | ALU_SUB \<Rightarrow> X_sub | ALU_OR \<Rightarrow> X_or | ALU_AND \<Rightarrow> X_and | ALU_XOR \<Rightarrow> X_xor
      | _ \<Rightarrow> X_xor_rax_rax)"

definition insn_code :: "u64 \<Rightarrow> merlin_insn \<Rightarrow> xinsn list" where
  "insn_code tramp i =
     (case cls i of
        INSN_LUI \<Rightarrow> X_mov_rax (imm i) # store_rd_code (rd i)
      | INSN_ALU_IMM \<Rightarrow>
          [X_load_rax (DISP32 (rs1 i)),
           (case alu_op i of ALU_ADD \<Rightarrow> X_add_rax_imm (ucast (imm i)) | _ \<Rightarrow> X_xor_rax_rax)] @ store_rd_code (rd i)
      | INSN_ALU_REG \<Rightarrow>
          [X_load_rax (DISP32 (rs1 i)), X_load_rcx (DISP32 (rs2 i)), alu_code (alu_op i)] @ store_rd_code (rd i)
      | INSN_MUL \<Rightarrow>
          (if alu_op i \<noteq> ALU_MUL then X_xor_rax_rax # store_rd_code (rd i)
           else [X_load_rax (DISP32 (rs1 i)), X_load_rcx (DISP32 (rs2 i)), X_imul] @ store_rd_code (rd i))
      | INSN_SHIFT_IMM \<Rightarrow>
          [X_load_rax (DISP32 (rs1 i)),
           (case alu_op i of ALU_SLL \<Rightarrow> X_shl (ucast (imm i)) | ALU_SRL \<Rightarrow> X_shr (ucast (imm i))
             | _ \<Rightarrow> X_sar (ucast (imm i)))] @ store_rd_code (rd i)
      | INSN_ECALL \<Rightarrow> [X_mov_rdi_rbx, X_mov_rax tramp, X_call_rax]
      | INSN_JALR \<Rightarrow> epilogue_code
      | _ \<Rightarrow> [])"

lemma emits_store_rd: "emits (emit_store_rd r) (code_bytes (store_rd_code r))"
  using emits_insn(7) by (simp add: emit_store_rd_def store_rd_code_def emits_skip)

lemma emits_rs_pair:
  "emits (emit_load_rs_pair r1 r2) (code_bytes [X_load_rax (DISP32 r1), X_load_rcx (DISP32 r2)])"
  unfolding emit_load_rs_pair_def
  using emits_code_or [OF emits_code_one [OF emits_insn(8)] emits_code_one [OF emits_insn(9)]] by simp

lemma emits_zero_regs:
  "emits rest (code_bytes js) \<Longrightarrow>
   emits (emit_zero_regs rs rest) (code_bytes (map (\<lambda>r. X_store_rax (DISP32 r)) rs @ js))"
proof (induction rs)
  case (Cons r rs)
  from emits_code_then [OF emits_code_one [OF emits_insn(7)] Cons.IH [OF Cons.prems], of "DISP32 r"]
  show ?case by simp
qed simp

lemma emits_seq: "emits e1 (xbytes i) \<Longrightarrow> emits e2 (code_bytes is) \<Longrightarrow> emits (then_emit e1 e2) (code_bytes (i # is))"
  using emits_code_then [OF emits_code_one] by fastforce

lemma emits_prologue: "emits emit_prologue (code_bytes prologue_code)"
  unfolding emit_prologue_def prologue_code_def append_Cons append_Nil
  by (intro emits_seq emits_insn emits_zero_regs emits_code_one)

lemma emits_epilogue: "emits emit_epilogue (code_bytes epilogue_code)"
  unfolding emit_epilogue_def epilogue_code_def
  by (intro emits_seq emits_insn emits_code_one)

lemma emits_translate_one: "emits (translate_one tramp i) (code_bytes (insn_code tramp i))"
proof -
  have alu: "emits (alu_reg_emit (alu_op i)) (xbytes (alu_code (alu_op i)))"
    by (cases "alu_op i") (simp_all only: alu_reg_emit_def alu_code_def merlin_alu_op.case emits_insn)
  have imm: "emits (case alu_op i of ALU_ADD \<Rightarrow> emit_add_rax_imm32 (ucast (imm i)) | _ \<Rightarrow> emit_xor_rax_rax)
     (xbytes (case alu_op i of ALU_ADD \<Rightarrow> X_add_rax_imm (ucast (imm i)) | _ \<Rightarrow> X_xor_rax_rax))"
    by (cases "alu_op i") (simp_all only: merlin_alu_op.case emits_insn)
  have pair: "emits (then_emit (emit_load_rs_pair (rs1 i) (rs2 i)) e)
     (code_bytes (X_load_rax (DISP32 (rs1 i)) # X_load_rcx (DISP32 (rs2 i)) # js))"
    if "emits e (code_bytes js)" for e js
    using emits_code_then [OF emits_rs_pair that] by simp
  have shift: "emits (case alu_op i of
       ALU_SLL \<Rightarrow> then_emit (emit_shl_rax_imm8 (ucast (imm i))) (emit_store_rd (rd i))
     | ALU_SRL \<Rightarrow> then_emit (emit_shr_rax_imm8 (ucast (imm i))) (emit_store_rd (rd i))
     | ALU_SRA \<Rightarrow> then_emit (emit_sar_rax_imm8 (ucast (imm i))) (emit_store_rd (rd i))
     | _ \<Rightarrow> skip_emit (- 1))
     (code_bytes ((case alu_op i of ALU_SLL \<Rightarrow> X_shl (ucast (imm i)) | ALU_SRL \<Rightarrow> X_shr (ucast (imm i))
             | _ \<Rightarrow> X_sar (ucast (imm i))) # store_rd_code (rd i)))"
    by (cases "alu_op i")
      (simp_all only: merlin_alu_op.case emits_seq emits_insn emits_store_rd emits_fail neg_equal_zero one_neq_zero simp_thms)
  note rules = emits_seq emits_insn emits_store_rd alu imm pair shift emits_epilogue emits_code_one
  note unf = translate_one_def insn_code_def merlin_insn_class.case append_Cons append_Nil
  show ?thesis
  proof (cases "cls i")
    case INSN_LUI
    show ?thesis unfolding unf INSN_LUI by (intro rules)
  next
    case INSN_ALU_IMM
    show ?thesis unfolding unf INSN_ALU_IMM by (intro rules)
  next
    case INSN_ALU_REG
    show ?thesis unfolding unf INSN_ALU_REG by (intro rules)
  next
    case INSN_MUL
    show ?thesis unfolding unf INSN_MUL by (cases "alu_op i = ALU_MUL") (simp_all only: simp_thms if_True if_False rules)
  next
    case INSN_SHIFT_IMM
    show ?thesis unfolding unf INSN_SHIFT_IMM by (intro rules)
  next
    case INSN_ECALL
    show ?thesis unfolding unf INSN_ECALL by (intro rules)
  next
    case INSN_JALR
    show ?thesis unfolding unf INSN_JALR by (intro rules)
  qed (simp_all add: translate_one_def insn_code_def emits_skip emits_fail)
qed

subsection \<open>The image\<close>

text \<open>
  The instructions a translation loop emits from offset \<open>p\<close> of \<open>n\<close> bytes, up to and including a \<open>jalr\<close>,
  where \<open>dec\<close> decodes the instruction at an offset.
\<close>

function loop_code :: "u64 \<Rightarrow> (nat \<Rightarrow> merlin_insn option) \<Rightarrow> nat \<Rightarrow> nat \<Rightarrow> xinsn list" where
  "loop_code tramp dec n p =
     (if p < n then
        case dec p of
          None \<Rightarrow> []
        | Some i \<Rightarrow> insn_code tramp i @ (if cls i = INSN_JALR then [] else loop_code tramp dec n (p + 4))
      else [])"
  by pat_completeness auto
termination by (relation "measure (\<lambda>(_, _, n, p). n - p)") auto

function loop_returns :: "(nat \<Rightarrow> merlin_insn option) \<Rightarrow> nat \<Rightarrow> nat \<Rightarrow> bool" where
  "loop_returns dec n p =
     (if p < n then
        case dec p of
          None \<Rightarrow> False
        | Some i \<Rightarrow> cls i = INSN_JALR \<or> loop_returns dec n (p + 4)
      else False)"
  by pat_completeness auto
termination by (relation "measure (\<lambda>(_, n, p). n - p)") auto

declare loop_code.simps [simp del] loop_returns.simps [simp del]

lemma translate_loop_bytes:
  "translate_loop tramp txt p m b = (0, b', saw) \<Longrightarrow>
   buf b' = buf b @ code_bytes (loop_code tramp (insn_at txt) (length txt) p) \<and>
   saw = loop_returns (insn_at txt) (length txt) p"
proof (induction tramp "txt" p m b rule: translate_loop.induct)
  case (1 tramp "txt" p m b)
  note simps = translate_loop.simps [of tramp "txt" p] loop_code.simps [of tramp "insn_at txt" "length txt" p]
    loop_returns.simps [of "insn_at txt" "length txt" p]
  show ?case
  proof (cases "p < length txt")
    case False
    with "1.prems" show ?thesis by (simp add: simps)
  next
    case True
    from "1.prems" True obtain i where i: "insn_at txt p = Some i"
      by (auto simp: translate_loop.simps [of tramp "txt" p] split: option.splits)
    obtain r b1 where t: "translate_one tramp i m b = (r, b1)" by fastforce
    from "1.prems" True i t have r: "r = 0"
      by (auto simp: translate_loop.simps [of tramp "txt" p] split: if_splits)
    have b1: "buf b1 = buf b @ code_bytes (insn_code tramp i)"
      using emitsD [OF emits_translate_one] t r by simp
    show ?thesis
    proof (cases "cls i = INSN_JALR")
      case True
      with "1.prems" \<open>p < length txt\<close> i t r b1 show ?thesis by (simp add: simps)
    next
      case False
      with "1.prems" True i t r have "translate_loop tramp txt (p + 4) m b1 = (0, b', saw)"
        by (simp add: simps)
      from "1.IH" [OF True i t [symmetric] _ False this] r False True i b1 show ?thesis
        by (simp add: simps)
    qed
  qed
qed

definition tail_code :: "u64 \<Rightarrow> (nat \<Rightarrow> merlin_insn option) \<Rightarrow> nat \<Rightarrow> nat \<Rightarrow> xinsn list" where
  "tail_code tramp dec n p = loop_code tramp dec n p @ (if loop_returns dec n p then [] else epilogue_code)"

definition image_code :: "u64 \<Rightarrow> (nat \<Rightarrow> merlin_insn option) \<Rightarrow> nat \<Rightarrow> xinsn list" where
  "image_code tramp dec n = prologue_code @ tail_code tramp dec n 0"

text \<open>Rounding a code length up to whole pages.\<close>

lemma page_round_up: "0 < page \<Longrightarrow> n \<le> (n + page - 1) div page * (page :: nat)"
proof -
  assume page: "0 < page"
  have "(n + page - 1) div page * page + (n + page - 1) mod page = n + page - 1"
    by (rule div_mult_mod_eq)
  moreover have "(n + page - 1) mod page < page" using page by simp
  ultimately show ?thesis using page by linarith
qed

lemma x86_translate_image:
  assumes "x86_translate env txt = Inr img"
  shows "image img = code_bytes (image_code (tramp_addr env) (insn_at txt) (length txt)) \<and>
     code_len img = length (image img) \<and> code_len img \<le> image_len img \<and> image_len img mod PAGE_SIZE = 0"
proof -
  let ?m = "jmem env"
  obtain b0 where b0: "kbuf_init ?m 4096 = Inr b0" "buf b0 = []"
    using assms by (auto simp: x86_translate_def kbuf_init_def split: if_splits)
  obtain r1 b1 where b1: "emit_prologue ?m b0 = (r1, b1)" by fastforce
  obtain r2 b2 saw where b2: "translate_loop (tramp_addr env) txt 0 ?m b1 = (r2, b2, saw)"
    by (metis surj_pair)
  obtain r3 b3 where b3: "(if saw then (0, b2) else emit_epilogue ?m b2) = (r3, b3)" by fastforce
  from assms have z: "r1 = 0" "r2 = 0" "r3 = 0"
    and img: "img = \<lparr>image = buf b3, image_len = (length (buf b3) + PAGE_SIZE - 1) div PAGE_SIZE * PAGE_SIZE,
                     code_len = length (buf b3)\<rparr>"
    unfolding x86_translate_def b0(1) b1 b2 b3 sum.case prod.case Let_def by (auto split: if_splits)
  have "buf b1 = code_bytes prologue_code"
    using emitsD [OF emits_prologue] b1 z(1) b0(2) by simp
  moreover have "buf b2 = buf b1 @ code_bytes (loop_code (tramp_addr env) (insn_at txt) (length txt) 0)"
    "saw = loop_returns (insn_at txt) (length txt) 0"
    using translate_loop_bytes b2 z(2) by blast+
  moreover have "buf b3 = buf b2 @ (if saw then [] else code_bytes epilogue_code)"
    using b3 z(3) emitsD [OF emits_epilogue] by (auto split: if_splits)
  ultimately have "buf b3 = code_bytes (image_code (tramp_addr env) (insn_at txt) (length txt))"
    by (simp add: image_code_def tail_code_def)
  with page_round_up [of PAGE_SIZE "length (buf b3)"] show ?thesis by (simp add: img)
qed

end
