(* ===== verification/Jit_Sim.thy ===== *)
theory Jit_Sim
  imports Jit_Correct
begin

text \<open>
  The RISC-V meaning of the instructions the x86_64 JIT supports, and the simulation of a
  straight-line program by its image: the 32 cells of the frame hold the RISC-V registers.
\<close>

subsection \<open>Straight-line RISC-V programs\<close>

definition getr :: "u64 list \<Rightarrow> nat \<Rightarrow> u64" where
  "getr regs r = (if r = 0 then 0 else regs ! r)"

definition setr :: "u64 list \<Rightarrow> nat \<Rightarrow> u64 \<Rightarrow> u64 list" where
  "setr regs r v = (if r = 0 then regs else regs[r := v])"

definition rv_alu :: "merlin_alu_op \<Rightarrow> u64 \<Rightarrow> u64 \<Rightarrow> u64" where
  "rv_alu aop a b =
     (case aop of
        ALU_ADD \<Rightarrow> a + b | ALU_SUB \<Rightarrow> a - b | ALU_OR \<Rightarrow> a OR b | ALU_AND \<Rightarrow> a AND b | ALU_XOR \<Rightarrow> a XOR b
      | ALU_MUL \<Rightarrow> a * b | ALU_SLL \<Rightarrow> push_bit (unat b mod 64) a | ALU_SRL \<Rightarrow> drop_bit (unat b mod 64) a
      | ALU_SRA \<Rightarrow> signed_drop_bit (unat b mod 64) a | _ \<Rightarrow> 0)"

definition rv_ecall :: "kenv \<Rightarrow> u64 list \<Rightarrow> u64" where
  "rv_ecall k regs = merlin_dispatch_helper k (ucast (getr regs 17))
     (getr regs 10, getr regs 11, getr regs 12, getr regs 13, getr regs 14, getr regs 15)"

text \<open>\<open>ec\<close> is what a helper call returns, given the registers.\<close>

definition rv_exec :: "(u64 list \<Rightarrow> u64) \<Rightarrow> merlin_insn \<Rightarrow> u64 list \<Rightarrow> u64 list" where
  "rv_exec ec i regs =
     (case cls i of
        INSN_LUI \<Rightarrow> setr regs (rd i) (imm i)
      | INSN_ALU_IMM \<Rightarrow> setr regs (rd i) (rv_alu (alu_op i) (getr regs (rs1 i)) (imm i))
      | INSN_SHIFT_IMM \<Rightarrow> setr regs (rd i) (rv_alu (alu_op i) (getr regs (rs1 i)) (imm i))
      | INSN_ALU_REG \<Rightarrow> setr regs (rd i) (rv_alu (alu_op i) (getr regs (rs1 i)) (getr regs (rs2 i)))
      | INSN_MUL \<Rightarrow>
          let v = rv_alu (alu_op i) (getr regs (rs1 i)) (getr regs (rs2 i)) in
          setr regs (rd i) (if word_op i then scast (ucast v :: u32) else v)
      | INSN_ECALL \<Rightarrow> setr regs 10 (ec regs)
      | _ \<Rightarrow> regs)"

text \<open>The instructions the translator implements; the others it drops or replaces by zero.\<close>

definition jit_supports :: "merlin_insn \<Rightarrow> bool" where
  "jit_supports i \<longleftrightarrow>
     cls i \<in> {INSN_LUI, INSN_ECALL, INSN_FENCE} \<or>
     cls i = INSN_ALU_IMM \<and> alu_op i = ALU_ADD \<or>
     cls i = INSN_SHIFT_IMM \<or>
     cls i = INSN_ALU_REG \<and> alu_op i \<in> {ALU_ADD, ALU_SUB, ALU_OR, ALU_AND, ALU_XOR} \<or>
     cls i = INSN_MUL \<and> alu_op i = ALU_MUL \<and> \<not> word_op i"

function rv_run :: "(u64 list \<Rightarrow> u64) \<Rightarrow> (nat \<Rightarrow> merlin_insn option) \<Rightarrow> nat \<Rightarrow> nat \<Rightarrow> u64 list \<Rightarrow> u64 list option" where
  "rv_run ec dec n p regs =
     (if p < n then
        case dec p of
          None \<Rightarrow> None
        | Some i \<Rightarrow>
            if cls i = INSN_JALR then Some regs
            else if jit_supports i then rv_run ec dec n (p + 4) (rv_exec ec i regs)
            else None
      else Some regs)"
  by pat_completeness auto
termination by (relation "measure (\<lambda>(_, _, n, p, _). n - p)") auto

declare rv_run.simps [simp del]

subsection \<open>Immediates of decoded instructions\<close>

lemma decode_shift_imm:
  assumes "merlin_decode w p = Some i" and "cls i = INSN_SHIFT_IMM"
  shows "alu_op i \<in> {ALU_SLL, ALU_SRL, ALU_SRA} \<and> imm i = imm_shamt w True"
  using assms unfolding merlin_decode_def decode_defs Let_def
  by (auto simp: decode_regs_def insn_zero_def split: if_splits)

lemma decode_alu_imm:
  assumes "merlin_decode w p = Some i" and "cls i = INSN_ALU_IMM"
  shows "imm i = imm_i w"
  using assms unfolding merlin_decode_def decode_defs Let_def
  by (auto simp: decode_regs_def insn_zero_def split: if_splits)

lemma bit_shamt: "bit (imm_shamt w True) n \<longleftrightarrow> n < 6 \<and> bit w (n + 20)"
proof -
  have "imm_shamt w True = ucast (take_bit 6 (drop_bit 20 w))"
    by (simp add: imm_shamt_def take_bit_eq_mask mask_eq_exp_minus_1)
  then show ?thesis by (auto simp: bit_simps add.commute)
qed

lemma unat_shamt: "unat (ucast (imm_shamt w True) :: u8) = unat (imm_shamt w True)"
proof -
  have "imm_shamt w True = ucast (ucast (imm_shamt w True) :: u8)"
    by (rule bit_word_eqI) (auto simp: bit_simps bit_shamt)
  moreover have "unat (ucast y :: u64) = unat y" for y :: u8
    by (simp add: unsigned_ucast_eq take_bit_word_eq_self flip: unsigned_take_bit_eq)
  ultimately show ?thesis by metis
qed

lemma imm_i_s32: "scast (ucast (imm_i w) :: u32) = imm_i w"
  unfolding imm_i_def
  by (rule bit_word_eqI) (auto simp: bit_simps min_def)

text \<open>What the simulation relies on of a decoded instruction.\<close>

definition jit_operands :: "merlin_insn \<Rightarrow> bool" where
  "jit_operands i \<longleftrightarrow> rd i < 32 \<and> rs1 i < 32 \<and> rs2 i < 32 \<and>
     (cls i = INSN_ALU_IMM \<longrightarrow> scast (ucast (imm i) :: u32) = imm i) \<and>
     (cls i = INSN_SHIFT_IMM \<longrightarrow> alu_op i \<in> {ALU_SLL, ALU_SRL, ALU_SRA} \<and> unat (ucast (imm i) :: u8) = unat (imm i))"

lemma insn_at_operands:
  assumes "insn_at txt p = Some i"
  shows "jit_operands i"
proof -
  have dec: "merlin_decode (fetch32 txt p) (of_nat p) = Some i" using assms by (simp add: insn_at_def)
  then show ?thesis
    using merlin_decode_fields [OF dec] decode_shift_imm [OF dec] decode_alu_imm [OF dec]
    unfolding jit_operands_def by (metis imm_i_s32 unat_shamt)
qed

subsection \<open>Addresses of the frame\<close>

lemma cell_disp:
  assumes "r < 32"
  shows "base + scast (DISP32 r) = cell base r"
proof -
  have "sint (of_nat n :: u32) = int n" if "n < 2 ^ 31" for n
    using that by (simp add: signed_of_nat signed_take_bit_int_eq_self)
  from this [of "r * 8"] assms have "sint (of_nat (r * 8) :: u32) = int (r * 8)" by simp
  then have "scast (of_nat (r * 8) :: u32) = (of_int (int (r * 8)) :: u64)"
    by (metis scast_eq)
  then show ?thesis by (simp add: DISP32_def cell_def mult.commute)
qed

lemma cell_inj:
  assumes "r \<le> 32" and "q \<le> 32"
  shows "cell base r = cell base q \<longleftrightarrow> r = q"
proof -
  have "unat (of_nat (8 * n) :: u64) = 8 * n" if "n \<le> 32" for n
    using that by (intro unat_of_nat_small) simp
  from this [OF assms(1)] this [OF assms(2)] show ?thesis
    unfolding cell_def by (metis add_left_cancel mult_left_cancel zero_neq_numeral)
qed

lemma cell_below:
  assumes "r \<le> 32"
  shows "cell base r \<noteq> base - 8"
proof
  assume "cell base r = base - 8"
  then have "of_nat (8 * r) + 8 = (0 :: u64)" unfolding cell_def by (simp add: algebra_simps)
  then have "(of_nat (8 * r + 8) :: u64) = 0" by simp
  moreover have "unat (of_nat (8 * r + 8) :: u64) = 8 * r + 8"
    using assms by (intro unat_of_nat_small) simp
  ultimately show False by simp
qed

subsection \<open>The simulation relation\<close>

text \<open>
  Inside the function \<open>rbx\<close> and \<open>rsp\<close> point to the frame, its 32 cells hold the registers, the cell
  above them the caller's \<open>rbx\<close>, and no other cell but the one below the frame has changed.
\<close>

definition in_frame :: "u64 \<Rightarrow> u64 \<Rightarrow> bool" where
  "in_frame base a \<longleftrightarrow> a = base - 8 \<or> (\<exists>r \<le> 32. a = cell base r)"

definition framed :: "u64 \<Rightarrow> xstate \<Rightarrow> xstate \<Rightarrow> u64 list \<Rightarrow> bool" where
  "framed base s0 s regs \<longleftrightarrow> rbx s = base \<and> rsp s = base \<and> length regs = 32 \<and> regs ! 0 = 0 \<and>
     (\<forall>r < 32. xmem s (cell base r) = regs ! r) \<and> xmem s (cell base 32) = rbx s0 \<and>
     (\<forall>a. \<not> in_frame base a \<longrightarrow> xmem s a = xmem s0 a)"

lemma framed_regs [simp]:
  "framed base s0 (s\<lparr>rax := v\<rparr>) regs = framed base s0 s regs"
  "framed base s0 (s\<lparr>rcx := v\<rparr>) regs = framed base s0 s regs"
  "framed base s0 (s\<lparr>rdi := v\<rparr>) regs = framed base s0 s regs"
  by (simp_all add: framed_def)

lemma framed_load:
  assumes "framed base s0 s regs" and "r < 32"
  shows "xmem s (rbx s + scast (DISP32 r)) = getr regs r"
  using assms cell_disp [OF assms(2), of base] by (simp add: framed_def getr_def)

lemma framed_store:
  assumes "framed base s0 s regs" and "0 < r" and "r < 32"
  shows "framed base s0 (s\<lparr>xmem := (xmem s)(rbx s + scast (DISP32 r) := v)\<rparr>) (regs[r := v])"
proof -
  have b: "rbx s + scast (DISP32 r) = cell base r"
    using assms(1) cell_disp [OF assms(3), of base] by (simp add: framed_def)
  have "in_frame base (cell base r)"
    unfolding in_frame_def using assms(3) by (intro disjI2 exI [of _ r]) simp
  then show ?thesis
    unfolding b using assms by (auto simp: framed_def cell_inj nth_list_update)
qed

lemma framed_clobber:
  assumes "framed base s0 s regs"
  shows "framed base s0 (s\<lparr>xmem := (xmem s)(rsp s - 8 := v)\<rparr>) regs"
  using assms cell_below [of _ base] by (auto simp: framed_def in_frame_def)

lemma store_rd_sim:
  assumes "framed base s0 s regs" and "r < 32"
  shows "\<exists>s'. xsteps e (store_rd_code r) s = Some s' \<and> framed base s0 s' (setr regs r (rax s))"
  using assms framed_store [of base s0 s regs r "rax s"] by (auto simp: store_rd_code_def setr_def)

lemma frame_of_framed: "framed base s0 s regs \<Longrightarrow> frame_of (xmem s) base = regs"
  by (auto simp: framed_def frame_of_def intro!: nth_equalityI)

lemma no_ret: "cls i \<noteq> INSN_JALR \<Longrightarrow> X_ret \<notin> set (insn_code tramp i)"
  by (auto simp: insn_code_def store_rd_code_def alu_code_def split: merlin_insn_class.splits merlin_alu_op.splits if_splits)

subsection \<open>Prologue and epilogue\<close>

lemma zero_regs_sim:
  assumes "\<forall>r \<in> set rs. r < 32" and "rax s = 0"
  shows "\<exists>mem. xsteps e (map (\<lambda>r. X_store_rax (DISP32 r)) rs) s = Some (s\<lparr>xmem := mem\<rparr>) \<and>
     (\<forall>a. mem a = (if a \<in> cell (rbx s) ` set rs then 0 else xmem s a))"
  using assms
proof (induction rs arbitrary: s)
  case Nil
  then show ?case by (intro exI [of _ "xmem s"]) simp
next
  case (Cons r rs)
  let ?s = "s\<lparr>xmem := (xmem s)(cell (rbx s) r := 0)\<rparr>"
  from Cons.IH [of ?s] Cons.prems obtain mem where
    x: "xsteps e (map (\<lambda>r. X_store_rax (DISP32 r)) rs) ?s = Some (?s\<lparr>xmem := mem\<rparr>)"
    and m: "\<forall>a. mem a = (if a \<in> cell (rbx ?s) ` set rs then 0 else xmem ?s a)"
    by auto
  have "xsteps e (map (\<lambda>r. X_store_rax (DISP32 r)) (r # rs)) s = Some (s\<lparr>xmem := mem\<rparr>)"
    using x Cons.prems cell_disp [of r "rbx s"] by simp
  moreover have "\<forall>a. mem a = (if a \<in> cell (rbx s) ` set (r # rs) then 0 else xmem s a)"
    using m by simp
  ultimately show ?case by blast
qed

lemma prologue_sim:
  "\<exists>s'. xsteps e prologue_code s = Some s' \<and>
     framed (rsp s - 264) s s' ((replicate 32 0)[10 := rdi s])"
proof -
  let ?base = "rsp s - 264"
  let ?s1 = "s\<lparr>xmem := (xmem s)(rsp s - 8 := rbx s), rsp := ?base, rbx := ?base, rax := 0\<rparr>"
  have sc: "scast (256 :: u32) = (256 :: u64)" by simp
  have top: "rsp s - 8 = cell ?base 32" by (simp add: cell_def)
  obtain mem where s2: "xsteps e (map (\<lambda>r. X_store_rax (DISP32 r)) [0..<32]) ?s1 = Some (?s1\<lparr>xmem := mem\<rparr>)"
    and m: "\<forall>a. mem a = (if a \<in> cell ?base ` set [0..<32] then 0 else xmem ?s1 a)"
    using zero_regs_sim [of "[0..<32]" ?s1 e] by auto
  let ?s2 = "?s1\<lparr>xmem := mem\<rparr>"
  have "mem (cell ?base r) = 0" if "r < 32" for r
    using that by (simp only: m [rule_format]) simp
  moreover have "mem (cell ?base 32) = rbx s"
  proof -
    have "cell ?base 32 \<notin> cell ?base ` set [0..<32]"
    proof
      assume "cell ?base 32 \<in> cell ?base ` set [0..<32]"
      then obtain x where "x < 32" "cell ?base 32 = cell ?base x" by auto
      then show False using cell_inj [of 32 x ?base] by simp
    qed
    then show ?thesis by (simp only: m [rule_format] if_False) (simp add: top)
  qed
  moreover have "mem a = xmem s a" if "\<not> in_frame ?base a" for a
  proof -
    have h: "a \<noteq> cell ?base r" if "r \<le> 32" for r
      using that \<open>\<not> in_frame ?base a\<close> unfolding in_frame_def by blast
    have "a \<notin> cell ?base ` set [0..<32]"
    proof
      assume "a \<in> cell ?base ` set [0..<32]"
      then obtain x where "x < 32" "a = cell ?base x" by auto
      then show False using h [of x] by simp
    qed
    moreover have "a \<noteq> rsp s - 8" using h [of 32] top by simp
    ultimately show ?thesis by (simp only: m [rule_format] if_False) simp
  qed
  ultimately have "framed ?base s ?s2 (replicate 32 0)"
    by (simp add: framed_def)
  from framed_store [OF this, of 10 "rdi s"]
  have "framed ?base s (?s2\<lparr>xmem := mem(?base + scast (DISP32 10) := rdi s)\<rparr>)
      ((replicate 32 0)[10 := rdi s])" by simp
  moreover have "xsteps e [X_push_rbx, X_sub_rsp REGS_BYTES, X_mov_rbx_rsp, X_xor_rax_rax] s = Some ?s1"
    by (simp add: sc)
  ultimately show ?thesis
    using s2 unfolding prologue_code_def xsteps_append by simp
qed

lemma epilogue_run:
  assumes "framed base s0 s regs" and "4 \<le> n"
  shows "\<exists>s'. xrun e n (code_bytes epilogue_code @ rest) s = Some s' \<and> rax s' = regs ! 10 \<and>
     rbx s' = rbx s0 \<and> rsp s' = base + 272 \<and> xmem s' = xmem s"
proof -
  have sc: "scast (256 :: u32) = (256 :: u64)" by simp
  obtain k where n: "n = 3 + Suc k"
    using assms(2) le_Suc_ex [of 4 n] by auto
  let ?is = "[X_load_rax (DISP32 10), X_add_rsp REGS_BYTES, X_pop_rbx]"
  let ?s = "s\<lparr>rax := regs ! 10, rbx := rbx s0, rsp := base + 264\<rparr>"
  have "xsteps e ?is s = Some ?s"
    using framed_load [OF assms(1), of 10] assms(1) by (simp add: sc framed_def getr_def cell_def)
  from xrun_steps [OF _ this, of "Suc k" "xbytes X_ret @ rest"]
  have "xrun e (length ?is + Suc k) (code_bytes ?is @ xbytes X_ret @ rest) s = xrun e (Suc k) (xbytes X_ret @ rest) ?s"
    by simp
  moreover have "code_bytes ?is @ xbytes X_ret @ rest = code_bytes epilogue_code @ rest" "length ?is + Suc k = n"
    by (simp_all add: epilogue_code_def n)
  ultimately have "xrun e n (code_bytes epilogue_code @ rest) s = xrun e (Suc k) (xbytes X_ret @ rest) ?s"
    by metis
  then show ?thesis by (simp add: xdecode_xbytes del: xbytes.simps)
qed

definition left_function :: "u64 \<Rightarrow> xstate \<Rightarrow> u64 list \<Rightarrow> xstate \<Rightarrow> bool" where
  "left_function base s0 regs s' \<longleftrightarrow> rax s' = regs ! 10 \<and> rbx s' = rbx s0 \<and> rsp s' = base + 272 \<and>
     (\<forall>a. \<not> in_frame base a \<longrightarrow> xmem s' a = xmem s0 a)"

lemma epilogue_leaves:
  assumes "framed base s0 s regs" and "length epilogue_code \<le> n"
  shows "\<exists>s'. xrun e n (code_bytes epilogue_code) s = Some s' \<and> left_function base s0 regs s'"
  using epilogue_run [OF assms(1), of n e "[]"] assms
  by (auto simp: left_function_def framed_def epilogue_code_def)

lemma length_split: "length (a @ b) \<le> n \<Longrightarrow> \<exists>k. n = length a + k \<and> length b \<le> k"
  by (rule exI [of _ "n - length a"]) simp

subsection \<open>A straight-line program and its helper calls\<close>

text \<open>
  The interface between the translated code and the trampoline, and between the translation and the
  decoder: the trampoline at the address the code calls returns what a helper call returns, and every
  decoded instruction has operands in range.
\<close>

locale helper_call =
  fixes e :: xenv and ec :: "u64 list \<Rightarrow> u64"
  assumes callee: "length regs = 32 \<Longrightarrow> regs ! 0 = 0 \<Longrightarrow> xcallee e regs ! 10 = ec regs"
begin

lemma call_sim:
  assumes "framed base s0 s regs"
  shows "\<exists>s'. xsteps e [X_mov_rdi_rbx, X_mov_rax (xtramp e), X_call_rax] s = Some s' \<and>
     framed base s0 s' (setr regs 10 (ec regs))"
proof -
  let ?v = "ec regs"
  have base: "rbx s = base" "rsp s = base" and len: "length regs = 32" "regs ! 0 = 0"
    using assms by (simp_all add: framed_def)
  have v: "xcallee e (frame_of (xmem s) base) ! 10 = ?v"
    using callee [OF len] by (simp add: frame_of_framed [OF assms])
  let ?s = "s\<lparr>rax := xjunk e, rcx := xjunk e, rdi := xjunk e\<rparr>"
  have f: "framed base s0 ?s regs" using assms by simp
  have "framed base s0 (?s\<lparr>xmem := (xmem s)(base - 8 := xjunk e)\<rparr>) regs" (is "framed _ _ ?s1 _")
    using framed_clobber [OF f, of "xjunk e"] base by simp
  from framed_store [OF this, of 10 ?v]
  have "framed base s0 (?s\<lparr>xmem := (xmem s)(base - 8 := xjunk e, cell base 10 := ?v)\<rparr>) (regs[10 := ?v])"
    using base cell_disp [of 10 base] by simp
  then show ?thesis
    using base by (simp add: xcall_def v setr_def)
qed

lemma insn_sim:
  assumes f: "framed base s0 s regs" and ops: "jit_operands i" and sup: "jit_supports i"
  shows "\<exists>s'. xsteps e (insn_code (xtramp e) i) s = Some s' \<and>
     framed base s0 s' (rv_exec ec i regs)"
proof -
  have r: "rd i < 32" "rs1 i < 32" "rs2 i < 32" using ops by (simp_all add: jit_operands_def)
  note l1 = framed_load [OF f r(2)]
  have l2: "xmem s (rbx s + scast (DISP32 (rs2 i))) = getr regs (rs2 i)" using framed_load [OF f r(3)] .
  have wr: "\<exists>s'. xsteps e (store_rd_code (rd i)) s1 = Some s' \<and> framed base s0 s' (setr regs (rd i) v)"
    if "framed base s0 s1 regs" "rax s1 = v" for s1 v
    using store_rd_sim [OF that(1) r(1)] that(2) by simp
  show ?thesis
  proof (cases "cls i")
    case INSN_LUI
    with wr [of "s\<lparr>rax := imm i\<rparr>"] f show ?thesis by (simp add: insn_code_def rv_exec_def)
  next
    case INSN_ALU_IMM
    with sup have "alu_op i = ALU_ADD" by (simp add: jit_supports_def)
    with INSN_ALU_IMM wr [of "s\<lparr>rax := getr regs (rs1 i) + imm i\<rparr>"] f l1 ops show ?thesis
      by (simp add: insn_code_def rv_exec_def rv_alu_def jit_operands_def)
  next
    case INSN_ALU_REG
    with sup have "alu_op i \<in> {ALU_ADD, ALU_SUB, ALU_OR, ALU_AND, ALU_XOR}"
      by (simp add: jit_supports_def)
    with INSN_ALU_REG wr [of "s\<lparr>rcx := getr regs (rs2 i),
        rax := rv_alu (alu_op i) (getr regs (rs1 i)) (getr regs (rs2 i))\<rparr>"] f l1 l2 show ?thesis
      by (auto simp: insn_code_def rv_exec_def rv_alu_def alu_code_def)
  next
    case INSN_MUL
    with sup have "alu_op i = ALU_MUL" "\<not> word_op i" by (simp_all add: jit_supports_def)
    with INSN_MUL wr [of "s\<lparr>rcx := getr regs (rs2 i), rax := getr regs (rs1 i) * getr regs (rs2 i)\<rparr>"] f l1 l2
    show ?thesis by (simp add: insn_code_def rv_exec_def rv_alu_def)
  next
    case INSN_SHIFT_IMM
    then have sh: "alu_op i \<in> {ALU_SLL, ALU_SRL, ALU_SRA}" and u: "unat (ucast (imm i) :: u8) = unat (imm i)"
      using ops by (simp_all add: jit_operands_def)
    with INSN_SHIFT_IMM wr [of "s\<lparr>rax := rv_alu (alu_op i) (getr regs (rs1 i)) (imm i)\<rparr>"] f l1
    show ?thesis by (auto simp: insn_code_def rv_exec_def rv_alu_def u)
  next
    case INSN_ECALL
    with call_sim [OF f] show ?thesis by (simp add: insn_code_def rv_exec_def)
  qed (use f sup in \<open>simp_all add: insn_code_def rv_exec_def jit_supports_def\<close>)
qed

end

locale straight_line = helper_call e ec for e ec +
  fixes dec :: "nat \<Rightarrow> merlin_insn option" and n :: nat
  assumes operands: "dec p = Some i \<Longrightarrow> jit_operands i"
begin

lemma tail_sim:
  assumes "framed base s0 s regs" and "rv_run ec dec n p regs = Some regs'"
    and "length (tail_code (xtramp e) dec n p) \<le> k"
  shows "\<exists>s'. xrun e k (code_bytes (tail_code (xtramp e) dec n p)) s = Some s' \<and> left_function base s0 regs' s'"
  using assms
proof (induction "n - p" arbitrary: p s regs k rule: less_induct)
  case less
  note simps = rv_run.simps [of ec dec n p] loop_code.simps [of "xtramp e" dec n p] loop_returns.simps [of dec n p]
  show ?case
  proof (cases "p < n")
    case False
    with less.prems have "regs' = regs" "tail_code (xtramp e) dec n p = epilogue_code"
      by (simp_all add: simps tail_code_def)
    with less.prems epilogue_leaves show ?thesis by metis
  next
    case True
    from True less.prems(2) obtain i where i: "dec p = Some i"
      by (auto simp: simps split: option.splits)
    show ?thesis
    proof (cases "cls i = INSN_JALR")
      case True
      with i \<open>p < n\<close> less.prems(2) have "regs' = regs" "tail_code (xtramp e) dec n p = epilogue_code"
        by (simp_all add: simps tail_code_def insn_code_def)
      with less.prems epilogue_leaves show ?thesis by metis
    next
      case False
      with True i less.prems(2) have sup: "jit_supports i"
        and run: "rv_run ec dec n (p + 4) (rv_exec ec i regs) = Some regs'"
        by (auto simp: simps split: if_splits)
      let ?c = "insn_code (xtramp e) i"
      have tail: "tail_code (xtramp e) dec n p = ?c @ tail_code (xtramp e) dec n (p + 4)"
        using True i False by (simp add: simps tail_code_def)
      then obtain j where j: "k = length ?c + j" "length (tail_code (xtramp e) dec n (p + 4)) \<le> j"
        using less.prems(3) length_split by metis
      obtain s1 where s1: "xsteps e ?c s = Some s1" "framed base s0 s1 (rv_exec ec i regs)"
        using insn_sim [OF less.prems(1) operands [OF i] sup] by blast
      have "n - (p + 4) < n - p" using True by simp
      from less.hyps [OF this s1(2) run j(2)] xrun_steps [OF no_ret [OF False] s1(1), of j]
      show ?thesis by (simp add: tail j(1))
    qed
  qed
qed

text \<open>Calling the image runs the program and leaves the caller's frame alone.\<close>

lemma image_sim:
  assumes "rv_run ec dec n 0 ((replicate 32 0)[10 := rdi s]) = Some regs"
    and "img = code_bytes (image_code (xtramp e) dec n)"
  shows "\<exists>s'. xrun e (length img) img s = Some s' \<and> rax s' = regs ! 10 \<and> rbx s' = rbx s \<and>
     rsp s' = rsp s + 8 \<and> (\<forall>a. \<not> in_frame (rsp s - 264) a \<longrightarrow> xmem s' a = xmem s a)"
proof -
  let ?code = "prologue_code @ tail_code (xtramp e) dec n 0"
  have img: "img = code_bytes ?code" using assms(2) by (simp add: image_code_def)
  obtain s1 where s1: "xsteps e prologue_code s = Some s1"
    "framed (rsp s - 264) s s1 ((replicate 32 0)[10 := rdi s])"
    using prologue_sim by blast
  have "length ?code \<le> length img" using length_code_bytes [of ?code] img by simp
  then obtain k where k: "length img = length prologue_code + k" "length (tail_code (xtramp e) dec n 0) \<le> k"
    using length_split by blast
  have "X_ret \<notin> set prologue_code" by (auto simp: prologue_code_def)
  from xrun_steps [OF this s1(1), of k] tail_sim [OF s1(2) assms(1) k(2)]
  obtain s' where "xrun e (length img) img s = Some s'" "left_function (rsp s - 264) s regs s'"
    unfolding k(1) unfolding img by auto
  then show ?thesis by (auto simp: left_function_def)
qed

end

text \<open>The kernel's trampoline and decoder.\<close>

definition kernel_xenv :: "kenv \<Rightarrow> u64 \<Rightarrow> u64 \<Rightarrow> xenv" where
  "kernel_xenv k tramp junk = \<lparr>xcallee = merlin_jit_x86_helper_trampoline k, xtramp = tramp, xjunk = junk\<rparr>"

interpretation kernel_jit: straight_line "kernel_xenv k tramp junk" "rv_ecall k" "insn_at txt" "length txt"
  for k tramp junk "txt"
  by unfold_locales
    (auto simp: kernel_xenv_def merlin_jit_x86_helper_trampoline_def rv_ecall_def getr_def insn_at_operands)

end
