(* ===== verification/Jit_Props.thy ===== *)
theory Jit_Props
  imports Jit_Sim
begin

text \<open>
  When the x86_64 translation succeeds and which codes it returns when it does not, and two places
  where the image does not do what the program says.
\<close>

subsection \<open>With memory available every emitter succeeds\<close>

definition fits :: "emitter \<Rightarrow> bool" where
  "fits e \<longleftrightarrow> (\<forall>b. fst (e (\<lambda>_. True) b) = 0)"

lemma fits_put [simp]: "fits (put_bytes bs)"
  by (simp add: fits_def put_bytes_def kbuf_reserve_def Let_def)

lemma fits_or [simp]: "fits e1 \<Longrightarrow> fits e2 \<Longrightarrow> fits (or_emit e1 e2)"
  unfolding fits_def or_emit_def by (auto split: prod.split) (metis fst_conv)+

lemma fits_then [simp]: "fits e1 \<Longrightarrow> fits e2 \<Longrightarrow> fits (then_emit e1 e2)"
  unfolding fits_def then_emit_def by (auto split: prod.split) (metis fst_conv)+

lemma fits_skip [simp]: "fits (skip_emit 0)"
  by (simp add: fits_def skip_emit_def)

lemma fits_bytes [simp]: "fits (EMIT v)" "fits (emit_u32le x)" "fits (emit_u64le y)"
  by (simp_all add: EMIT_def emit_u32le_def emit_u64le_def)

lemma fits_zero_regs: "fits rest \<Longrightarrow> fits (emit_zero_regs rs rest)"
  by (induction rs) (simp_all add: emit_defs)

lemma fits_store_rd [simp]: "fits (emit_store_rd r)"
  by (simp add: emit_store_rd_def emit_defs)

lemma fits_prologue: "fits emit_prologue"
  by (simp add: emit_prologue_def fits_zero_regs emit_defs)

lemma fits_epilogue: "fits emit_epilogue"
  by (simp add: emit_epilogue_def emit_defs)

text \<open>The classes the translator accepts, whether or not it implements them.\<close>

definition jit_accepts :: "merlin_insn_class \<Rightarrow> bool" where
  "jit_accepts c \<longleftrightarrow> c \<in> {INSN_LUI, INSN_ALU_IMM, INSN_ALU_REG, INSN_MUL, INSN_SHIFT_IMM, INSN_ECALL,
     INSN_JALR, INSN_FENCE, INSN_BRANCH, INSN_JAL, INSN_LOAD, INSN_STORE}"

lemma fits_translate_one:
  assumes "insn_at txt p = Some i" and "jit_accepts (cls i)"
  shows "fits (translate_one tramp i)"
proof -
  have alu: "fits (alu_reg_emit aop)" for aop
    by (cases aop) (simp_all add: alu_reg_emit_def emit_defs)
  have imm: "fits (case alu_op i of ALU_ADD \<Rightarrow> emit_add_rax_imm32 v | _ \<Rightarrow> emit_xor_rax_rax)" for v
    by (cases "alu_op i") (simp_all add: emit_defs)
  have sh: "alu_op i \<in> {ALU_SLL, ALU_SRL, ALU_SRA}" if "cls i = INSN_SHIFT_IMM"
    using decode_shift_imm that assms(1) unfolding insn_at_def by blast
  show ?thesis
    using assms(2) sh
    by (auto simp: jit_accepts_def translate_one_def alu imm fits_epilogue emit_load_rs_pair_def emit_defs)
qed

text \<open>Every instruction from \<open>p\<close> up to the first \<open>jalr\<close> is one the translator accepts.\<close>

function jit_accepts_from :: "u8 list \<Rightarrow> nat \<Rightarrow> bool" where
  "jit_accepts_from txt p =
     (if p < length txt then
        case insn_at txt p of
          None \<Rightarrow> False
        | Some i \<Rightarrow> jit_accepts (cls i) \<and> (cls i = INSN_JALR \<or> jit_accepts_from txt (p + 4))
      else True)"
  by pat_completeness auto
termination by (relation "measure (\<lambda>(txt, p). length txt - p)") auto

declare jit_accepts_from.simps [simp del]

lemma translate_loop_succeeds:
  assumes "jit_accepts_from txt p"
  shows "fst (translate_loop tramp txt p (\<lambda>_. True) b) = 0"
  using assms
proof (induction "length txt - p" arbitrary: p b rule: less_induct)
  case less
  note simps = translate_loop.simps [of tramp "txt" p] jit_accepts_from.simps [of "txt" p]
  show ?case
  proof (cases "p < length txt")
    case True
    with less.prems obtain i where i: "insn_at txt p = Some i" "jit_accepts (cls i)"
      and tl: "cls i \<noteq> INSN_JALR \<Longrightarrow> jit_accepts_from txt (p + 4)"
      by (auto simp: simps split: option.splits)
    obtain r b1 where t: "translate_one tramp i (\<lambda>_. True) b = (r, b1)" by fastforce
    then have "r = 0" using fits_translate_one [OF i] unfolding fits_def by (metis fst_conv)
    moreover have "fst (translate_loop tramp txt (p + 4) (\<lambda>_. True) b1) = 0" if "cls i \<noteq> INSN_JALR"
      using less.hyps [OF _ tl [OF that]] True by simp
    ultimately show ?thesis using True i t by (simp add: simps)
  qed (simp add: simps)
qed

definition all_memory :: "u64 \<Rightarrow> jit_env" where
  "all_memory tramp = \<lparr>jmem = (\<lambda>_. True), vmalloc_exec_ok = True, kzalloc_ok = True, tramp_addr = tramp\<rparr>"

lemma x86_translate_succeeds:
  assumes "txt \<noteq> []" and "length txt mod 4 = 0" and "jit_accepts_from txt 0"
  shows "\<exists>img. x86_translate (all_memory tramp) txt = Inr img"
proof -
  let ?m = "\<lambda>_. True"
  let ?b0 = "\<lparr>buf = [], cap = 4096\<rparr>"
  obtain r1 b1 where b1: "emit_prologue ?m ?b0 = (r1, b1)" by fastforce
  obtain r2 b2 saw where b2: "translate_loop tramp txt 0 ?m b1 = (r2, b2, saw)" by (metis surj_pair)
  obtain r3 b3 where b3: "emit_epilogue ?m b2 = (r3, b3)" by fastforce
  have "r1 = 0" using b1 fits_prologue unfolding fits_def by (metis fst_conv)
  moreover have "r2 = 0" using translate_loop_succeeds [OF assms(3), of tramp b1] b2 by simp
  moreover have "r3 = 0" using b3 fits_epilogue unfolding fits_def by (metis fst_conv)
  ultimately show ?thesis
    using assms(1,2) b1 b2 b3
    by (auto simp: x86_translate_def all_memory_def kbuf_init_def Let_def)
qed

text \<open>
  The translation succeeds whenever the allocations do and every instruction up to the first
  \<open>jalr\<close> is of a class the translator accepts; the image's code fits its pages.
\<close>

theorem jit_x86_total:
  assumes "txt \<noteq> []" and "length txt mod 4 = 0" and "jit_accepts_from txt 0"
  shows "\<exists>img. x86_translate (all_memory tramp) txt = Inr img \<and>
     image img = code_bytes (image_code tramp (insn_at txt) (length txt)) \<and> code_len img \<le> image_len img"
proof -
  obtain img where "x86_translate (all_memory tramp) txt = Inr img"
    using x86_translate_succeeds [OF assms] by blast
  with x86_translate_image [OF this] show ?thesis by (auto simp: all_memory_def)
qed

definition add5_text :: "u8 list" where
  "add5_text = [0x13, 0x05, 0x55, 0x00, 0x67, 0x80, 0x00, 0x00]"

lemma add5_accepted: "jit_accepts_from add5_text 0" "add5_text \<noteq> []" "length add5_text mod 4 = 0"
  by code_simp+

theorem jit_x86_total_witness: "\<exists>img. x86_translate (all_memory 0xffff) add5_text = Inr img"
  using jit_x86_total [OF add5_accepted(2,3,1)] by blast

subsection \<open>Correctness\<close>



subsection \<open>Return codes\<close>

definition rc_in :: "int set \<Rightarrow> emitter \<Rightarrow> bool" where
  "rc_in S e \<longleftrightarrow> (\<forall>m b. fst (e m b) \<in> S)"

lemma rc_put: "rc_in {0, - E_NOMEM} (put_bytes bs)"
  by (auto simp: rc_in_def put_bytes_def kbuf_reserve_def Let_def)

lemma rc_or: "rc_in {0, 1} (or_emit e1 e2)"
  by (auto simp: rc_in_def or_emit_def split: prod.split)

lemma rc_then: "rc_in S e2 \<Longrightarrow> - 1 \<in> S \<Longrightarrow> rc_in S (then_emit e1 e2)"
  unfolding rc_in_def then_emit_def by (auto split: prod.split)

lemma rc_mono: "rc_in S e \<Longrightarrow> S \<subseteq> T \<Longrightarrow> rc_in T e"
  unfolding rc_in_def by blast

lemma rc_skip: "r \<in> S \<Longrightarrow> rc_in S (skip_emit r)"
  by (simp add: rc_in_def skip_emit_def)

abbreviation jit_codes :: "int set" where "jit_codes \<equiv> {0, 1, - 1, - E_NOMEM, - E_NOSYS}"

lemma rc_store_rd: "rc_in jit_codes (emit_store_rd r)"
  unfolding emit_store_rd_def emit_store_rax_def
  by (auto intro: rc_skip rc_mono [OF rc_or])

lemma rc_epilogue: "rc_in jit_codes emit_epilogue"
  unfolding emit_epilogue_def emit_ret_def EMIT_def
  by (intro rc_then rc_mono [OF rc_put]) simp_all

lemma rc_translate_one: "rc_in jit_codes (translate_one tramp i)"
proof -
  have call: "rc_in jit_codes emit_call_rax" unfolding emit_call_rax_def by (intro rc_mono [OF rc_or]) simp
  show ?thesis
    unfolding translate_one_def
    by (auto intro!: rc_then rc_store_rd rc_epilogue rc_skip call
        split: merlin_insn_class.split merlin_alu_op.split)
qed

lemma translate_loop_codes:
  "fst (translate_loop tramp txt p m b) \<in> insert (- E_INVAL) jit_codes"
proof (induction tramp "txt" p m b rule: translate_loop.induct)
  case (1 tramp "txt" p m b)
  show ?case
  proof (cases "p < length txt \<and> insn_at txt p \<noteq> None")
    case True
    then obtain i where i: "p < length txt" "insn_at txt p = Some i" by auto
    obtain r b1 where t: "translate_one tramp i m b = (r, b1)" by fastforce
    then have "r \<in> jit_codes" using rc_translate_one unfolding rc_in_def by (metis fst_conv)
    moreover have "r = 0 \<Longrightarrow> cls i \<noteq> INSN_JALR \<Longrightarrow>
        fst (translate_loop tramp txt (p + 4) m b1) \<in> insert (- E_INVAL) jit_codes"
      using "1.IH" [OF i t [symmetric]] by simp
    ultimately show ?thesis
      using i t by (subst translate_loop.simps) auto
  next
    case False
    then show ?thesis by (subst translate_loop.simps) auto
  qed
qed

text \<open>
  Out of memory is not always reported as an errno. When the buffer has room for the load and the
  addition of an \<open>addi\<close> but not for its final store, and cannot grow, \<open>translate_one\<close> returns the 1
  that C's \<open>||\<close> yields, which is not negative; and a translation that fails returns one of
  \<open>-EINVAL\<close>, \<open>-ENOMEM\<close>, \<open>-ENOSYS\<close>, \<open>-1\<close> or that 1.
\<close>

theorem jit_enomem_positive:
  "(cls i = INSN_ALU_IMM \<and> alu_op i = ALU_ADD \<and> rd i \<noteq> 0 \<and> cap b = length (buf b) + 14 \<longrightarrow>
      fst (translate_one tramp i (\<lambda>_. False) b) = 1) \<and>
   (x86_translate env txt = Inl r \<longrightarrow> r \<in> {1, - 1, - E_INVAL, - E_NOMEM, - E_NOSYS})"
proof (intro conjI impI)
  assume "cls i = INSN_ALU_IMM \<and> alu_op i = ALU_ADD \<and> rd i \<noteq> 0 \<and> cap b = length (buf b) + 14"
  then show "fst (translate_one tramp i (\<lambda>_. False) b) = 1"
    by (simp add: translate_one_def emit_store_rd_def emit_load_rax_def emit_add_rax_imm32_def
        emit_store_rax_def EMIT_def emit_u32le_def put_bytes_def kbuf_reserve_def or_emit_def then_emit_def)
next
  assume "x86_translate env txt = Inl r"
  then consider "r = - E_INVAL" | "r = - E_NOMEM"
    | b1 where "r = fst (translate_loop (tramp_addr env) txt 0 (jmem env) b1)" "r \<noteq> 0"
    by (auto simp: x86_translate_def kbuf_init_def Let_def split: if_splits prod.splits) (metis fst_conv)
  then show "r \<in> {1, - 1, - E_INVAL, - E_NOMEM, - E_NOSYS}"
    using translate_loop_codes [of "tramp_addr env" "txt" 0 "jmem env"] by cases auto
qed

theorem jit_enomem_positive_witness:
  "fst (translate_one 0 (insn_zero 0 0\<lparr>cls := INSN_ALU_IMM, rd := 10, rs1 := 10\<rparr>) (\<lambda>_. False)
     \<lparr>buf = [], cap = 14\<rparr>) = 1"
  using jit_enomem_positive [of "insn_zero 0 0\<lparr>cls := INSN_ALU_IMM, rd := 10, rs1 := 10\<rparr>" "\<lparr>buf = [], cap = 14\<rparr>"]
  by (simp add: insn_zero_def)

end
