(* ===== verification/Elf_Strings.thy ===== *)
theory Elf_Strings
  imports Bytes
begin

text \<open>
  Section names inside an object file: the byte-wise comparison and copy that the kernel's and the
  Zephyr port's loaders perform on a blob, where a read past the last byte is an outcome of its own.
\<close>

text \<open>\<open>strncmp\<close> with the section prefix, and what \<open>strscpy\<close> reads, on the bytes of the blob.\<close>

definition MERLIN_TEXT_PREFIX :: "u8 list" where
  "MERLIN_TEXT_PREFIX = [0x2e, 0x74, 0x65, 0x78, 0x74, 0x2e, 0x6d, 0x65, 0x72, 0x6c, 0x69, 0x6e, 0x2e]"

fun prefix_at :: "u8 list \<Rightarrow> nat \<Rightarrow> u8 list \<Rightarrow> bool option" where
  "prefix_at blob off [] = Some True"
| "prefix_at blob off (c # cs) =
     (if length blob \<le> off then None
      else if blob ! off \<noteq> c then Some False
      else prefix_at blob (off + 1) cs)"

fun cstr_readable :: "u8 list \<Rightarrow> nat \<Rightarrow> nat \<Rightarrow> bool" where
  "cstr_readable blob off 0 = True"
| "cstr_readable blob off (Suc n) =
     (off < length blob \<and> (blob ! off = 0 \<or> cstr_readable blob (off + 1) n))"

text \<open>A blob that ends in a zero byte stops every string read inside it.\<close>

lemma zero_terminated_next:
  assumes "blob \<noteq> []" and "last blob = 0" and "off < length blob" and "blob ! off \<noteq> 0"
  shows "off + 1 < length blob"
  using assms by (cases "off = length blob - 1") (auto simp: last_conv_nth)

lemma prefix_at_ends:
  assumes "blob \<noteq> []" and "last blob = 0" and "off < length blob" and "0 \<notin> set cs"
  shows "prefix_at blob off cs \<noteq> None"
  using assms(3,4) zero_terminated_next [OF assms(1,2)]
  by (induction cs arbitrary: off) auto

lemma cstr_readable_ends:
  assumes "blob \<noteq> []" and "last blob = 0" and "off < length blob"
  shows "cstr_readable blob off n"
  using assms(3) zero_terminated_next [OF assms(1,2)]
  by (induction n arbitrary: off) auto

lemma prefix_nonzero [simp]: "0 \<notin> set MERLIN_TEXT_PREFIX"
  by (simp add: MERLIN_TEXT_PREFIX_def)

end
