(* ===== verification/Loader.thy ===== *)
theory Loader
  imports Jit_X86 Verifier Elf_Strings
begin

text \<open>
  The program loader \<open>kernel/merlin/loader.c\<close>: validation of the ELF header, the walk over the section
  headers, and the chain verify, select, translate, register with its error paths. What the kernel
  around it decides (whether a copy or an allocation succeeds, the id the IDR returns, the clock) is
  the environment \<open>lenv\<close>. A read outside the blob is the outcome \<open>Fault\<close>, as is the write the
  verifier makes for an empty text. Log output is not modelled.
\<close>

datatype 'a kresult = Fault | Err int | Ok 'a

text \<open>The allocations a load makes; the ledger lists the ones not yet freed.\<close>

datatype kres = Res_blob | Res_log | Res_prog | Res_bytecode | Res_image

abbreviation (input) MERLIN_MAX_ELF_SIZE :: u32 where "MERLIN_MAX_ELF_SIZE \<equiv> 16777216"
abbreviation (input) MERLIN_MAX_INSNS :: int where "MERLIN_MAX_INSNS \<equiv> 1048576"
abbreviation (input) SHT_PROGBITS :: u32 where "SHT_PROGBITS \<equiv> 1"
abbreviation (input) SHT_STRTAB :: u32 where "SHT_STRTAB \<equiv> 3"
abbreviation (input) SHT_NOBITS :: u32 where "SHT_NOBITS \<equiv> 8"
abbreviation (input) ehdr_size :: nat where "ehdr_size \<equiv> 64"
abbreviation (input) shdr_size :: nat where "shdr_size \<equiv> 64"

record merlin_attr_load =
  elf_ptr :: u64
  elf_len :: u32
  a_prog_type :: u32
  a_expected_attach_type :: u32
  a_profile :: u32
  log_buf :: u64
  log_size :: u32
  a_prog_flags :: u32
  a_prog_name :: "u8 list"

record merlin_prog =
  prog_id :: int
  prog_name :: "u8 list"
  load_time_ns :: u64
  bytecode :: "u8 list"
  prog_type :: u32
  expected_attach_type :: u32
  prog_profile :: u32
  prog_flags :: u32
  jit_image :: merlin_jit_image
  run_cnt :: u64
  run_time_ns :: u64
  refs :: nat
  created_by_uid :: u32

record lenv =
  lhost :: host
  ljit :: jit_env
  attr_copy_ok :: bool
  user_elf :: "u8 list option"
  vmalloc_ok :: bool
  log_alloc_ok :: bool
  prog_alloc_ok :: bool
  memdup_ok :: bool
  idr_result :: int
  boot_ns :: u64
  current_uid :: u32

subsection \<open>ELF structures\<close>

record elf_ehdr =
  e_ident :: "u8 list"
  e_type :: u16
  e_machine :: u16
  e_shoff :: u64
  e_shentsize :: u16
  e_shnum :: u16
  e_shstrndx :: u16

record elf_shdr =
  sh_name :: u32
  sh_type :: u32
  sh_offset :: u64
  sh_size :: u64

definition read_ehdr :: "u8 list \<Rightarrow> elf_ehdr" where
  "read_ehdr blob =
     \<lparr>e_ident = field 0 16 blob, e_type = le_word (field 16 2 blob), e_machine = le_word (field 18 2 blob),
      e_shoff = le_word (field 40 8 blob), e_shentsize = le_word (field 58 2 blob),
      e_shnum = le_word (field 60 2 blob), e_shstrndx = le_word (field 62 2 blob)\<rparr>"

definition read_shdr :: "u8 list \<Rightarrow> nat \<Rightarrow> elf_shdr" where
  "read_shdr blob off =
     \<lparr>sh_name = le_word (field off 4 blob), sh_type = le_word (field (off + 4) 4 blob),
      sh_offset = le_word (field (off + 24) 8 blob), sh_size = le_word (field (off + 32) 8 blob)\<rparr>"

definition validate_elf_header :: "elf_ehdr \<Rightarrow> nat \<Rightarrow> int" where
  "validate_elf_header ehdr blob_len =
     (if take 4 (e_ident ehdr) \<noteq> [0x7f, 0x45, 0x4c, 0x46] then - E_INVAL
      else if e_ident ehdr ! 4 \<noteq> 2 \<and> e_ident ehdr ! 4 \<noteq> 1 then - E_INVAL
      else if e_ident ehdr ! 5 \<noteq> 1 then - E_INVAL
      else if e_type ehdr \<noteq> 1 then - E_INVAL
      else if e_machine ehdr \<noteq> 243 then - E_INVAL
      else if unat (e_shentsize ehdr) < shdr_size then - E_INVAL
      else if blob_len \<le> unat (e_shoff ehdr) \<or>
              blob_len - unat (e_shoff ehdr) < unat (e_shnum ehdr) * unat (e_shentsize ehdr) then - E_INVAL
      else 0)"

definition find_section_hdr :: "u8 list \<Rightarrow> elf_ehdr \<Rightarrow> nat \<Rightarrow> elf_shdr option" where
  "find_section_hdr blob ehdr idx =
     (if idx = 0 \<or> unat (e_shnum ehdr) \<le> idx then None
      else let off = unat (e_shoff ehdr) + idx * unat (e_shentsize ehdr) in
        if length blob < off + shdr_size then None
        else let sh = read_shdr blob off in
          if sh_type sh = SHT_NOBITS then Some sh
          else if length blob \<le> unat (sh_offset sh) \<or>
                  length blob - unat (sh_offset sh) < unat (sh_size sh) then None
          else Some sh)"

subsection \<open>The walk over the sections\<close>

definition scan_section ::
  "u8 list \<Rightarrow> elf_ehdr \<Rightarrow> elf_shdr \<Rightarrow> (nat \<times> nat) option \<Rightarrow> nat \<Rightarrow> (nat \<times> nat) option kresult" where
  "scan_section blob ehdr strtab found i =
     (case find_section_hdr blob ehdr i of
        None \<Rightarrow> Ok found
      | Some sh \<Rightarrow>
          if sh_type sh \<noteq> SHT_PROGBITS then Ok found
          else if unat (sh_size strtab) \<le> unat (sh_name sh) then Ok found
          else let sname = unat (sh_offset strtab) + unat (sh_name sh) in
            case prefix_at blob sname MERLIN_TEXT_PREFIX of
              None \<Rightarrow> Fault
            | Some False \<Rightarrow> Ok found
            | Some True \<Rightarrow>
                if found \<noteq> None then Ok found
                else if \<not> cstr_readable blob sname 64 then Fault
                else Ok (Some (unat (sh_offset sh), unat (sh_size sh))))"

fun scan_sections ::
  "u8 list \<Rightarrow> elf_ehdr \<Rightarrow> elf_shdr \<Rightarrow> nat list \<Rightarrow> (nat \<times> nat) option \<Rightarrow> (nat \<times> nat) option kresult" where
  "scan_sections blob ehdr strtab [] found = Ok found"
| "scan_sections blob ehdr strtab (i # is) found =
     (case scan_section blob ehdr strtab found i of
        Fault \<Rightarrow> Fault
      | Err e \<Rightarrow> Err e
      | Ok found' \<Rightarrow> scan_sections blob ehdr strtab is found')"

definition find_text :: "u8 list \<Rightarrow> u8 list kresult" where
  "find_text blob =
     (if length blob < ehdr_size then Err (- E_INVAL)
      else let ehdr = read_ehdr blob; rc = validate_elf_header ehdr (length blob) in
        if rc \<noteq> 0 then Err rc
        else if e_shstrndx ehdr = 0xffff \<or> e_shstrndx ehdr = 0 then Err (- E_INVAL)
        else case find_section_hdr blob ehdr (unat (e_shstrndx ehdr)) of
          None \<Rightarrow> Err (- E_INVAL)
        | Some strtab \<Rightarrow>
            if sh_type strtab \<noteq> SHT_STRTAB then Err (- E_INVAL)
            else case scan_sections blob ehdr strtab [1..<unat (e_shnum ehdr)] None of
              Fault \<Rightarrow> Fault
            | Err e \<Rightarrow> Err e
            | Ok None \<Rightarrow> Err (- E_INVAL)
            | Ok (Some (off, len)) \<Rightarrow>
                if MERLIN_MAX_INSNS * 4 < int len then Err (- E_2BIG) else Ok (field off len blob))"

subsection \<open>Verify, translate, register\<close>

definition strscpy :: "nat \<Rightarrow> u8 list \<Rightarrow> u8 list" where
  "strscpy n src = (let s = takeWhile (\<lambda>c. c \<noteq> 0) (take (n - 1) src) in s @ replicate (n - length s) 0)"

definition new_prog :: "lenv \<Rightarrow> merlin_attr_load \<Rightarrow> u8 list \<Rightarrow> merlin_jit_image \<Rightarrow> int \<Rightarrow> merlin_prog" where
  "new_prog env attr txt img i =
     \<lparr>prog_id = i, prog_name = strscpy 16 (a_prog_name attr), load_time_ns = boot_ns env, bytecode = txt,
      prog_type = a_prog_type attr, expected_attach_type = a_expected_attach_type attr,
      prog_profile = a_profile attr, prog_flags = a_prog_flags attr, jit_image = img,
      run_cnt = 0, run_time_ns = 0, refs = 1, created_by_uid = current_uid env\<rparr>"

text \<open>The rest of \<open>parse_and_load\<close> on the text section, with the ledger of allocations.\<close>

definition merlin_prog_alloc_id :: "lenv \<Rightarrow> int + int" where
  "merlin_prog_alloc_id env = (if idr_result env < 0 then Inl (idr_result env) else Inr (idr_result env))"

definition register_prog ::
  "lenv \<Rightarrow> merlin_attr_load \<Rightarrow> u8 list \<Rightarrow> merlin_jit_image \<Rightarrow> kres list \<Rightarrow> merlin_prog kresult \<times> kres list" where
  "register_prog env attr txt img L =
     (case merlin_prog_alloc_id env of
        Inl rc \<Rightarrow> (Err rc, remove1 Res_log (remove1 Res_prog (remove1 Res_bytecode (remove1 Res_image L))))
      | Inr i \<Rightarrow> (Ok (new_prog env attr txt img i), remove1 Res_log L))"

definition build_prog ::
  "lenv \<Rightarrow> merlin_attr_load \<Rightarrow> u8 list \<Rightarrow> kres list \<Rightarrow> merlin_prog kresult \<times> kres list" where
  "build_prog env attr txt L =
     (case merlin_select_jit (lhost env) (a_profile attr) of
        None \<Rightarrow> (Err (- E_NODEV), remove1 Res_log L)
      | Some translate \<Rightarrow>
          if \<not> prog_alloc_ok env then (Err (- E_NOMEM), remove1 Res_log L)
          else let L1 = Res_prog # L in
            if \<not> memdup_ok env then (Err (- E_NOMEM), remove1 Res_log (remove1 Res_prog L1))
            else let L2 = Res_bytecode # L1 in
              case translate (ljit env) txt of
                Inl rc \<Rightarrow> (Err rc, remove1 Res_log (remove1 Res_prog (remove1 Res_bytecode L2)))
              | Inr img \<Rightarrow> register_prog env attr txt img (Res_image # L2))"

definition verify_and_build ::
  "lenv \<Rightarrow> merlin_attr_load \<Rightarrow> u8 list \<Rightarrow> kres list \<Rightarrow> merlin_prog kresult \<times> kres list" where
  "verify_and_build env attr txt L =
     (let want_log = (log_buf attr \<noteq> 0 \<and> log_size attr \<noteq> 0) in
      if want_log \<and> \<not> log_alloc_ok env then (Err (- E_NOMEM), L)
      else let L1 = (if want_log then Res_log # L else L);
               vcfg = merlin_verifier_cfg_for_prog (a_prog_type attr) (a_prog_flags attr) in
        case merlin_verify_text vcfg txt 0 of
          None \<Rightarrow> (Fault, L1)
        | Some MERLIN_VERIFY_REJECT \<Rightarrow> (Err (- E_ACCES), remove1 Res_log L1)
        | Some MERLIN_VERIFY_OK \<Rightarrow> build_prog env attr txt L1)"

definition parse_and_load ::
  "lenv \<Rightarrow> merlin_attr_load \<Rightarrow> u8 list \<Rightarrow> kres list \<Rightarrow> merlin_prog kresult \<times> kres list" where
  "parse_and_load env attr blob L =
     (case find_text blob of
        Fault \<Rightarrow> (Fault, L)
      | Err e \<Rightarrow> (Err e, L)
      | Ok txt \<Rightarrow> verify_and_build env attr txt L)"

definition merlin_prog_load :: "lenv \<Rightarrow> merlin_attr_load \<Rightarrow> merlin_prog kresult \<times> kres list" where
  "merlin_prog_load env attr =
     (if \<not> attr_copy_ok env then (Err (- E_FAULT), [])
      else if elf_ptr attr = 0 \<or> elf_len attr = 0 then (Err (- E_INVAL), [])
      else if MERLIN_MAX_ELF_SIZE < elf_len attr then (Err (- E_2BIG), [])
      else if \<not> vmalloc_ok env then (Err (- E_NOMEM), [])
      else case user_elf env of
        None \<Rightarrow> (Err (- E_FAULT), [])
      | Some blob \<Rightarrow>
          (case parse_and_load env attr blob [Res_blob] of
             (Fault, L) \<Rightarrow> (Fault, L)
           | (r, L) \<Rightarrow> (r, remove1 Res_blob L)))"

end
