(* ===== verification/Loader_Props.thy ===== *)
theory Loader_Props
  imports Loader Verifier_Props
begin

text \<open>
  What the loader guarantees: every program object it creates was accepted by the verifier under the
  configuration of its type and carries the translation of exactly that text; every error path frees
  what it allocated; and the section walk stays inside the blob when the blob ends in a zero byte.
\<close>

subsection \<open>The section walk\<close>

lemma find_section_hdr_bounds:
  assumes "find_section_hdr blob ehdr i = Some sh" and "sh_type sh \<noteq> SHT_NOBITS"
  shows "unat (sh_offset sh) < length blob" "unat (sh_offset sh) + unat (sh_size sh) \<le> length blob"
  using assms by (auto simp: find_section_hdr_def Let_def not_le not_less split: if_splits)

lemma scan_section_inv:
  assumes "scan_section blob ehdr strtab found i = Ok found'"
    and "\<And>off len. found = Some (off, len) \<Longrightarrow> off + len \<le> length blob"
    and "found' = Some (off, len)"
  shows "off + len \<le> length blob"
  using assms find_section_hdr_bounds [of blob ehdr i]
  by (auto simp: scan_section_def Let_def split: option.splits if_splits bool.splits)

lemma scan_sections_bounds:
  assumes "scan_sections blob ehdr strtab is found = Ok (Some (off, len))"
    and "\<And>off len. found = Some (off, len) \<Longrightarrow> off + len \<le> length blob"
  shows "off + len \<le> length blob"
  using assms
proof (induction "is" arbitrary: found)
  case (Cons i "is")
  from Cons.prems(1) obtain f where f: "scan_section blob ehdr strtab found i = Ok f"
      "scan_sections blob ehdr strtab is f = Ok (Some (off, len))"
    by (auto split: kresult.splits)
  from Cons.IH [OF f(2)] scan_section_inv [OF f(1) Cons.prems(2)] show ?case by blast
qed simp

lemma find_text_slice:
  assumes "find_text blob = Ok txt"
  shows "\<exists>off. off + length txt \<le> length blob \<and> txt = field off (length txt) blob \<and>
     int (length txt) \<le> MERLIN_MAX_INSNS * 4"
proof -
  from assms obtain ehdr strtab off len where
    sc: "scan_sections blob ehdr strtab [1..<unat (e_shnum ehdr)] None = Ok (Some (off, len))"
    and t: "txt = field off len blob" "int len \<le> MERLIN_MAX_INSNS * 4"
    by (auto simp: find_text_def Let_def split: if_splits option.splits kresult.splits)
  have b: "off + len \<le> length blob" using scan_sections_bounds [OF sc] by simp
  then have "length txt = len" by (simp add: t(1) field_def)
  with b t show ?thesis by auto
qed

lemma scan_section_ends:
  assumes "blob \<noteq> []" and "last blob = 0"
    and "unat (sh_offset strtab) + unat (sh_size strtab) \<le> length blob"
  shows "scan_section blob ehdr strtab found i \<noteq> Fault"
proof -
  have nz: "0 \<notin> set MERLIN_TEXT_PREFIX" by (simp add: MERLIN_TEXT_PREFIX_def)
  have "unat (sh_offset strtab) + unat n < length blob" if "unat n < unat (sh_size strtab)" for n :: u32
    using assms(3) that by simp
  then have "prefix_at blob (unat (sh_offset strtab) + unat n) MERLIN_TEXT_PREFIX \<noteq> None"
      "cstr_readable blob (unat (sh_offset strtab) + unat n) 64"
    if "unat n < unat (sh_size strtab)" for n :: u32
    using that prefix_at_ends [OF assms(1,2) _ nz] cstr_readable_ends [OF assms(1,2)] by blast+
  note p = this
  show ?thesis
  proof (cases "find_section_hdr blob ehdr i")
    case (Some sh)
    then show ?thesis
      using p [of "sh_name sh"]
      by (auto simp: scan_section_def Let_def not_le split: option.splits if_splits bool.splits)
  qed (simp add: scan_section_def)
qed

lemma find_text_no_fault:
  assumes "blob \<noteq> []" and "last blob = 0"
  shows "find_text blob \<noteq> Fault"
proof -
  have scan: "scan_sections blob ehdr strtab is found \<noteq> Fault"
    if "unat (sh_offset strtab) + unat (sh_size strtab) \<le> length blob" for ehdr strtab "is" found
    using scan_section_ends [OF assms that]
    by (induction "is" arbitrary: found) (auto split: kresult.split)
  then show ?thesis
    using find_section_hdr_bounds [of blob]
    by (auto simp: find_text_def Let_def split: if_splits option.splits kresult.splits)
qed

subsection \<open>The chain\<close>

lemma register_prog_cases:
  assumes "register_prog env attr txt img L = (r, L')"
  shows "r \<noteq> Fault" "r = Ok prog \<Longrightarrow> prog = new_prog env attr txt img (idr_result env) \<and> L' = remove1 Res_log L"
    "r = Err e \<Longrightarrow> e < 0 \<and> L' = remove1 Res_log (remove1 Res_prog (remove1 Res_bytecode (remove1 Res_image L)))"
  using assms by (auto simp: register_prog_def merlin_prog_alloc_id_def split: if_splits)

definition start_ledger :: "bool \<Rightarrow> kres list" where
  "start_ledger log = (if log then [Res_log, Res_blob] else [Res_blob])"

lemma build_prog_cases:
  assumes "build_prog env attr txt (start_ledger log) = (r, L)"
  shows "r \<noteq> Fault" "r = Err e \<Longrightarrow> L = [Res_blob]"
    "r = Ok prog \<Longrightarrow> L = [Res_image, Res_bytecode, Res_prog, Res_blob] \<and>
       (\<exists>tr img. merlin_select_jit (lhost env) (a_profile attr) = Some tr \<and> tr (ljit env) txt = Inr img \<and>
          prog = new_prog env attr txt img (idr_result env))"
  using assms
  by (auto simp: build_prog_def start_ledger_def register_prog_def merlin_prog_alloc_id_def Let_def
      split: option.splits if_splits sum.splits)

lemma verify_and_build_cases:
  assumes "verify_and_build env attr txt [Res_blob] = (r, L)"
  shows "r = Err e \<Longrightarrow> L = [Res_blob]"
    "r = Ok prog \<Longrightarrow> L = [Res_image, Res_bytecode, Res_prog, Res_blob] \<and>
       merlin_verify_text (merlin_verifier_cfg_for_prog (a_prog_type attr) (a_prog_flags attr)) txt 0
         = Some MERLIN_VERIFY_OK \<and>
       (\<exists>tr img. merlin_select_jit (lhost env) (a_profile attr) = Some tr \<and> tr (ljit env) txt = Inr img \<and>
          prog = new_prog env attr txt img (idr_result env))"
    "r = Fault \<longleftrightarrow> (log_buf attr = 0 \<or> log_size attr = 0 \<or> log_alloc_ok env) \<and>
       merlin_verify_text (merlin_verifier_cfg_for_prog (a_prog_type attr) (a_prog_flags attr)) txt 0 = None"
proof -
  let ?log = "log_buf attr \<noteq> 0 \<and> log_size attr \<noteq> 0"
  let ?v = "merlin_verify_text (merlin_verifier_cfg_for_prog (a_prog_type attr) (a_prog_flags attr)) txt 0"
  have L: "(if ?log then Res_log # [Res_blob] else [Res_blob]) = start_ledger ?log"
    by (simp add: start_ledger_def)
  consider (nomem) "?log" "\<not> log_alloc_ok env" "r = Err (- E_NOMEM)" "L = [Res_blob]"
    | (fault) "\<not> ?log \<or> log_alloc_ok env" "?v = None" "r = Fault"
    | (reject) "\<not> ?log \<or> log_alloc_ok env" "?v = Some MERLIN_VERIFY_REJECT" "r = Err (- E_ACCES)" "L = [Res_blob]"
    | (ok) "\<not> ?log \<or> log_alloc_ok env" "?v = Some MERLIN_VERIFY_OK" "build_prog env attr txt (start_ledger ?log) = (r, L)"
    using assms unfolding verify_and_build_def Let_def L
    by (auto simp: start_ledger_def split: if_splits option.splits merlin_verify_result.splits)
  note cases = this
  show "r = Err e \<Longrightarrow> L = [Res_blob]"
    using cases build_prog_cases(2) by cases auto
  show "r = Ok prog \<Longrightarrow> L = [Res_image, Res_bytecode, Res_prog, Res_blob] \<and> ?v = Some MERLIN_VERIFY_OK \<and>
       (\<exists>tr img. merlin_select_jit (lhost env) (a_profile attr) = Some tr \<and> tr (ljit env) txt = Inr img \<and>
          prog = new_prog env attr txt img (idr_result env))"
    using cases build_prog_cases(3) by cases auto
  show "r = Fault \<longleftrightarrow> (log_buf attr = 0 \<or> log_size attr = 0 \<or> log_alloc_ok env) \<and> ?v = None"
    using cases build_prog_cases(1) by cases auto
qed

subsection \<open>A small object file\<close>

definition mini_shdr :: "u32 \<Rightarrow> u32 \<Rightarrow> u64 \<Rightarrow> u64 \<Rightarrow> u8 list" where
  "mini_shdr name ty off sz =
     le_bytes 4 name @ le_bytes 4 ty @ replicate 16 0 @ le_bytes 8 off @ le_bytes 8 sz @ replicate 24 0"

text \<open>
  A relocatable RISC-V object with a null section, a string table and one program section, followed
  by the payload.
\<close>

definition mini_elf :: "u64 \<Rightarrow> u64 \<Rightarrow> u64 \<Rightarrow> u64 \<Rightarrow> u8 list \<Rightarrow> u8 list" where
  "mini_elf stroff strsz toff tsz payload =
     [0x7f, 0x45, 0x4c, 0x46, 2, 1, 1] @ replicate 9 0 @ le_bytes 2 (1 :: u16) @ le_bytes 2 (243 :: u16) @
     replicate 20 0 @ le_bytes 8 (64 :: u64) @ replicate 10 0 @
     le_bytes 2 (64 :: u16) @ le_bytes 2 (3 :: u16) @ le_bytes 2 (1 :: u16) @
     replicate 64 0 @ mini_shdr 0 SHT_STRTAB stroff strsz @ mini_shdr 1 SHT_PROGBITS toff tsz @ payload"

definition ret_elf :: "u8 list" where
  "ret_elf = mini_elf 256 16 272 4
     ([0] @ MERLIN_TEXT_PREFIX @ [0x78, 0] @ [0x67, 0x80, 0x00, 0x00])"

definition unterminated_elf :: "u8 list" where
  "unterminated_elf = mini_elf 260 6 256 4 ([0x67, 0x80, 0x00, 0x00] @ [0] @ take 5 MERLIN_TEXT_PREFIX)"

definition empty_elf :: "u8 list" where
  "empty_elf = mini_elf 256 16 271 0 ([0] @ MERLIN_TEXT_PREFIX @ [0x78, 0])"

lemma ret_elf_text: "find_text ret_elf = Ok [0x67, 0x80, 0x00, 0x00]"
  by code_simp

definition demo_lenv :: "u8 list \<Rightarrow> lenv" where
  "demo_lenv blob = \<lparr>lhost = Host_riscv,
     ljit = \<lparr>jmem = (\<lambda>_. True), vmalloc_exec_ok = True, kzalloc_ok = True, tramp_addr = 0\<rparr>,
     attr_copy_ok = True, user_elf = Some blob, vmalloc_ok = True, log_alloc_ok = True, prog_alloc_ok = True,
     memdup_ok = True, idr_result = 1, boot_ns = 99, current_uid = 0\<rparr>"

definition demo_attr :: "merlin_attr_load" where
  "demo_attr = \<lparr>elf_ptr = 0x1000, elf_len = 276, a_prog_type = MERLIN_PROG_TYPE_XDP_V, a_expected_attach_type = 2,
     a_profile = 1, log_buf = 0, log_size = 0, a_prog_flags = 0, a_prog_name = [0x78]\<rparr>"

lemma prog_load_cases:
  assumes "merlin_prog_load env attr = (r, L)"
  shows "r = Err e \<Longrightarrow> L = []"
    "r = Ok prog \<Longrightarrow> \<exists>blob txt. user_elf env = Some blob \<and> find_text blob = Ok txt \<and>
       verify_and_build env attr txt [Res_blob] = (Ok prog, Res_image # Res_bytecode # Res_prog # [Res_blob]) \<and>
       L = [Res_image, Res_bytecode, Res_prog]"
    "r = Fault \<Longrightarrow> \<exists>blob. user_elf env = Some blob \<and>
       (find_text blob = Fault \<or> (\<exists>txt. find_text blob = Ok txt \<and> fst (verify_and_build env attr txt [Res_blob]) = Fault))"
proof -
  consider (early) e' where "r = Err e'" "L = []"
    | (parsed) blob r' L' where "user_elf env = Some blob" "parse_and_load env attr blob [Res_blob] = (r', L')"
      "r = r'" "L = (if r' = Fault then L' else remove1 Res_blob L')"
    using assms
    by (auto simp: merlin_prog_load_def split: if_splits option.splits prod.splits kresult.splits)
  then have "(r = Err e \<longrightarrow> L = []) \<and>
    (r = Ok prog \<longrightarrow> (\<exists>blob txt. user_elf env = Some blob \<and> find_text blob = Ok txt \<and>
       verify_and_build env attr txt [Res_blob] = (Ok prog, Res_image # Res_bytecode # Res_prog # [Res_blob]) \<and>
       L = [Res_image, Res_bytecode, Res_prog])) \<and>
    (r = Fault \<longrightarrow> (\<exists>blob. user_elf env = Some blob \<and>
       (find_text blob = Fault \<or> (\<exists>txt. find_text blob = Ok txt \<and> fst (verify_and_build env attr txt [Res_blob]) = Fault))))"
  proof cases
    case parsed
    show ?thesis
    proof (cases "find_text blob")
      case (Ok t)
      with parsed(2) have v: "verify_and_build env attr t [Res_blob] = (r', L')" by (simp add: parse_and_load_def)
      have "r' = Err e \<longrightarrow> L' = [Res_blob]" using verify_and_build_cases(1) [OF v] by blast
      moreover have "r' = Ok prog \<longrightarrow> L' = [Res_image, Res_bytecode, Res_prog, Res_blob]"
        using verify_and_build_cases(2) [OF v] by blast
      ultimately show ?thesis using parsed Ok v by auto
    qed (use parsed in \<open>auto simp: parse_and_load_def\<close>)
  qed auto
  then show "r = Err e \<Longrightarrow> L = []"
    "r = Ok prog \<Longrightarrow> \<exists>blob txt. user_elf env = Some blob \<and> find_text blob = Ok txt \<and>
       verify_and_build env attr txt [Res_blob] = (Ok prog, Res_image # Res_bytecode # Res_prog # [Res_blob]) \<and>
       L = [Res_image, Res_bytecode, Res_prog]"
    "r = Fault \<Longrightarrow> \<exists>blob. user_elf env = Some blob \<and>
       (find_text blob = Fault \<or> (\<exists>txt. find_text blob = Ok txt \<and> fst (verify_and_build env attr txt [Res_blob]) = Fault))"
    by blast+
qed

lemma load_fields:
  assumes "merlin_prog_load env attr = (Ok prog, L)"
  shows "refs prog = 1" "prog_id prog = idr_result env"
  using prog_load_cases(2) [OF assms] verify_and_build_cases(2) by (fastforce simp: new_prog_def)+

text \<open>
  C3: only verified code is loaded. A program object exists only if the verifier accepted its text under
  the configuration of the object's own type and flags; the text is a slice of the blob, at most 4 MiB,
  non-empty and a whole number of words; and the object's image is what the selected JIT produced from
  exactly that text.
\<close>

theorem load_only_verified:
  assumes "merlin_prog_load env attr = (Ok prog, L)"
  shows "merlin_verify_text (merlin_verifier_cfg_for_prog (prog_type prog) (prog_flags prog)) (bytecode prog) 0
         = Some MERLIN_VERIFY_OK \<and> bytecode prog \<noteq> [] \<and> length (bytecode prog) mod 4 = 0 \<and>
     (\<exists>blob off. user_elf env = Some blob \<and> off + length (bytecode prog) \<le> length blob \<and>
       bytecode prog = field off (length (bytecode prog)) blob \<and>
       int (length (bytecode prog)) \<le> MERLIN_MAX_INSNS * 4) \<and>
     (\<exists>tr. merlin_select_jit (lhost env) (prog_profile prog) = Some tr \<and>
       tr (ljit env) (bytecode prog) = Inr (jit_image prog)) \<and>
     refs prog = 1"
proof -
  obtain blob t where b: "user_elf env = Some blob" "find_text blob = Ok t"
      "verify_and_build env attr t [Res_blob] = (Ok prog, Res_image # Res_bytecode # Res_prog # [Res_blob])"
    using prog_load_cases(2) [OF assms] by blast
  note v = verify_and_build_cases(2) [OF b(3) refl]
  obtain tr img where j: "merlin_select_jit (lhost env) (a_profile attr) = Some tr" "tr (ljit env) t = Inr img"
      "prog = new_prog env attr t img (idr_result env)" using v by blast
  have p: "bytecode prog = t" "prog_type prog = a_prog_type attr" "prog_flags prog = a_prog_flags attr"
      "prog_profile prog = a_profile attr" "jit_image prog = img" "refs prog = 1"
    by (simp_all add: j(3) new_prog_def)
  have "t \<noteq> [] \<and> length t mod 4 = 0"
    using v merlin_cfg_build_empty [of 0] by (auto simp: merlin_verify_text_def split: if_splits)
  moreover obtain off where "off + length t \<le> length blob" "t = field off (length t) blob"
      "int (length t) \<le> MERLIN_MAX_INSNS * 4"
    using find_text_slice [OF b(2)] by blast
  ultimately show ?thesis using v b(1) j(1,2) unfolding p by blast
qed

lemma demo_fields [simp]:
  "lhost (demo_lenv b) = Host_riscv" "vmalloc_exec_ok (ljit (demo_lenv b))" "kzalloc_ok (ljit (demo_lenv b))"
  "attr_copy_ok (demo_lenv b)" "user_elf (demo_lenv b) = Some b" "vmalloc_ok (demo_lenv b)"
  "prog_alloc_ok (demo_lenv b)" "memdup_ok (demo_lenv b)" "idr_result (demo_lenv b) = 1"
  "elf_ptr demo_attr = 0x1000" "elf_len demo_attr = 276" "log_buf demo_attr = 0"
  by (simp_all add: demo_lenv_def demo_attr_def)

lemma demo_load:
  "merlin_prog_load (demo_lenv ret_elf) demo_attr =
     (Ok (new_prog (demo_lenv ret_elf) demo_attr ret_text \<lparr>image = ret_text, image_len = 4, code_len = 4\<rparr> 1),
      [Res_image, Res_bytecode, Res_prog])"
proof -
  have v: "merlin_verify_text (merlin_verifier_cfg_for_prog (a_prog_type demo_attr) (a_prog_flags demo_attr)) ret_text 0
      = Some MERLIN_VERIFY_OK"
    using ret_accepted by (simp add: xdp_cfg_def demo_attr_def)
  have ret_len: "length ret_text = 4" "ret_text \<noteq> []" by (simp_all add: ret_text_def)
  have "verify_and_build (demo_lenv ret_elf) demo_attr ret_text [Res_blob] =
     (Ok (new_prog (demo_lenv ret_elf) demo_attr ret_text \<lparr>image = ret_text, image_len = 4, code_len = 4\<rparr> 1),
      [Res_image, Res_bytecode, Res_prog, Res_blob])"
    by (simp add: verify_and_build_def v build_prog_def merlin_select_jit_def passthrough_translate_def
        register_prog_def merlin_prog_alloc_id_def ret_len)
  moreover have "find_text ret_elf = Ok ret_text" using ret_elf_text by (simp add: ret_text_def)
  ultimately show ?thesis by (simp add: merlin_prog_load_def parse_and_load_def)
qed

theorem load_only_verified_witness:
  "\<exists>prog L. merlin_prog_load (demo_lenv ret_elf) demo_attr = (Ok prog, L) \<and> refs prog = 1"
  using demo_load load_only_verified [OF demo_load] by blast





text \<open>
  Two object files the loader does not survive. A string table that is not zero-terminated and ends
  the blob is read past its end; and an object whose text section is empty reaches the verifier, which
  writes through the zero-sized allocation.
\<close>

theorem load_faults:
  "find_text unterminated_elf = Fault \<and> find_text empty_elf = Ok [] \<and>
   fst (merlin_prog_load (demo_lenv empty_elf) demo_attr) = Fault"
proof (intro conjI)
  show "find_text unterminated_elf = Fault" by code_simp
  show e: "find_text empty_elf = Ok []" by code_simp
  have "merlin_verify_text c [] 0 = None" for c
    using merlin_cfg_build_empty [of 0] by (auto simp: merlin_verify_text_def)
  then show "fst (merlin_prog_load (demo_lenv empty_elf) demo_attr) = Fault"
    using e by (simp add: merlin_prog_load_def parse_and_load_def verify_and_build_def)
qed

end
