(* ===== verification/Lifecycle.thy ===== *)
theory Lifecycle
  imports Loader
begin

text \<open>
  Program objects and their references: \<open>kernel/merlin/core.c\<close> and the command handlers of
  \<open>kernel/merlin/syscall.c\<close>, with map creation from \<open>kernel/merlin/maps.c\<close>.

  The state holds the objects in memory by address, the id registry, the open program files, the
  scheduled free work and, for the references that calls in progress hold in local variables, the list
  \<open>held\<close>. A put on an object that is gone or whose count is already zero sets \<open>corrupt\<close>.
\<close>

record kstate =
  objs :: "nat \<rightharpoonup> merlin_prog"
  idr :: "int \<rightharpoonup> nat"
  files :: "(int \<times> nat) list"
  work :: "nat list"
  held :: "nat list"
  corrupt :: bool

definition kinit :: kstate where
  "kinit = \<lparr>objs = Map.empty, idr = Map.empty, files = [], work = [], held = [], corrupt = False\<rparr>"

subsection \<open>References (core.c)\<close>

definition merlin_prog_put :: "nat \<Rightarrow> kstate \<Rightarrow> kstate" where
  "merlin_prog_put a s =
     (case objs s a of
        None \<Rightarrow> s\<lparr>corrupt := True\<rparr>
      | Some p \<Rightarrow>
          if refs p = 0 then s\<lparr>corrupt := True\<rparr>
          else let s' = s\<lparr>objs := (objs s)(a \<mapsto> p\<lparr>refs := refs p - 1\<rparr>)\<rparr> in
            if refs p - 1 = 0 then s'\<lparr>work := work s' @ [a]\<rparr> else s')"

definition merlin_prog_free_work :: "nat \<Rightarrow> kstate \<Rightarrow> kstate" where
  "merlin_prog_free_work a s =
     (case objs s a of
        None \<Rightarrow> s\<lparr>corrupt := True\<rparr>
      | Some p \<Rightarrow> s\<lparr>objs := (objs s)(a := None), idr := (idr s)(prog_id p := None), work := remove1 a (work s)\<rparr>)"

definition refcount_inc :: "nat \<Rightarrow> kstate \<Rightarrow> kstate" where
  "refcount_inc a s =
     (case objs s a of
        None \<Rightarrow> s\<lparr>corrupt := True\<rparr>
      | Some p \<Rightarrow> if refs p = 0 then s\<lparr>corrupt := True\<rparr>
                  else s\<lparr>objs := (objs s)(a \<mapsto> p\<lparr>refs := refs p + 1\<rparr>)\<rparr>)"

text \<open>The file release of a program fd; the file table entry goes away with it.\<close>

definition merlin_prog_release :: "int \<Rightarrow> kstate \<Rightarrow> kstate" where
  "merlin_prog_release fd s =
     (case map_of (files s) fd of
        None \<Rightarrow> s
      | Some a \<Rightarrow> merlin_prog_put a (s\<lparr>files := filter (\<lambda>x. fst x \<noteq> fd) (files s)\<rparr>))"

text \<open>\<open>fdres\<close> is what \<open>anon_inode_getfd\<close> returns.\<close>

definition merlin_prog_new_fd :: "int \<Rightarrow> nat \<Rightarrow> kstate \<Rightarrow> int \<times> kstate" where
  "merlin_prog_new_fd fdres a s =
     (if fdres < 0 then (fdres, merlin_prog_put a s)
      else (fdres, s\<lparr>files := (fdres, a) # files s\<rparr>))"

definition merlin_prog_get_by_id :: "int \<Rightarrow> kstate \<Rightarrow> nat option \<times> kstate" where
  "merlin_prog_get_by_id i s =
     (case idr s i of
        None \<Rightarrow> (None, s)
      | Some a \<Rightarrow>
          (case objs s a of
             None \<Rightarrow> (None, s\<lparr>corrupt := True\<rparr>)
           | Some p \<Rightarrow> if refs p = 0 then (None, s)
                       else (Some a, (refcount_inc a s)\<lparr>held := a # held s\<rparr>)))"

text \<open>\<open>other fd\<close> says that \<open>fd\<close> is an open file of another kind.\<close>

definition merlin_prog_get_by_fd :: "(int \<Rightarrow> bool) \<Rightarrow> int \<Rightarrow> kstate \<Rightarrow> (int + nat) \<times> kstate" where
  "merlin_prog_get_by_fd other fd s =
     (case map_of (files s) fd of
        None \<Rightarrow> (Inl (if other fd then - E_INVAL else - E_BADF), s)
      | Some a \<Rightarrow> (Inr a, (refcount_inc a s)\<lparr>held := a # held s\<rparr>))"

text \<open>The put that ends a call: its local reference goes away.\<close>

definition put_held :: "nat \<Rightarrow> kstate \<Rightarrow> kstate" where
  "put_held a s = merlin_prog_put a (s\<lparr>held := remove1 a (held s)\<rparr>)"

subsection \<open>Command handlers (syscall.c)\<close>

text \<open>
  A successful load stores the new object at address \<open>a\<close> and its id in the registry; \<^const>\<open>None\<close> is a
  fault inside the loader.
\<close>

definition store_prog :: "nat \<Rightarrow> merlin_prog \<Rightarrow> kstate \<Rightarrow> kstate" where
  "store_prog a p s = s\<lparr>objs := (objs s)(a \<mapsto> p), idr := (idr s)(prog_id p \<mapsto> a)\<rparr>"

definition merlin_cmd_prog_load ::
  "lenv \<Rightarrow> merlin_attr_load \<Rightarrow> nat \<Rightarrow> int \<Rightarrow> kstate \<Rightarrow> (int \<times> kstate) option" where
  "merlin_cmd_prog_load env attr a fdres s =
     (case fst (merlin_prog_load env attr) of
        Fault \<Rightarrow> None
      | Err rc \<Rightarrow> Some (rc, s)
      | Ok p \<Rightarrow>
          (case merlin_prog_new_fd fdres a (store_prog a p s) of
             (fd, s') \<Rightarrow> if fd < 0 then Some (fd, merlin_prog_put a s') else Some (fd, s')))"

record merlin_prog_info =
  info_type :: u32
  info_id :: int
  info_profile :: u32
  info_load_time :: u64
  info_run_cnt :: u64
  info_run_time_ns :: u64
  info_name :: "u8 list"

definition prog_info :: "merlin_prog \<Rightarrow> merlin_prog_info" where
  "prog_info p = \<lparr>info_type = prog_type p, info_id = prog_id p, info_profile = prog_profile p,
     info_load_time = load_time_ns p, info_run_cnt = run_cnt p, info_run_time_ns = run_time_ns p,
     info_name = strscpy 16 (prog_name p)\<rparr>"

text \<open>
  \<open>info_want\<close> says that the caller passed a buffer and a length, \<open>copy_ok\<close> that the copy to it
  succeeds; the second component is what was copied out.
\<close>

definition merlin_cmd_prog_get_info ::
  "(int \<Rightarrow> bool) \<Rightarrow> bool \<Rightarrow> bool \<Rightarrow> bool \<Rightarrow> int \<Rightarrow> kstate \<Rightarrow> int \<times> merlin_prog_info option \<times> kstate" where
  "merlin_cmd_prog_get_info other attr_ok info_want copy_ok fd s =
     (if \<not> attr_ok then (- E_FAULT, None, s)
      else case merlin_prog_get_by_fd other fd s of
        (Inl rc, s') \<Rightarrow> (rc, None, s')
      | (Inr a, s') \<Rightarrow>
          (let info = map_option prog_info (objs s' a);
               rc = (if info_want \<and> \<not> copy_ok then - E_FAULT else 0)
           in (rc, (if info_want \<and> copy_ok then info else None), put_held a s')))"

text \<open>
  A loaded object always has a function pointer (its image), so the \<open>-ENOEXEC\<close> exit of a test run is
  not reachable and has no branch here; the value the program returns is only copied to the caller.
\<close>

record test_run_env =
  tr_attr_ok :: bool
  tr_ctx_want :: bool
  tr_ctx_alloc_ok :: bool
  tr_ctx_copy_ok :: bool
  tr_elapsed :: u64
  tr_reread_ok :: bool
  tr_writeback_ok :: bool

definition count_run :: "nat \<Rightarrow> u64 \<Rightarrow> kstate \<Rightarrow> kstate" where
  "count_run a dt s =
     (case objs s a of
        None \<Rightarrow> s\<lparr>corrupt := True\<rparr>
      | Some p \<Rightarrow> s\<lparr>objs := (objs s)(a \<mapsto> p\<lparr>run_cnt := run_cnt p + 1, run_time_ns := run_time_ns p + dt\<rparr>)\<rparr>)"

definition merlin_cmd_prog_test_run ::
  "(int \<Rightarrow> bool) \<Rightarrow> test_run_env \<Rightarrow> int \<Rightarrow> kstate \<Rightarrow> int \<times> kstate" where
  "merlin_cmd_prog_test_run other env fd s =
     (if \<not> tr_attr_ok env then (- E_FAULT, s)
      else case merlin_prog_get_by_fd other fd s of
        (Inl rc, s') \<Rightarrow> (rc, s')
      | (Inr a, s') \<Rightarrow>
          if tr_ctx_want env \<and> \<not> tr_ctx_alloc_ok env then (- E_NOMEM, put_held a s')
          else if tr_ctx_want env \<and> \<not> tr_ctx_copy_ok env then (- E_FAULT, put_held a s')
          else (let s2 = count_run a (tr_elapsed env) s' in
            (if tr_reread_ok env \<and> \<not> tr_writeback_ok env then - E_FAULT else 0, put_held a s2)))"

subsection \<open>Map creation (maps.c)\<close>

definition merlin_to_bpf_map_type :: "u32 \<Rightarrow> u32" where
  "merlin_to_bpf_map_type mt =
     (if mt = 1 then 1 else if mt = 2 then 2 else if mt = 3 then 5 else if mt = 4 then 6
      else if mt = 5 then 9 else if mt = 6 then 11 else if mt = 7 then 27 else if mt = 8 then 3
      else if mt = 9 then 17 else 0)"

record bpf_attr =
  b_map_type :: u32
  b_key_size :: u32
  b_value_size :: u32
  b_max_entries :: u32
  b_map_flags :: u32
  b_map_name :: "u8 list"

record merlin_attr_map =
  map_type :: u32
  key_size :: u32
  value_size :: u32
  max_entries :: u32
  map_flags :: u32
  map_name :: "u8 list"

text \<open>\<open>sys_bpf\<close> is the BPF subsystem's \<open>BPF_MAP_CREATE\<close>.\<close>

definition merlin_map_create :: "(bpf_attr \<Rightarrow> int) \<Rightarrow> bool \<Rightarrow> merlin_attr_map \<Rightarrow> int" where
  "merlin_map_create sys_bpf attr_ok attr =
     (if \<not> attr_ok then - E_FAULT
      else let bmt = merlin_to_bpf_map_type (map_type attr) in
        if bmt = 0 then - E_OPNOTSUPP
        else sys_bpf \<lparr>b_map_type = bmt, b_key_size = key_size attr, b_value_size = value_size attr,
               b_max_entries = max_entries attr, b_map_flags = map_flags attr,
               b_map_name = take 16 (map_name attr)\<rparr>)"

subsection \<open>The multiplexer\<close>

definition merlin_check_cap :: "bool \<Rightarrow> bool \<Rightarrow> int" where
  "merlin_check_cap cap_bpf cap_sys_admin = (if \<not> cap_bpf \<and> \<not> cap_sys_admin then - E_PERM else 0)"

record call_env =
  cap_bpf :: bool
  cap_sys_admin :: bool
  load_env :: lenv
  load_attr :: merlin_attr_load
  new_addr :: nat
  getfd_result :: int
  other_fd :: "int \<Rightarrow> bool"
  attr_fd :: int
  attr_ok :: bool
  info_wanted :: bool
  info_copy_ok :: bool
  run_env :: test_run_env
  map_attr :: merlin_attr_map
  bpf_create :: "bpf_attr \<Rightarrow> int"

definition merlin_do_cmd :: "u32 \<Rightarrow> call_env \<Rightarrow> kstate \<Rightarrow> (int \<times> kstate) option" where
  "merlin_do_cmd cmd e s =
     (let rc = merlin_check_cap (cap_bpf e) (cap_sys_admin e) in
      if rc \<noteq> 0 then Some (rc, s)
      else if cmd = 0 then merlin_cmd_prog_load (load_env e) (load_attr e) (new_addr e) (getfd_result e) s
      else if cmd = 1 then Some (merlin_cmd_prog_test_run (other_fd e) (run_env e) (attr_fd e) s)
      else if cmd = 2 then
        (case merlin_cmd_prog_get_info (other_fd e) (attr_ok e) (info_wanted e) (info_copy_ok e) (attr_fd e) s of
           (rc, _, s') \<Rightarrow> Some (rc, s'))
      else if cmd = 5 then Some (merlin_map_create (bpf_create e) (attr_ok e) (map_attr e), s)
      else if cmd \<le> 27 then Some (- E_OPNOTSUPP, s)
      else Some (- E_INVAL, s))"

abbreviation (input) MAX_MERLIN_CMD :: u32 where "MAX_MERLIN_CMD \<equiv> 28"

definition merlin_dev_ioctl :: "bool \<Rightarrow> u32 option \<Rightarrow> call_env \<Rightarrow> kstate \<Rightarrow> (int \<times> kstate) option" where
  "merlin_dev_ioctl is_cmd ioc_cmd e s =
     (if \<not> is_cmd then Some (- E_NOTTY, s)
      else case ioc_cmd of
        None \<Rightarrow> Some (- E_FAULT, s)
      | Some cmd \<Rightarrow> if MAX_MERLIN_CMD \<le> cmd then Some (- E_INVAL, s) else merlin_do_cmd cmd e s)"

end
