(* ===== verification/Lifecycle_Props.thy ===== *)
theory Lifecycle_Props
  imports Lifecycle Loader_Props
begin

text \<open>
  Reference safety: the calls, the closing of files and the deferred free interleave in any order, and
  in every state they reach the count of an object is the number of files and calls that refer to it.
\<close>

subsection \<open>Counting references\<close>

definition nrefs :: "kstate \<Rightarrow> nat \<Rightarrow> nat" where
  "nrefs s a = length (filter (\<lambda>x. snd x = a) (files s)) + count_list (held s) a"

definition obj_ok :: "kstate \<Rightarrow> nat \<Rightarrow> merlin_prog \<Rightarrow> bool" where
  "obj_ok s a p \<longleftrightarrow> refs p = nrefs s a \<and> idr s (prog_id p) = Some a \<and> (refs p = 0 \<longleftrightarrow> a \<in> set (work s))"

definition kinv :: "kstate \<Rightarrow> bool" where
  "kinv s \<longleftrightarrow> \<not> corrupt s \<and> distinct (map fst (files s)) \<and> distinct (work s) \<and>
     (\<forall>a p. objs s a = Some p \<longrightarrow> obj_ok s a p) \<and>
     (\<forall>a. objs s a = None \<longrightarrow> nrefs s a = 0 \<and> a \<notin> set (work s)) \<and>
     (\<forall>i a. idr s i = Some a \<longrightarrow> (\<exists>p. objs s a = Some p \<and> prog_id p = i))"

lemma kinv_init: "kinv kinit"
  by (simp add: kinv_def kinit_def nrefs_def)

lemma kinvD:
  assumes "kinv s"
  shows "\<not> corrupt s" "distinct (map fst (files s))" "distinct (work s)"
    "objs s a = Some p \<Longrightarrow> refs p = nrefs s a \<and> idr s (prog_id p) = Some a \<and> (refs p = 0 \<longleftrightarrow> a \<in> set (work s))"
    "objs s a = None \<Longrightarrow> nrefs s a = 0 \<and> a \<notin> set (work s)"
    "idr s i = Some a \<Longrightarrow> \<exists>p. objs s a = Some p \<and> prog_id p = i"
  using assms unfolding kinv_def obj_ok_def by blast+

lemma kinvI:
  assumes "\<not> corrupt s" "distinct (map fst (files s))" "distinct (work s)"
    "\<And>a p. objs s a = Some p \<Longrightarrow> obj_ok s a p"
    "\<And>a. objs s a = None \<Longrightarrow> nrefs s a = 0 \<and> a \<notin> set (work s)"
    "\<And>i a. idr s i = Some a \<Longrightarrow> \<exists>p. objs s a = Some p \<and> prog_id p = i"
  shows "kinv s"
  using assms unfolding kinv_def by blast

lemma referenced_live:
  assumes "kinv s" and "0 < nrefs s a"
  obtains p where "objs s a = Some p" "refs p = nrefs s a" "a \<notin> set (work s)"
  using assms kinvD(4,5) [OF assms(1), of a] by (cases "objs s a") auto

lemma file_counted: "map_of fs fd = Some a \<Longrightarrow> 0 < length (filter (\<lambda>x. snd x = a) fs)"
  using map_of_SomeD [of fs fd a] by (force simp: filter_empty_conv)

lemma file_referenced: "map_of (files s) fd = Some a \<Longrightarrow> 0 < nrefs s a"
  using file_counted [of "files s" fd a] by (simp add: nrefs_def)

lemma held_referenced: "a \<in> set (held s) \<Longrightarrow> 0 < nrefs s a"
  by (simp add: nrefs_def count_list_0_iff neq0_conv [symmetric] del: neq0_conv)

lemma filter_close:
  assumes "distinct (map fst fs)" and "map_of fs fd = Some a"
  shows "length (filter (\<lambda>x. snd x = b) (filter (\<lambda>x. fst x \<noteq> fd) fs)) =
     length (filter (\<lambda>x. snd x = b) fs) - (if b = a then 1 else 0)"
  using assms
proof (induction fs)
  case (Cons f fs)
  show ?case
  proof (cases "fst f = fd")
    case True
    with Cons.prems have "fd \<notin> fst ` set fs" "snd f = a" by (auto simp: prod_eq_iff split: prod.splits)
    then have "filter (\<lambda>x. fst x \<noteq> fd) fs = fs" by (metis (mono_tags, lifting) filter_True image_eqI)
    with True \<open>snd f = a\<close> show ?thesis by simp
  next
    case False
    with Cons.prems have "map_of fs fd = Some a" by (cases f) simp
    moreover from this have "0 < length (filter (\<lambda>x. snd x = a) fs)"
      by (rule file_counted)
    ultimately show ?thesis using Cons False by (auto split: if_splits)
  qed
qed simp

subsection \<open>The operations keep the invariant\<close>

text \<open>
  A put whose reference has just been taken off the books: the count is one more than the remaining
  references.
\<close>

definition kinv_owed :: "nat \<Rightarrow> kstate \<Rightarrow> bool" where
  "kinv_owed a s \<longleftrightarrow> \<not> corrupt s \<and> distinct (map fst (files s)) \<and> distinct (work s) \<and>
     (\<exists>p. objs s a = Some p \<and> refs p = nrefs s a + 1 \<and> idr s (prog_id p) = Some a \<and> a \<notin> set (work s)) \<and>
     (\<forall>b p. b \<noteq> a \<longrightarrow> objs s b = Some p \<longrightarrow> obj_ok s b p) \<and>
     (\<forall>b. objs s b = None \<longrightarrow> nrefs s b = 0 \<and> b \<notin> set (work s)) \<and>
     (\<forall>i b. idr s i = Some b \<longrightarrow> (\<exists>p. objs s b = Some p \<and> prog_id p = i))"

lemma nrefs_simps [simp]:
  "nrefs (s\<lparr>objs := x\<rparr>) a = nrefs s a" "nrefs (s\<lparr>work := w\<rparr>) a = nrefs s a"
  "nrefs (s\<lparr>idr := r\<rparr>) a = nrefs s a" "nrefs (s\<lparr>corrupt := c\<rparr>) a = nrefs s a"
  by (simp_all add: nrefs_def)

lemma put_owed:
  assumes "kinv_owed a s"
  shows "kinv (merlin_prog_put a s)"
proof -
  obtain p where p: "objs s a = Some p" "refs p = nrefs s a + 1" "idr s (prog_id p) = Some a" "a \<notin> set (work s)"
    using assms unfolding kinv_owed_def by blast
  have o: "\<And>b q. b \<noteq> a \<Longrightarrow> objs s b = Some q \<Longrightarrow> obj_ok s b q"
    and n: "\<And>b. objs s b = None \<Longrightarrow> nrefs s b = 0 \<and> b \<notin> set (work s)"
    and i: "\<And>i b. idr s i = Some b \<Longrightarrow> \<exists>q. objs s b = Some q \<and> prog_id q = i"
    and d: "\<not> corrupt s" "distinct (map fst (files s))" "distinct (work s)"
    using assms unfolding kinv_owed_def by blast+
  let ?s = "s\<lparr>objs := (objs s)(a \<mapsto> p\<lparr>refs := nrefs s a\<rparr>)\<rparr>"
  have i': "\<exists>q. objs ?s b = Some q \<and> prog_id q = j" if "idr s j = Some b" for j b
    using i [OF that] p(1) by (cases "b = a") auto
  define w where "w = (if nrefs s a = 0 then work s @ [a] else work s)"
  have "merlin_prog_put a s = ?s\<lparr>work := w\<rparr>"
    using p by (simp add: merlin_prog_put_def w_def)
  moreover have "kinv (?s\<lparr>work := w\<rparr>)"
  proof (rule kinvI)
    fix b q
    assume q: "objs (?s\<lparr>work := w\<rparr>) b = Some q"
    show "obj_ok (?s\<lparr>work := w\<rparr>) b q"
    proof (cases "b = a")
      case True
      with q p show ?thesis by (auto simp: obj_ok_def w_def)
    next
      case False
      with q o [of b q] show ?thesis by (auto simp: obj_ok_def w_def)
    qed
  next
    fix b
    assume "objs (?s\<lparr>work := w\<rparr>) b = None"
    then have "b \<noteq> a" "objs s b = None" by (auto split: if_splits)
    with n [of b] show "nrefs (?s\<lparr>work := w\<rparr>) b = 0 \<and> b \<notin> set (work (?s\<lparr>work := w\<rparr>))"
      by (simp add: w_def)
  qed (use d p i' in \<open>auto simp: w_def\<close>)
  ultimately show ?thesis by simp
qed

lemma kinv_obj: "kinv s \<Longrightarrow> objs s b = Some q \<Longrightarrow> obj_ok s b q"
  by (simp add: kinv_def)

lemma obj_ok_cong:
  "obj_ok s b q \<Longrightarrow> nrefs s' b = nrefs s b \<Longrightarrow> idr s' (prog_id q) = idr s (prog_id q) \<Longrightarrow>
   (b \<in> set (work s') \<longleftrightarrow> b \<in> set (work s)) \<Longrightarrow> obj_ok s' b q"
  unfolding obj_ok_def by metis

lemma kinv_owedI:
  assumes "kinv s" "objs s a = Some p" "0 < nrefs s a"
    and same: "objs s' = objs s" "idr s' = idr s" "work s' = work s" "corrupt s' = corrupt s"
      "distinct (map fst (files s'))"
    and n: "\<And>b. nrefs s' b = nrefs s b - (if b = a then 1 else 0)"
  shows "kinv_owed a s'"
proof -
  have "\<exists>p. objs s' a = Some p \<and> refs p = nrefs s' a + 1 \<and> idr s' (prog_id p) = Some a \<and> a \<notin> set (work s')"
    using kinvD(4) [OF assms(1,2)] assms(2,3) unfolding n same by auto
  moreover have "obj_ok s' b q" if "b \<noteq> a" "objs s' b = Some q" for b q
    using kinv_obj [OF assms(1), of b q] that same n by (intro obj_ok_cong [of s b q s']) simp_all
  moreover have "nrefs s' b = 0 \<and> b \<notin> set (work s')" if "objs s' b = None" for b
    using kinvD(5) [OF assms(1), of b] that same n by simp
  ultimately show ?thesis
    using kinvD [OF assms(1)] same unfolding kinv_owed_def by simp
qed

lemma owed_release:
  assumes "kinv s" and "map_of (files s) fd = Some a"
  shows "kinv_owed a (s\<lparr>files := filter (\<lambda>x. fst x \<noteq> fd) (files s)\<rparr>)" (is "kinv_owed a ?s")
proof -
  obtain p where p: "objs s a = Some p" "refs p = nrefs s a" "a \<notin> set (work s)"
    using referenced_live [OF assms(1) file_referenced [OF assms(2)]] .
  have n: "nrefs ?s b = nrefs s b - (if b = a then 1 else 0)" for b
    using filter_close [OF kinvD(2) [OF assms(1)] assms(2), of b] file_counted [OF assms(2)]
    unfolding nrefs_def by (cases "b = a") (simp_all del: length_greater_0_conv)
  show ?thesis
    by (rule kinv_owedI [OF assms(1) p(1) file_referenced [OF assms(2)] _ _ _ _ _ n])
      (use kinvD(2) [OF assms(1)] in \<open>simp_all add: distinct_map_filter\<close>)
qed

lemma count_list_remove1: "a \<in> set xs \<Longrightarrow> count_list (remove1 a xs) b = count_list xs b - (if b = a then 1 else 0)"
  by (induction xs) (auto simp: count_list_0_iff Suc_diff_le neq0_conv [symmetric] simp del: neq0_conv)

lemma owed_held:
  assumes "kinv s" and "a \<in> set (held s)"
  shows "kinv_owed a (s\<lparr>held := remove1 a (held s)\<rparr>)" (is "kinv_owed a ?s")
proof -
  have pos: "0 < nrefs s a" by (rule held_referenced [OF assms(2)])
  obtain p where p: "objs s a = Some p" "refs p = nrefs s a" "a \<notin> set (work s)"
    using referenced_live [OF assms(1) pos] .
  have c: "0 < count_list (held s) a" using assms(2) by (simp add: count_list_0_iff neq0_conv [symmetric] del: neq0_conv)
  then have n: "nrefs ?s b = nrefs s b - (if b = a then 1 else 0)" for b
    using count_list_remove1 [OF assms(2), of b] by (auto simp: nrefs_def)
  show ?thesis
    by (rule kinv_owedI [OF assms(1) p(1) pos _ _ _ _ _ n]) (use kinvD(2) [OF assms(1)] in simp_all)
qed

lemma release_kinv: "kinv s \<Longrightarrow> kinv (merlin_prog_release fd s)"
  using owed_release put_owed by (auto simp: merlin_prog_release_def split: option.split)

lemma put_held_kinv: "kinv s \<Longrightarrow> a \<in> set (held s) \<Longrightarrow> kinv (put_held a s)"
  unfolding put_held_def by (intro put_owed owed_held)

text \<open>An update of one live object that leaves its id and count alone keeps the invariant.\<close>

lemma get_kinv:
  assumes "kinv s" and "0 < nrefs s a"
  shows "kinv ((refcount_inc a s)\<lparr>held := a # held s\<rparr>)"
proof -
  obtain p where p: "objs s a = Some p" "refs p = nrefs s a" "a \<notin> set (work s)"
    using referenced_live [OF assms] .
  let ?s = "s\<lparr>objs := (objs s)(a \<mapsto> p\<lparr>refs := refs p + 1\<rparr>), held := a # held s\<rparr>"
  have n: "nrefs ?s b = nrefs s b + (if b = a then 1 else 0)" for b by (simp add: nrefs_def)
  have id: "idr s (prog_id p) = Some a" using kinvD(4) [OF assms(1) p(1)] by simp
  have "(refcount_inc a s)\<lparr>held := a # held s\<rparr> = ?s" using p assms(2) by (simp add: refcount_inc_def)
  moreover have "kinv ?s"
  proof (rule kinvI)
    fix b q
    assume "objs ?s b = Some q"
    then show "obj_ok ?s b q"
      using p id kinvD(4) [OF assms(1), of b q] unfolding obj_ok_def n by (auto split: if_splits)
  next
    fix b
    assume "objs ?s b = None"
    then show "nrefs ?s b = 0 \<and> b \<notin> set (work ?s)"
      using kinvD(5) [OF assms(1), of b] unfolding n by (auto split: if_splits)
  next
    fix i b
    assume "idr ?s i = Some b"
    then show "\<exists>q. objs ?s b = Some q \<and> prog_id q = i"
      using kinvD(6) [OF assms(1), of i b] p by (cases "b = a") auto
  qed (use kinvD [OF assms(1)] in auto)
  ultimately show ?thesis by simp
qed

lemma count_run_kinv:
  assumes "kinv s" and "objs s a \<noteq> None"
  shows "kinv (count_run a dt s)"
proof -
  obtain p where p: "objs s a = Some p" using assms(2) by auto
  let ?s = "s\<lparr>objs := (objs s)(a \<mapsto> p\<lparr>run_cnt := run_cnt p + 1, run_time_ns := run_time_ns p + dt\<rparr>)\<rparr>"
  have "kinv ?s"
  proof (rule kinvI)
    fix b q
    assume "objs ?s b = Some q"
    then show "obj_ok ?s b q"
      using p kinv_obj [OF assms(1), of b] by (cases "b = a") (auto simp: obj_ok_def)
  next
    fix i b
    assume "idr ?s i = Some b"
    then show "\<exists>q. objs ?s b = Some q \<and> prog_id q = i"
      using kinvD(6) [OF assms(1), of i b] p by (cases "b = a") auto
  next
    fix b
    assume "objs ?s b = None"
    then show "nrefs ?s b = 0 \<and> b \<notin> set (work ?s)"
      using kinvD(5) [OF assms(1), of b] by (auto split: if_splits)
  qed (use kinvD [OF assms(1)] in auto)
  then show ?thesis using p by (simp add: count_run_def)
qed

lemma free_work_kinv:
  assumes "kinv s" and "a \<in> set (work s)"
  shows "kinv (merlin_prog_free_work a s)"
proof -
  obtain p where p: "objs s a = Some p" using kinvD(5) [OF assms(1), of a] assms(2) by (cases "objs s a") auto
  have z: "nrefs s a = 0" "idr s (prog_id p) = Some a" using kinvD(4) [OF assms(1) p] assms(2) by auto
  let ?s = "s\<lparr>objs := (objs s)(a := None), idr := (idr s)(prog_id p := None), work := remove1 a (work s)\<rparr>"
  have w: "set (remove1 a (work s)) = set (work s) - {a}" using kinvD(3) [OF assms(1)] by simp
  have "kinv ?s"
  proof (rule kinvI)
    fix b q
    assume "objs ?s b = Some q"
    then have b: "b \<noteq> a" "objs s b = Some q" by (auto split: if_splits)
    note k = kinvD(4) [OF assms(1) b(2)]
    then have "prog_id q \<noteq> prog_id p" using z b by auto
    with b(1) show "obj_ok ?s b q"
      by (intro obj_ok_cong [OF kinv_obj [OF assms(1) b(2)]]) (simp_all add: w)
  next
    fix b
    assume "objs ?s b = None"
    then show "nrefs ?s b = 0 \<and> b \<notin> set (work ?s)"
      using kinvD(5) [OF assms(1), of b] z w by (auto split: if_splits)
  next
    fix i b
    assume "idr ?s i = Some b"
    then have i: "i \<noteq> prog_id p" "idr s i = Some b" by (auto split: if_splits)
    with kinvD(6) [OF assms(1) i(2)] p show "\<exists>q. objs ?s b = Some q \<and> prog_id q = i" by auto
  qed (use kinvD [OF assms(1)] in auto)
  then show ?thesis using p by (simp add: merlin_prog_free_work_def)
qed

lemma load_kinv:
  assumes "kinv s" and "objs s a = None" and "idr s (prog_id p) = None" and "refs p = 1"
    and "fd \<notin> fst ` set (files s)"
  shows "kinv ((store_prog a p s)\<lparr>files := (fd, a) # files s\<rparr>)" (is "kinv ?s")
proof -
  have n: "nrefs ?s b = nrefs s b + (if b = a then 1 else 0)" for b
    by (simp add: nrefs_def store_prog_def)
  have z: "nrefs s a = 0" "a \<notin> set (work s)" using kinvD(5) [OF assms(1,2)] by simp_all
  show ?thesis
  proof (rule kinvI)
    fix b q
    assume q: "objs ?s b = Some q"
    show "obj_ok ?s b q"
    proof (cases "b = a")
      case True
      with q have "q = p" by (simp add: store_prog_def)
      with True z assms(4) show ?thesis unfolding obj_ok_def n by (simp add: store_prog_def)
    next
      case False
      with q have k: "objs s b = Some q" by (simp add: store_prog_def)
      then have "prog_id q \<noteq> prog_id p" using kinvD(4) [OF assms(1) k] assms(3) by auto
      with False show ?thesis
        by (intro obj_ok_cong [OF kinv_obj [OF assms(1) k]]) (simp_all add: nrefs_def store_prog_def)
    qed
  next
    fix b
    assume "objs ?s b = None"
    then show "nrefs ?s b = 0 \<and> b \<notin> set (work ?s)"
      using kinvD(5) [OF assms(1), of b] unfolding n by (auto simp: store_prog_def split: if_splits)
  next
    fix i b
    assume "idr ?s i = Some b"
    then show "\<exists>q. objs ?s b = Some q \<and> prog_id q = i"
      using kinvD(6) [OF assms(1), of i b] assms(2) by (auto simp: store_prog_def split: if_splits)
  qed (use kinvD [OF assms(1)] assms(5) in \<open>auto simp: store_prog_def\<close>)
qed

subsection \<open>Interleavings\<close>

text \<open>
  The steps of any number of concurrent callers: a load with the fd that the file table had free, the
  closing of a file, taking a reference by fd or by id, running under a reference, dropping it, and the
  deferred free. A new object's address and id are ones not in use.
\<close>

inductive kstep :: "kstate \<Rightarrow> kstate \<Rightarrow> bool" where
  load: "merlin_cmd_prog_load env attr a fdres s = Some (rc, s') \<Longrightarrow> 0 \<le> fdres \<Longrightarrow> objs s a = None \<Longrightarrow>
     idr s (idr_result env) = None \<Longrightarrow> fdres \<notin> fst ` set (files s) \<Longrightarrow> kstep s s'"
| close: "kstep s (merlin_prog_release fd s)"
| get_fd: "merlin_prog_get_by_fd other fd s = (r, s') \<Longrightarrow> kstep s s'"
| get_id: "merlin_prog_get_by_id i s = (r, s') \<Longrightarrow> kstep s s'"
| run: "a \<in> set (held s) \<Longrightarrow> kstep s (count_run a dt s)"
| put: "a \<in> set (held s) \<Longrightarrow> kstep s (put_held a s)"
| free: "a \<in> set (work s) \<Longrightarrow> kstep s (merlin_prog_free_work a s)"

inductive kreach :: "kstate \<Rightarrow> bool" where
  start: "kreach kinit"
| step: "kreach s \<Longrightarrow> kstep s s' \<Longrightarrow> kreach s'"

inductive_cases kreachE: "kreach s"

lemma get_by_id_kinv:
  assumes "kinv s" and "merlin_prog_get_by_id i s = (r, s')"
  shows "kinv s'"
proof (cases "idr s i")
  case None
  with assms show ?thesis by (simp add: merlin_prog_get_by_id_def)
next
  case (Some a)
  with kinvD(6) [OF assms(1)] obtain p where p: "objs s a = Some p" by blast
  with kinvD(4) [OF assms(1) p] have n: "refs p = nrefs s a" by simp
  show ?thesis
  proof (cases "refs p = 0")
    case True
    with Some p assms show ?thesis by (simp add: merlin_prog_get_by_id_def)
  next
    case False
    with n get_kinv [OF assms(1), of a] Some p assms(2) show ?thesis by (auto simp: merlin_prog_get_by_id_def)
  qed
qed

lemma get_by_fd_kinv:
  assumes "kinv s" and "merlin_prog_get_by_fd other fd s = (r, s')"
  shows "kinv s'" "r = Inr a \<Longrightarrow> a \<in> set (held s')"
  using assms get_kinv [OF assms(1) file_referenced]
  by (auto simp: merlin_prog_get_by_fd_def split: option.splits)

lemma cmd_load_kinv:
  assumes "kinv s" and "merlin_cmd_prog_load env attr a fdres s = Some (rc, s')" and "0 \<le> fdres"
    and "objs s a = None" and "idr s (idr_result env) = None" and "fdres \<notin> fst ` set (files s)"
  shows "kinv s'"
proof (cases "merlin_prog_load env attr")
  case (Pair r L)
  show ?thesis
  proof (cases r)
    case (Ok p)
    note f = load_fields [OF Pair [unfolded Ok]]
    have "s' = (store_prog a p s)\<lparr>files := (fdres, a) # files s\<rparr>"
      using assms(2,3) Pair Ok by (auto simp: merlin_cmd_prog_load_def merlin_prog_new_fd_def store_prog_def)
    with load_kinv [OF assms(1,4) _ f(1) assms(6)] assms(5) f(2) show ?thesis by simp
  qed (use assms(1,2) Pair in \<open>auto simp: merlin_cmd_prog_load_def\<close>)
qed

lemma kstep_kinv: "kstep s s' \<Longrightarrow> kinv s \<Longrightarrow> kinv s'"
proof (induction rule: kstep.induct)
  case (run a s dt)
  then show ?case
    using count_run_kinv [of s a dt] referenced_live [OF run.prems held_referenced [OF run.hyps]]
    by (metis option.distinct(1))
qed (auto intro: cmd_load_kinv release_kinv get_by_fd_kinv(1) get_by_id_kinv put_held_kinv free_work_kinv)

lemma kreach_kinv: "kreach s \<Longrightarrow> kinv s"
  by (induction rule: kreach.induct) (auto intro: kinv_init kstep_kinv)


definition demo_state :: kstate where
  "demo_state = snd (the (merlin_cmd_prog_load (demo_lenv ret_elf) demo_attr 7 3 kinit))"

lemma demo_state_reached: "kreach demo_state" "map_of (files demo_state) 3 = Some 7"
proof -
  have l: "merlin_cmd_prog_load (demo_lenv ret_elf) demo_attr 7 3 kinit = Some (3, demo_state)"
    by (simp add: demo_state_def merlin_cmd_prog_load_def demo_load merlin_prog_new_fd_def)
  show "kreach demo_state"
    by (rule kreach.step [OF kreach.start kstep.load [OF l]]) (simp_all add: kinit_def)
  show "map_of (files demo_state) 3 = Some 7"
    by (simp add: demo_state_def merlin_cmd_prog_load_def demo_load merlin_prog_new_fd_def store_prog_def)
qed


definition drain :: "kstate \<Rightarrow> kstate" where
  "drain s = foldl (\<lambda>s a. merlin_prog_free_work a s) s (work s)"

lemma free_work_objs:
  assumes "kinv s" and "a \<in> set (work s)"
  shows "objs (merlin_prog_free_work a s) = (objs s)(a := None)"
    "work (merlin_prog_free_work a s) = remove1 a (work s)"
proof -
  obtain p where p: "objs s a = Some p"
    using kinvD(5) [OF assms(1), of a] assms(2) by (cases "objs s a") auto
  then show "objs (merlin_prog_free_work a s) = (objs s)(a := None)"
    "work (merlin_prog_free_work a s) = remove1 a (work s)"
    by (simp_all add: merlin_prog_free_work_def)
qed

lemma drain_objs:
  assumes "kinv s" and "work s = w"
  shows "kinv (foldl (\<lambda>s a. merlin_prog_free_work a s) s w) \<and>
     work (foldl (\<lambda>s a. merlin_prog_free_work a s) s w) = [] \<and>
     objs (foldl (\<lambda>s a. merlin_prog_free_work a s) s w) = (\<lambda>a. if a \<in> set w then None else objs s a)"
  using assms
proof (induction w arbitrary: s)
  case (Cons a w)
  let ?s = "merlin_prog_free_work a s"
  have a: "a \<in> set (work s)" using Cons.prems(2) by simp
  have k: "kinv ?s" by (rule free_work_kinv [OF Cons.prems(1) a])
  have "work ?s = w" using free_work_objs(2) [OF Cons.prems(1) a] Cons.prems(2) by simp
  from Cons.IH [OF k this] show ?case using free_work_objs(1) [OF Cons.prems(1) a] by (auto simp: fun_eq_iff)
qed auto

text \<open>
  C17: nothing leaks. In every reachable state an object that no file and no call refers to is on the
  work queue, and when the queue has been worked off the objects that remain are exactly the referenced
  ones, with no id left in the registry for the others.
\<close>

theorem unreferenced_freed:
  assumes "kreach s"
  shows "(\<forall>a p. objs s a = Some p \<and> nrefs s a = 0 \<longrightarrow> a \<in> set (work s)) \<and>
     (\<forall>a. objs (drain s) a = (if nrefs s a = 0 then None else objs s a)) \<and>
     (\<forall>i a. idr (drain s) i = Some a \<longrightarrow> 0 < nrefs s a)"
proof -
  note k = kreach_kinv [OF assms]
  note d = drain_objs [OF k refl, folded drain_def]
  have w: "a \<in> set (work s)" if "objs s a = Some p" "nrefs s a = 0" for a p
    using kinvD(4) [OF k that(1)] that(2) by metis
  have w': "nrefs s a = 0" if "a \<in> set (work s)" for a
    using kinvD(4,5) [OF k, of a] that by (cases "objs s a") auto
  have o: "objs (drain s) a = (if nrefs s a = 0 then None else objs s a)" for a
    using d w w' kinvD(5) [OF k, of a] by (cases "objs s a") auto
  moreover have "0 < nrefs s a" if "idr (drain s) i = Some a" for i a
    using kinvD(6) [of "drain s" i a] d that o [of a] by (auto split: if_splits)
  ultimately show ?thesis using w by blast
qed

theorem unreferenced_freed_witness: "objs (drain (merlin_prog_release 3 demo_state)) 7 = None"
proof -
  have r: "kreach (merlin_prog_release 3 demo_state)"
    by (rule kreach.step [OF demo_state_reached(1) kstep.close])
  have "nrefs (merlin_prog_release 3 demo_state) 7 = 0"
    by (simp add: demo_state_def merlin_cmd_prog_load_def demo_load merlin_prog_new_fd_def store_prog_def
        merlin_prog_release_def merlin_prog_put_def nrefs_def new_prog_def kinit_def)
  with unreferenced_freed [OF r] show ?thesis by simp
qed

text \<open>
  C37: a load that gets no file descriptor drops its reference twice. \<open>merlin_prog_new_fd\<close> already puts the
  object when \<open>anon_inode_getfd\<close> fails, and the load command puts it again: the second put meets a
  count of zero on an object already scheduled to be freed.
\<close>

theorem load_double_put:
  assumes "merlin_prog_load env attr = (Ok p, L)" and "fdres < 0"
  shows "\<exists>s'. merlin_cmd_prog_load env attr a fdres s = Some (fdres, s') \<and> corrupt s' \<and> a \<in> set (work s')"
  using assms load_fields [OF assms(1)]
  by (simp add: merlin_cmd_prog_load_def merlin_prog_new_fd_def store_prog_def merlin_prog_put_def Let_def)

theorem load_double_put_witness:
  "\<exists>s'. merlin_cmd_prog_load (demo_lenv ret_elf) demo_attr 7 (- 24) kinit = Some (- 24, s') \<and> corrupt s'"
  using load_double_put [OF demo_load, of "- 24" 7 kinit] by auto

lemma put_after_get:
  assumes "kinv s" and "merlin_prog_get_by_fd other fd s = (Inr a, s1)" and "kinv s2"
    and "held s2 = held s1" "files s2 = files s1"
  shows "kinv (put_held a s2)" "held (put_held a s2) = held s" "files (put_held a s2) = files s"
proof -
  have h: "held s1 = a # held s" "files s1 = files s"
    using assms(2) by (auto simp: merlin_prog_get_by_fd_def refcount_inc_def split: option.splits)
  then show "kinv (put_held a s2)" using put_held_kinv [OF assms(3), of a] assms(4) by simp
  show "held (put_held a s2) = held s" "files (put_held a s2) = files s"
    using h assms(4,5) by (simp_all add: put_held_def merlin_prog_put_def Let_def split: option.split)
qed

lemma get_live:
  assumes "kinv s" and "merlin_prog_get_by_fd other fd s = (Inr a, s1)"
  shows "objs s1 a \<noteq> None"
  using get_by_fd_kinv [OF assms] referenced_live held_referenced by (metis option.distinct(1))

lemma count_run_fields: "held (count_run a dt s) = held s" "files (count_run a dt s) = files s"
  by (simp_all add: count_run_def split: option.split)

lemma get_error: "merlin_prog_get_by_fd other fd s = (Inl rc, s1) \<Longrightarrow> s1 = s"
  by (simp add: merlin_prog_get_by_fd_def split: option.splits)

lemma test_run_balanced:
  assumes "kinv s" and run: "merlin_cmd_prog_test_run other env fd s = (rc, s2)"
  shows "kinv s2 \<and> held s2 = held s \<and> files s2 = files s"
proof -
  obtain r s1 where g: "merlin_prog_get_by_fd other fd s = (r, s1)" by fastforce
  show ?thesis
  proof (cases r)
    case (Inl x)
    then have "s1 = s" using get_error g by blast
    with Inl g run assms(1) show ?thesis
      by (auto simp: merlin_cmd_prog_test_run_def split: if_splits)
  next
    case (Inr a)
    note g' = g [unfolded Inr]
    note k = get_by_fd_kinv(1) [OF assms(1) g'] and p1 = put_after_get [OF assms(1) g' get_by_fd_kinv(1) [OF assms(1) g'] refl refl]
    note p2 = put_after_get [OF assms(1) g' count_run_kinv [OF k get_live [OF assms(1) g']] count_run_fields]
    from run g' p1 p2 assms(1) show ?thesis
      by (auto simp: merlin_cmd_prog_test_run_def Let_def split: if_splits)
  qed
qed

lemma get_info_balanced:
  assumes "kinv s" and info: "merlin_cmd_prog_get_info other ok wanted copy fd s = (rc, i, s2)"
  shows "kinv s2 \<and> held s2 = held s \<and> files s2 = files s"
proof -
  obtain r s1 where g: "merlin_prog_get_by_fd other fd s = (r, s1)" by fastforce
  show ?thesis
  proof (cases r)
    case (Inl x)
    then have "s1 = s" using get_error g by blast
    with Inl g info assms(1) show ?thesis
      by (auto simp: merlin_cmd_prog_get_info_def split: if_splits)
  next
    case (Inr a)
    note g' = g [unfolded Inr]
    note p1 = put_after_get [OF assms(1) g' get_by_fd_kinv(1) [OF assms(1) g'] refl refl]
    from info g' p1 assms(1) show ?thesis
      by (auto simp: merlin_cmd_prog_get_info_def Let_def split: if_splits)
  qed
qed

text \<open>
  Without the capability no command does anything, an unimplemented command changes nothing, and the
  commands that look at a program return every reference they take.
\<close>

theorem commands_balanced:
  assumes "kinv s" and "merlin_do_cmd cmd e s = Some (rc, s')"
    and "cmd \<noteq> 0 \<or> \<not> cap_bpf e \<and> \<not> cap_sys_admin e"
  shows "kinv s' \<and> held s' = held s \<and> files s' = files s \<and>
     (\<not> cap_bpf e \<and> \<not> cap_sys_admin e \<longrightarrow> rc = - E_PERM \<and> s' = s) \<and>
     (cmd \<notin> {0, 1, 2, 5} \<longrightarrow> s' = s \<and> rc < 0)"
proof (cases "cap_bpf e \<or> cap_sys_admin e")
  case False
  with assms(2) have "rc = - E_PERM" "s' = s"
    by (simp_all add: merlin_do_cmd_def merlin_check_cap_def)
  with assms(1) show ?thesis by simp
next
  case True
  then have cap: "merlin_check_cap (cap_bpf e) (cap_sys_admin e) = 0" by (auto simp: merlin_check_cap_def)
  have "cmd \<noteq> 0" using True assms(3) by blast
  then consider "cmd = 1" | "cmd = 2" | "cmd = 5" | "cmd \<notin> {0, 1, 2, 5}" by blast
  then show ?thesis
  proof cases
    case 1
    with assms(2) cap have "merlin_cmd_prog_test_run (other_fd e) (run_env e) (attr_fd e) s = (rc, s')"
      by (simp add: merlin_do_cmd_def)
    from test_run_balanced [OF assms(1) this] 1 True show ?thesis by auto
  next
    case 2
    obtain rc2 i s2 where c: "merlin_cmd_prog_get_info (other_fd e) (attr_ok e) (info_wanted e) (info_copy_ok e)
        (attr_fd e) s = (rc2, i, s2)" by (metis surj_pair)
    with 2 assms(2) cap have "s2 = s'" by (simp add: merlin_do_cmd_def)
    with get_info_balanced [OF assms(1) c] 2 True show ?thesis by auto
  next
    case 3
    with assms(2) cap have "s' = s" by (simp add: merlin_do_cmd_def)
    with assms(1) 3 True show ?thesis by auto
  next
    case 4
    with assms(2) cap have "s' = s" "rc < 0" by (auto simp: merlin_do_cmd_def split: if_splits)
    with assms(1) 4 True show ?thesis by blast
  qed
qed

text \<open>The witness: a test run of the program loaded above.\<close>

definition demo_call :: call_env where
  "demo_call = \<lparr>cap_bpf = True, cap_sys_admin = False, load_env = demo_lenv ret_elf, load_attr = demo_attr,
     new_addr = 7, getfd_result = 3, other_fd = (\<lambda>_. False), attr_fd = 3, attr_ok = True, info_wanted = True,
     info_copy_ok = True, run_env = \<lparr>tr_attr_ok = True, tr_ctx_want = False, tr_ctx_alloc_ok = True,
       tr_ctx_copy_ok = True, tr_elapsed = 12, tr_reread_ok = True, tr_writeback_ok = True\<rparr>,
     map_attr = \<lparr>map_type = 1, key_size = 4, value_size = 8, max_entries = 16, map_flags = 0, map_name = []\<rparr>,
     bpf_create = (\<lambda>_. 4)\<rparr>"

theorem commands_balanced_witness: "\<exists>s'. merlin_do_cmd 1 demo_call demo_state = Some (0, s') \<and> kinv s' \<and> held s' = held demo_state"
proof -
  obtain s' where c: "merlin_do_cmd 1 demo_call demo_state = Some (0, s')"
    using demo_state_reached(2)
    by (simp add: merlin_do_cmd_def merlin_check_cap_def merlin_cmd_prog_test_run_def merlin_prog_get_by_fd_def demo_call_def)
  from commands_balanced [OF kreach_kinv [OF demo_state_reached(1)] c] show ?thesis using c by simp
qed

end
