(* ===== verification/Zephyr_Decode.thy ===== *)
theory Zephyr_Decode
  imports Decode
begin

text \<open>
  The RV32 decoder of the Zephyr port, \<open>zephyr/merlin/src/decode.c\<close>. The class and operation
  enumerations of \<open>zephyr/merlin/src/merlin_internal.h\<close> are the kernel's, enumerator by enumerator, and
  are shared with the kernel model; the instruction record has a 32-bit immediate and none of the
  branch, load and store kinds. A return of -1 is \<^const>\<open>None\<close>. The second part relates the port to
  the kernel decoder it was cut down from.
\<close>

type_synonym s32 = "32 word"

record merlin_insn_rtos =
  zraw :: u32
  zpc :: u32
  zcls :: merlin_insn_class
  zrd :: nat
  zrs1 :: nat
  zrs2 :: nat
  zimm :: s32
  zalu_op :: merlin_alu_op
  zword_op :: bool

subsection \<open>Field extraction\<close>

definition bits_z :: "u32 \<Rightarrow> nat \<Rightarrow> nat \<Rightarrow> u32" where
  "bits_z v hi lo = drop_bit lo v AND (push_bit (hi - lo + 1) 1 - 1)"

definition sext :: "u32 \<Rightarrow> nat \<Rightarrow> s32" where
  "sext v width = (let shift = 32 - width in signed_drop_bit shift (push_bit shift v))"

definition imm_i_z :: "u32 \<Rightarrow> s32" where
  "imm_i_z i = signed_drop_bit 20 i"

definition imm_s_z :: "u32 \<Rightarrow> s32" where
  "imm_s_z i = (let hi = bits_z i 31 25; lo = bits_z i 11 7 in sext (push_bit 5 hi OR lo) 12)"

definition imm_b_z :: "u32 \<Rightarrow> s32" where
  "imm_b_z i =
     (let r = push_bit 12 (bits_z i 31 31) OR push_bit 11 (bits_z i 7 7)
              OR push_bit 5 (bits_z i 30 25) OR push_bit 1 (bits_z i 11 8)
      in sext r 13)"

definition imm_u_z :: "u32 \<Rightarrow> s32" where
  "imm_u_z i = i AND 0xfffff000"

definition imm_j_z :: "u32 \<Rightarrow> s32" where
  "imm_j_z i =
     (let r = push_bit 20 (bits_z i 31 31) OR push_bit 12 (bits_z i 19 12)
              OR push_bit 11 (bits_z i 20 20) OR push_bit 1 (bits_z i 30 21)
      in sext r 21)"

definition imm_shamt_z :: "u32 \<Rightarrow> s32" where
  "imm_shamt_z i = drop_bit 20 i AND 0x1f"

subsection \<open>Decoding one word\<close>

definition insn_zero_rtos :: "u32 \<Rightarrow> u32 \<Rightarrow> merlin_insn_rtos" where
  "insn_zero_rtos w p =
     \<lparr>zraw = w, zpc = p, zcls = INSN_INVALID, zrd = 0, zrs1 = 0, zrs2 = 0, zimm = 0,
      zalu_op = ALU_ADD, zword_op = False\<rparr>"

definition decode_op_imm :: "u32 \<Rightarrow> u32 \<Rightarrow> u32 \<Rightarrow> merlin_insn_rtos \<Rightarrow> merlin_insn_rtos option" where
  "decode_op_imm w f3 f7 out =
     (if f3 = 0 then Some (out\<lparr>zcls := INSN_ALU_IMM, zalu_op := ALU_ADD, zimm := imm_i_z w\<rparr>)
      else if f3 = 1 then Some (out\<lparr>zcls := INSN_SHIFT_IMM, zalu_op := ALU_SLL, zimm := imm_shamt_z w\<rparr>)
      else if f3 = 2 then Some (out\<lparr>zcls := INSN_ALU_IMM, zalu_op := ALU_SLT, zimm := imm_i_z w\<rparr>)
      else if f3 = 3 then Some (out\<lparr>zcls := INSN_ALU_IMM, zalu_op := ALU_SLTU, zimm := imm_i_z w\<rparr>)
      else if f3 = 4 then Some (out\<lparr>zcls := INSN_ALU_IMM, zalu_op := ALU_XOR, zimm := imm_i_z w\<rparr>)
      else if f3 = 5 then
        Some (out\<lparr>zcls := INSN_SHIFT_IMM, zalu_op := (if f7 AND 0x20 \<noteq> 0 then ALU_SRA else ALU_SRL),
                  zimm := imm_shamt_z w\<rparr>)
      else if f3 = 6 then Some (out\<lparr>zcls := INSN_ALU_IMM, zalu_op := ALU_OR, zimm := imm_i_z w\<rparr>)
      else if f3 = 7 then Some (out\<lparr>zcls := INSN_ALU_IMM, zalu_op := ALU_AND, zimm := imm_i_z w\<rparr>)
      else None)"

definition decode_op :: "u32 \<Rightarrow> u32 \<Rightarrow> merlin_insn_rtos \<Rightarrow> merlin_insn_rtos option" where
  "decode_op f3 f7 out =
     (if f7 = 1 then
        if f3 < 4 then
          Some (out\<lparr>zcls := INSN_MUL,
                    zalu_op := [ALU_MUL, ALU_MULH, ALU_MULHSU, ALU_MULHU] ! unat f3\<rparr>)
        else
          Some (out\<lparr>zcls := INSN_DIV,
                    zalu_op := [ALU_DIV, ALU_DIVU, ALU_REM, ALU_REMU] ! unat (f3 - 4)\<rparr>)
      else if f7 = 0x20 \<and> (f3 = 0 \<or> f3 = 5) then
        Some (out\<lparr>zcls := INSN_ALU_REG, zalu_op := (if f3 = 0 then ALU_SUB else ALU_SRA)\<rparr>)
      else if f7 = 0 then
        Some (out\<lparr>zcls := INSN_ALU_REG,
                  zalu_op := [ALU_ADD, ALU_SLL, ALU_SLT, ALU_SLTU, ALU_XOR, ALU_SRL, ALU_OR, ALU_AND]
                               ! unat f3\<rparr>)
      else None)"

definition decode_system_rtos :: "u32 \<Rightarrow> u32 \<Rightarrow> merlin_insn_rtos \<Rightarrow> merlin_insn_rtos option" where
  "decode_system_rtos w f3 out =
     (if f3 = 0 \<and> zrd out = 0 \<and> zrs1 out = 0 then
        (let imm12 = drop_bit 20 w in
         if imm12 = 0 then Some (out\<lparr>zcls := INSN_ECALL\<rparr>)
         else if imm12 = 1 then Some (out\<lparr>zcls := INSN_EBREAK\<rparr>)
         else Some (out\<lparr>zcls := INSN_PRIV\<rparr>))
      else Some (out\<lparr>zcls := INSN_CSR\<rparr>))"

definition merlin_decode_rtos :: "u32 \<Rightarrow> u32 \<Rightarrow> merlin_insn_rtos option" where
  "merlin_decode_rtos w p =
     (let opcode = w AND 0x7f;
          f3 = bits_z w 14 12;
          f7 = bits_z w 31 25;
          out0 = insn_zero_rtos w p
      in if w AND 3 \<noteq> 3 then Some (out0\<lparr>zcls := INSN_UNSUPPORTED\<rparr>)
         else let out = out0\<lparr>zrd := unat (bits_z w 11 7), zrs1 := unat (bits_z w 19 15),
                             zrs2 := unat (bits_z w 24 20)\<rparr> in
           if opcode = 0x37 then Some (out\<lparr>zcls := INSN_LUI, zimm := imm_u_z w\<rparr>)
           else if opcode = 0x17 then Some (out\<lparr>zcls := INSN_AUIPC, zimm := imm_u_z w\<rparr>)
           else if opcode = 0x6f then Some (out\<lparr>zcls := INSN_JAL, zimm := imm_j_z w\<rparr>)
           else if opcode = 0x67 then
             (if f3 \<noteq> 0 then None else Some (out\<lparr>zcls := INSN_JALR, zimm := imm_i_z w\<rparr>))
           else if opcode = 0x63 then Some (out\<lparr>zcls := INSN_BRANCH, zimm := imm_b_z w\<rparr>)
           else if opcode = 0x03 then Some (out\<lparr>zcls := INSN_LOAD, zimm := imm_i_z w\<rparr>)
           else if opcode = 0x23 then Some (out\<lparr>zcls := INSN_STORE, zimm := imm_s_z w\<rparr>)
           else if opcode = 0x13 then decode_op_imm w f3 f7 out
           else if opcode = 0x33 then decode_op f3 f7 out
           else if opcode = 0x0f then
             Some (out\<lparr>zcls := (if f3 = 1 then INSN_FENCE_I else INSN_FENCE)\<rparr>)
           else if opcode = 0x73 then decode_system_rtos w f3 out
           else if opcode = 0x2f then Some (out\<lparr>zcls := INSN_UNSUPPORTED\<rparr>)
           else if opcode \<in> {0x07, 0x27, 0x43, 0x47, 0x4b, 0x4f, 0x53} then
             Some (out\<lparr>zcls := INSN_FLOAT\<rparr>)
           else None)"

definition merlin_insn_permitted_rtos :: "merlin_insn_rtos \<Rightarrow> bool" where
  "merlin_insn_permitted_rtos i =
     (case zcls i of
        INSN_LUI \<Rightarrow> True | INSN_AUIPC \<Rightarrow> True | INSN_JAL \<Rightarrow> True | INSN_JALR \<Rightarrow> True
      | INSN_BRANCH \<Rightarrow> True | INSN_LOAD \<Rightarrow> True | INSN_STORE \<Rightarrow> True | INSN_ALU_IMM \<Rightarrow> True
      | INSN_SHIFT_IMM \<Rightarrow> True | INSN_ALU_REG \<Rightarrow> True | INSN_FENCE \<Rightarrow> True | INSN_ECALL \<Rightarrow> True
      | INSN_MUL \<Rightarrow> True | INSN_DIV \<Rightarrow> True
      | _ \<Rightarrow> False)"

lemmas decode_rtos_defs [merlin_defs] =
  merlin_decode_rtos_def decode_op_imm_def decode_op_def decode_system_rtos_def insn_zero_rtos_def

subsection \<open>The port and the kernel decoder\<close>

lemma bits_z_eq: "bits_z = bits"
  by (intro ext) (simp add: bits_z_def bits_def)

lemma sext_eq: "sext = sign_ext"
  by (intro ext) (simp add: sext_def sign_ext_def)

lemma imm_kernel_port:
  "imm_s w = scast (imm_s_z w)" "imm_b w = scast (imm_b_z w)" "imm_u w = scast (imm_u_z w)"
  "imm_j w = scast (imm_j_z w)"
  by (simp_all add: imm_s_def imm_s_z_def imm_b_def imm_b_z_def imm_u_def imm_u_z_def imm_j_def
      imm_j_z_def Let_def bits_z_eq sext_eq)

text \<open>The I immediate: the port sign-extends, the kernel keeps the twelve bits only.\<close>

lemma imm_i_kernel_port: "imm_i w = take_bit 12 (scast (imm_i_z w))"
proof (rule bit_word_eqI)
  fix n assume "n < LENGTH(64)"
  then show "bit (imm_i w) n \<longleftrightarrow> bit (take_bit 12 (scast (imm_i_z w)) :: s64) n"
    by (auto simp: bit_imm_i imm_i_z_def bit_take_bit_iff bit_scast_32_64 bit_signed_drop_bit_iff
        min_def add.commute)
qed

lemma merlin_decode_rtos_fields:
  assumes "merlin_decode_rtos w p = Some z"
  shows "zraw z = w" "zpc z = p" "zrd z < 32" "zrs1 z < 32" "zrs2 z < 32"
  using assms bits5_lt_32 [of w]
  by (auto simp: decode_rtos_defs Let_def bits_z_eq split: if_splits)

text \<open>What a kernel instruction and its RV32 reading share.\<close>

definition same_head :: "merlin_insn \<Rightarrow> merlin_insn_rtos \<Rightarrow> bool" where
  "same_head i z \<longleftrightarrow>
     zraw z = raw i \<and> zpc z = pc i \<and> zcls z = cls i \<and> zrd z = rd i \<and> zrs1 z = rs1 i \<and> zrs2 z = rs2 i \<and>
     zalu_op z = alu_op i"

definition same_imm :: "merlin_insn_class \<Rightarrow> s64 \<Rightarrow> s32 \<Rightarrow> bool" where
  "same_imm c v v' \<longleftrightarrow>
     (if c \<in> {INSN_LUI, INSN_AUIPC, INSN_JAL, INSN_BRANCH, INSN_STORE} then v = scast v'
      else if c \<in> {INSN_JALR, INSN_LOAD, INSN_ALU_IMM} then v = take_bit 12 (scast v')
      else True)"

definition same_insn :: "merlin_insn \<Rightarrow> merlin_insn_rtos \<Rightarrow> bool" where
  "same_insn i z \<longleftrightarrow> same_head i z \<and> same_imm (cls i) (imm i) (zimm z)"

lemma same_imm_simps [simp]:
  "same_imm INSN_LUI (imm_u w) (imm_u_z w)" "same_imm INSN_AUIPC (imm_u w) (imm_u_z w)"
  "same_imm INSN_JAL (imm_j w) (imm_j_z w)" "same_imm INSN_BRANCH (imm_b w) (imm_b_z w)"
  "same_imm INSN_STORE (imm_s w) (imm_s_z w)" "same_imm INSN_JALR (imm_i w) (imm_i_z w)"
  "same_imm INSN_LOAD (imm_i w) (imm_i_z w)" "same_imm INSN_ALU_IMM (imm_i w) (imm_i_z w)"
  by (simp_all add: same_imm_def imm_kernel_port imm_i_kernel_port)

lemma same_imm_other [simp]:
  "c \<in> {INSN_UNSUPPORTED, INSN_SHIFT_IMM, INSN_ALU_REG, INSN_MUL, INSN_DIV, INSN_FENCE, INSN_FENCE_I,
     INSN_ECALL, INSN_EBREAK, INSN_PRIV, INSN_CSR, INSN_FLOAT} \<Longrightarrow> same_imm c v v'"
  by (auto simp: same_imm_def)

definition same_result :: "merlin_insn \<Rightarrow> merlin_insn_rtos option \<Rightarrow> bool" where
  "same_result i r = (case r of None \<Rightarrow> False | Some z \<Rightarrow> same_insn i z)"

lemma port_alui:
  assumes "decode_alui w f3 f7 out = Some i" and "same_head out out'"
  shows "same_result i (decode_op_imm w f3 f7 out')"
  using assms
  by (auto simp: decode_alui_def decode_op_imm_def same_insn_def same_head_def same_result_def split: if_splits)

lemma port_alur:
  assumes "decode_alur f3 f7 out = Some i" and "same_head out out'"
  shows "same_result i (decode_op f3 f7 out')"
  using assms
  by (auto simp: decode_alur_def decode_op_def same_insn_def same_head_def same_result_def mul_ops_def div_ops_def alu_ops_def
      split: if_splits)

lemma port_system:
  assumes "decode_system w f3 out = Some i" and "same_head out out'"
  shows "same_result i (decode_system_rtos w f3 out')"
  using assms
  by (auto simp: decode_system_def decode_system_rtos_def same_insn_def same_head_def same_result_def Let_def split: if_splits)

lemma port_memory:
  "decode_branch w f3 out = Some i \<Longrightarrow> same_head out out' \<Longrightarrow>
     same_insn i (out'\<lparr>zcls := INSN_BRANCH, zimm := imm_b_z w\<rparr>)"
  "decode_load w f3 out = Some i \<Longrightarrow> same_head out out' \<Longrightarrow>
     same_insn i (out'\<lparr>zcls := INSN_LOAD, zimm := imm_i_z w\<rparr>)"
  "decode_store w f3 out = Some i \<Longrightarrow> same_head out out' \<Longrightarrow>
     same_insn i (out'\<lparr>zcls := INSN_STORE, zimm := imm_s_z w\<rparr>)"
  by (auto simp: decode_branch_def decode_load_def decode_store_def same_insn_def same_head_def Let_def split: if_splits)

lemma port_simple:
  assumes "same_head out out'"
  shows "same_insn (out\<lparr>cls := INSN_LUI, imm := imm_u w\<rparr>) (out'\<lparr>zcls := INSN_LUI, zimm := imm_u_z w\<rparr>)"
    and "same_insn (out\<lparr>cls := INSN_AUIPC, imm := imm_u w\<rparr>) (out'\<lparr>zcls := INSN_AUIPC, zimm := imm_u_z w\<rparr>)"
    and "same_insn (out\<lparr>cls := INSN_JAL, imm := imm_j w\<rparr>) (out'\<lparr>zcls := INSN_JAL, zimm := imm_j_z w\<rparr>)"
    and "same_insn (out\<lparr>cls := INSN_JALR, imm := imm_i w\<rparr>) (out'\<lparr>zcls := INSN_JALR, zimm := imm_i_z w\<rparr>)"
    and "c \<in> {INSN_UNSUPPORTED, INSN_FENCE, INSN_FENCE_I, INSN_FLOAT} \<Longrightarrow>
           same_insn (out\<lparr>cls := c\<rparr>) (out'\<lparr>zcls := c\<rparr>)"
  using assms by (auto simp: same_insn_def same_head_def)

lemma port_start:
  "same_head (insn_zero w p) (insn_zero_rtos w p)"
  "same_head (decode_regs w (insn_zero w p))
     ((insn_zero_rtos w p)\<lparr>zrd := unat (bits w 11 7), zrs1 := unat (bits w 19 15), zrs2 := unat (bits w 24 20)\<rparr>)"
  by (simp_all add: same_head_def insn_zero_def insn_zero_rtos_def decode_regs_def)

lemma same_result_Some [simp]: "same_result i (Some z) \<longleftrightarrow> same_insn i z"
  by (simp add: same_result_def)

lemma port_decode:
  assumes d: "merlin_decode w p = Some i" and "w AND 0x7f \<noteq> 0x1b" and "w AND 0x7f \<noteq> 0x3b"
  shows "same_result i (merlin_decode_rtos w p)"
  using assms
  unfolding merlin_decode_def merlin_decode_rtos_def bits_z_eq Let_def decode_fence_def
  by (simp split: if_split_asm)
     (auto intro!: port_simple port_start elim!: port_memory port_alui port_alur port_system)

lemma port_none:
  "decode_alui w f3 f7 out = None \<Longrightarrow> decode_op_imm w f3 f7 out' = None"
  "decode_alur f3 f7 out = None \<Longrightarrow> decode_op f3 f7 out' = None"
  by (simp_all add: decode_alui_def decode_op_imm_def decode_alur_def decode_op_def split: if_split_asm)

lemma decode_system_Some [simp]: "decode_system w f3 out = None \<longleftrightarrow> False"
  by (simp add: decode_system_def Let_def)

lemma port_extra:
  assumes "merlin_decode w p = None" and "merlin_decode_rtos w p = Some z"
  shows "zcls z \<in> {INSN_BRANCH, INSN_LOAD, INSN_STORE}"
  using assms
  unfolding merlin_decode_def merlin_decode_rtos_def bits_z_eq Let_def decode_fence_def
  by (simp split: if_split_asm) (auto simp: port_none)

subsection \<open>Agreement\<close>



end
