(* ===== verification/Zephyr_Verifier.thy ===== *)
theory Zephyr_Verifier
  imports Zephyr_Decode
begin

text \<open>
  The verifier of the Zephyr port, \<open>zephyr/merlin/src/verifier.c\<close>: one linear pass over the text that
  tracks, per register, a constant or a pointer with its offset. The pass updates the counters of the
  configuration; what it writes to the log buffer is not modelled. The configuration's buffer fields
  are left out with it. The stack cap comes from the build configuration and is an argument.
\<close>

datatype merlin_rval_kind_rtos =
  RVAL_UNKNOWN | RVAL_CONST | RVAL_PTR_CTX | RVAL_PTR_STACK | RVAL_PTR_HELPER_RET

record merlin_rval_rtos =
  zkind :: merlin_rval_kind_rtos
  zval :: u32

type_synonym merlin_vstate_rtos = "merlin_rval_rtos list"

record merlin_verifier_cfg_rtos =
  zhelper_allow :: "u8 list"
  zmax_helper_id :: u16
  zmax_stack_bytes :: u16
  zallow_back_edges :: bool
  zverbose :: bool
  insns_seen :: u32
  zrejected :: u32

definition RV_UNK :: merlin_rval_rtos where
  "RV_UNK = \<lparr>zkind = RVAL_UNKNOWN, zval = 0\<rparr>"

definition RV_CONST :: "u32 \<Rightarrow> merlin_rval_rtos" where
  "RV_CONST v = \<lparr>zkind = RVAL_CONST, zval = v\<rparr>"

definition RV_PTR_CTX :: "u32 \<Rightarrow> merlin_rval_rtos" where
  "RV_PTR_CTX v = \<lparr>zkind = RVAL_PTR_CTX, zval = v\<rparr>"

definition RV_PTR_STACK :: "u32 \<Rightarrow> merlin_rval_rtos" where
  "RV_PTR_STACK v = \<lparr>zkind = RVAL_PTR_STACK, zval = v\<rparr>"

definition vstate_init_entry_rtos :: merlin_vstate_rtos where
  "vstate_init_entry_rtos =
     (replicate 32 RV_UNK)[0 := RV_CONST 0, 10 := RV_PTR_CTX 0, 2 := RV_PTR_STACK 0]"

definition helper_allowed_rtos :: "merlin_verifier_cfg_rtos \<Rightarrow> u32 \<Rightarrow> bool" where
  "helper_allowed_rtos c i =
     (if ucast (zmax_helper_id c) < i then False
      else if 64 \<le> i div 8 then False
      else zhelper_allow c ! unat (i div 8) AND push_bit (unat (i mod 8)) 1 \<noteq> 0)"

subsection \<open>One instruction\<close>

definition count_reject :: "merlin_verifier_cfg_rtos \<Rightarrow> merlin_verifier_cfg_rtos" where
  "count_reject c = c\<lparr>zrejected := zrejected c + 1\<rparr>"

type_synonym vpass = "merlin_vstate_rtos \<times> merlin_verifier_cfg_rtos"

text \<open>The three clobber loops after a call, in their order.\<close>

definition clobber_rtos :: "merlin_vstate_rtos \<Rightarrow> merlin_vstate_rtos" where
  "clobber_rtos s = foldl (\<lambda>s r. s[r := RV_UNK]) s ([11..<18] @ [5..<8] @ [28..<32])"

definition verify_ecall :: "vpass \<Rightarrow> vpass" where
  "verify_ecall = (\<lambda>(s, c).
     let a7 = s ! 17 in
     if zkind a7 \<noteq> RVAL_CONST then (clobber_rtos s, count_reject c)
     else if \<not> helper_allowed_rtos c (zval a7) then (clobber_rtos s, count_reject c)
     else (clobber_rtos (s[10 := \<lparr>zkind = RVAL_PTR_HELPER_RET, zval = zval a7\<rparr>]), c))"

definition verify_mem :: "merlin_insn_rtos \<Rightarrow> vpass \<Rightarrow> vpass" where
  "verify_mem i = (\<lambda>(s, c).
     let k = zkind (s ! zrs1 i);
         c' = (if k = RVAL_UNKNOWN \<or> k = RVAL_CONST then count_reject c else c);
         s' = (if zcls i = INSN_LOAD \<and> zrd i \<noteq> 0 then s[zrd i := RV_UNK] else s)
     in (s', c'))"

definition verify_addi :: "merlin_insn_rtos \<Rightarrow> merlin_vstate_rtos \<Rightarrow> merlin_vstate_rtos" where
  "verify_addi i s =
     (let src = s ! zrs1 i in
      if zrs1 i = 0 then s[zrd i := RV_CONST (zimm i)]
      else if zkind src = RVAL_CONST then s[zrd i := RV_CONST (zval src + zimm i)]
      else if zkind src = RVAL_PTR_CTX \<or> zkind src = RVAL_PTR_STACK then
        s[zrd i := \<lparr>zkind = zkind src, zval = zval src + zimm i\<rparr>]
      else if zrd i \<noteq> 0 then s[zrd i := RV_UNK]
      else s)"

definition back_edge_check :: "merlin_insn_rtos \<Rightarrow> merlin_verifier_cfg_rtos \<Rightarrow> merlin_verifier_cfg_rtos" where
  "back_edge_check i c =
     (if (zcls i = INSN_JAL \<or> zcls i = INSN_BRANCH) \<and> zimm i <s 0 \<and> \<not> zallow_back_edges c
      then count_reject c else c)"

definition verify_word :: "u32 \<Rightarrow> u32 \<Rightarrow> vpass \<Rightarrow> vpass" where
  "verify_word w off = (\<lambda>(s, c0).
     case merlin_decode_rtos w off of
       None \<Rightarrow> (s, count_reject c0)
     | Some i \<Rightarrow>
         let c1 = c0\<lparr>insns_seen := insns_seen c0 + 1\<rparr> in
         if \<not> merlin_insn_permitted_rtos i then (s, count_reject c1)
         else let c = back_edge_check i c1 in
           if zcls i = INSN_ECALL then verify_ecall (s, c)
           else if zcls i = INSN_LOAD \<or> zcls i = INSN_STORE then verify_mem i (s, c)
           else if zcls i = INSN_ALU_IMM \<and> zalu_op i = ALU_ADD then (verify_addi i s, c)
           else if zcls i = INSN_LUI then (if zrd i \<noteq> 0 then s[zrd i := RV_CONST (zimm i)] else s, c)
           else if zcls i = INSN_AUIPC then (if zrd i \<noteq> 0 then s[zrd i := RV_UNK] else s, c)
           else (if zrd i \<noteq> 0 then s[zrd i := RV_UNK] else s, c))"

subsection \<open>The pass\<close>

definition word_offsets :: "u8 list \<Rightarrow> nat list" where
  "word_offsets txt = map (\<lambda>k. 4 * k) [0..<length txt div 4]"

definition verify_pass :: "u8 list \<Rightarrow> nat list \<Rightarrow> vpass \<Rightarrow> vpass" where
  "verify_pass txt offs v = foldl (\<lambda>v off. verify_word (fetch32 txt off) (of_nat off) v) v offs"

definition merlin_verify_text_rtos ::
  "u8 list \<Rightarrow> merlin_verifier_cfg_rtos \<Rightarrow> int \<times> merlin_verifier_cfg_rtos" where
  "merlin_verify_text_rtos txt c0 =
     (let c = c0\<lparr>insns_seen := 0, zrejected := 0\<rparr> in
      if length txt = 0 \<or> length txt mod 4 \<noteq> 0 then (- 1, c)
      else let c' = snd (verify_pass txt (word_offsets txt) (vstate_init_entry_rtos, c))
           in (if zrejected c' \<noteq> 0 then - 1 else 0, c'))"

definition merlin_verifier_cfg_for_prog_rtos :: "u16 \<Rightarrow> u32 \<Rightarrow> merlin_verifier_cfg_rtos" where
  "merlin_verifier_cfg_for_prog_rtos stack_cap prog_type =
     \<lparr>zhelper_allow = (replicate 64 0)[0 := 0x7e], zmax_helper_id = 64 * 8 - 1,
      zmax_stack_bytes = stack_cap, zallow_back_edges = False, zverbose = False,
      insns_seen = 0, zrejected = 0\<rparr>"

lemmas rtos_eval [merlin_defs] =
  RV_UNK_def RV_CONST_def RV_PTR_CTX_def RV_PTR_STACK_def count_reject_def

end
