(* ===== verification/Zephyr_Sound.thy ===== *)
theory Zephyr_Sound
  imports Zephyr_Verifier
begin

text \<open>
  What an accepting verdict of the Zephyr verifier means. First the verdict itself: it is 0 exactly when
  every word of the text passes the checks in the state the linear pass has reached there. Then a small
  register-level RV32 machine, with what loads, helpers and the arithmetic unit deliver as parameters,
  on which the tracked values are shown to hold as long as control falls through.
\<close>

subsection \<open>The verdict\<close>

definition rtos_ok :: "merlin_verifier_cfg_rtos \<Rightarrow> merlin_vstate_rtos \<Rightarrow> u32 \<Rightarrow> u32 \<Rightarrow> bool" where
  "rtos_ok c s w off =
     (case merlin_decode_rtos w off of
        None \<Rightarrow> False
      | Some i \<Rightarrow>
          merlin_insn_permitted_rtos i \<and>
          ((zcls i = INSN_JAL \<or> zcls i = INSN_BRANCH) \<longrightarrow> zallow_back_edges c \<or> 0 \<le>s zimm i) \<and>
          (zcls i = INSN_ECALL \<longrightarrow> zkind (s ! 17) = RVAL_CONST \<and> helper_allowed_rtos c (zval (s ! 17))) \<and>
          ((zcls i = INSN_LOAD \<or> zcls i = INSN_STORE) \<longrightarrow>
             zkind (s ! zrs1 i) \<in> {RVAL_PTR_CTX, RVAL_PTR_STACK, RVAL_PTR_HELPER_RET}))"

text \<open>The states of the pass, each with the offset of the word checked in it.\<close>

fun pass_states ::
  "merlin_verifier_cfg_rtos \<Rightarrow> u8 list \<Rightarrow> nat list \<Rightarrow> merlin_vstate_rtos \<Rightarrow> (nat \<times> merlin_vstate_rtos) list" where
  "pass_states c txt [] s = []"
| "pass_states c txt (off # offs) s =
     (off, s) # pass_states c txt offs (fst (verify_word (fetch32 txt off) (of_nat off) (s, c)))"

lemma helper_allowed_counters [simp]:
  "helper_allowed_rtos (c\<lparr>insns_seen := a\<rparr>) = helper_allowed_rtos c"
  "helper_allowed_rtos (c\<lparr>zrejected := b\<rparr>) = helper_allowed_rtos c"
  by (simp_all add: fun_eq_iff helper_allowed_rtos_def)

lemma helper_allowed_checked [simp]:
  "helper_allowed_rtos (back_edge_check i c) = helper_allowed_rtos c"
  by (simp add: back_edge_check_def count_reject_def)

lemma rtos_ok_counters [simp]:
  "rtos_ok (c\<lparr>insns_seen := a\<rparr>) = rtos_ok c" "rtos_ok (c\<lparr>zrejected := b\<rparr>) = rtos_ok c"
  by (simp_all add: fun_eq_iff rtos_ok_def split: option.split)

lemma verify_word_fst:
  "fst (verify_word w off (s, c\<lparr>insns_seen := a, zrejected := b\<rparr>)) = fst (verify_word w off (s, c))"
  by (simp add: verify_word_def verify_ecall_def verify_mem_def Let_def split: option.split)

lemma verify_word_snd:
  "snd (verify_word w off (s, c)) =
     c\<lparr>insns_seen := insns_seen c + (if merlin_decode_rtos w off = None then 0 else 1),
       zrejected := zrejected c + (if rtos_ok c s w off then 0 else 1)\<rparr>"
proof (cases "merlin_decode_rtos w off")
  case None
  then show ?thesis by (simp add: verify_word_def rtos_ok_def count_reject_def)
next
  case (Some i)
  have imm: "zimm i <s 0 \<longleftrightarrow> \<not> 0 \<le>s zimm i" by (simp add: signed.not_le)
  show ?thesis
    using Some
    by (cases "zkind (s ! zrs1 i)")
      (simp_all add: verify_word_def rtos_ok_def count_reject_def verify_ecall_def verify_mem_def
        back_edge_check_def imm Let_def)
qed

lemma verify_pass_Cons:
  "verify_pass txt (off # offs) v = verify_pass txt offs (verify_word (fetch32 txt off) (of_nat off) v)"
  by (simp add: verify_pass_def)

lemma verify_pass_Nil [simp]: "verify_pass txt [] v = v"
  by (simp add: verify_pass_def)

lemma pass_states_counters:
  "pass_states (c\<lparr>insns_seen := a, zrejected := b\<rparr>) txt offs s = pass_states c txt offs s"
  by (induction offs arbitrary: s) (simp_all add: verify_word_fst)

definition rejected_words :: "merlin_verifier_cfg_rtos \<Rightarrow> u8 list \<Rightarrow> (nat \<times> merlin_vstate_rtos) list \<Rightarrow> nat" where
  "rejected_words c txt ps =
     length (filter (\<lambda>(off, s). \<not> rtos_ok c s (fetch32 txt off) (of_nat off)) ps)"

lemma verify_pass_rejected:
  "zrejected (snd (verify_pass txt offs (s, c))) =
     zrejected c + of_nat (rejected_words c txt (pass_states c txt offs s))"
proof (induction offs arbitrary: s c)
  case (Cons off offs)
  obtain s' c' where v: "verify_word (fetch32 txt off) (of_nat off) (s, c) = (s', c')"
    by fastforce
  then have c': "c' = c\<lparr>insns_seen := insns_seen c + (if merlin_decode_rtos (fetch32 txt off) (of_nat off) = None then 0 else 1),
       zrejected := zrejected c + (if rtos_ok c s (fetch32 txt off) (of_nat off) then 0 else 1)\<rparr>"
    using verify_word_snd [of "fetch32 txt off" "of_nat off" s c] by simp
  show ?case
    unfolding verify_pass_Cons v Cons.IH
    unfolding c' pass_states_counters
    by (simp add: rejected_words_def v case_prod_unfold)
qed (simp add: rejected_words_def)

lemma length_pass_states [simp]: "length (pass_states c txt offs s) = length offs"
  by (induction offs arbitrary: s) simp_all

lemma rejected_words_le: "rejected_words c txt (pass_states c txt offs s) \<le> length offs"
  unfolding rejected_words_def using length_filter_le [of _ "pass_states c txt offs s"] by simp

definition rtos_states :: "merlin_verifier_cfg_rtos \<Rightarrow> u8 list \<Rightarrow> (nat \<times> merlin_vstate_rtos) list" where
  "rtos_states c txt = pass_states c txt (word_offsets txt) vstate_init_entry_rtos"

lemma verdict_iff:
  assumes "length txt < 2 ^ 34"
  shows "fst (merlin_verify_text_rtos txt c) = 0 \<longleftrightarrow>
    txt \<noteq> [] \<and> 4 dvd length txt \<and>
    (\<forall>(off, s) \<in> set (rtos_states c txt). rtos_ok c s (fetch32 txt off) (of_nat off))"
proof -
  let ?n = "rejected_words c txt (rtos_states c txt)"
  have "?n \<le> length txt div 4"
    using rejected_words_le [of c "txt" "word_offsets txt"] by (simp add: rtos_states_def word_offsets_def)
  then have "?n < 2 ^ 32" using assms by simp
  then have z: "(of_nat ?n :: u32) = 0 \<longleftrightarrow> ?n = 0"
    using nat_dvd_not_less [of ?n "2 ^ 32"] by (auto simp: word_of_nat_eq_0_iff)
  have rej: "zrejected (snd (verify_pass txt (word_offsets txt)
      (vstate_init_entry_rtos, c\<lparr>insns_seen := 0, zrejected := 0\<rparr>))) = of_nat ?n"
    unfolding verify_pass_rejected pass_states_counters
    by (simp add: rejected_words_def rtos_states_def)
  have "?n = 0 \<longleftrightarrow> (\<forall>(off, s) \<in> set (rtos_states c txt). rtos_ok c s (fetch32 txt off) (of_nat off))"
    by (auto simp: rejected_words_def filter_empty_conv)
  with z rej show ?thesis
    by (auto simp: merlin_verify_text_rtos_def Let_def dvd_eq_mod_eq_0)
qed

subsection \<open>A register machine\<close>

text \<open>
  What the program text does not determine: the value a load delivers, the result of an arithmetic
  instruction, the registers after a helper call, whether a branch is taken.
\<close>

record rv_env =
  ld_value :: "nat \<Rightarrow> u32 \<Rightarrow> u32"
  alu_value :: "merlin_insn_rtos \<Rightarrow> (nat \<Rightarrow> u32) \<Rightarrow> u32"
  helper_regs :: "nat \<Rightarrow> (nat \<Rightarrow> u32) \<Rightarrow> nat \<Rightarrow> u32"
  taken :: "merlin_insn_rtos \<Rightarrow> (nat \<Rightarrow> u32) \<Rightarrow> bool"

record rv_mach =
  mreg :: "nat \<Rightarrow> u32"
  returned :: "u32 list"

datatype rv_event = Ev_call u32 | Ev_access u32 "u32 list"

definition rv_write :: "nat \<Rightarrow> u32 \<Rightarrow> rv_mach \<Rightarrow> rv_mach" where
  "rv_write r v m = (if r = 0 then m else m\<lparr>mreg := (mreg m)(r := v)\<rparr>)"

definition caller_saved_rtos :: "nat \<Rightarrow> bool" where
  "caller_saved_rtos r \<longleftrightarrow> 10 \<le> r \<and> r \<le> 17 \<or> 5 \<le> r \<and> r \<le> 7 \<or> 28 \<le> r \<and> r \<le> 31"

definition rv_step :: "rv_env \<Rightarrow> nat \<Rightarrow> merlin_insn_rtos \<Rightarrow> rv_mach \<Rightarrow> rv_event list \<times> rv_mach" where
  "rv_step e off i m =
     (if zcls i = INSN_ECALL then
        let new = helper_regs e off (mreg m)
        in ([Ev_call (mreg m 17)],
            \<lparr>mreg = (\<lambda>r. if caller_saved_rtos r then new r else mreg m r), returned = new 10 # returned m\<rparr>)
      else if zcls i = INSN_LOAD then
        ([Ev_access (mreg m (zrs1 i)) (returned m)],
         rv_write (zrd i) (ld_value e off (mreg m (zrs1 i) + zimm i)) m)
      else if zcls i = INSN_STORE then ([Ev_access (mreg m (zrs1 i)) (returned m)], m)
      else if zcls i = INSN_ALU_IMM \<and> zalu_op i = ALU_ADD then
        ([], rv_write (zrd i) (mreg m (zrs1 i) + zimm i) m)
      else if zcls i = INSN_LUI then ([], rv_write (zrd i) (zimm i) m)
      else if zcls i = INSN_BRANCH \<or> zcls i = INSN_FENCE then ([], m)
      else ([], rv_write (zrd i) (alu_value e i (mreg m)) m))"

text \<open>The events of a run while control falls through: a jump or a taken branch ends the trace.\<close>

fun rv_fall :: "rv_env \<Rightarrow> u8 list \<Rightarrow> nat list \<Rightarrow> rv_mach \<Rightarrow> (nat \<times> rv_event) list" where
  "rv_fall e txt [] m = []"
| "rv_fall e txt (off # offs) m =
     (case merlin_decode_rtos (fetch32 txt off) (of_nat off) of
        None \<Rightarrow> []
      | Some i \<Rightarrow>
          if zcls i = INSN_JAL \<or> zcls i = INSN_JALR \<or> zcls i = INSN_BRANCH \<and> taken e i (mreg m) then []
          else map (Pair off) (fst (rv_step e off i m)) @ rv_fall e txt offs (snd (rv_step e off i m)))"

subsection \<open>The tracked values hold\<close>

definition holds_value :: "u32 \<Rightarrow> u32 \<Rightarrow> u32 list \<Rightarrow> merlin_rval_rtos \<Rightarrow> u32 \<Rightarrow> bool" where
  "holds_value ctx sp rets v x =
     (case zkind v of
        RVAL_UNKNOWN \<Rightarrow> True
      | RVAL_CONST \<Rightarrow> x = zval v
      | RVAL_PTR_CTX \<Rightarrow> x = ctx + zval v
      | RVAL_PTR_STACK \<Rightarrow> x = sp + zval v
      | RVAL_PTR_HELPER_RET \<Rightarrow> x \<in> set rets)"

definition tracks :: "u32 \<Rightarrow> u32 \<Rightarrow> merlin_vstate_rtos \<Rightarrow> rv_mach \<Rightarrow> bool" where
  "tracks ctx sp s m \<longleftrightarrow> length s = 32 \<and> mreg m 0 = 0 \<and>
     (\<forall>r < 32. holds_value ctx sp (returned m) (s ! r) (mreg m r))"

text \<open>An \<open>addi\<close> that names \<open>x0\<close> as its destination is the canonical \<open>nop\<close>.\<close>

definition nop_form :: "merlin_insn_rtos \<Rightarrow> bool" where
  "nop_form i \<longleftrightarrow> (zcls i = INSN_ALU_IMM \<and> zalu_op i = ALU_ADD \<and> zrd i = 0 \<longrightarrow> zrs1 i = 0 \<and> zimm i = 0)"

lemma holds_unk [simp]: "holds_value ctx sp rets RV_UNK x"
  by (simp add: holds_value_def RV_UNK_def)

lemma holds_const [simp]: "holds_value ctx sp rets (RV_CONST v) x \<longleftrightarrow> x = v"
  by (simp add: holds_value_def RV_CONST_def)

lemma holds_more: "holds_value ctx sp rets v x \<Longrightarrow> holds_value ctx sp (y # rets) v x"
  by (auto simp: holds_value_def split: merlin_rval_kind_rtos.splits)

lemma tracks_write:
  assumes "tracks ctx sp s m" and "r < 32" and "r \<noteq> 0" and "holds_value ctx sp (returned m) v x"
  shows "tracks ctx sp (s[r := v]) (rv_write r x m)"
  using assms by (auto simp: tracks_def rv_write_def nth_list_update)

lemma tracks_forget: "tracks ctx sp s m \<Longrightarrow> tracks ctx sp (s[r := RV_UNK]) m"
  by (cases "r < 32") (auto simp: tracks_def nth_list_update)

lemma nth_forget:
  "length (foldl (\<lambda>s r. s[r := v]) s rs) = length s"
  "r < length s \<Longrightarrow> foldl (\<lambda>s r. s[r := v]) s rs ! r = (if r \<in> set rs then v else s ! r)"
  by (induction rs arbitrary: s) (auto simp: nth_list_update)

lemma clobber_nth:
  assumes "length s = 32" and "r < 32"
  shows "clobber_rtos s ! r = (if caller_saved_rtos r \<and> r \<noteq> 10 then RV_UNK else s ! r)"
  unfolding clobber_rtos_def
  using assms by (subst nth_forget) (auto simp: caller_saved_rtos_def)

lemma length_clobber [simp]: "length (clobber_rtos s) = length s"
  by (simp add: clobber_rtos_def nth_forget)

lemma tracks_call:
  assumes "tracks ctx sp s m"
  shows "tracks ctx sp (clobber_rtos (s[10 := \<lparr>zkind = RVAL_PTR_HELPER_RET, zval = k\<rparr>]))
     \<lparr>mreg = (\<lambda>r. if caller_saved_rtos r then new r else mreg m r), returned = new 10 # returned m\<rparr>"
proof -
  have c10: "caller_saved_rtos 10" and "\<not> caller_saved_rtos 0" by (simp_all add: caller_saved_rtos_def)
  have "holds_value ctx sp (new 10 # returned m)
      (clobber_rtos (s[10 := \<lparr>zkind = RVAL_PTR_HELPER_RET, zval = k\<rparr>]) ! r)
      (if caller_saved_rtos r then new r else mreg m r)" if "r < 32" for r
    using assms that c10
    by (cases "r = 10") (auto simp: tracks_def clobber_nth holds_more, simp add: holds_value_def)
  with \<open>\<not> caller_saved_rtos 0\<close> show ?thesis using assms by (simp add: tracks_def)
qed

lemma tracks_addi:
  assumes t: "tracks ctx sp s m" and i: "zrs1 i < 32" "zrd i < 32"
    and n: "zrd i = 0 \<Longrightarrow> zrs1 i = 0 \<and> zimm i = 0"
  shows "tracks ctx sp (verify_addi i s) (rv_write (zrd i) (mreg m (zrs1 i) + zimm i) m)"
proof (cases "zrd i = 0")
  case True
  with n [OF True] t show ?thesis
    by (auto simp: verify_addi_def tracks_def rv_write_def nth_list_update Let_def)
next
  case False
  have h: "holds_value ctx sp (returned m) (s ! zrs1 i) (mreg m (zrs1 i))" "mreg m 0 = 0"
    using t i by (auto simp: tracks_def)
  have "\<exists>v. verify_addi i s = s[zrd i := v] \<and> holds_value ctx sp (returned m) v (mreg m (zrs1 i) + zimm i)"
  proof (cases "zrs1 i = 0")
    case True
    then show ?thesis using h(2) by (auto simp: verify_addi_def Let_def)
  next
    case nz: False
    show ?thesis
      using h(1) nz False
      by (cases "zkind (s ! zrs1 i)") (auto simp: verify_addi_def holds_value_def RV_UNK_def RV_CONST_def Let_def)
  qed
  then show ?thesis using tracks_write [OF t i(2) False] by auto
qed

lemma step_tracks:
  assumes d: "merlin_decode_rtos w off = Some i" and ok: "rtos_ok c s w off" and n: "nop_form i"
    and t: "tracks ctx sp s m" and c: "zcls i \<noteq> INSN_JAL" "zcls i \<noteq> INSN_JALR"
  shows "tracks ctx sp (fst (verify_word w off (s, c))) (snd (rv_step e k i m))"
proof -
  note lt = merlin_decode_rtos_fields(3-5) [OF d]
  have "tracks ctx sp (s[zrd i := RV_UNK]) (rv_write (zrd i) x m)" if "zrd i \<noteq> 0" for x
    by (rule tracks_write [OF t lt(1) that]) simp
  moreover have "tracks ctx sp (s[zrd i := RV_CONST (zimm i)]) (rv_write (zrd i) (zimm i) m)" if "zrd i \<noteq> 0"
    by (rule tracks_write [OF t lt(1) that]) simp
  moreover have "rv_write 0 x m = m" for x by (simp add: rv_write_def)
  moreover have "tracks ctx sp (verify_addi i s) (rv_write (zrd i) (mreg m (zrs1 i) + zimm i) m)"
    if "zcls i = INSN_ALU_IMM" "zalu_op i = ALU_ADD"
    using tracks_addi [OF t lt(2,1)] n that by (simp add: nop_form_def)
  ultimately show ?thesis
    using d ok t c tracks_forget [OF t, of "zrd i"] tracks_call [OF t]
    by (cases "zrd i = 0")
      (simp_all add: verify_word_def verify_ecall_def verify_mem_def rtos_ok_def rv_step_def Let_def)
qed

definition nops_plain :: "u8 list \<Rightarrow> bool" where
  "nops_plain txt =
     list_all (\<lambda>off. case merlin_decode_rtos (fetch32 txt off) (of_nat off) of
        None \<Rightarrow> True | Some i \<Rightarrow> nop_form i) (word_offsets txt)"

definition event_ok ::
  "merlin_verifier_cfg_rtos \<Rightarrow> u32 \<Rightarrow> u32 \<Rightarrow> merlin_vstate_rtos \<Rightarrow> merlin_insn_rtos \<Rightarrow> rv_event \<Rightarrow> bool" where
  "event_ok c ctx sp s i ev =
     (case ev of
        Ev_call k \<Rightarrow> helper_allowed_rtos c k
      | Ev_access b rets \<Rightarrow>
          (case zkind (s ! zrs1 i) of
             RVAL_PTR_CTX \<Rightarrow> b = ctx + zval (s ! zrs1 i)
           | RVAL_PTR_STACK \<Rightarrow> b = sp + zval (s ! zrs1 i)
           | RVAL_PTR_HELPER_RET \<Rightarrow> b \<in> set rets
           | _ \<Rightarrow> False))"

lemma step_event_ok:
  assumes d: "merlin_decode_rtos w off = Some i" and ok: "rtos_ok c s w off"
    and t: "tracks ctx sp s m" and ev: "ev \<in> set (fst (rv_step e k i m))"
  shows "event_ok c ctx sp s i ev"
proof -
  have lt: "zrs1 i < 32" by (rule merlin_decode_rtos_fields(4) [OF d])
  have "holds_value ctx sp (returned m) (s ! 17) (mreg m 17)"
      "holds_value ctx sp (returned m) (s ! zrs1 i) (mreg m (zrs1 i))"
    using t lt by (simp_all add: tracks_def)
  then show ?thesis
    using d ok ev
    by (auto simp: rv_step_def event_ok_def rtos_ok_def holds_value_def Let_def split: if_splits)
qed

lemma fall_sound:
  assumes "\<forall>(off, s) \<in> set (pass_states c txt offs s). rtos_ok c s (fetch32 txt off) (of_nat off)"
    and "\<forall>off \<in> set offs. \<forall>i. merlin_decode_rtos (fetch32 txt off) (of_nat off) = Some i \<longrightarrow> nop_form i"
    and "tracks ctx sp s m" and "(off, ev) \<in> set (rv_fall e txt offs m)"
  shows "\<exists>s' i. (off, s') \<in> set (pass_states c txt offs s) \<and>
     merlin_decode_rtos (fetch32 txt off) (of_nat off) = Some i \<and> event_ok c ctx sp s' i ev"
  using assms
proof (induction offs arbitrary: s m)
  case (Cons o1 offs)
  let ?v = "fst (verify_word (fetch32 txt o1) (of_nat o1) (s, c))"
  from Cons.prems(4) obtain i where d: "merlin_decode_rtos (fetch32 txt o1) (of_nat o1) = Some i"
    and c: "zcls i \<noteq> INSN_JAL" "zcls i \<noteq> INSN_JALR"
    and m: "off = o1 \<and> ev \<in> set (fst (rv_step e o1 i m)) \<or>
            (off, ev) \<in> set (rv_fall e txt offs (snd (rv_step e o1 i m)))"
    by (cases "merlin_decode_rtos (fetch32 txt o1) (of_nat o1)") (auto split: if_splits)
  have ok: "rtos_ok c s (fetch32 txt o1) (of_nat o1)" using Cons.prems(1) by simp
  from m show ?case
  proof
    assume "off = o1 \<and> ev \<in> set (fst (rv_step e o1 i m))"
    then show ?thesis
      using d step_event_ok [OF d ok Cons.prems(3)] by auto
  next
    assume r: "(off, ev) \<in> set (rv_fall e txt offs (snd (rv_step e o1 i m)))"
    have "nop_form i" using Cons.prems(2) d by simp
    from Cons.IH [OF _ _ step_tracks [OF d ok this Cons.prems(3) c] r] Cons.prems(1,2)
    show ?thesis by fastforce
  qed
qed simp

lemma tracks_entry:
  assumes "mreg m 0 = 0"
  shows "tracks (mreg m 10) (mreg m 2) vstate_init_entry_rtos m"
  using assms
  by (auto simp: tracks_def vstate_init_entry_rtos_def nth_list_update holds_value_def
      RV_UNK_def RV_CONST_def RV_PTR_CTX_def RV_PTR_STACK_def)

subsection \<open>Properties\<close>

text \<open>
  The verdict of the linear pass is exact. For every text shorter than 2^34 bytes the pass returns 0
  if and only if the text is a non-empty sequence of whole words each of which decodes to a permitted
  instruction that passes the back-edge, helper and pointer checks in the state the pass reached there;
  the 32-bit rejection counter never wraps to a false acceptance.
\<close>

theorem rtos_verdict_exact:
  assumes "length txt < 2 ^ 34"
  shows "fst (merlin_verify_text_rtos txt c) = 0 \<longleftrightarrow>
    txt \<noteq> [] \<and> 4 dvd length txt \<and>
    (\<forall>(off, s) \<in> set (rtos_states c txt). rtos_ok c s (fetch32 txt off) (of_nat off))"
  by (rule verdict_iff [OF assms])

text \<open>The text \<open>lw t0, 4(a0); addi a7, x0, 2; ecall; ret\<close> of a small probe.\<close>

definition probe_text :: "u8 list" where
  "probe_text = [0x83, 0x22, 0x45, 0x00, 0x93, 0x08, 0x20, 0x00, 0x73, 0x00, 0x00, 0x00, 0x67, 0x80, 0x00, 0x00]"

theorem rtos_verdict_exact_witness:
  "list_all (\<lambda>(off, s). rtos_ok (merlin_verifier_cfg_for_prog_rtos 256 2) s (fetch32 probe_text off) (of_nat off))
     (rtos_states (merlin_verifier_cfg_for_prog_rtos 256 2) probe_text)"
proof -
  have "fst (merlin_verify_text_rtos probe_text (merlin_verifier_cfg_for_prog_rtos 256 2)) = 0"
    by code_simp
  moreover have "length probe_text < 2 ^ 34" by (simp add: probe_text_def)
  ultimately show ?thesis using rtos_verdict_exact by (simp add: list_all_iff)
qed


definition quiet_env :: rv_env where
  "quiet_env = \<lparr>ld_value = (\<lambda>_ _. 7), alu_value = (\<lambda>_ _. 0), helper_regs = (\<lambda>_ _ _. 0x1000), taken = (\<lambda>_ _. False)\<rparr>"

definition start_mach :: rv_mach where
  "start_mach = \<lparr>mreg = (\<lambda>r. if r = 10 then 0x2000 else if r = 2 then 0x3000 else 0), returned = []\<rparr>"


text \<open>
  What the pass does not see. It accepts \<open>addi x0, sp, 0; lw t0, 0(x0)\<close>, because an \<open>addi\<close> may overwrite
  the tracked \<open>x0\<close>, although the hardware reads address 0; it accepts \<open>beq x0, x0, +8; mv t0, a0; lw t1,
  0(t0)\<close>, whose load runs with an unwritten \<open>t0\<close>; and it accepts \<open>jal x0, 0\<close>, which never ends.
\<close>

theorem rtos_pass_blind_spots:
  "map (\<lambda>txt. fst (merlin_verify_text_rtos txt (merlin_verifier_cfg_for_prog_rtos 256 0)))
     [[0x13, 0x00, 0x01, 0x00, 0x83, 0x22, 0x00, 0x00],
      [0x63, 0x04, 0x00, 0x00, 0x93, 0x02, 0x05, 0x00, 0x03, 0xa3, 0x02, 0x00],
      [0x6f, 0x00, 0x00, 0x00]] = [0, 0, 0] \<and>
   rv_fall quiet_env [0x13, 0x00, 0x01, 0x00, 0x83, 0x22, 0x00, 0x00] [0, 4] start_mach = [(4, Ev_access 0 [])]"
  by code_simp

end
