(* ===== verification/Zephyr_Runtime.thy ===== *)
theory Zephyr_Runtime
  imports Zephyr_Sound Elf_Strings
begin

text \<open>
  The Zephyr runtime: the ELF walk and the load and unload calls of \<open>zephyr/merlin/src/loader.c\<close> and the
  slot table, the text buffers and the run path of \<open>zephyr/merlin/src/runtime.c\<close>. A program handle is the
  index of its slot. The heap maps buffer addresses to their bytes; the address \<open>k_malloc\<close> returns (or its
  failure) is an argument, as are the build configuration and what the text computes when it is called.
  A read outside the blob or a call into a freed buffer is the outcome \<open>Z_fault\<close>. Each call is one step:
  the mutex and the cache flush are not modelled.
\<close>

datatype 'a zresult = Z_fault | Z_err int | Z_ok 'a

abbreviation (input) MERLIN_ERR_INVAL :: int where "MERLIN_ERR_INVAL \<equiv> - 1"
abbreviation (input) MERLIN_ERR_E2BIG :: int where "MERLIN_ERR_E2BIG \<equiv> - 2"
abbreviation (input) MERLIN_ERR_NOMEM :: int where "MERLIN_ERR_NOMEM \<equiv> - 3"
abbreviation (input) MERLIN_ERR_VERIFY :: int where "MERLIN_ERR_VERIFY \<equiv> - 4"
abbreviation (input) MERLIN_ERR_NOTSUP :: int where "MERLIN_ERR_NOTSUP \<equiv> - 5"
abbreviation (input) MERLIN_ERR_NOTFOUND :: int where "MERLIN_ERR_NOTFOUND \<equiv> - 6"
abbreviation (input) MERLIN_ERR_BUSY :: int where "MERLIN_ERR_BUSY \<equiv> - 7"

text \<open>\<open>CONFIG_MERLIN_MAX_PROG_BYTES\<close>, \<open>CONFIG_MERLIN_MAX_STACK_BYTES\<close>, \<open>CONFIG_RISCV\<close>.\<close>

record kconfig =
  max_prog_bytes :: nat
  max_stack :: u16
  is_riscv :: bool

subsection \<open>The ELF walk\<close>

record Elf32_Ehdr =
  e_ident32 :: "u8 list"
  e_type32 :: u16
  e_machine32 :: u16
  e_shoff32 :: u32
  e_shentsize32 :: u16
  e_shnum32 :: u16
  e_shstrndx32 :: u16

record Elf32_Shdr =
  sh_name32 :: u32
  sh_type32 :: u32
  sh_offset32 :: u32
  sh_size32 :: u32

abbreviation (input) ehdr32_size :: nat where "ehdr32_size \<equiv> 52"
abbreviation (input) shdr32_size :: nat where "shdr32_size \<equiv> 40"

definition read_ehdr32 :: "u8 list \<Rightarrow> Elf32_Ehdr" where
  "read_ehdr32 blob =
     \<lparr>e_ident32 = field 0 16 blob, e_type32 = le_word (field 16 2 blob),
      e_machine32 = le_word (field 18 2 blob), e_shoff32 = le_word (field 32 4 blob),
      e_shentsize32 = le_word (field 46 2 blob), e_shnum32 = le_word (field 48 2 blob),
      e_shstrndx32 = le_word (field 50 2 blob)\<rparr>"

definition shdr_pos :: "Elf32_Ehdr \<Rightarrow> nat \<Rightarrow> nat" where
  "shdr_pos eh i = unat (e_shoff32 eh) + i * unat (e_shentsize32 eh)"

definition read_shdr32 :: "u8 list \<Rightarrow> Elf32_Ehdr \<Rightarrow> nat \<Rightarrow> Elf32_Shdr" where
  "read_shdr32 blob eh i =
     (let off = shdr_pos eh i in
      \<lparr>sh_name32 = le_word (field off 4 blob), sh_type32 = le_word (field (off + 4) 4 blob),
       sh_offset32 = le_word (field (off + 16) 4 blob), sh_size32 = le_word (field (off + 20) 4 blob)\<rparr>)"

definition ehdr32_ok :: "u8 list \<Rightarrow> Elf32_Ehdr \<Rightarrow> bool" where
  "ehdr32_ok blob eh \<longleftrightarrow>
     take 4 (e_ident32 eh) = [0x7f, 0x45, 0x4c, 0x46] \<and> e_ident32 eh ! 4 = 1 \<and> e_ident32 eh ! 5 = 1 \<and>
     e_type32 eh = 1 \<and> e_machine32 eh = 243 \<and> shdr32_size \<le> unat (e_shentsize32 eh) \<and>
     unat (e_shoff32 eh) + unat (e_shnum32 eh) * unat (e_shentsize32 eh) \<le> length blob \<and>
     e_shstrndx32 eh \<noteq> 0 \<and> e_shstrndx32 eh < e_shnum32 eh"

fun scan_sections32 ::
  "u8 list \<Rightarrow> Elf32_Ehdr \<Rightarrow> Elf32_Shdr \<Rightarrow> nat list \<Rightarrow> (nat \<times> nat) zresult" where
  "scan_sections32 blob eh shstr [] = Z_err MERLIN_ERR_NOTFOUND"
| "scan_sections32 blob eh shstr (i # is) =
     (let sh = read_shdr32 blob eh i in
      if sh_type32 sh \<noteq> 1 then scan_sections32 blob eh shstr is
      else if sh_size32 shstr \<le> sh_name32 sh then scan_sections32 blob eh shstr is
      else let sname = unat (sh_offset32 shstr) + unat (sh_name32 sh) in
        case prefix_at blob sname MERLIN_TEXT_PREFIX of
          None \<Rightarrow> Z_fault
        | Some False \<Rightarrow> scan_sections32 blob eh shstr is
        | Some True \<Rightarrow>
            if length blob < unat (sh_offset32 sh) + unat (sh_size32 sh) then Z_err MERLIN_ERR_INVAL
            else if \<not> cstr_readable blob sname 63 then Z_fault
            else Z_ok (unat (sh_offset32 sh), unat (sh_size32 sh)))"

definition find_first_text_section :: "u8 list \<Rightarrow> (nat \<times> nat) zresult" where
  "find_first_text_section blob =
     (if length blob < ehdr32_size then Z_err MERLIN_ERR_INVAL
      else let eh = read_ehdr32 blob in
        if \<not> ehdr32_ok blob eh then Z_err MERLIN_ERR_INVAL
        else let shstr = read_shdr32 blob eh (unat (e_shstrndx32 eh)) in
          if sh_type32 shstr \<noteq> 3 \<or> length blob < unat (sh_offset32 shstr) + unat (sh_size32 shstr)
          then Z_err MERLIN_ERR_INVAL
          else scan_sections32 blob eh shstr [1..<unat (e_shnum32 eh)])"

subsection \<open>Slots and buffers\<close>

record merlin_prog_rtos =
  in_use :: bool
  slot_id :: u32
  slot_text_bytes :: u32
  slot_type :: u32
  slot_name :: "u8 list"
  slot_text :: "nat option"
  text_alloc :: u32
  slot_fn :: "nat option"
  slot_run_cnt :: u64
  slot_run_time_ns :: u64

record runtime =
  prog_slots :: "merlin_prog_rtos list"
  next_prog_id :: u32
  runtime_inited :: bool
  buffers :: "nat \<rightharpoonup> u8 list"

definition slot_zero :: merlin_prog_rtos where
  "slot_zero = \<lparr>in_use = False, slot_id = 0, slot_text_bytes = 0, slot_type = 0, slot_name = replicate 16 0,
     slot_text = None, text_alloc = 0, slot_fn = None, slot_run_cnt = 0, slot_run_time_ns = 0\<rparr>"

definition merlin_init :: "runtime \<Rightarrow> runtime" where
  "merlin_init st =
     (if runtime_inited st then st
      else st\<lparr>prog_slots := replicate (length (prog_slots st)) slot_zero, next_prog_id := 1,
              runtime_inited := True\<rparr>)"

definition first_slot :: "(merlin_prog_rtos \<Rightarrow> bool) \<Rightarrow> runtime \<Rightarrow> nat option" where
  "first_slot P st = find (\<lambda>i. P (prog_slots st ! i)) [0..<length (prog_slots st)]"

definition merlin_alloc_slot :: "runtime \<Rightarrow> nat option \<times> runtime" where
  "merlin_alloc_slot st =
     (case first_slot (\<lambda>p. \<not> in_use p) st of
        None \<Rightarrow> (None, st)
      | Some i \<Rightarrow>
          (Some i, st\<lparr>prog_slots := (prog_slots st)[i := slot_zero\<lparr>in_use := True, slot_id := next_prog_id st\<rparr>],
                      next_prog_id := next_prog_id st + 1\<rparr>))"

definition upd_slot :: "nat \<Rightarrow> (merlin_prog_rtos \<Rightarrow> merlin_prog_rtos) \<Rightarrow> runtime \<Rightarrow> runtime" where
  "upd_slot i f st = st\<lparr>prog_slots := (prog_slots st)[i := f (prog_slots st ! i)]\<rparr>"

definition merlin_free_slot :: "nat \<Rightarrow> runtime \<Rightarrow> runtime" where
  "merlin_free_slot i = upd_slot i (\<lambda>p. p\<lparr>in_use := False\<rparr>)"

definition merlin_prog_get_by_id_rtos :: "u32 \<Rightarrow> runtime \<Rightarrow> nat option" where
  "merlin_prog_get_by_id_rtos k st = first_slot (\<lambda>p. in_use p \<and> slot_id p = k) st"

definition merlin_runtime_install :: "nat option \<Rightarrow> nat \<Rightarrow> u8 list \<Rightarrow> runtime \<Rightarrow> int \<times> runtime" where
  "merlin_runtime_install buf i txt st =
     (case buf of
        None \<Rightarrow> (MERLIN_ERR_NOMEM, st)
      | Some a \<Rightarrow>
          (0, upd_slot i (\<lambda>p. p\<lparr>slot_text := Some a, text_alloc := of_nat (length txt),
                               slot_text_bytes := of_nat (length txt), slot_fn := Some a\<rparr>)
                (st\<lparr>buffers := (buffers st)(a \<mapsto> txt)\<rparr>)))"

definition merlin_runtime_uninstall :: "nat \<Rightarrow> runtime \<Rightarrow> runtime" where
  "merlin_runtime_uninstall i st =
     (case slot_text (prog_slots st ! i) of
        None \<Rightarrow> upd_slot i (\<lambda>p. p\<lparr>slot_fn := None\<rparr>) st
      | Some a \<Rightarrow>
          upd_slot i (\<lambda>p. p\<lparr>slot_text := None, text_alloc := 0, slot_fn := None\<rparr>)
            (st\<lparr>buffers := (buffers st)(a := None)\<rparr>))"

subsection \<open>The API calls\<close>

record merlin_load_attr_rtos =
  l_prog_type :: u32
  l_flags :: u32
  l_name :: "u8 list"

record merlin_load_info =
  info_prog_id :: u32
  info_text_bytes :: u32
  info_verified_insns :: u32
  info_rejected :: u32

definition strncpy :: "nat \<Rightarrow> u8 list \<Rightarrow> u8 list" where
  "strncpy n src = (let s = takeWhile (\<lambda>c. c \<noteq> 0) (take n src) in s @ replicate (n - length s) 0)"

definition merlin_prog_name :: "u8 list" where
  "merlin_prog_name = [0x6d, 0x65, 0x72, 0x6c, 0x69, 0x6e, 0x2d, 0x70, 0x72, 0x6f, 0x67, 0]"

definition name_slot :: "merlin_load_attr_rtos option \<Rightarrow> merlin_prog_rtos \<Rightarrow> merlin_prog_rtos" where
  "name_slot attr p =
     (let src = (case attr of Some a \<Rightarrow> if l_name a ! 0 \<noteq> 0 then l_name a else merlin_prog_name
                            | None \<Rightarrow> merlin_prog_name)
      in p\<lparr>slot_name := strncpy 15 src @ drop 15 (slot_name p),
           slot_type := (case attr of Some a \<Rightarrow> l_prog_type a | None \<Rightarrow> 0)\<rparr>)"

definition install_prog ::
  "nat option \<Rightarrow> merlin_load_attr_rtos option \<Rightarrow> u8 list \<Rightarrow> merlin_load_info \<Rightarrow> runtime
     \<Rightarrow> nat zresult \<times> merlin_load_info \<times> runtime" where
  "install_prog buf attr txt info st =
     (case merlin_alloc_slot st of
        (None, st1) \<Rightarrow> (Z_err MERLIN_ERR_NOMEM, info, st1)
      | (Some i, st1) \<Rightarrow>
          let st2 = upd_slot i (name_slot attr) st1;
              (rc, st3) = merlin_runtime_install buf i txt st2
          in if rc \<noteq> 0 then (Z_err rc, info, merlin_free_slot i st3)
             else (Z_ok i, info\<lparr>info_prog_id := slot_id (prog_slots st3 ! i)\<rparr>, st3))"

definition verify_and_install ::
  "kconfig \<Rightarrow> nat option \<Rightarrow> merlin_load_attr_rtos option \<Rightarrow> u8 list \<Rightarrow> runtime
     \<Rightarrow> nat zresult \<times> merlin_load_info \<times> runtime" where
  "verify_and_install k buf attr txt st =
     (let pt = (case attr of Some a \<Rightarrow> l_prog_type a | None \<Rightarrow> 0);
          (rc, vc) = merlin_verify_text_rtos txt (merlin_verifier_cfg_for_prog_rtos (max_stack k) pt);
          info = \<lparr>info_prog_id = 0, info_text_bytes = of_nat (length txt),
                  info_verified_insns = insns_seen vc, info_rejected = zrejected vc\<rparr>
      in if rc < 0 then (Z_err MERLIN_ERR_VERIFY, info, st)
         else install_prog buf attr txt info st)"

text \<open>The call with its pointer arguments: \<open>None\<close> is NULL; \<open>info\<close> keeps its old contents on the early returns.\<close>

definition merlin_prog_load_rtos ::
  "kconfig \<Rightarrow> nat option \<Rightarrow> u8 list option \<Rightarrow> merlin_load_attr_rtos option \<Rightarrow> merlin_load_info option \<Rightarrow> bool
     \<Rightarrow> runtime \<Rightarrow> nat zresult \<times> merlin_load_info option \<times> runtime" where
  "merlin_prog_load_rtos k buf blob attr info prog_out st =
     (case (blob, info) of
        (Some bs, Some _) \<Rightarrow>
          if bs = [] \<or> \<not> prog_out then (Z_err MERLIN_ERR_INVAL, info, st)
          else if 64 * 1024 < int (length bs) then (Z_err MERLIN_ERR_E2BIG, info, st)
          else (case find_first_text_section bs of
                  Z_fault \<Rightarrow> (Z_fault, info, st)
                | Z_err e \<Rightarrow> (Z_err e, info, st)
                | Z_ok (off, len) \<Rightarrow>
                    if len = 0 \<or> len mod 4 \<noteq> 0 then (Z_err MERLIN_ERR_INVAL, info, st)
                    else if max_prog_bytes k < len then (Z_err MERLIN_ERR_E2BIG, info, st)
                    else let (r, info', st') = verify_and_install k buf attr (field off len bs) st
                         in (r, Some info', st'))
      | _ \<Rightarrow> (Z_err MERLIN_ERR_INVAL, info, st))"

definition merlin_prog_unload :: "nat option \<Rightarrow> runtime \<Rightarrow> int \<times> runtime" where
  "merlin_prog_unload prog st =
     (case prog of
        None \<Rightarrow> (MERLIN_ERR_INVAL, st)
      | Some i \<Rightarrow>
          if \<not> in_use (prog_slots st ! i) then (MERLIN_ERR_INVAL, st)
          else (0, merlin_free_slot i (merlin_runtime_uninstall i st)))"

text \<open>The run path: \<open>exec\<close> is what the text computes on the context, \<open>t0\<close> and \<open>t1\<close> the two clock readings.\<close>

definition merlin_prog_run ::
  "kconfig \<Rightarrow> (u8 list \<Rightarrow> u64 \<Rightarrow> u64) \<Rightarrow> u32 \<Rightarrow> u32 \<Rightarrow> nat option \<Rightarrow> u64 \<Rightarrow> runtime \<Rightarrow> u64 zresult \<times> runtime" where
  "merlin_prog_run k exec t0 t1 prog ctx st =
     (case prog of
        None \<Rightarrow> (Z_err MERLIN_ERR_INVAL, st)
      | Some i \<Rightarrow>
          let p = prog_slots st ! i in
          if \<not> in_use p then (Z_err MERLIN_ERR_INVAL, st)
          else case slot_fn p of
            None \<Rightarrow> (Z_err MERLIN_ERR_INVAL, st)
          | Some a \<Rightarrow>
              if \<not> is_riscv k then (Z_err MERLIN_ERR_NOTSUP, st)
              else case buffers st a of
                None \<Rightarrow> (Z_fault, st)
              | Some code \<Rightarrow>
                  (Z_ok (exec code ctx),
                   upd_slot i (\<lambda>p. p\<lparr>slot_run_cnt := slot_run_cnt p + 1,
                     slot_run_time_ns := slot_run_time_ns p + ucast (t1 - t0) * 1000000\<rparr>) st))"

end
