(* ===== verification/Zephyr_Props.thy ===== *)
theory Zephyr_Props
  imports Zephyr_Runtime
begin

text \<open>
  Properties of the Zephyr runtime: the reads of the ELF walk, the invariant of the slot table and the
  text buffers over every sequence of API calls, and what load, unload and run return.
\<close>

subsection \<open>The ELF walk\<close>

lemma shdr_in_blob:
  assumes "ehdr32_ok blob eh" and "i < unat (e_shnum32 eh)"
  shows "shdr_pos eh i + shdr32_size \<le> length blob"
proof -
  have "shdr_pos eh i + shdr32_size \<le> unat (e_shoff32 eh) + Suc i * unat (e_shentsize32 eh)"
    using assms(1) by (simp add: shdr_pos_def ehdr32_ok_def)
  also have "\<dots> \<le> unat (e_shoff32 eh) + unat (e_shnum32 eh) * unat (e_shentsize32 eh)"
    using assms(2) by (intro add_left_mono mult_right_mono) simp_all
  also have "\<dots> \<le> length blob" using assms(1) by (simp add: ehdr32_ok_def)
  finally show ?thesis .
qed

lemma scan_sections32_ok:
  assumes "scan_sections32 blob eh shstr is = Z_ok (off, len)"
  shows "off + len \<le> length blob"
  using assms
  by (induction "is") (auto simp: Let_def split: if_splits option.splits bool.splits)

lemma scan_sections32_no_fault:
  assumes "blob \<noteq> []" and "last blob = 0"
    and "unat (sh_offset32 shstr) + unat (sh_size32 shstr) \<le> length blob"
  shows "scan_sections32 blob eh shstr is \<noteq> Z_fault"
proof (induction "is")
  case (Cons i "is")
  let ?sh = "read_shdr32 blob eh i"
  let ?s = "unat (sh_offset32 shstr) + unat (sh_name32 ?sh)"
  have "prefix_at blob ?s MERLIN_TEXT_PREFIX \<noteq> None \<and> cstr_readable blob ?s 63"
    if "sh_name32 ?sh < sh_size32 shstr"
  proof -
    have "?s < length blob" using assms(3) that by (simp add: word_less_nat_alt)
    then show ?thesis using prefix_at_ends [OF assms(1,2)] cstr_readable_ends [OF assms(1,2)] by simp
  qed
  then show ?case
    using Cons.IH by (auto simp: Let_def not_le split: option.split bool.split)
qed simp

subsection \<open>Slots\<close>

lemma find_upt_SomeD:
  assumes "find P [0..<n] = Some i"
  shows "P i" "i < n" "\<forall>j < i. \<not> P j"
  using assms by (auto simp: find_Some_iff)

lemma find_upt_None: "find P [0..<n] = None \<longleftrightarrow> (\<forall>i < n. \<not> P i)"
  by (auto simp: find_None_iff)

lemma first_slot_Some:
  assumes "first_slot P st = Some i"
  shows "P (prog_slots st ! i)" "i < length (prog_slots st)"
  using find_upt_SomeD [OF assms [unfolded first_slot_def]] by blast+

lemma upd_slot_fields [simp]:
  "length (prog_slots (upd_slot i f st)) = length (prog_slots st)"
  "next_prog_id (upd_slot i f st) = next_prog_id st" "buffers (upd_slot i f st) = buffers st"
  "runtime_inited (upd_slot i f st) = runtime_inited st"
  by (simp_all add: upd_slot_def)

lemma upd_slot_nth:
  "j < length (prog_slots st) \<Longrightarrow>
     prog_slots (upd_slot i f st) ! j = (if j = i then f (prog_slots st ! j) else prog_slots st ! j)"
  by (simp add: upd_slot_def nth_list_update)

lemma name_slot_fields [simp]:
  "in_use (name_slot attr p) = in_use p" "slot_id (name_slot attr p) = slot_id p"
  "slot_text (name_slot attr p) = slot_text p" "slot_fn (name_slot attr p) = slot_fn p"
  by (simp_all add: name_slot_def Let_def)

subsection \<open>The invariant\<close>

text \<open>
  A slot's buffer is live exactly while the slot holds it, no two slots share one, a free slot holds
  none, and the buffer of a used slot holds an accepted text, which is what its entry point calls.
\<close>

definition accepted_text :: "kconfig \<Rightarrow> u8 list \<Rightarrow> bool" where
  "accepted_text k txt \<longleftrightarrow> txt \<noteq> [] \<and> 4 dvd length txt \<and> length txt \<le> max_prog_bytes k \<and>
     (\<exists>pt. fst (merlin_verify_text_rtos txt (merlin_verifier_cfg_for_prog_rtos (max_stack k) pt)) = 0)"

definition slot_ok :: "kconfig \<Rightarrow> (nat \<rightharpoonup> u8 list) \<Rightarrow> merlin_prog_rtos \<Rightarrow> bool" where
  "slot_ok k bufs p \<longleftrightarrow> slot_fn p = slot_text p \<and> (slot_text p \<noteq> None \<longleftrightarrow> in_use p) \<and>
     (\<forall>a. slot_text p = Some a \<longrightarrow> (\<exists>txt. bufs a = Some txt \<and> accepted_text k txt))"

definition slots_inv :: "kconfig \<Rightarrow> runtime \<Rightarrow> bool" where
  "slots_inv k st \<longleftrightarrow>
     (\<forall>i < length (prog_slots st). slot_ok k (buffers st) (prog_slots st ! i)) \<and>
     (\<forall>i < length (prog_slots st). \<forall>j < length (prog_slots st). \<forall>a.
        slot_text (prog_slots st ! i) = Some a \<longrightarrow> slot_text (prog_slots st ! j) = Some a \<longrightarrow> i = j) \<and>
     dom (buffers st) = {a. \<exists>i < length (prog_slots st). slot_text (prog_slots st ! i) = Some a}"

text \<open>Ids, as long as fewer than \<open>2 ^ 32 - 1\<close> slots have been handed out.\<close>

definition ids_inv :: "nat \<Rightarrow> runtime \<Rightarrow> bool" where
  "ids_inv n st \<longleftrightarrow>
     (n < 2 ^ 32 - 1 \<longrightarrow> next_prog_id st = of_nat (n + 1) \<and>
       (\<forall>i < length (prog_slots st). in_use (prog_slots st ! i) \<longrightarrow> unat (slot_id (prog_slots st ! i)) \<le> n) \<and>
       (\<forall>i < length (prog_slots st). \<forall>j < length (prog_slots st).
          in_use (prog_slots st ! i) \<longrightarrow> in_use (prog_slots st ! j) \<longrightarrow>
          slot_id (prog_slots st ! i) = slot_id (prog_slots st ! j) \<longrightarrow> i = j))"

lemma slots_invD:
  assumes "slots_inv k st" and "i < length (prog_slots st)"
  shows "slot_ok k (buffers st) (prog_slots st ! i)"
    and "slot_text (prog_slots st ! i) = Some a \<Longrightarrow> j < length (prog_slots st) \<Longrightarrow>
           slot_text (prog_slots st ! j) = Some a \<Longrightarrow> j = i"
    and "in_use (prog_slots st ! i) \<Longrightarrow> \<exists>a. slot_text (prog_slots st ! i) = Some a"
  using assms by (auto simp: slots_inv_def slot_ok_def)

lemma slot_ok_other: "slot_ok k bufs p \<Longrightarrow> slot_text p \<noteq> Some a \<Longrightarrow> slot_ok k (bufs(a := v)) p"
  by (auto simp: slot_ok_def)

subsection \<open>Unload\<close>

definition unloaded :: "nat \<Rightarrow> runtime \<Rightarrow> runtime" where
  "unloaded i st = merlin_free_slot i (merlin_runtime_uninstall i st)"

lemma unloaded_fields:
  assumes "slot_text (prog_slots st ! i) = Some a"
  shows "buffers (unloaded i st) = (buffers st)(a := None)"
    and "length (prog_slots (unloaded i st)) = length (prog_slots st)"
    and "next_prog_id (unloaded i st) = next_prog_id st"
    and "j < length (prog_slots st) \<Longrightarrow> prog_slots (unloaded i st) ! j =
      (if j = i then (prog_slots st ! j)\<lparr>in_use := False, slot_text := None, text_alloc := 0, slot_fn := None\<rparr>
       else prog_slots st ! j)"
  using assms
  by (simp_all add: unloaded_def merlin_free_slot_def merlin_runtime_uninstall_def upd_slot_nth)

lemma unload_keeps:
  assumes inv: "slots_inv k st" and i: "i < length (prog_slots st)" "in_use (prog_slots st ! i)"
  shows "slots_inv k (unloaded i st)"
proof -
  obtain a where a: "slot_text (prog_slots st ! i) = Some a"
    using slots_invD(3) [OF inv i] by blast
  note f = unloaded_fields [OF a]
  have uniq: "slot_text (prog_slots st ! j) = Some a \<Longrightarrow> j < length (prog_slots st) \<Longrightarrow> j = i" for j
    using slots_invD(2) [OF inv i(1) a] by blast
  have "slot_ok k (buffers (unloaded i st)) (prog_slots (unloaded i st) ! j)"
    if j: "j < length (prog_slots st)" for j
  proof (cases "j = i")
    case True
    then show ?thesis using i(1) by (simp add: f(4) slot_ok_def)
  next
    case False
    with uniq [OF _ j] slots_invD(1) [OF inv j] show ?thesis
      unfolding f(1) f(4) [OF j] by (auto intro: slot_ok_other)
  qed
  moreover have "dom (buffers (unloaded i st)) =
      {b. \<exists>j < length (prog_slots st). slot_text (prog_slots (unloaded i st) ! j) = Some b}"
  proof -
    have "dom (buffers st) = {b. \<exists>j < length (prog_slots st). slot_text (prog_slots st ! j) = Some b}"
      using inv by (simp add: slots_inv_def)
    moreover have "slot_text (prog_slots (unloaded i st) ! j) = (if j = i then None else slot_text (prog_slots st ! j))"
      if "j < length (prog_slots st)" for j
      by (simp add: f(4) [OF that])
    ultimately show ?thesis
      using uniq a unfolding f(1) by (simp add: set_eq_iff) (metis option.distinct(1) option.inject)
  qed
  moreover have "slot_text (prog_slots (unloaded i st) ! j) = Some b \<Longrightarrow>
      slot_text (prog_slots (unloaded i st) ! l) = Some b \<Longrightarrow>
      j < length (prog_slots st) \<Longrightarrow> l < length (prog_slots st) \<Longrightarrow> j = l" for j l b
    using inv by (auto simp: f slots_inv_def split: if_splits)
  ultimately show ?thesis unfolding slots_inv_def f(2) by blast
qed

subsection \<open>Load\<close>

lemma alloc_slot_cases:
  assumes "merlin_alloc_slot st = (r, st1)"
  shows "r = None \<Longrightarrow> st1 = st \<and> (\<forall>i < length (prog_slots st). in_use (prog_slots st ! i))"
    and "r = Some i \<Longrightarrow> i < length (prog_slots st) \<and> \<not> in_use (prog_slots st ! i) \<and>
      st1 = st\<lparr>prog_slots := (prog_slots st)[i := slot_zero\<lparr>in_use := True, slot_id := next_prog_id st\<rparr>],
               next_prog_id := next_prog_id st + 1\<rparr>"
  using assms first_slot_Some [of "\<lambda>p. \<not> in_use p" st]
  by (auto simp: merlin_alloc_slot_def first_slot_def find_upt_None split: option.splits)

text \<open>What an installation leaves behind: nothing, a slot given back, or a slot with its buffer.\<close>

lemma install_prog_cases:
  assumes "install_prog buf attr txt info st = (r, info', st')"
  obtains (full) "r = Z_err MERLIN_ERR_NOMEM" "info' = info" "st' = st"
      "\<forall>i < length (prog_slots st). in_use (prog_slots st ! i)"
    | (oom) i p where "r = Z_err MERLIN_ERR_NOMEM" "info' = info" "buf = None"
      "i < length (prog_slots st)" "\<not> in_use (prog_slots st ! i)" "\<not> in_use p" "slot_text p = None" "slot_fn p = None"
      "st' = st\<lparr>prog_slots := (prog_slots st)[i := p], next_prog_id := next_prog_id st + 1\<rparr>"
    | (ok) i a p where "r = Z_ok i" "info' = info\<lparr>info_prog_id := next_prog_id st\<rparr>" "buf = Some a"
      "i < length (prog_slots st)" "\<not> in_use (prog_slots st ! i)" "in_use p" "slot_id p = next_prog_id st"
      "slot_text p = Some a" "slot_fn p = Some a"
      "st' = st\<lparr>prog_slots := (prog_slots st)[i := p], next_prog_id := next_prog_id st + 1,
                buffers := (buffers st)(a \<mapsto> txt)\<rparr>"
proof (cases "merlin_alloc_slot st")
  case (Pair r1 st1)
  show ?thesis
  proof (cases r1)
    case None
    with assms Pair alloc_slot_cases(1) [OF Pair] show ?thesis
      by (intro full) (auto simp: install_prog_def)
  next
    case (Some i)
    note al = alloc_slot_cases(2) [OF Pair Some]
    show ?thesis
    proof (cases buf)
      case None
      with assms Pair Some al show ?thesis
        by (intro oom [of i "(name_slot attr (slot_zero\<lparr>in_use := True, slot_id := next_prog_id st\<rparr>))\<lparr>in_use := False\<rparr>"])
          (auto simp: install_prog_def merlin_runtime_install_def merlin_free_slot_def upd_slot_def slot_zero_def)
    next
      case (Some a)
      with assms Pair \<open>r1 = Some i\<close> al show ?thesis
        by (intro ok [of i a "(name_slot attr (slot_zero\<lparr>in_use := True, slot_id := next_prog_id st\<rparr>))
              \<lparr>slot_text := Some a, text_alloc := of_nat (length txt), slot_text_bytes := of_nat (length txt),
               slot_fn := Some a\<rparr>"])
          (auto simp: install_prog_def merlin_runtime_install_def upd_slot_def slot_zero_def Let_def)
    qed
  qed
qed

text \<open>Every call to load is a refusal that changes nothing or an installation of an accepted text.\<close>

lemma scan_err_neg: "scan_sections32 bs eh shstr is = Z_err e \<Longrightarrow> e < 0"
  by (induction "is") (auto simp: Let_def split: if_splits option.splits bool.splits)

lemma find_text_err_neg: "find_first_text_section bs = Z_err e \<Longrightarrow> e < 0"
  using scan_err_neg by (auto simp: find_first_text_section_def Let_def split: if_splits)

lemma find_text_ok: "find_first_text_section bs = Z_ok (off, len) \<Longrightarrow> off + len \<le> length bs"
  using scan_sections32_ok by (fastforce simp: find_first_text_section_def Let_def split: if_splits)

lemma verify_and_install_cases:
  assumes v: "verify_and_install k buf attr txt st = (r, info', st')"
    and t3: "txt \<noteq> []" "4 dvd length txt" "length txt \<le> max_prog_bytes k"
  obtains (refused) "st' = st" "r = Z_err MERLIN_ERR_VERIFY"
    | (install) info where "accepted_text k txt" "install_prog buf attr txt info st = (r, info', st')"
proof -
  let ?pt = "case attr of Some a \<Rightarrow> l_prog_type a | None \<Rightarrow> 0"
  obtain rc vc where vt: "merlin_verify_text_rtos txt (merlin_verifier_cfg_for_prog_rtos (max_stack k) ?pt) = (rc, vc)"
    by fastforce
  show ?thesis
  proof (cases "rc < 0")
    case True
    with v vt show ?thesis by (intro refused) (simp_all add: verify_and_install_def)
  next
    case False
    then have "rc = 0" using vt by (auto simp: merlin_verify_text_rtos_def Let_def split: if_splits)
    with vt t3 have "accepted_text k txt" unfolding accepted_text_def by (metis fst_conv)
    with False v vt show ?thesis by (intro install) (simp_all add: verify_and_install_def)
  qed
qed

lemma load_rtos_cases:
  assumes l: "merlin_prog_load_rtos k buf blob attr info po st = (r, info', st')"
  obtains (refused) "st' = st" "r = Z_fault \<or> (\<exists>e. r = Z_err e \<and> e < 0)"
    | (install) bs off len info1 info2 where "blob = Some bs" "find_first_text_section bs = Z_ok (off, len)"
      "accepted_text k (field off len bs)"
      "install_prog buf attr (field off len bs) info1 st = (r, info2, st')" "info' = Some info2"
proof (cases "case (blob, info) of (Some bs, Some _) \<Rightarrow> bs \<noteq> [] \<and> po \<and> \<not> 64 * 1024 < int (length bs) | _ \<Rightarrow> False")
  case False
  with l show ?thesis
    by (intro refused) (auto simp: merlin_prog_load_rtos_def split: option.splits if_split_asm)
next
  case True
  then obtain bs info0 where b: "blob = Some bs" "info = Some info0" "bs \<noteq> []" "po" "\<not> 64 * 1024 < int (length bs)"
    by (auto split: option.splits)
  show ?thesis
  proof (cases "find_first_text_section bs")
    case (Z_err e)
    with l b find_text_err_neg [OF Z_err] show ?thesis by (intro refused) (auto simp: merlin_prog_load_rtos_def)
  next
    case (Z_ok x)
    then obtain off len where f: "find_first_text_section bs = Z_ok (off, len)" by (cases x) simp
    show ?thesis
    proof (cases "0 < len \<and> len mod 4 = 0 \<and> len \<le> max_prog_bytes k")
      case False
      with l b f show ?thesis
        by (intro refused) (auto simp: merlin_prog_load_rtos_def split: if_splits)
    next
      case ok: True
      have len: "length (field off len bs) = len" using find_text_ok [OF f] by (simp add: field_def)
      from l b f ok obtain info2 where v: "verify_and_install k buf attr (field off len bs) st = (r, info2, st')"
          "info' = Some info2"
        by (auto simp: merlin_prog_load_rtos_def split: prod.splits)
      have t: "field off len bs \<noteq> []" "4 dvd length (field off len bs)" "length (field off len bs) \<le> max_prog_bytes k"
        using ok len by auto
      show ?thesis
        using verify_and_install_cases [OF v(1) t] install [OF b(1) f] v(2) refused by (metis neg_less_0_iff_less zero_less_numeral)
    qed
  qed (use l b refused in \<open>simp add: merlin_prog_load_rtos_def\<close>)
qed

lemma install_keeps:
  assumes inv: "slots_inv k st" and acc: "accepted_text k txt"
    and fresh: "\<And>a. buf = Some a \<Longrightarrow> buffers st a = None"
    and ins: "install_prog buf attr txt info st = (r, info', st')"
  shows "slots_inv k st'"
  using ins
proof (cases rule: install_prog_cases)
  case (oom i p)
  have none: "slot_text (prog_slots st ! i) = None"
    using slots_invD(1) [OF inv oom(4)] oom(5) by (auto simp: slot_ok_def)
  have nth: "slot_text (prog_slots st' ! j) = slot_text (prog_slots st ! j)" if "j < length (prog_slots st)" for j
    using that oom(4,7,9) none by (auto simp: nth_list_update)
  have "slot_ok k (buffers st') (prog_slots st' ! j)" if "j < length (prog_slots st)" for j
    using that oom(6-9) slots_invD(1) [OF inv that] by (cases "j = i") (auto simp: slot_ok_def)
  then show ?thesis
    using inv oom(9) nth unfolding slots_inv_def by (simp add: set_eq_iff) metis
next
  case (ok i a p)
  have free: "buffers st a = None" using fresh ok(3) by simp
  then have na: "slot_text (prog_slots st ! j) \<noteq> Some a" if "j < length (prog_slots st)" for j
    using slots_invD(1) [OF inv that] by (auto simp: slot_ok_def)
  have none: "slot_text (prog_slots st ! i) = None"
    using slots_invD(1) [OF inv ok(4)] ok(5) by (auto simp: slot_ok_def)
  have nth: "slot_text (prog_slots st' ! j) = (if j = i then Some a else slot_text (prog_slots st ! j))"
    if "j < length (prog_slots st)" for j
    using that ok(8,10) by (simp add: nth_list_update)
  have "slot_ok k (buffers st') (prog_slots st' ! j)" if "j < length (prog_slots st)" for j
  proof (cases "j = i")
    case True
    then show ?thesis using ok acc by (simp add: slot_ok_def)
  next
    case False
    then show ?thesis
      using ok(10) slot_ok_other [OF slots_invD(1) [OF inv that] na [OF that], of "Some txt"] by simp
  qed
  moreover have "length (prog_slots st') = length (prog_slots st)" "buffers st' = (buffers st)(a \<mapsto> txt)"
    using ok(10) by simp_all
  moreover have "dom ((buffers st)(a \<mapsto> txt)) =
      {b. \<exists>j < length (prog_slots st). slot_text (prog_slots st' ! j) = Some b}"
  proof -
    have "dom (buffers st) = {b. \<exists>j < length (prog_slots st). slot_text (prog_slots st ! j) = Some b}"
      using inv by (simp add: slots_inv_def)
    with nth none ok(4) show ?thesis
      by (simp add: set_eq_iff) (metis option.distinct(1) option.inject)
  qed
  moreover have "j = l" if "j < length (prog_slots st)" "l < length (prog_slots st)"
      "slot_text (prog_slots st' ! j) = Some b" "slot_text (prog_slots st' ! l) = Some b" for j l b
    using that nth na slots_invD(2) [OF inv that(2), of b j] by (simp split: if_split_asm)
  ultimately show ?thesis unfolding slots_inv_def by (simp only:) blast
qed (use inv in simp)

text \<open>Ids: a new slot gets the next one; nothing else changes an id of a used slot.\<close>

lemma install_ids:
  assumes "ids_inv n st" and ins: "install_prog buf attr txt info st = (r, info', st')"
  shows "ids_inv (if next_prog_id st' = next_prog_id st then n else n + 1) st'"
  using ins
proof (cases rule: install_prog_cases)
  case (oom i p)
  then show ?thesis
    using assms(1) by (auto simp: ids_inv_def nth_list_update add.commute)
next
  case (ok i a p)
  have "unat (of_nat (n + 1) :: u32) = n + 1" if "n + 1 < 2 ^ 32 - 1"
    by (rule unat_of_nat_small) (use that in simp)
  then show ?thesis
    using assms(1) ok
    by (auto simp: ids_inv_def nth_list_update add.commute le_Suc_eq split: if_split_asm)
qed (use assms(1) in auto)

subsection \<open>Sequences of calls\<close>

text \<open>
  A call of the API on a runtime: the address \<open>k_malloc\<close> returns is not in use, and handles are slots of the
  table. The counter is the number of ids handed out.
\<close>

definition booted :: "nat \<Rightarrow> runtime" where
  "booted slots = \<lparr>prog_slots = replicate slots slot_zero, next_prog_id = 0, runtime_inited = False,
     buffers = Map.empty\<rparr>"

inductive rt_reached :: "kconfig \<Rightarrow> nat \<Rightarrow> runtime \<Rightarrow> bool" for k where
  rt_boot: "rt_reached k 0 (merlin_init (booted slots))"
| rt_init: "rt_reached k n st \<Longrightarrow> rt_reached k n (merlin_init st)"
| rt_load: "rt_reached k n st \<Longrightarrow> (\<And>a. buf = Some a \<Longrightarrow> buffers st a = None) \<Longrightarrow>
     merlin_prog_load_rtos k buf blob attr info po st = (r, info', st') \<Longrightarrow>
     rt_reached k (if next_prog_id st' = next_prog_id st then n else n + 1) st'"
| rt_unload: "rt_reached k n st \<Longrightarrow> (\<And>i. prog = Some i \<Longrightarrow> i < length (prog_slots st)) \<Longrightarrow>
     merlin_prog_unload prog st = (rc, st') \<Longrightarrow> rt_reached k n st'"
| rt_run: "rt_reached k n st \<Longrightarrow> (\<And>i. prog = Some i \<Longrightarrow> i < length (prog_slots st)) \<Longrightarrow>
     merlin_prog_run k exec t0 t1 prog ctx st = (res, st') \<Longrightarrow> rt_reached k n st'"

lemma run_keeps:
  assumes "merlin_prog_run k exec t0 t1 prog ctx st = (r, st')"
  shows "slots_inv k st \<Longrightarrow> slots_inv k st'" and "ids_inv n st \<Longrightarrow> ids_inv n st'"
    and "runtime_inited st' = runtime_inited st"
proof -
  obtain i c t where "st' = st \<or> st' = upd_slot i (\<lambda>p. p\<lparr>slot_run_cnt := c, slot_run_time_ns := t\<rparr>) st"
    using assms
    by (fastforce simp: merlin_prog_run_def Let_def upd_slot_def split: option.splits if_splits)
  moreover have "slots_inv k (upd_slot i (\<lambda>p. p\<lparr>slot_run_cnt := c, slot_run_time_ns := t\<rparr>) st)" if "slots_inv k st"
  proof -
    let ?st = "upd_slot i (\<lambda>p. p\<lparr>slot_run_cnt := c, slot_run_time_ns := t\<rparr>) st"
    have t: "slot_text (prog_slots ?st ! j) = slot_text (prog_slots st ! j)" if "j < length (prog_slots st)" for j
      using that by (simp add: upd_slot_nth)
    have o: "slot_ok k (buffers st) (prog_slots ?st ! j) = slot_ok k (buffers st) (prog_slots st ! j)"
      if "j < length (prog_slots st)" for j
      using that by (simp add: upd_slot_nth slot_ok_def)
    from that show ?thesis
      by (simp add: slots_inv_def t o cong: conj_cong)
  qed
  moreover have "ids_inv n (upd_slot i (\<lambda>p. p\<lparr>slot_run_cnt := c, slot_run_time_ns := t\<rparr>) st)" if "ids_inv n st"
    using that by (auto simp: ids_inv_def upd_slot_nth split: if_split_asm)
  ultimately show "slots_inv k st \<Longrightarrow> slots_inv k st'" "ids_inv n st \<Longrightarrow> ids_inv n st'"
      "runtime_inited st' = runtime_inited st"
    by auto
qed

lemma unload_ids:
  assumes "ids_inv n st" and "slot_text (prog_slots st ! i) = Some a"
  shows "ids_inv n (unloaded i st)"
  using assms(1) unloaded_fields [OF assms(2)] by (auto simp: ids_inv_def split: if_split_asm)

lemma load_inited:
  assumes "merlin_prog_load_rtos k buf blob attr info po st = (r, info', st')"
  shows "runtime_inited st' = runtime_inited st"
  using assms
proof (cases rule: load_rtos_cases)
  case (install bs off len info1 info2)
  from install(4) show ?thesis by (cases rule: install_prog_cases) simp_all
qed simp

lemma unloaded_inited [simp]: "runtime_inited (unloaded i st) = runtime_inited st"
  by (simp add: unloaded_def merlin_free_slot_def merlin_runtime_uninstall_def split: option.split)

lemma unload_result:
  "merlin_prog_unload prog st =
     (case prog of
        Some i \<Rightarrow> if in_use (prog_slots st ! i) then (0, unloaded i st) else (MERLIN_ERR_INVAL, st)
      | None \<Rightarrow> (MERLIN_ERR_INVAL, st))"
  by (simp add: merlin_prog_unload_def unloaded_def split: option.split)

lemma rt_reached_inv:
  assumes "rt_reached k n st"
  shows "slots_inv k st \<and> ids_inv n st \<and> runtime_inited st"
  using assms
proof induction
  case (rt_boot slots)
  show ?case
    by (auto simp: merlin_init_def booted_def slots_inv_def ids_inv_def slot_ok_def slot_zero_def)
next
  case (rt_init n st)
  then show ?case by (simp add: merlin_init_def)
next
  case (rt_load n st buf blob attr info po r info' st')
  note inited = load_inited [OF rt_load.hyps(3)]
  from rt_load.hyps(3) show ?case
  proof (cases rule: load_rtos_cases)
    case refused
    then show ?thesis using rt_load.IH by simp
  next
    case (install bs off len info1 info2)
    then show ?thesis
      using rt_load.IH inited install_keeps [OF _ install(3) rt_load.hyps(2) install(4)]
        install_ids [OF _ install(4)] by blast
  qed
next
  case (rt_unload n st prog rc st')
  show ?case
  proof (cases "\<exists>i. prog = Some i \<and> in_use (prog_slots st ! i)")
    case True
    then obtain i where i: "prog = Some i" "in_use (prog_slots st ! i)" by blast
    then have st': "st' = unloaded i st" using rt_unload.hyps(3) by (simp add: unload_result)
    have "i < length (prog_slots st)" using rt_unload.hyps(2) i(1) by blast
    with rt_unload.IH i st' show ?thesis
      using unload_keeps [of k st i] slots_invD(3) [of k st i] unload_ids [of n st i] by auto
  next
    case False
    then show ?thesis
      using rt_unload.hyps(3) rt_unload.IH by (auto simp: unload_result split: option.splits if_splits)
  qed
next
  case (rt_run n st prog exec t0 t1 ctx res st')
  then show ?case using run_keeps [OF rt_run.hyps(3)] by blast
qed

subsection \<open>Properties\<close>

lemma run_fault_iff:
  assumes "slots_inv k st" and "i < length (prog_slots st)"
  shows "fst (merlin_prog_run k exec t0 t1 (Some i) ctx st) \<noteq> Z_fault"
  using slots_invD(1) [OF assms]
  by (auto simp: merlin_prog_run_def slot_ok_def Let_def split: option.split)

lemma get_by_id_used:
  assumes "ids_inv n st" and "n < 2 ^ 32 - 1" and "i < length (prog_slots st)" and "in_use (prog_slots st ! i)"
  shows "merlin_prog_get_by_id_rtos (slot_id (prog_slots st ! i)) st = Some i"
proof (cases "merlin_prog_get_by_id_rtos (slot_id (prog_slots st ! i)) st")
  case None
  then show ?thesis
    using assms(3,4) by (auto simp: merlin_prog_get_by_id_rtos_def first_slot_def find_upt_None)
next
  case (Some j)
  have "in_use (prog_slots st ! j) \<and> slot_id (prog_slots st ! j) = slot_id (prog_slots st ! i)"
      "j < length (prog_slots st)"
    using first_slot_Some [OF Some [unfolded merlin_prog_get_by_id_rtos_def]] by blast+
  then show ?thesis using Some assms by (auto simp: ids_inv_def)
qed

text \<open>An ELF32 object with the probe in its section \<open>.text.merlin.p\<close>.\<close>

definition probe_elf :: "u8 list" where
  "probe_elf =
     [0x7f, 0x45, 0x4c, 0x46, 0x01, 0x01, 0x01, 0x00, 0x00, 0x00, 0x00, 0x00, 0x00, 0x00, 0x00, 0x00,
      0x01, 0x00, 0xf3, 0x00, 0x01, 0x00, 0x00, 0x00, 0x00, 0x00, 0x00, 0x00, 0x00, 0x00, 0x00, 0x00,
      0x5e, 0x00, 0x00, 0x00, 0x00, 0x00, 0x00, 0x00, 0x34, 0x00, 0x00, 0x00, 0x00, 0x00, 0x28, 0x00,
      0x03, 0x00, 0x02, 0x00, 0x83, 0x22, 0x45, 0x00, 0x93, 0x08, 0x20, 0x00, 0x73, 0x00, 0x00, 0x00,
      0x67, 0x80, 0x00, 0x00, 0x00, 0x2e, 0x74, 0x65, 0x78, 0x74, 0x2e, 0x6d, 0x65, 0x72, 0x6c, 0x69,
      0x6e, 0x2e, 0x70, 0x00, 0x2e, 0x73, 0x68, 0x73, 0x74, 0x72, 0x74, 0x61, 0x62, 0x00, 0x00, 0x00,
      0x00, 0x00, 0x00, 0x00, 0x00, 0x00, 0x00, 0x00, 0x00, 0x00, 0x00, 0x00, 0x00, 0x00, 0x00, 0x00,
      0x00, 0x00, 0x00, 0x00, 0x00, 0x00, 0x00, 0x00, 0x00, 0x00, 0x00, 0x00, 0x00, 0x00, 0x00, 0x00,
      0x00, 0x00, 0x00, 0x00, 0x00, 0x00, 0x01, 0x00, 0x00, 0x00, 0x01, 0x00, 0x00, 0x00, 0x00, 0x00,
      0x00, 0x00, 0x00, 0x00, 0x00, 0x00, 0x34, 0x00, 0x00, 0x00, 0x10, 0x00, 0x00, 0x00, 0x00, 0x00,
      0x00, 0x00, 0x00, 0x00, 0x00, 0x00, 0x00, 0x00, 0x00, 0x00, 0x00, 0x00, 0x00, 0x00, 0x10, 0x00,
      0x00, 0x00, 0x03, 0x00, 0x00, 0x00, 0x00, 0x00, 0x00, 0x00, 0x00, 0x00, 0x00, 0x00, 0x44, 0x00,
      0x00, 0x00, 0x1a, 0x00, 0x00, 0x00, 0x00, 0x00, 0x00, 0x00, 0x00, 0x00, 0x00, 0x00, 0x00, 0x00,
      0x00, 0x00, 0x00, 0x00, 0x00, 0x00]"

definition demo_kconfig :: kconfig where
  "demo_kconfig = \<lparr>max_prog_bytes = 256, max_stack = 256, is_riscv = True\<rparr>"

definition demo_info :: merlin_load_info where
  "demo_info = \<lparr>info_prog_id = 0, info_text_bytes = 0, info_verified_insns = 0, info_rejected = 0\<rparr>"

definition demo_load_rtos :: "nat zresult \<times> merlin_load_info option \<times> runtime" where
  "demo_load_rtos = merlin_prog_load_rtos demo_kconfig (Some 9) (Some probe_elf) None (Some demo_info) True
     (merlin_init (booted 2))"

lemma demo_load_eval:
  "fst demo_load_rtos = Z_ok 0" "map in_use (prog_slots (snd (snd demo_load_rtos))) = [True, False]"
  "map slot_id (prog_slots (snd (snd demo_load_rtos))) = [1, 0]"
  "next_prog_id (snd (snd demo_load_rtos)) = 2" "next_prog_id (merlin_init (booted 2)) = 1"
  by code_simp+

lemma demo_reached: "rt_reached demo_kconfig 1 (snd (snd demo_load_rtos))"
proof -
  have "merlin_prog_load_rtos demo_kconfig (Some 9) (Some probe_elf) None (Some demo_info) True (merlin_init (booted 2))
      = (fst demo_load_rtos, fst (snd demo_load_rtos), snd (snd demo_load_rtos))"
    by (simp add: demo_load_rtos_def)
  from rt_load [OF rt_boot _ this] demo_load_eval(4,5) show ?thesis
    by (simp add: merlin_init_def booted_def)
qed

text \<open>
  C10: after any sequence of init, load, unload and run calls, a used slot's entry point is a live buffer
  holding a non-empty, word-aligned text within the configured size that the verifier accepted; the live
  buffers are exactly those of the used slots, so nothing leaks; running a slot never calls a freed
  buffer; and while fewer than 2^32 - 1 ids have been handed out a used slot is found by its id.
\<close>

theorem rtos_runtime_invariant:
  assumes "rt_reached k n st" and "i < length (prog_slots st)"
  shows "(in_use (prog_slots st ! i) \<longrightarrow>
       (\<exists>a code. slot_fn (prog_slots st ! i) = Some a \<and> buffers st a = Some code \<and> accepted_text k code)) \<and>
     dom (buffers st) = {a. \<exists>j < length (prog_slots st). slot_text (prog_slots st ! j) = Some a} \<and>
     (slot_text (prog_slots st ! i) \<noteq> None \<longleftrightarrow> in_use (prog_slots st ! i)) \<and>
     fst (merlin_prog_run k exec t0 t1 (Some i) ctx st) \<noteq> Z_fault \<and>
     (n < 2 ^ 32 - 1 \<longrightarrow> in_use (prog_slots st ! i) \<longrightarrow>
        merlin_prog_get_by_id_rtos (slot_id (prog_slots st ! i)) st = Some i)"
proof -
  have inv: "slots_inv k st" and ids: "ids_inv n st" using rt_reached_inv [OF assms(1)] by blast+
  have "dom (buffers st) = {a. \<exists>j < length (prog_slots st). slot_text (prog_slots st ! j) = Some a}"
    using inv by (simp add: slots_inv_def)
  then show ?thesis
    using slots_invD(1) [OF inv assms(2)] run_fault_iff [OF inv assms(2)] get_by_id_used [OF ids _ assms(2)]
    by (auto simp: slot_ok_def)
qed

theorem rtos_runtime_invariant_witness:
  "\<exists>a code. slot_fn (prog_slots (snd (snd demo_load_rtos)) ! 0) = Some a \<and>
     buffers (snd (snd demo_load_rtos)) a = Some code \<and> accepted_text demo_kconfig code"
proof -
  have l: "0 < length (prog_slots (snd (snd demo_load_rtos)))" and u: "in_use (prog_slots (snd (snd demo_load_rtos)) ! 0)"
    by code_simp+
  from rtos_runtime_invariant [OF demo_reached l] u show ?thesis by blast
qed

text \<open>
  A load and the unload of its handle undo each other. After a successful load from a reachable state
  the caller learns the id that was next, and unloading the handle succeeds, restores the set of live
  buffers with their contents and the used flags of all slots, and leaves the handle dead: a second unload
  and a run are refused.
\<close>

theorem rtos_load_unload_roundtrip:
  assumes "rt_reached k n st" and "buffers st a = None"
    and "merlin_prog_load_rtos k (Some a) blob attr info po st = (Z_ok i, info', st1)"
    and "merlin_prog_unload (Some i) st1 = (rc, st2)"
  shows "map_option info_prog_id info' = Some (next_prog_id st) \<and> rc = 0 \<and> buffers st2 = buffers st \<and>
     map in_use (prog_slots st2) = map in_use (prog_slots st) \<and>
     merlin_prog_unload (Some i) st2 = (MERLIN_ERR_INVAL, st2) \<and>
     merlin_prog_run k exec t0 t1 (Some i) ctx st2 = (Z_err MERLIN_ERR_INVAL, st2)"
  using assms(3)
proof (cases rule: load_rtos_cases)
  case (install bs off len info1 info2)
  from install(4) show ?thesis
  proof (cases rule: install_prog_cases)
    case (ok i' a' p)
    have i: "i' = i" "a' = a" using ok(1,3) by simp_all
    have slot: "prog_slots st1 ! i = p" "i < length (prog_slots st)" using ok(4,10) i by simp_all
    then have st2: "rc = 0" "st2 = unloaded i st1" using assms(4) ok(6) by (simp_all add: unload_result)
    note f = unloaded_fields [of st1 i a, unfolded slot(1), OF ok(8) [unfolded i]]
    have u: "in_use (prog_slots st2 ! j) = in_use (prog_slots st ! j)" if "j < length (prog_slots st)" for j
      using that f(4) [of j] ok(5,10) i st2 by (simp add: nth_list_update)
    have "length (prog_slots st2) = length (prog_slots st)" using f(2) ok(10) st2 by simp
    then have "map in_use (prog_slots st2) = map in_use (prog_slots st)"
      using u by (simp add: list_eq_iff_nth_eq)
    moreover have "buffers st2 = buffers st"
      using f(1) ok(10) i st2 assms(2) by (simp add: fun_eq_iff)
    moreover have "\<not> in_use (prog_slots st2 ! i)" using u [OF slot(2)] ok(5) i by simp
    ultimately show ?thesis
      using st2 ok(2) install(5) by (simp add: unload_result merlin_prog_run_def Let_def)
  qed simp_all
qed simp

theorem rtos_load_unload_roundtrip_witness:
  "buffers (snd (merlin_prog_unload (Some 0) (snd (snd demo_load_rtos)))) = Map.empty"
proof -
  have "merlin_prog_load_rtos demo_kconfig (Some 9) (Some probe_elf) None (Some demo_info) True (merlin_init (booted 2))
      = (Z_ok 0, fst (snd demo_load_rtos), snd (snd demo_load_rtos))"
    using demo_load_eval(1) by (simp add: demo_load_rtos_def prod_eq_iff)
  moreover have "buffers (merlin_init (booted 2)) = Map.empty" by (simp add: merlin_init_def booted_def)
  ultimately show ?thesis
    using rtos_load_unload_roundtrip [OF rt_boot, of 2 9 demo_kconfig "Some probe_elf" None "Some demo_info" True 0
        "fst (snd demo_load_rtos)" "snd (snd demo_load_rtos)"]
    by (metis fun_upd_same option.simps(3) prod.collapse)
qed

text \<open>
  The loader reads inside the blob. For a blob that ends in a zero byte no load faults, and whatever
  the blob every section header the walk reads and the text it returns lie inside it.
\<close>

theorem rtos_load_in_bounds:
  assumes "blob \<noteq> []"
  shows "(last blob = 0 \<longrightarrow> fst (merlin_prog_load_rtos k buf (Some blob) attr info po st) \<noteq> Z_fault) \<and>
     (ehdr32_ok blob (read_ehdr32 blob) \<and> i < unat (e_shnum32 (read_ehdr32 blob)) \<longrightarrow>
        shdr_pos (read_ehdr32 blob) i + shdr32_size \<le> length blob) \<and>
     (find_first_text_section blob = Z_ok (off, len) \<longrightarrow> off + len \<le> length blob)"
proof -
  have nf: "find_first_text_section blob \<noteq> Z_fault" if "last blob = 0"
    using scan_sections32_no_fault [OF assms that]
    by (auto simp: find_first_text_section_def Let_def)
  have "fst (install_prog buf attr txt inf1 st) \<noteq> Z_fault" for "txt" inf1
    by (simp add: install_prog_def Let_def split: option.split prod.split)
  then have "fst (verify_and_install k buf attr txt st) \<noteq> Z_fault" for "txt"
    by (simp add: verify_and_install_def Let_def split: prod.split)
  with nf have "fst (merlin_prog_load_rtos k buf (Some blob) attr info po st) \<noteq> Z_fault" if "last blob = 0"
    using that by (auto simp: merlin_prog_load_rtos_def split: option.split zresult.split prod.split)
      (metis fst_conv)+
  then show ?thesis using shdr_in_blob find_text_ok by blast
qed

theorem rtos_load_in_bounds_witness:
  "find_first_text_section probe_elf = Z_ok (52, 16) \<and> last probe_elf = 0 \<and>
   fst (merlin_prog_load_rtos demo_kconfig None (Some probe_elf) None (Some demo_info) True (booted 0)) \<noteq> Z_fault"
proof -
  have "probe_elf \<noteq> []" "last probe_elf = 0" "find_first_text_section probe_elf = Z_ok (52, 16)" by code_simp+
  then show ?thesis using rtos_load_in_bounds [of probe_elf] by blast
qed

end
