(* ===== verification/Zephyr_Helpers.thy ===== *)
theory Zephyr_Helpers
  imports Zephyr_Runtime
begin

text \<open>
  The helper registry of the Zephyr runtime, \<open>zephyr/merlin/src/dispatch.c\<close>, and the built-in helpers of
  \<open>zephyr/merlin/src/helpers_sample.c\<close>. A helper is a function of its six arguments; the clock and the
  random source the built-ins read are arguments, console output and yielding have no effect on the
  registry. The registry is an instance of a table whose entries are written once.
\<close>

type_synonym merlin_helper_fn = "u64 \<Rightarrow> u64 \<Rightarrow> u64 \<Rightarrow> u64 \<Rightarrow> u64 \<Rightarrow> u64 \<Rightarrow> u64"

record helper_entry =
  h_name :: string
  h_fn :: "merlin_helper_fn option"

record hregistry =
  helpers :: "helper_entry list"
  helpers_inited :: bool

abbreviation (input) MERLIN_MAX_HELPER :: u32 where "MERLIN_MAX_HELPER \<equiv> 512"

definition helpers_boot :: hregistry where
  "helpers_boot = \<lparr>helpers = replicate 512 \<lparr>h_name = '''', h_fn = None\<rparr>, helpers_inited = False\<rparr>"

definition helpers_init_once :: "hregistry \<Rightarrow> hregistry" where
  "helpers_init_once h = (if helpers_inited h then h else h\<lparr>helpers_inited := True\<rparr>)"

definition merlin_helper_register ::
  "u32 \<Rightarrow> string \<Rightarrow> merlin_helper_fn option \<Rightarrow> hregistry \<Rightarrow> int \<times> hregistry" where
  "merlin_helper_register i nm fn h0 =
     (let h = helpers_init_once h0 in
      if i = 0 \<or> MERLIN_MAX_HELPER \<le> i \<or> fn = None then (MERLIN_ERR_INVAL, h)
      else if h_fn (helpers h ! unat i) \<noteq> None then (MERLIN_ERR_BUSY, h)
      else (0, h\<lparr>helpers := (helpers h)[unat i := \<lparr>h_name = nm, h_fn = fn\<rparr>]\<rparr>))"

definition merlin_dispatch_helper_rtos ::
  "u32 \<Rightarrow> u64 \<Rightarrow> u64 \<Rightarrow> u64 \<Rightarrow> u64 \<Rightarrow> u64 \<Rightarrow> u64 \<Rightarrow> hregistry \<Rightarrow> u64" where
  "merlin_dispatch_helper_rtos i a0 a1 a2 a3 a4 a5 h =
     (if i = 0 \<or> MERLIN_MAX_HELPER \<le> i then - 1
      else let fn = (if helpers_inited h then h_fn (helpers h ! unat i) else None) in
        case fn of None \<Rightarrow> - 1 | Some f \<Rightarrow> f a0 a1 a2 a3 a4 a5)"

subsection \<open>The built-in helpers\<close>

definition h_trace_printk :: merlin_helper_fn where
  "h_trace_printk a0 a1 a2 a3 a4 a5 = 0"

definition h_uptime_ms :: "u32 \<Rightarrow> merlin_helper_fn" where
  "h_uptime_ms uptime a0 a1 a2 a3 a4 a5 = ucast uptime"

definition h_rng_u32 :: "u32 \<Rightarrow> merlin_helper_fn" where
  "h_rng_u32 rnd a0 a1 a2 a3 a4 a5 = ucast rnd"

definition h_gpio_set :: merlin_helper_fn where
  "h_gpio_set a0 a1 a2 a3 a4 a5 = 0"

definition h_gpio_get :: merlin_helper_fn where
  "h_gpio_get a0 a1 a2 a3 a4 a5 = 0"

definition h_yield :: merlin_helper_fn where
  "h_yield a0 a1 a2 a3 a4 a5 = 0"

text \<open>The registrations of \<open>merlin_helpers_init\<close> in order; their return values are ignored.\<close>

definition builtin_table :: "u32 \<Rightarrow> u32 \<Rightarrow> (u32 \<times> string \<times> merlin_helper_fn) list" where
  "builtin_table uptime rnd =
     [(1, ''trace_printk'', h_trace_printk), (2, ''uptime_ms'', h_uptime_ms uptime),
      (3, ''rng_u32'', h_rng_u32 rnd), (4, ''gpio_set'', h_gpio_set),
      (5, ''gpio_get'', h_gpio_get), (6, ''yield'', h_yield)]"

definition merlin_helpers_init :: "u32 \<Rightarrow> u32 \<Rightarrow> hregistry \<Rightarrow> hregistry" where
  "merlin_helpers_init uptime rnd h =
     foldl (\<lambda>h (i, nm, f). snd (merlin_helper_register i nm (Some f) h)) h (builtin_table uptime rnd)"

subsection \<open>Tables written once\<close>

text \<open>
  A table in which a free position can be written and a taken one keeps its value: after any sequence of
  writes each position holds what it held, or else the first value written to it.
\<close>

locale once_table =
  fixes wf :: "'s \<Rightarrow> bool"
    and look :: "'s \<Rightarrow> 'k \<Rightarrow> 'v option"
    and put :: "'s \<Rightarrow> 'k \<times> 'v \<Rightarrow> 's"
    and valid_key :: "'k \<Rightarrow> bool"
  assumes wf_put: "wf s \<Longrightarrow> wf (put s kv)"
    and look_put_free: "wf s \<Longrightarrow> valid_key k \<Longrightarrow> look s k = None \<Longrightarrow> look (put s (k, v)) k = Some v"
    and look_put_taken: "wf s \<Longrightarrow> look s k = Some w \<Longrightarrow> look (put s (k, v)) k = Some w"
    and look_put_other: "wf s \<Longrightarrow> k' \<noteq> k \<Longrightarrow> look (put s (k, v)) k' = look s k'"
begin

lemma wf_puts: "wf s \<Longrightarrow> wf (foldl put s kvs)"
  by (induction kvs arbitrary: s) (simp_all add: wf_put)

lemma look_puts:
  assumes "wf s" and "valid_key k"
  shows "look (foldl put s kvs) k = (case look s k of Some v \<Rightarrow> Some v | None \<Rightarrow> map_of kvs k)"
  using assms(1)
proof (induction kvs arbitrary: s)
  case (Cons kv kvs)
  obtain k1 v1 where kv: "kv = (k1, v1)" by fastforce
  note IH = Cons.IH [OF wf_put [OF Cons.prems], of kv]
  show ?case
  proof (cases "k1 = k")
    case True
    then show ?thesis
      using IH kv look_put_free [OF Cons.prems assms(2)] look_put_taken [OF Cons.prems]
      by (simp split: option.split)
  next
    case False
    then show ?thesis using IH kv look_put_other [OF Cons.prems] by (simp split: option.split)
  qed
qed (simp split: option.split)

end

definition registry_wf :: "hregistry \<Rightarrow> bool" where
  "registry_wf h \<longleftrightarrow> length (helpers h) = 512"

definition registered :: "hregistry \<Rightarrow> u32 \<Rightarrow> (string \<times> merlin_helper_fn) option" where
  "registered h i =
     (if i = 0 \<or> MERLIN_MAX_HELPER \<le> i then None
      else map_option (Pair (h_name (helpers h ! unat i))) (h_fn (helpers h ! unat i)))"

definition register_put :: "hregistry \<Rightarrow> u32 \<times> string \<times> merlin_helper_fn \<Rightarrow> hregistry" where
  "register_put h = (\<lambda>(i, nm, f). snd (merlin_helper_register i nm (Some f) h))"

lemma helpers_init_once_fields [simp]:
  "helpers (helpers_init_once h) = helpers h" "helpers_inited (helpers_init_once h)"
  by (simp_all add: helpers_init_once_def)

lemma unat_inj: "unat x = unat y \<Longrightarrow> x = y" for x y :: "'a::len word"
  by (rule unsigned_word_eqI)

lemma id_in_table: "\<not> MERLIN_MAX_HELPER \<le> i \<Longrightarrow> unat i < 512"
  by (simp add: not_le word_less_nat_alt)

lemma register_fields:
  assumes "registry_wf h"
  shows "registry_wf (snd (merlin_helper_register i nm (Some f) h))"
    and "helpers_inited (snd (merlin_helper_register i nm (Some f) h))"
    and "registered (snd (merlin_helper_register i nm (Some f) h)) j =
      (if j = i \<and> i \<noteq> 0 \<and> \<not> MERLIN_MAX_HELPER \<le> i \<and> registered h i = None then Some (nm, f) else registered h j)"
  using assms id_in_table [of i] id_in_table [of j]
  by (auto simp: merlin_helper_register_def registry_wf_def registered_def Let_def nth_list_update
      split: if_splits dest: unat_inj)

interpretation reg: once_table registry_wf registered register_put
  "\<lambda>i. i \<noteq> 0 \<and> \<not> MERLIN_MAX_HELPER \<le> i"
  by unfold_locales (auto simp: register_put_def register_fields)

lemma register_put_inited: "helpers_inited (register_put h kv)"
  by (cases kv) (auto simp: register_put_def merlin_helper_register_def Let_def)

lemma puts_inited: "kvs \<noteq> [] \<Longrightarrow> helpers_inited (foldl register_put h kvs)"
  by (induction kvs rule: rev_induct) (simp_all add: register_put_inited)

lemma dispatch_registered:
  assumes "helpers_inited h"
  shows "merlin_dispatch_helper_rtos i a0 a1 a2 a3 a4 a5 h =
    (case registered h i of None \<Rightarrow> - 1 | Some (nm, f) \<Rightarrow> f a0 a1 a2 a3 a4 a5)"
  using assms by (simp add: merlin_dispatch_helper_rtos_def registered_def split: option.split)

lemma boot_registry: "registry_wf helpers_boot" "registered helpers_boot i = None"
  using id_in_table [of i] by (simp_all add: registry_wf_def registered_def helpers_boot_def)

lemma helpers_init_puts: "merlin_helpers_init up rnd h = foldl register_put h (builtin_table up rnd)"
  by (simp add: merlin_helpers_init_def register_put_def [abs_def])

lemma dispatch_after:
  assumes "i \<noteq> 0" and "\<not> MERLIN_MAX_HELPER \<le> i"
  shows "merlin_dispatch_helper_rtos i a0 a1 a2 a3 a4 a5 (foldl register_put helpers_boot kvs) =
    (case map_of kvs i of None \<Rightarrow> - 1 | Some (nm, f) \<Rightarrow> f a0 a1 a2 a3 a4 a5)"
proof (cases "kvs = []")
  case True
  then show ?thesis by (simp add: merlin_dispatch_helper_rtos_def helpers_boot_def)
next
  case False
  have "registered (foldl register_put helpers_boot kvs) i = map_of kvs i"
    using reg.look_puts [OF boot_registry(1), of i kvs] assms by (simp add: boot_registry(2))
  then show ?thesis using dispatch_registered [OF puts_inited [OF False]] by simp
qed

lemma allowed_ids:
  "helper_allowed_rtos (merlin_verifier_cfg_for_prog_rtos cap pt) i \<longleftrightarrow> i \<in> {1, 2, 3, 4, 5, 6}"
proof (cases "i < 8")
  case True
  have lt: "unat i < 8" using True by (simp add: word_less_nat_alt)
  have of: "i = of_nat n" if "unat i = n" for n
    by (rule unat_inj) (use that lt in \<open>simp add: unat_of_nat_small\<close>)
  from lt have d: "unat i = 0 \<or> unat i = 1 \<or> unat i = 2 \<or> unat i = 3 \<or> unat i = 4 \<or> unat i = 5 \<or>
      unat i = 6 \<or> unat i = 7"
    by linarith
  have i: "i = 0 \<or> i = 1 \<or> i = 2 \<or> i = 3 \<or> i = 4 \<or> i = 5 \<or> i = 6 \<or> i = 7"
    by (insert d) (elim disjE; drule of; simp)
  show ?thesis
    unfolding helper_allowed_rtos_def merlin_verifier_cfg_for_prog_rtos_def
    by (insert i, elim disjE; hypsubst; simp)
next
  case False
  have "8 \<le> unat i" using False by (simp add: word_less_nat_alt not_less)
  then have "unat (i div 8) \<noteq> 0" by (simp add: unat_div)
  then have "(replicate 64 0)[0 := 0x7e] ! unat (i div 8) = (0 :: u8)" if "\<not> 64 \<le> i div 8"
    using that by (simp add: word_le_nat_alt)
  moreover have "i \<notin> {1, 2, 3, 4, 5, 6}" using False by auto
  ultimately show ?thesis
    by (simp add: helper_allowed_rtos_def merlin_verifier_cfg_for_prog_rtos_def)
qed

subsection \<open>Properties\<close>

text \<open>
  The first registration of a helper id wins. After any sequence of registrations on the boot
  registry, a dispatch of an id from 1 to 511 calls the first function registered for it and returns -1
  when there is none; ids outside the table return -1.
\<close>

theorem registry_first_wins:
  "merlin_dispatch_helper_rtos i a0 a1 a2 a3 a4 a5
     (foldl (\<lambda>h (i, nm, f). snd (merlin_helper_register i nm (Some f) h)) helpers_boot kvs) =
   (if i = 0 \<or> MERLIN_MAX_HELPER \<le> i then - 1
    else case map_of kvs i of None \<Rightarrow> - 1 | Some (nm, f) \<Rightarrow> f a0 a1 a2 a3 a4 a5)"
  using dispatch_after [of i a0 a1 a2 a3 a4 a5 kvs]
  by (simp add: merlin_dispatch_helper_rtos_def register_put_def [abs_def])

text \<open>
  Every helper the verifier lets a program call is there. The allow-list of every program type is the
  ids 1 to 6, and after the initialisation and whatever the application registers later, dispatching one
  of them calls the built-in helper of that id.
\<close>

theorem allowed_helpers_registered:
  assumes "helper_allowed_rtos (merlin_verifier_cfg_for_prog_rtos cap pt) i"
  shows "merlin_dispatch_helper_rtos i a0 a1 a2 a3 a4 a5
     (foldl (\<lambda>h (i, nm, f). snd (merlin_helper_register i nm (Some f) h)) (merlin_helpers_init up rnd helpers_boot) kvs) =
   (if i = 2 then ucast up else if i = 3 then ucast rnd else 0)"
proof -
  have i: "i \<in> {1, 2, 3, 4, 5, 6}" using assms by (simp add: allowed_ids)
  have "i \<noteq> 0" "\<not> MERLIN_MAX_HELPER \<le> i" using i by (auto simp: word_le_nat_alt)
  from dispatch_after [OF this, of a0 a1 a2 a3 a4 a5 "builtin_table up rnd @ kvs"] i show ?thesis
    by (auto simp: helpers_init_puts register_put_def [abs_def] builtin_table_def h_trace_printk_def
        h_uptime_ms_def h_rng_u32_def h_gpio_set_def h_gpio_get_def h_yield_def)
qed

theorem allowed_helpers_registered_witness:
  "merlin_dispatch_helper_rtos 2 0 0 0 0 0 0 (merlin_helpers_init 77 5 helpers_boot) = 77"
  using allowed_helpers_registered [of 256 1 2 0 0 0 0 0 0 77 5 "[]"] by (simp add: allowed_ids)

end
