(* ===== verification/Tool_Decode.thy ===== *)
theory Tool_Decode
  imports Decode
begin

text \<open>
  The decoder of the user-space verifier, \<open>tools/merlin-verifier/decode.c\<close>. Its enumerations and record
  (\<open>decode.h\<close>) are the kernel's. It always returns 0 and reports failure as the class \<open>INSN_INVALID\<close>; it
  does not clear the output first, so the fields it leaves alone keep what the caller's record \<open>out\<close>
  held. The second part compares it with the kernel decoder.
\<close>

subsection \<open>Immediates\<close>

definition sext_xor :: "u32 \<Rightarrow> nat \<Rightarrow> u32" where
  "sext_xor v width = (let sign = push_bit (width - 1) 1 in (v XOR sign) - sign)"

definition imm_I :: "u32 \<Rightarrow> s64" where
  "imm_I w = scast (sext_xor (bits w 31 20) 12)"

definition imm_S :: "u32 \<Rightarrow> s64" where
  "imm_S w = (let v = push_bit 5 (bits w 31 25) OR bits w 11 7 in scast (sext_xor v 12))"

definition imm_B :: "u32 \<Rightarrow> s64" where
  "imm_B w =
     (let v = push_bit 12 (bits w 31 31) OR push_bit 11 (bits w 7 7) OR push_bit 5 (bits w 30 25)
              OR push_bit 1 (bits w 11 8)
      in scast (sext_xor v 13))"

definition imm_U :: "u32 \<Rightarrow> s64" where
  "imm_U w = scast (w AND 0xfffff000)"

definition imm_J :: "u32 \<Rightarrow> s64" where
  "imm_J w =
     (let v = push_bit 20 (bits w 31 31) OR push_bit 12 (bits w 19 12) OR push_bit 11 (bits w 20 20)
              OR push_bit 1 (bits w 30 21)
      in scast (sext_xor v 21))"

subsection \<open>Decoding\<close>

definition tool_branch :: "u32 \<Rightarrow> u32 \<Rightarrow> merlin_insn \<Rightarrow> merlin_insn" where
  "tool_branch w funct3 out =
     (let ok = (\<lambda>k. out\<lparr>br_kind := k, cls := INSN_BRANCH, imm := imm_B w\<rparr>) in
      if funct3 = 0 then ok BR_BEQ else if funct3 = 1 then ok BR_BNE else if funct3 = 4 then ok BR_BLT
      else if funct3 = 5 then ok BR_BGE else if funct3 = 6 then ok BR_BLTU else if funct3 = 7 then ok BR_BGEU
      else out\<lparr>cls := INSN_INVALID\<rparr>)"

definition load_kinds :: "merlin_load_kind list" where
  "load_kinds = [LD_LB, LD_LH, LD_LW, LD_LD, LD_LBU, LD_LHU, LD_LWU]"

definition store_kinds :: "merlin_store_kind list" where
  "store_kinds = [ST_SB, ST_SH, ST_SW, ST_SD]"

definition tool_load :: "u32 \<Rightarrow> u32 \<Rightarrow> merlin_insn \<Rightarrow> merlin_insn" where
  "tool_load w funct3 out =
     (if funct3 > 6 then out\<lparr>cls := INSN_INVALID\<rparr>
      else out\<lparr>cls := INSN_LOAD, ld_kind := load_kinds ! unat funct3, imm := imm_I w\<rparr>)"

definition tool_store :: "u32 \<Rightarrow> u32 \<Rightarrow> merlin_insn \<Rightarrow> merlin_insn" where
  "tool_store w funct3 out =
     (if funct3 > 3 then out\<lparr>cls := INSN_INVALID\<rparr>
      else out\<lparr>cls := INSN_STORE, st_kind := store_kinds ! unat funct3, imm := imm_S w\<rparr>)"

definition tool_alui :: "u32 \<Rightarrow> u32 \<Rightarrow> merlin_insn \<Rightarrow> merlin_insn" where
  "tool_alui w funct3 out =
     (let alu = (\<lambda>a. out\<lparr>cls := INSN_ALU_IMM, alu_op := a, imm := imm_I w\<rparr>) in
      if funct3 = 0 then alu ALU_ADD else if funct3 = 2 then alu ALU_SLT else if funct3 = 3 then alu ALU_SLTU
      else if funct3 = 4 then alu ALU_XOR else if funct3 = 6 then alu ALU_OR else if funct3 = 7 then alu ALU_AND
      else if funct3 = 1 then out\<lparr>cls := INSN_SHIFT_IMM, alu_op := ALU_SLL, imm := ucast (bits w 25 20)\<rparr>
      else if funct3 = 5 then
        out\<lparr>cls := INSN_SHIFT_IMM, alu_op := (if bits w 30 30 \<noteq> 0 then ALU_SRA else ALU_SRL),
            imm := ucast (bits w 25 20)\<rparr>
      else out\<lparr>cls := INSN_INVALID\<rparr>)"

definition tool_alur :: "u32 \<Rightarrow> u32 \<Rightarrow> merlin_insn \<Rightarrow> merlin_insn" where
  "tool_alur funct3 funct7 out =
     (if funct7 = 1 then
        if funct3 = 0 then out\<lparr>cls := INSN_MUL, alu_op := ALU_MUL\<rparr>
        else if funct3 = 1 then out\<lparr>cls := INSN_MUL, alu_op := ALU_MULH\<rparr>
        else if funct3 = 2 then out\<lparr>cls := INSN_MUL, alu_op := ALU_MULHSU\<rparr>
        else if funct3 = 3 then out\<lparr>cls := INSN_MUL, alu_op := ALU_MULHU\<rparr>
        else if funct3 = 4 then out\<lparr>cls := INSN_DIV, alu_op := ALU_DIV\<rparr>
        else if funct3 = 5 then out\<lparr>cls := INSN_DIV, alu_op := ALU_DIVU\<rparr>
        else if funct3 = 6 then out\<lparr>cls := INSN_DIV, alu_op := ALU_REM\<rparr>
        else if funct3 = 7 then out\<lparr>cls := INSN_DIV, alu_op := ALU_REMU\<rparr>
        else out\<lparr>cls := INSN_INVALID\<rparr>
      else let o1 = out\<lparr>cls := INSN_ALU_REG\<rparr> in
        if funct3 = 0 then o1\<lparr>alu_op := (if funct7 = 0x20 then ALU_SUB else ALU_ADD)\<rparr>
        else if funct3 = 1 then o1\<lparr>alu_op := ALU_SLL\<rparr>
        else if funct3 = 2 then o1\<lparr>alu_op := ALU_SLT\<rparr>
        else if funct3 = 3 then o1\<lparr>alu_op := ALU_SLTU\<rparr>
        else if funct3 = 4 then o1\<lparr>alu_op := ALU_XOR\<rparr>
        else if funct3 = 5 then o1\<lparr>alu_op := (if funct7 = 0x20 then ALU_SRA else ALU_SRL)\<rparr>
        else if funct3 = 6 then o1\<lparr>alu_op := ALU_OR\<rparr>
        else if funct3 = 7 then o1\<lparr>alu_op := ALU_AND\<rparr>
        else o1)"

definition tool_aluiw :: "u32 \<Rightarrow> u32 \<Rightarrow> merlin_insn \<Rightarrow> merlin_insn" where
  "tool_aluiw w funct3 out =
     (let o1 = out\<lparr>cls := INSN_ALU_IMM_W, word_op := True\<rparr> in
      if funct3 = 0 then o1\<lparr>alu_op := ALU_ADD, imm := imm_I w\<rparr>
      else if funct3 = 1 then o1\<lparr>alu_op := ALU_SLL, imm := ucast (bits w 24 20)\<rparr>
      else if funct3 = 5 then
        o1\<lparr>alu_op := (if bits w 30 30 \<noteq> 0 then ALU_SRA else ALU_SRL), imm := ucast (bits w 24 20)\<rparr>
      else o1\<lparr>cls := INSN_INVALID\<rparr>)"

definition tool_aluw :: "u32 \<Rightarrow> u32 \<Rightarrow> merlin_insn \<Rightarrow> merlin_insn" where
  "tool_aluw funct3 funct7 out =
     (let o1 = out\<lparr>cls := INSN_ALU_REG_W, word_op := True\<rparr> in
      if funct7 = 1 then
        if funct3 = 0 then o1\<lparr>cls := INSN_MUL, alu_op := ALU_MUL\<rparr>
        else if funct3 = 4 then o1\<lparr>cls := INSN_DIV, alu_op := ALU_DIV\<rparr>
        else if funct3 = 5 then o1\<lparr>cls := INSN_DIV, alu_op := ALU_DIVU\<rparr>
        else if funct3 = 6 then o1\<lparr>cls := INSN_DIV, alu_op := ALU_REM\<rparr>
        else if funct3 = 7 then o1\<lparr>cls := INSN_DIV, alu_op := ALU_REMU\<rparr>
        else o1\<lparr>cls := INSN_INVALID\<rparr>
      else if funct3 = 0 then o1\<lparr>alu_op := (if funct7 = 0x20 then ALU_SUB else ALU_ADD)\<rparr>
      else if funct3 = 1 then o1\<lparr>alu_op := ALU_SLL\<rparr>
      else if funct3 = 5 then o1\<lparr>alu_op := (if funct7 = 0x20 then ALU_SRA else ALU_SRL)\<rparr>
      else o1\<lparr>cls := INSN_INVALID\<rparr>)"

definition tool_fence :: "u32 \<Rightarrow> merlin_insn \<Rightarrow> merlin_insn" where
  "tool_fence funct3 out =
     (if funct3 = 0 then out\<lparr>cls := INSN_FENCE\<rparr>
      else if funct3 = 1 then out\<lparr>cls := INSN_FENCE_I\<rparr>
      else out\<lparr>cls := INSN_INVALID\<rparr>)"

definition tool_system :: "u32 \<Rightarrow> u32 \<Rightarrow> merlin_insn \<Rightarrow> merlin_insn" where
  "tool_system w funct3 out =
     (if funct3 = 0 then
        if w = 0x73 then out\<lparr>cls := INSN_ECALL\<rparr>
        else if w = 0x100073 then out\<lparr>cls := INSN_EBREAK\<rparr>
        else out\<lparr>cls := INSN_PRIV\<rparr>
      else out\<lparr>cls := INSN_CSR\<rparr>)"

definition merlin_decode_tool :: "u32 \<Rightarrow> u32 \<Rightarrow> merlin_insn \<Rightarrow> merlin_insn" where
  "merlin_decode_tool w p out0 =
     (let opc = bits w 6 0; funct3 = bits w 14 12; funct7 = bits w 31 25;
          out = out0\<lparr>raw := w, pc := p, cls := INSN_INVALID, rd := unat (bits w 11 7),
                     rs1 := unat (bits w 19 15), rs2 := unat (bits w 24 20), imm := 0, word_op := False\<rparr>
      in if w AND 3 \<noteq> 3 then out\<lparr>cls := INSN_UNSUPPORTED\<rparr>
         else if opc = 0x37 then out\<lparr>cls := INSN_LUI, imm := imm_U w\<rparr>
         else if opc = 0x17 then out\<lparr>cls := INSN_AUIPC, imm := imm_U w\<rparr>
         else if opc = 0x6f then out\<lparr>cls := INSN_JAL, imm := imm_J w\<rparr>
         else if opc = 0x67 then
           (if funct3 \<noteq> 0 then out\<lparr>cls := INSN_INVALID\<rparr> else out\<lparr>cls := INSN_JALR, imm := imm_I w\<rparr>)
         else if opc = 0x63 then tool_branch w funct3 out
         else if opc = 0x03 then tool_load w funct3 out
         else if opc = 0x23 then tool_store w funct3 out
         else if opc = 0x13 then tool_alui w funct3 out
         else if opc = 0x33 then tool_alur funct3 funct7 out
         else if opc = 0x1b then tool_aluiw w funct3 out
         else if opc = 0x3b then tool_aluw funct3 funct7 out
         else if opc = 0x0f then tool_fence funct3 out
         else if opc = 0x73 then tool_system w funct3 out
         else if opc \<in> {0x07, 0x27, 0x43, 0x47, 0x4b, 0x4f, 0x53} then out\<lparr>cls := INSN_FLOAT\<rparr>
         else out\<lparr>cls := INSN_INVALID\<rparr>)"

definition merlin_insn_permitted_tool :: "merlin_insn \<Rightarrow> bool" where
  "merlin_insn_permitted_tool i =
     (cls i \<notin> {INSN_EBREAK, INSN_CSR, INSN_PRIV, INSN_FENCE_I, INSN_FLOAT, INSN_INVALID, INSN_UNSUPPORTED})"

subsection \<open>Sign extension: exclusive-or and subtract against shift left and right\<close>

lemma bit_exp_u32: "bit (2 ^ k :: u32) n \<longleftrightarrow> n = k \<and> k < 32"
  by (auto simp: bit_exp_iff possible_bit_word)

lemma sext_xor_pos:
  assumes "0 < width" "width < 32" "\<not> bit v (width - 1)"
  shows "sext_xor v width = v"
proof -
  have "v XOR 2 ^ (width - 1) = v + 2 ^ (width - 1)"
    by (rule disjunctive_add_eq_xor [symmetric])
      (use assms(3) in \<open>auto intro!: bit_word_eqI simp: bit_and_iff bit_exp_u32\<close>)
  then show ?thesis by (simp add: sext_xor_def Let_def)
qed

lemma sext_xor_neg:
  assumes "0 < width" "width < 32" "bit v (width - 1)"
  shows "sext_xor v width = v - 2 ^ width"
proof -
  let ?s = "2 ^ (width - 1) :: u32"
  have "(v XOR ?s) + ?s = (v XOR ?s) XOR ?s"
    by (rule disjunctive_add_eq_xor)
      (use assms(3) in \<open>auto intro!: bit_word_eqI simp: bit_and_iff bit_xor_iff bit_exp_u32\<close>)
  then have "(v XOR ?s) + ?s = v" by (simp add: xor.assoc)
  moreover have "(2 :: u32) ^ width = ?s + ?s"
    using assms(1) by (cases width) simp_all
  ultimately have "(v XOR ?s) - ?s = v - 2 ^ width"
    by (metis add_diff_cancel_right' add_diff_cancel_right)
  then show ?thesis by (simp add: sext_xor_def Let_def)
qed

text \<open>On a value that fits the field, the two ways to extend the sign agree.\<close>

lemma sext_xor_eq:
  assumes "0 < width" "width < 32" "\<And>n. width \<le> n \<Longrightarrow> \<not> bit v n"
  shows "sext_xor v width = sign_ext v width"
proof (cases "bit v (width - 1)")
  case False
  have "v = sign_ext v width"
  proof (rule bit_word_eqI)
    fix n assume "n < LENGTH(32)"
    then show "bit v n = bit (sign_ext v width) n"
      using assms False by (cases "n < width") (auto simp: bit_sign_ext min_def)
  qed
  with assms False show ?thesis by (simp add: sext_xor_pos)
next
  case True
  have "v - 2 ^ width = v + NOT (mask width)"
    by (simp add: mask_eq_exp_minus_1 not_eq_complement)
  also have "\<dots> = v OR NOT (mask width)"
    by (rule disjunctive_add_eq_or)
      (use assms(3) in \<open>auto simp: bit_eq_iff bit_and_iff bit_not_iff bit_mask_iff not_less\<close>)
  also have "\<dots> = sign_ext v width"
  proof (rule bit_word_eqI)
    fix n assume "n < LENGTH(32)"
    then show "bit (v OR NOT (mask width)) n = bit (sign_ext v width) n"
      using assms True
      by (cases "n < width") (auto simp: bit_sign_ext bit_or_iff bit_not_iff bit_mask_iff min_def le_less_Suc_eq)
  qed
  finally show ?thesis using assms True by (simp add: sext_xor_neg)
qed

lemma imm_S_eq: "imm_S w = imm_s w"
  unfolding imm_S_def imm_s_def Let_def
  by (subst sext_xor_eq) (auto simp: bit_imm_simps)

lemma imm_B_eq: "imm_B w = imm_b w"
  unfolding imm_B_def imm_b_def Let_def
  by (subst sext_xor_eq) (auto simp: bit_imm_simps)

lemma imm_J_eq: "imm_J w = imm_j w"
  unfolding imm_J_def imm_j_def Let_def
  by (subst sext_xor_eq) (auto simp: bit_imm_simps)

lemma imm_U_eq: "imm_U w = imm_u w"
  by (simp add: imm_U_def imm_u_def)

lemma bit_imm_I: "n < 64 \<Longrightarrow> bit (imm_I w) n \<longleftrightarrow> bit w (min (n + 20) 31)"
  unfolding imm_I_def
  by (subst sext_xor_eq) (auto simp: bit_imm_simps)

lemma imm_I_low: "imm_i w = take_bit 12 (imm_I w)"
  by (rule bit_word_eqI) (auto simp: bit_imm_i bit_take_bit_iff bit_imm_I min_def)

lemma shamt_eq: "ucast (bits w 25 20) = imm_shamt w True" "ucast (bits w 24 20) = imm_shamt w False"
  by (simp_all add: imm_shamt_def bits_def)

lemma opcode_eq: "w AND 0x7f = bits w 6 0"
  by (simp add: bits_def)

lemma bit30_eq: "bits w 30 30 \<noteq> 0 \<longleftrightarrow> bits w 31 25 AND 0x20 \<noteq> 0"
proof -
  have "bits w 30 30 = 0 \<longleftrightarrow> \<not> bit w 30"
    by (subst bits_eq_0_iff) (auto dest: le_antisym)
  moreover have "bits w 31 25 AND 0x20 = 0 \<longleftrightarrow> \<not> bit (bits w 31 25) 5"
  proof -
    have "(0x20 :: u32) = 2 ^ 5" by simp
    then show ?thesis
      by (simp only: and_exp_eq_0_iff_not_bit)
  qed
  ultimately show ?thesis by (simp add: bit_bits)
qed

lemma bits3_cases:
  "bits w 14 12 \<in> {0, 1, 2, 3, 4, 5, 6, 7}"
proof -
  have "unat (bits w 14 12) < 8" using bits_less [of 12 14 w] by simp
  then have "unat (bits w 14 12) \<in> {0, 1, 2, 3, 4, 5, 6, 7}" by auto
  then have "word_of_nat (unat (bits w 14 12)) \<in> (word_of_nat ` {0, 1, 2, 3, 4, 5, 6, 7} :: u32 set)" by blast
  then show ?thesis by simp
qed

subsection \<open>The two decoders on the same word\<close>

lemmas tool_defs =
  merlin_decode_tool_def tool_branch_def tool_load_def tool_store_def tool_alui_def tool_alur_def
  tool_aluiw_def tool_aluw_def tool_fence_def tool_system_def

lemmas tool_imm_eqs = imm_S_eq imm_B_eq imm_J_eq imm_U_eq shamt_eq bit30_eq

text \<open>Whether the verifier that uses the decoder lets the word into a program.\<close>

definition kernel_takes :: "u32 \<Rightarrow> bool" where
  "kernel_takes w = (case merlin_decode w 0 of None \<Rightarrow> False | Some i \<Rightarrow> merlin_insn_permitted_default i)"

definition tool_takes :: "u32 \<Rightarrow> bool" where
  "tool_takes w = merlin_insn_permitted_tool (merlin_decode_tool w 0 (insn_zero w 0))"

lemma permitted_kernel_iff:
  "merlin_insn_permitted_default i \<longleftrightarrow> merlin_insn_permitted_tool i"
  by (cases "cls i") (simp_all add: merlin_insn_permitted_default_def merlin_insn_permitted_tool_def)

text \<open>What the tool's record holds when the kernel's decoder gave \<open>i\<close>: its own immediate on the forms
  with a 12-bit I immediate, the operation it knows for word multiplications and divisions, and in
  the fields that belong to another class what the caller's record held.\<close>

definition has_imm_I :: "merlin_insn \<Rightarrow> bool" where
  "has_imm_I i \<longleftrightarrow> cls i \<in> {INSN_JALR, INSN_LOAD, INSN_ALU_IMM} \<or> cls i = INSN_ALU_IMM_W \<and> alu_op i = ALU_ADD"

definition has_alu :: "merlin_insn \<Rightarrow> bool" where
  "has_alu i \<longleftrightarrow> cls i \<in> {INSN_ALU_IMM, INSN_SHIFT_IMM, INSN_ALU_REG, INSN_ALU_IMM_W, INSN_ALU_REG_W, INSN_MUL, INSN_DIV}"

definition word_muldiv :: "u32 \<Rightarrow> merlin_alu_op" where
  "word_muldiv funct3 = (if funct3 = 0 then ALU_MUL else div_ops ! unat (funct3 - 4))"

definition tool_view :: "merlin_insn \<Rightarrow> merlin_insn \<Rightarrow> merlin_insn" where
  "tool_view i out0 =
     i\<lparr>imm := (if has_imm_I i then imm_I (raw i) else imm i),
       br_kind := (if cls i = INSN_BRANCH then br_kind i else br_kind out0),
       ld_kind := (if cls i = INSN_LOAD then ld_kind i else ld_kind out0),
       st_kind := (if cls i = INSN_STORE then st_kind i else st_kind out0),
       alu_op := (if \<not> has_alu i then alu_op out0
                  else if word_op i \<and> cls i \<in> {INSN_MUL, INSN_DIV} then word_muldiv (bits (raw i) 14 12)
                  else alu_op i)\<rparr>"

lemmas view_defs = tool_view_def has_imm_I_def has_alu_def word_muldiv_def

definition tool_base :: "u32 \<Rightarrow> u32 \<Rightarrow> merlin_insn \<Rightarrow> merlin_insn" where
  "tool_base w p out =
     out\<lparr>raw := w, pc := p, cls := INSN_INVALID, rd := unat (bits w 11 7),
         rs1 := unat (bits w 19 15), rs2 := unat (bits w 24 20), imm := 0, word_op := False\<rparr>"

abbreviation kernel_base :: "u32 \<Rightarrow> u32 \<Rightarrow> merlin_insn" where
  "kernel_base w p \<equiv> decode_regs w (insn_zero w p)"

text \<open>The decoders agree where both let the instruction in.\<close>

definition agree :: "merlin_insn \<Rightarrow> merlin_insn option \<Rightarrow> merlin_insn \<Rightarrow> bool" where
  "agree out d t \<longleftrightarrow>
     (case d of None \<Rightarrow> True
      | Some i \<Rightarrow> merlin_insn_permitted_tool t \<longrightarrow> merlin_insn_permitted_tool i \<longrightarrow> t = tool_view i out)"

lemmas agree_defs =
  agree_def tool_base_def decode_regs_def insn_zero_def view_defs Let_def tool_imm_eqs
  merlin_insn_permitted_tool_def

lemma agree_if:
  "(c \<Longrightarrow> agree out d1 t1) \<Longrightarrow> (\<not> c \<Longrightarrow> agree out d2 t2)
    \<Longrightarrow> agree out (if c then d1 else d2) (if c then t1 else t2)"
  by simp

lemma branch_agrees:
  assumes "f3 \<in> {0, 1, 2, 3, 4, 5, 6, 7}"
  shows "agree out (decode_branch w f3 (kernel_base w p)) (tool_branch w f3 (tool_base w p out))"
  using assms
  by (cases out, elim insertE emptyE) (simp_all add: decode_branch_def tool_branch_def agree_defs)

lemma load_agrees:
  assumes "f3 \<in> {0, 1, 2, 3, 4, 5, 6, 7}"
  shows "agree out (decode_load w f3 (kernel_base w p)) (tool_load w f3 (tool_base w p out))"
  using assms
  by (cases out, elim insertE emptyE) (simp_all add: decode_load_def tool_load_def load_kinds_def agree_defs)

lemma store_agrees:
  assumes "f3 \<in> {0, 1, 2, 3, 4, 5, 6, 7}"
  shows "agree out (decode_store w f3 (kernel_base w p)) (tool_store w f3 (tool_base w p out))"
  using assms
  by (cases out, elim insertE emptyE) (simp_all add: decode_store_def tool_store_def store_kinds_def agree_defs)

lemma alui_agrees:
  assumes "f3 \<in> {0, 1, 2, 3, 4, 5, 6, 7}"
  shows "agree out (decode_alui w f3 (bits w 31 25) (kernel_base w p)) (tool_alui w f3 (tool_base w p out))"
  using assms
  by (cases out, elim insertE emptyE) (simp_all add: decode_alui_def tool_alui_def agree_defs)

lemma aluiw_agrees:
  assumes "f3 \<in> {0, 1, 2, 3, 4, 5, 6, 7}"
  shows "agree out (decode_aluiw w f3 (bits w 31 25) (kernel_base w p)) (tool_aluiw w f3 (tool_base w p out))"
  using assms
  by (cases out, elim insertE emptyE) (simp_all add: decode_aluiw_def tool_aluiw_def agree_defs)

lemma alur_agrees:
  assumes "f3 \<in> {0, 1, 2, 3, 4, 5, 6, 7}"
  shows "agree out (decode_alur f3 f7 (kernel_base w p)) (tool_alur f3 f7 (tool_base w p out))"
  using assms
  by (cases out, elim insertE emptyE) (simp_all add: decode_alur_def tool_alur_def mul_ops_def div_ops_def alu_ops_def agree_defs)

lemma fence_agrees:
  assumes "f3 \<in> {0, 1, 2, 3, 4, 5, 6, 7}"
  shows "agree out (decode_fence f3 (kernel_base w p)) (tool_fence f3 (tool_base w p out))"
  using assms
  by (cases out, elim insertE emptyE) (simp_all add: decode_fence_def tool_fence_def agree_defs)

lemma aluw_agrees:
  "agree out (decode_aluw (bits w 14 12) f7 (kernel_base w p)) (tool_aluw (bits w 14 12) f7 (tool_base w p out))"
  using bits3_cases [of w]
  by (cases out, elim insertE emptyE)
    (simp_all add: decode_aluw_def tool_aluw_def div_ops_def w_ops_def agree_defs)

lemma system_agrees:
  "agree out (decode_system w f3 (kernel_base w p)) (tool_system w f3 (tool_base w p out))"
  by (cases out) (simp add: decode_system_def tool_system_def agree_defs)

lemmas all_agree =
  branch_agrees [OF bits3_cases] load_agrees [OF bits3_cases] store_agrees [OF bits3_cases]
  alui_agrees [OF bits3_cases] aluiw_agrees [OF bits3_cases] alur_agrees [OF bits3_cases]
  fence_agrees [OF bits3_cases] aluw_agrees system_agrees

lemma decode_agree: "agree out (merlin_decode w p) (merlin_decode_tool w p out)"
  unfolding merlin_decode_def merlin_decode_tool_def Let_def opcode_eq tool_base_def [symmetric]
  by (intro agree_if all_agree) (cases out; simp add: agree_defs)+

subsection \<open>The words only one of them lets in\<close>

definition takes :: "merlin_insn option \<Rightarrow> bool" where
  "takes d = (case d of None \<Rightarrow> False | Some i \<Rightarrow> merlin_insn_permitted_tool i)"

text \<open>The \<open>funct7\<close> values RISC-V reserves in the OP and OP-32 opcodes, and the word forms it has not.\<close>

definition reserved_funct7 :: "u32 \<Rightarrow> u32 \<Rightarrow> bool" where
  "reserved_funct7 funct3 funct7 \<longleftrightarrow> funct7 \<notin> {0, 1} \<and> \<not> (funct7 = 0x20 \<and> funct3 \<in> {0, 5})"

definition no_word_form :: "u32 \<Rightarrow> u32 \<Rightarrow> bool" where
  "no_word_form funct3 funct7 \<longleftrightarrow>
     funct7 = 1 \<and> funct3 \<in> {1, 2, 3} \<or> funct7 = 0 \<and> funct3 \<in> {2, 3, 4, 6, 7}"

lemmas takes_defs = takes_def merlin_insn_permitted_tool_def reserved_funct7_def no_word_form_def Let_def

lemma takes_kernel:
  assumes "f3 \<in> {0, 1, 2, 3, 4, 5, 6, 7}"
  shows "takes (decode_branch w f3 o1) \<longleftrightarrow> f3 \<notin> {2, 3}" "takes (decode_load w f3 o1) \<longleftrightarrow> f3 \<noteq> 7"
    "takes (decode_store w f3 o1) \<longleftrightarrow> f3 \<in> {0, 1, 2, 3}" "takes (decode_alui w f3 f7 o1)"
    "takes (decode_alur f3 f7 o1) \<longleftrightarrow> \<not> reserved_funct7 f3 f7"
    "takes (decode_aluiw w f3 f7 o1) \<longleftrightarrow> f3 \<in> {0, 1, 5}"
    "takes (decode_aluw f3 f7 o1) \<longleftrightarrow> \<not> reserved_funct7 f3 f7" "takes (decode_fence f3 o1) \<longleftrightarrow> f3 \<noteq> 1"
  using assms
  by (elim insertE emptyE; simp add: takes_defs decode_branch_def decode_load_def decode_store_def
      decode_alui_def decode_alur_def decode_aluiw_def decode_aluw_def decode_fence_def)+

lemma takes_tool:
  assumes "f3 \<in> {0, 1, 2, 3, 4, 5, 6, 7}"
  shows "takes (Some (tool_branch w f3 o1)) \<longleftrightarrow> f3 \<notin> {2, 3}" "takes (Some (tool_load w f3 o1)) \<longleftrightarrow> f3 \<noteq> 7"
    "takes (Some (tool_store w f3 o1)) \<longleftrightarrow> f3 \<in> {0, 1, 2, 3}" "takes (Some (tool_alui w f3 o1))"
    "takes (Some (tool_alur f3 f7 o1))"
    "takes (Some (tool_aluiw w f3 o1)) \<longleftrightarrow> f3 \<in> {0, 1, 5}"
    "takes (Some (tool_aluw f3 f7 o1)) \<longleftrightarrow> \<not> no_word_form f3 f7 \<and> (reserved_funct7 f3 f7 \<longrightarrow> f3 \<in> {0, 1, 5})"
    "takes (Some (tool_fence f3 o1)) \<longleftrightarrow> f3 = 0"
  using assms
  by (elim insertE emptyE; simp add: takes_defs tool_branch_def tool_load_def tool_store_def
      tool_alui_def tool_alur_def tool_aluiw_def tool_aluw_def tool_fence_def)+

lemma takes_system:
  assumes "bits w 6 0 = 0x73" and f3: "f3 = bits w 14 12"
  shows "takes (decode_system w f3 (kernel_base w p)) \<longleftrightarrow> w = 0x73"
    and "takes (Some (tool_system w f3 out)) \<longleftrightarrow> w = 0x73"
proof -
  show "takes (Some (tool_system w f3 out)) \<longleftrightarrow> w = 0x73"
    unfolding f3 by (cases "w = 0x73") (simp_all add: takes_defs tool_system_def bits_def)
  show "takes (decode_system w f3 (kernel_base w p)) \<longleftrightarrow> w = 0x73"
  proof (cases "w = 0x73")
    case True
    then show ?thesis unfolding f3 by (simp add: takes_defs decode_system_def decode_regs_def insn_zero_def bits_def)
  next
    case False
    then show ?thesis
      using ecall_word_unique [of w] assms(1) unfolding f3
      by (auto simp: takes_defs decode_system_def decode_regs_def insn_zero_def opcode_eq unat_eq_0)
  qed
qed

lemma takes_if: "takes (if c then d1 else d2) = (if c then takes d1 else takes d2)"
  by simp

lemma takes_Some_if: "takes (Some (if c then t1 else t2)) = (if c then takes (Some t1) else takes (Some t2))"
  by simp

lemma takes_class:
  "takes (Some (i\<lparr>imm := x\<rparr>)) = takes (Some i)" "\<not> takes None"
  "takes (Some (i\<lparr>cls := c\<rparr>)) \<longleftrightarrow>
     c \<notin> {INSN_EBREAK, INSN_CSR, INSN_PRIV, INSN_FENCE_I, INSN_FLOAT, INSN_INVALID, INSN_UNSUPPORTED}"
  by (simp_all add: takes_defs)

lemma and_3_opcode: "w AND 3 = bits w 6 0 AND 3"
  by (simp add: bits_def and.assoc)

lemma kernel_takes_eq: "kernel_takes w = takes (merlin_decode w 0)"
  by (simp add: kernel_takes_def takes_def permitted_kernel_iff split: option.split)

lemma tool_takes_eq: "tool_takes w = takes (Some (merlin_decode_tool w 0 (insn_zero w 0)))"
  by (simp add: tool_takes_def takes_def)

definition base_takes :: "u32 \<Rightarrow> bool" where
  "base_takes w =
     (let opc = bits w 6 0; f3 = bits w 14 12 in
      opc \<in> {0x37, 0x17, 0x6f, 0x13} \<or> opc = 0x67 \<and> f3 = 0 \<or> opc = 0x63 \<and> f3 \<notin> {2, 3} \<or>
      opc = 0x03 \<and> f3 \<noteq> 7 \<or> opc = 0x23 \<and> f3 \<in> {0, 1, 2, 3} \<or> opc = 0x1b \<and> f3 \<in> {0, 1, 5} \<or> opc = 0x73 \<and> w = 0x73)"

lemma kernel_takes_words:
  "kernel_takes w \<longleftrightarrow> base_takes w \<or> bits w 6 0 \<in> {0x33, 0x3b} \<and> \<not> reserved_funct7 (bits w 14 12) (bits w 31 25)
     \<or> bits w 6 0 = 0x0f \<and> bits w 14 12 \<noteq> 1"
  unfolding kernel_takes_eq merlin_decode_def Let_def opcode_eq and_3_opcode [of w] base_takes_def
  by (simp add: takes_if takes_class takes_kernel [OF bits3_cases] takes_kernel [of 0] takes_system [of w])

lemma tool_takes_words:
  "tool_takes w \<longleftrightarrow> base_takes w \<or> bits w 6 0 = 0x33
     \<or> bits w 6 0 = 0x3b \<and> \<not> no_word_form (bits w 14 12) (bits w 31 25) \<and>
         (reserved_funct7 (bits w 14 12) (bits w 31 25) \<longrightarrow> bits w 14 12 \<in> {0, 1, 5})
     \<or> bits w 6 0 = 0x0f \<and> bits w 14 12 = 0"
  unfolding tool_takes_eq merlin_decode_tool_def Let_def opcode_eq and_3_opcode [of w] base_takes_def
  by (simp add: takes_Some_if takes_class takes_tool [OF bits3_cases] takes_tool [of 0] takes_system)

subsection \<open>The comparison\<close>

text \<open>
  Where the kernel's decoder and the user-space verifier's decoder both let a word into a program,
  the tool's record is the kernel's with three exceptions the statement spells out: 12-bit I immediates
  are sign extended by the tool only (the kernel's is the low 12 bits of it), word multiplications and
  divisions carry their operation only in the tool, and a field of another class keeps what the
  caller's record held.
\<close>

theorem tool_kernel_decode:
  assumes "merlin_decode w p = Some i" "merlin_insn_permitted_default i"
    and "merlin_insn_permitted_tool (merlin_decode_tool w p out)"
  shows "merlin_decode_tool w p out = tool_view i out
    \<and> imm i = (if has_imm_I i then take_bit 12 (imm (merlin_decode_tool w p out))
                else imm (merlin_decode_tool w p out))"
proof -
  have view: "merlin_decode_tool w p out = tool_view i out"
    using decode_agree [of out w p] assms by (simp add: agree_def permitted_kernel_iff)
  have "imm i = imm_i w" if "has_imm_I i"
    using that assms(1) by (auto simp: has_imm_I_def decode_defs Let_def split: if_splits)
  then show ?thesis
    using merlin_decode_fields(1) [OF assms(1)] by (simp add: view tool_view_def imm_I_low)
qed

text \<open>
  The words only one of the two decoders lets in, exactly: the kernel alone takes the word forms
  RISC-V does not have and the reserved fences, the tool alone takes register operations with a
  reserved \<open>funct7\<close>.
\<close>

theorem decoders_differ:
  "(kernel_takes w \<and> \<not> tool_takes w) =
     (bits w 6 0 = 0x3b \<and> no_word_form (bits w 14 12) (bits w 31 25)
      \<or> bits w 6 0 = 0x0f \<and> bits w 14 12 \<notin> {0, 1})
   \<and> (tool_takes w \<and> \<not> kernel_takes w) =
     (reserved_funct7 (bits w 14 12) (bits w 31 25)
      \<and> (bits w 6 0 = 0x33 \<or> bits w 6 0 = 0x3b \<and> bits w 14 12 \<in> {0, 1, 5}))"
  unfolding kernel_takes_words tool_takes_words base_takes_def Let_def
  by (auto simp: no_word_form_def reserved_funct7_def)

text \<open>Witness: \<open>addi a0, a0, -1\<close>, where the immediates differ in their sign extension.\<close>

theorem tool_kernel_decode_witness:
  "merlin_decode_tool 0xfff50513 0 (insn_zero 0 0) = tool_view (the (merlin_decode 0xfff50513 0)) (insn_zero 0 0)
   \<and> imm (the (merlin_decode 0xfff50513 0)) = 0xfff"
proof -
  have d: "merlin_decode 0xfff50513 0 = Some (the (merlin_decode 0xfff50513 0))"
    "merlin_insn_permitted_default (the (merlin_decode 0xfff50513 0))"
    "imm (the (merlin_decode 0xfff50513 0)) = 0xfff"
    "merlin_insn_permitted_tool (merlin_decode_tool 0xfff50513 0 (insn_zero 0 0))"
    by code_simp+
  show ?thesis using tool_kernel_decode [OF d(1) d(2) d(4)] d(3) by simp
qed

end
