(* ===== verification/Tool_Cfg.thy ===== *)
theory Tool_Cfg
  imports Tool_Decode Cfg_Build
begin

text \<open>
  The control-flow graph of the user-space verifier, \<open>tools/merlin-verifier/cfg.c\<close>. Its passes read the
  instructions through the tool's decoder, its two range errors have messages of their own, and its
  reverse postorder is a recursive depth-first search; dominators and back edges are computed by the
  code the kernel has, so the definitions of \<open>Cfg\<close> stand for them. A decoded record is a local variable
  of the C code that is not initialised: \<open>junk\<close> gives what it holds at each offset. The second part shows
  that on texts both decoders read alike the graph is the kernel's.
\<close>

definition tool_insn_at :: "(nat \<Rightarrow> merlin_insn) \<Rightarrow> u8 list \<Rightarrow> nat \<Rightarrow> merlin_insn" where
  "tool_insn_at junk text off = merlin_decode_tool (fetch32 text off) (of_nat off) (junk off)"

subsection \<open>Leaders and blocks\<close>

definition leader_step_tool :: "(nat \<Rightarrow> merlin_insn) \<Rightarrow> u8 list \<Rightarrow> u8 list \<Rightarrow> nat \<Rightarrow> string + u8 list" where
  "leader_step_tool junk text bm off =
     (let i = tool_insn_at junk text off; tgt = branch_target off i; fal = off + 4;
          mark_fal = (\<lambda>bm. if fal < length text then leader_set bm (fal div 4) else bm)
      in if cls i = INSN_BRANCH then
           (if tgt < 0 \<or> tgt \<ge> int (length text) then Inl ''branch target outside .text''
            else Inr (mark_fal (leader_set bm (nat tgt div 4))))
         else if cls i = INSN_JAL then
           (if tgt < 0 \<or> tgt \<ge> int (length text) then Inl ''JAL target outside .text''
            else Inr (mark_fal (leader_set bm (nat tgt div 4))))
         else if cls i = INSN_JALR then Inr (mark_fal bm)
         else Inr bm)"

fun leader_loop_tool :: "(nat \<Rightarrow> merlin_insn) \<Rightarrow> u8 list \<Rightarrow> nat list \<Rightarrow> u8 list \<Rightarrow> string + u8 list" where
  "leader_loop_tool junk text [] bm = Inr bm"
| "leader_loop_tool junk text (off # offs) bm =
     (case leader_step_tool junk text bm off of Inl e \<Rightarrow> Inl e | Inr bm' \<Rightarrow> leader_loop_tool junk text offs bm')"

definition cfg_find_leaders_tool :: "(nat \<Rightarrow> merlin_insn) \<Rightarrow> u8 list \<Rightarrow> u8 list \<Rightarrow> string + u8 list" where
  "cfg_find_leaders_tool junk text leader_bm =
     leader_loop_tool junk text (map (\<lambda>i. 4 * i) [0..<length text div 4]) (leader_set leader_bm 0)"

definition block_terminator_tool :: "(nat \<Rightarrow> merlin_insn) \<Rightarrow> u8 list \<Rightarrow> u32 \<Rightarrow> nat \<Rightarrow> merlin_block \<Rightarrow> merlin_block" where
  "block_terminator_tool junk text text_offset off b =
     (let i = tool_insn_at junk text off; tgt = branch_target off i; fal = off + 4 in
      if cls i = INSN_BRANCH then
        b\<lparr>succ_pc0 := text_offset + of_nat fal, succ_pc1 := text_offset + of_int tgt\<rparr>
      else if cls i = INSN_JAL then
        (let b1 = b\<lparr>succ_pc0 := text_offset + of_int tgt\<rparr> in
         if rd i \<noteq> 0 \<and> fal < length text then b1\<lparr>succ_pc1 := text_offset + of_nat fal\<rparr> else b1)
      else if cls i = INSN_JALR then b\<lparr>is_return := True\<rparr>
      else b)"

fun build_loop_tool :: "(nat \<Rightarrow> merlin_insn) \<Rightarrow> u8 list \<Rightarrow> u32 \<Rightarrow> u8 list \<Rightarrow> nat list \<Rightarrow> merlin_block list \<Rightarrow>
    string + merlin_block list" where
  "build_loop_tool junk text text_offset bm [] bs = Inr bs"
| "build_loop_tool junk text text_offset bm (i # is) bs =
     (let off = 4 * i in
      if leader_get bm i \<and> length bs \<ge> MERLIN_CFG_MAX_BLOCKS then Inl ''CFG exceeds MAX_BLOCKS''
      else let bs1 = (if leader_get bm i then bs @ [new_block (text_offset + of_nat off)] else bs) in
        if bs1 = [] then Inl ''no leader at .text start''
        else let b = last bs1;
                 b1 = b\<lparr>end_pc := text_offset + of_nat off, insn_count := insn_count b + 1\<rparr>
             in build_loop_tool junk text text_offset bm is
                  (bs1[length bs1 - 1 := block_terminator_tool junk text text_offset off b1]))"

definition wire_block_tool :: "(nat \<Rightarrow> merlin_insn) \<Rightarrow> u8 list \<Rightarrow> u32 \<Rightarrow> merlin_block list \<Rightarrow> nat \<Rightarrow> merlin_block" where
  "wire_block_tool junk text text_offset bs i =
     (let b = bs ! i;
          j = tool_insn_at junk text (unat (end_pc b - text_offset));
          is_ctrl = (cls j = INSN_BRANCH \<or> cls j = INSN_JAL \<or> cls j = INSN_JALR)
      in if is_return b then b\<lparr>succ0 := None, succ1 := None\<rparr>
         else if \<not> is_ctrl then
           (if i + 1 < length bs
            then b\<lparr>succ0 := Some (i + 1), succ_pc0 := start_pc (bs ! (i + 1))\<rparr> else b)
         else let b1 = (if succ_pc0 b \<noteq> 0 then b\<lparr>succ0 := merlin_cfg_block_at bs (succ_pc0 b)\<rparr> else b)
              in if succ_pc1 b1 \<noteq> 0 then b1\<lparr>succ1 := merlin_cfg_block_at bs (succ_pc1 b1)\<rparr> else b1)"

definition cfg_build_blocks_tool :: "(nat \<Rightarrow> merlin_insn) \<Rightarrow> u8 list \<Rightarrow> u32 \<Rightarrow> u8 list \<Rightarrow> string + merlin_block list" where
  "cfg_build_blocks_tool junk text text_offset bm =
     (case build_loop_tool junk text text_offset bm [0..<length text div 4] [] of
        Inl e \<Rightarrow> Inl e
      | Inr bs \<Rightarrow> Inr (map (wire_block_tool junk text text_offset bs) [0..<length bs]))"

subsection \<open>Reverse postorder by recursion\<close>

text \<open>The search state: the block table, the visited flags and the postorder so far.\<close>

type_synonym rpo_state = "merlin_block list \<times> (nat \<Rightarrow> bool) \<times> nat list"

partial_function (option) cfg_rpo_visit :: "nat \<Rightarrow> rpo_state \<Rightarrow> rpo_state option" where
  "cfg_rpo_visit b s =
     (case s of (bs, visited, post) \<Rightarrow>
        if visited b then Some s
        else let bs1 = mark_reachable bs b; s1 = (bs1, visited(b := True), post) in
          Option.bind (case succ0 (blk bs1 b) of None \<Rightarrow> Some s1 | Some n \<Rightarrow> cfg_rpo_visit n s1)
            (\<lambda>s2. Option.bind (case succ1 (blk (fst s2) b) of None \<Rightarrow> Some s2 | Some n \<Rightarrow> cfg_rpo_visit n s2)
               (\<lambda>(bs3, visited3, post3). Some (bs3, visited3, post3 @ [b]))))"

declare cfg_rpo_visit.simps [code]

definition cfg_compute_rpo_tool :: "merlin_block list \<Rightarrow> (merlin_block list \<times> nat list) option" where
  "cfg_compute_rpo_tool bs =
     map_option (\<lambda>(bs', visited, post). (bs', rev post)) (cfg_rpo_visit 0 (bs, \<lambda>_. False, []))"

subsection \<open>The build\<close>

definition cfg_build_from_tool :: "(nat \<Rightarrow> merlin_insn) \<Rightarrow> u8 list \<Rightarrow> u8 list \<Rightarrow> u32 \<Rightarrow> (string + merlin_cfg) option" where
  "cfg_build_from_tool junk leader_bm text text_offset =
     (case cfg_find_leaders_tool junk text leader_bm of
        Inl e \<Rightarrow> Some (Inl e)
      | Inr bm \<Rightarrow>
        (case cfg_build_blocks_tool junk text text_offset bm of
           Inl e \<Rightarrow> Some (Inl e)
         | Inr bs \<Rightarrow>
           (case cfg_compute_rpo_tool bs of
              None \<Rightarrow> None
            | Some (bs1, order) \<Rightarrow>
              (case cfg_compute_dominators order bs1 of
                 None \<Rightarrow> None
               | Some bs2 \<Rightarrow>
                 (case cfg_find_back_edges bs2 of
                    None \<Rightarrow> None
                  | Some (Inl e) \<Rightarrow> Some (Inl e)
                  | Some (Inr es) \<Rightarrow>
                      Some (Inr \<lparr>blocks = bs2, rpo = order, back_edges = es, reducible = True\<rparr>))))))"

definition merlin_cfg_build_tool :: "(nat \<Rightarrow> merlin_insn) \<Rightarrow> u8 list \<Rightarrow> u32 \<Rightarrow> (string + merlin_cfg) option" where
  "merlin_cfg_build_tool junk text text_offset =
     (if length text mod 4 \<noteq> 0 then Some (Inl ''.text size not a 4-byte multiple'')
      else if length text div 4 > CFG_MAX_INSNS then Some (Inl ''.text exceeds CFG insn cap'')
      else cfg_build_from_tool junk (replicate (CFG_MAX_INSNS div 8 + 1) 0) text text_offset)"

subsection \<open>The recursive search is the kernel's search with an explicit stack\<close>

lemma succs_parts:
  "set (succs b) = set_option (succ0 b) \<union> set_option (succ1 b)"
  by (cases "succ0 b"; cases "succ1 b") (auto simp: succs_def)

lemma next_unvisited_eq:
  "next_unvisited bs state b =
     (case succ0 (blk bs b) of
        Some n \<Rightarrow> if state n = 0 then Some n
                  else (case succ1 (blk bs b) of Some m \<Rightarrow> if state m = 0 then Some m else None | None \<Rightarrow> None)
      | None \<Rightarrow> (case succ1 (blk bs b) of Some m \<Rightarrow> if state m = 0 then Some m else None | None \<Rightarrow> None))"
  by (simp add: next_unvisited_def succs_def split: option.split)

text \<open>Only the \<open>reachable\<close> flags change during the search.\<close>

definition same_shape :: "merlin_block list \<Rightarrow> merlin_block list \<Rightarrow> bool" where
  "same_shape bs bs' \<longleftrightarrow> (\<forall>i. succ0 (blk bs' i) = succ0 (blk bs i) \<and> succ1 (blk bs' i) = succ1 (blk bs i))"

lemma same_shape_mark: "same_shape bs (mark_reachable bs b)"
  by (auto simp: same_shape_def mark_reachable_def blk_def nth_list_update)

lemma same_shape_trans: "same_shape a b \<Longrightarrow> same_shape b c \<Longrightarrow> same_shape a c"
  by (simp add: same_shape_def)

lemma rpo_loop_open:
  assumes "state b \<noteq> 0"
  shows "rpo_loop bs (b # stack) state post =
    (case next_unvisited bs state b of
       Some n \<Rightarrow> rpo_loop bs (n # b # stack) state post
     | None \<Rightarrow> rpo_loop bs stack (state(b := 2)) (post @ [b]))"
  using assms by (subst rpo_loop.simps) (simp add: Let_def split: option.split)

lemma rpo_loop_new:
  assumes "state b = 0"
  shows "rpo_loop bs (b # stack) state post = rpo_loop (mark_reachable bs b) (b # stack) (state(b := 1)) post"
  using assms by (subst rpo_loop.simps) (simp add: Let_def rpo_loop_open split: option.split)

definition seen :: "(nat \<Rightarrow> nat) \<Rightarrow> nat \<Rightarrow> bool" where
  "seen c = (\<lambda>n. c n \<noteq> 0)"

lemma seen_upd: "k \<noteq> 0 \<Longrightarrow> seen (c(b := k)) = (seen c)(b := True)"
  by (auto simp: seen_def)

lemma seen_iff: "seen c b \<longleftrightarrow> c b \<noteq> 0"
  by (simp add: seen_def)

text \<open>
  \<open>lockstep b s s'\<close>: the recursive call for \<open>b\<close> and the stack machine that pushes \<open>b\<close> when it is not
  coloured go from \<open>s\<close> to \<open>s'\<close>; what is coloured keeps its colour. The optional successor that is
  absent changes nothing.
\<close>

fun lockstep :: "nat option \<Rightarrow> merlin_block list \<times> (nat \<Rightarrow> nat) \<times> nat list \<Rightarrow>
    merlin_block list \<times> (nat \<Rightarrow> nat) \<times> nat list \<Rightarrow> bool" where
  "lockstep ob (bs, c, post) (bs', c', post') \<longleftrightarrow>
     (case ob of None \<Rightarrow> Some (bs, seen c, post) | Some n \<Rightarrow> cfg_rpo_visit n (bs, seen c, post))
       = Some (bs', seen c', post') \<and>
     (\<forall>stack. rpo_loop bs (case ob of None \<Rightarrow> stack | Some n \<Rightarrow> if c n = 0 then n # stack else stack) c post
        = rpo_loop bs' stack c' post') \<and>
     same_shape bs bs' \<and> (\<forall>n. ob = Some n \<longrightarrow> c' n \<noteq> 0) \<and> (\<forall>n. c n \<noteq> 0 \<longrightarrow> c' n = c n)"

lemma lockstep_none: "lockstep None s s"
  by (cases s) (simp add: same_shape_def)

lemma lockstep_coloured: "c b \<noteq> 0 \<Longrightarrow> lockstep (Some b) (bs, c, post) (bs, c, post)"
  by (simp add: cfg_rpo_visit.simps [of b] seen_iff same_shape_def)

lemma loop_through:
  assumes l: "lockstep ob (bs, c, post) (bs', c', post')" and b: "c b \<noteq> 0"
    and nxt: "\<And>n. ob = Some n \<Longrightarrow> c n = 0 \<Longrightarrow> next_unvisited bs c b = Some n"
  shows "rpo_loop bs (b # stack) c post = rpo_loop bs' (b # stack) c' post'"
proof (cases "\<exists>n. ob = Some n \<and> c n = 0")
  case True
  then obtain n where n: "ob = Some n" "c n = 0" by blast
  then have "rpo_loop bs (b # stack) c post = rpo_loop bs (n # b # stack) c post"
    using rpo_loop_open [of c b bs stack post] b nxt by simp
  also have "\<dots> = rpo_loop bs' (b # stack) c' post'"
    using l n by simp
  finally show ?thesis .
next
  case False
  have "rpo_loop bs (case ob of None \<Rightarrow> b # stack | Some n \<Rightarrow> if c n = 0 then n # b # stack else b # stack) c post
      = rpo_loop bs' (b # stack) c' post'"
    using l by simp
  then show ?thesis using False by (simp split: option.splits)
qed

text \<open>One visited successor after the other, then the block itself.\<close>

lemma lockstep_visit:
  assumes new: "c b = 0"
    and first: "lockstep (succ0 (blk bs b)) (mark_reachable bs b, c(b := 1), post) (bs2, c2, post2)"
    and second: "lockstep (succ1 (blk bs b)) (bs2, c2, post2) (bs3, c3, post3)"
  shows "lockstep (Some b) (bs, c, post) (bs3, c3(b := 2), post3 @ [b])"
proof -
  let ?bs1 = "mark_reachable bs b" and ?c1 = "c(b := 1)"
  have sh1: "same_shape bs ?bs1" by (rule same_shape_mark)
  have sh2: "same_shape bs bs2" using same_shape_trans [OF sh1] first by auto
  have sh3: "same_shape bs bs3" using same_shape_trans [OF sh2] second by auto
  have keep2: "\<forall>n. ?c1 n \<noteq> 0 \<longrightarrow> c2 n = ?c1 n" and done0: "\<forall>n. succ0 (blk bs b) = Some n \<longrightarrow> c2 n \<noteq> 0"
    using first by auto
  have keep3: "\<forall>n. c2 n \<noteq> 0 \<longrightarrow> c3 n = c2 n" and done1: "\<forall>n. succ1 (blk bs b) = Some n \<longrightarrow> c3 n \<noteq> 0"
    using second by auto
  have b2: "c2 b = 1" and b3: "c3 b = 1" using keep2 keep3 by auto
  have rec1: "(case succ0 (blk ?bs1 b) of None \<Rightarrow> Some (?bs1, (seen c)(b := True), post)
      | Some n \<Rightarrow> cfg_rpo_visit n (?bs1, (seen c)(b := True), post)) = Some (bs2, seen c2, post2)"
  proof -
    have "seen ?c1 = (seen c)(b := True)" by (rule seen_upd) simp
    then show ?thesis using first sh1 by (simp only: lockstep.simps same_shape_def)
  qed
  have rec2: "(case succ1 (blk bs2 b) of None \<Rightarrow> Some (bs2, seen c2, post2)
      | Some n \<Rightarrow> cfg_rpo_visit n (bs2, seen c2, post2)) = Some (bs3, seen c3, post3)"
    using second sh2 by (simp add: same_shape_def)
  have "seen (c3(b := 2)) = seen c3" using b3 by (auto simp: seen_def)
  then have rec: "cfg_rpo_visit b (bs, seen c, post) = Some (bs3, seen (c3(b := 2)), post3 @ [b])"
    using new rec1 rec2 by (subst cfg_rpo_visit.simps) (simp add: seen_iff Let_def)
  have loop: "rpo_loop bs (b # stack) c post = rpo_loop bs3 stack (c3(b := 2)) (post3 @ [b])" for stack
  proof -
    have "rpo_loop bs (b # stack) c post = rpo_loop ?bs1 (b # stack) ?c1 post" using rpo_loop_new [of c b bs stack post] new by simp
    also have "\<dots> = rpo_loop bs2 (b # stack) c2 post2"
      by (rule loop_through [OF first]) (use sh1 in \<open>simp_all add: next_unvisited_eq same_shape_def\<close>)
    also have "\<dots> = rpo_loop bs3 (b # stack) c3 post3"
      by (rule loop_through [OF second])
        (use sh2 b2 done0 in \<open>auto simp: next_unvisited_eq same_shape_def split: option.split\<close>)
    also have "next_unvisited bs3 c3 b = None"
      using sh3 done0 done1 keep3 by (auto simp: next_unvisited_eq same_shape_def split: option.split)
    then have "rpo_loop bs3 (b # stack) c3 post3 = rpo_loop bs3 stack (c3(b := 2)) (post3 @ [b])"
      using b3 by (simp add: rpo_loop_open)
    finally show ?thesis .
  qed
  have "(c3(b := 2)) n = c n" if "c n \<noteq> 0" for n using that new keep2 keep3 by auto
  then show ?thesis using rec loop new sh3 by simp
qed

text \<open>Both searches return, on every graph whose successors lie below \<open>N\<close>.\<close>

lemma lockstep_ex:
  assumes "\<forall>i n. n \<in> set (succs (blk bs i)) \<longrightarrow> n < N" and "b < N"
  shows "\<exists>s'. lockstep (Some b) (bs, c, post) s'"
  using assms
proof (induction "card {n. n < N \<and> c n = 0}" arbitrary: bs b c post rule: less_induct)
  case less
  show ?case
  proof (cases "c b = 0")
    case False
    then show ?thesis using lockstep_coloured by blast
  next
    case True
    let ?bs1 = "mark_reachable bs b" and ?c1 = "c(b := 1)"
    have range: "\<forall>i n. n \<in> set (succs (blk bs' i)) \<longrightarrow> n < N" if "same_shape bs bs'" for bs'
      using less.prems(1) that by (auto simp: succs_parts same_shape_def)
    have sub: "\<exists>s'. lockstep ob (bs', c', post') s'"
      if sh: "same_shape bs bs'" and ob: "\<forall>n. ob = Some n \<longrightarrow> n < N" and keep: "\<forall>n. ?c1 n \<noteq> 0 \<longrightarrow> c' n = ?c1 n"
      for ob bs' c' post'
    proof (cases ob)
      case None
      then show ?thesis using lockstep_none by blast
    next
      case (Some n)
      have "c n = 0 \<and> n \<noteq> b" if "c' n = 0" for n
        using keep [rule_format, of n] that by (cases "n = b") auto
      then have "{n. n < N \<and> c' n = 0} \<subseteq> {n. n < N \<and> c n = 0} - {b}" by blast
      moreover have "b \<in> {n. n < N \<and> c n = 0}" using True less.prems(2) by simp
      ultimately have "card {n. n < N \<and> c' n = 0} < card {n. n < N \<and> c n = 0}"
        by (intro psubset_card_mono) auto
      then show ?thesis using less.hyps [of c' bs' n post'] range [OF sh] ob Some by blast
    qed
    have succ: "\<forall>n. succ0 (blk bs b) = Some n \<longrightarrow> n < N" "\<forall>n. succ1 (blk bs b) = Some n \<longrightarrow> n < N"
      using less.prems(1) by (auto simp: succs_parts)
    obtain bs2 c2 post2 where first: "lockstep (succ0 (blk bs b)) (?bs1, ?c1, post) (bs2, c2, post2)"
      using sub [OF same_shape_mark [of bs b] succ(1), of ?c1 post] by (auto simp del: lockstep.simps)
    have sh2: "same_shape bs bs2" and keep2: "\<forall>n. ?c1 n \<noteq> 0 \<longrightarrow> c2 n = ?c1 n"
      using same_shape_trans [OF same_shape_mark, of bs b bs2] first by auto
    obtain bs3 c3 post3 where "lockstep (succ1 (blk bs b)) (bs2, c2, post2) (bs3, c3, post3)"
      using sub [OF sh2 succ(2) keep2, of post2] by (auto simp del: lockstep.simps)
    then show ?thesis using lockstep_visit [OF True first] by blast
  qed
qed

lemma rpo_tool_eq:
  assumes "\<forall>i n. n \<in> set (succs (blk bs i)) \<longrightarrow> n < N" and "0 < N"
  shows "cfg_compute_rpo_tool bs = cfg_compute_rpo bs"
proof -
  obtain bs' c' post' where "lockstep (Some 0) (bs, \<lambda>_. 0, []) (bs', c', post')"
    using lockstep_ex [OF assms, of "\<lambda>_. 0" "[]"] by (auto simp del: lockstep.simps)
  then have l: "cfg_rpo_visit 0 (bs, seen (\<lambda>_. 0), []) = Some (bs', seen c', post')"
    "rpo_loop bs [0] (\<lambda>_. 0) [] = rpo_loop bs' [] c' post'" by simp_all
  have "seen (\<lambda>_. 0) = (\<lambda>_. False)" by (simp add: seen_def)
  then show ?thesis
    using l by (simp add: cfg_compute_rpo_tool_def cfg_compute_rpo_def rpo_loop.simps [of bs' "[]"])
qed

subsection \<open>Texts both decoders read alike\<close>

text \<open>The fields of an instruction that the passes read; \<open>plain_word\<close> is a word both decoders take and
  whose I immediate, if it has one, is not negative.\<close>

definition same_insn :: "merlin_insn \<Rightarrow> merlin_insn \<Rightarrow> bool" where
  "same_insn t i \<longleftrightarrow>
     cls t = cls i \<and> rd t = rd i \<and> rs1 t = rs1 i \<and> rs2 t = rs2 i \<and> imm t = imm i \<and>
     (cls i = INSN_LOAD \<longrightarrow> ld_kind t = ld_kind i) \<and> (cls i = INSN_STORE \<longrightarrow> st_kind t = st_kind i) \<and>
     (cls i = INSN_ALU_IMM \<longrightarrow> alu_op t = alu_op i)"

definition plain_word :: "u32 \<Rightarrow> bool" where
  "plain_word w \<longleftrightarrow>
     kernel_takes w \<and> tool_takes w \<and>
     (case merlin_decode w 0 of None \<Rightarrow> False | Some i \<Rightarrow> \<not> (has_imm_I i \<and> bit w 31))"

lemma decode_pc: "merlin_decode w p = map_option (\<lambda>i. i\<lparr>pc := p\<rparr>) (merlin_decode w 0)"
  by (simp add: decode_defs Let_def)

lemma imm_I_nonneg: "\<not> bit w 31 \<Longrightarrow> imm_I w = imm_i w"
  by (rule bit_word_eqI) (auto simp: bit_imm_I bit_imm_i min_def)

lemma imm_form: "merlin_decode w p = Some i \<Longrightarrow> has_imm_I i \<Longrightarrow> imm i = imm_i w"
  by (auto simp: has_imm_I_def decode_defs Let_def split: if_splits)

lemma tool_view_same:
  assumes "\<not> (has_imm_I i \<and> bit (raw i) 31)" "has_imm_I i \<Longrightarrow> imm i = imm_i (raw i)"
  shows "same_insn (tool_view i o1) i"
  using assms by (auto simp: same_insn_def tool_view_def has_alu_def imm_I_nonneg)

lemma tool_cls: "cls (merlin_decode_tool w p o1) = cls (merlin_decode_tool w q o2)"
  by (simp add: tool_defs Let_def)

lemma plain_word_decode:
  assumes "plain_word w"
  shows "\<exists>i. merlin_decode w p = Some i \<and> merlin_insn_permitted_default i \<and> same_insn (merlin_decode_tool w q o1) i"
proof -
  obtain j where j: "merlin_decode w 0 = Some j" "merlin_insn_permitted_default j" "\<not> (has_imm_I j \<and> bit w 31)"
    using assms by (auto simp: plain_word_def kernel_takes_def split: option.splits)
  let ?i = "j\<lparr>pc := p\<rparr>"
  have i: "merlin_decode w p = Some ?i" using decode_pc [of w p] j(1) by simp
  have perm: "merlin_insn_permitted_default ?i" "has_imm_I ?i = has_imm_I j"
    using j(2) by (simp_all add: merlin_insn_permitted_default_def has_imm_I_def)
  have dq: "merlin_decode w q = Some (j\<lparr>pc := q\<rparr>)" using decode_pc [of w q] j(1) by simp
  have pq: "merlin_insn_permitted_default (j\<lparr>pc := q\<rparr>)" "has_imm_I (j\<lparr>pc := q\<rparr>) = has_imm_I j"
    using j(2) by (simp_all add: merlin_insn_permitted_default_def has_imm_I_def)
  have "cls (merlin_decode_tool w q o1) = cls (merlin_decode_tool w 0 (insn_zero w 0))" by (rule tool_cls)
  then have tq: "merlin_insn_permitted_tool (merlin_decode_tool w q o1)"
    using assms by (simp add: plain_word_def tool_takes_def merlin_insn_permitted_tool_def)
  have view: "merlin_decode_tool w q o1 = tool_view (j\<lparr>pc := q\<rparr>) o1"
    using decode_agree [of o1 w q] dq pq(1) tq by (simp add: agree_def permitted_kernel_iff)
  have raw: "raw j = w" using merlin_decode_fields(1) [OF j(1)] .
  have "same_insn (tool_view (j\<lparr>pc := q\<rparr>) o1) (j\<lparr>pc := q\<rparr>)"
    by (rule tool_view_same) (use j(3) raw pq(2) imm_form [OF dq] in auto)
  then have "same_insn (merlin_decode_tool w q o1) ?i" unfolding view by (simp add: same_insn_def)
  then show ?thesis using i perm by blast
qed


definition plain_text :: "u8 list \<Rightarrow> bool" where
  "plain_text text = list_all (\<lambda>k. plain_word (fetch32 text (4 * k))) [0..<length text div 4]"

lemma plain_insn:
  assumes "plain_text text" and "k < length text div 4"
  shows "\<exists>i. insn_at text (4 * k) = Some i \<and> merlin_insn_permitted_default i \<and>
    same_insn (merlin_decode_tool (fetch32 text (4 * k)) q o1) i"
  using plain_word_decode [of "fetch32 text (4 * k)"] assms
  unfolding insn_at_def plain_text_def list_all_iff by (simp del: of_nat_mult)

lemma plain_tool_insn:
  assumes "plain_text text" and "k < length text div 4"
  obtains i where "insn_at text (4 * k) = Some i" "same_insn (tool_insn_at junk text (4 * k)) i"
  using plain_insn [OF assms] unfolding tool_insn_at_def by blast

subsection \<open>The passes agree on such texts, up to the wording of a range error\<close>

definition outcome :: "string + 'a \<Rightarrow> 'a option" where
  "outcome r = (case r of Inl _ \<Rightarrow> None | Inr a \<Rightarrow> Some a)"

lemma outcome_simps [simp]: "outcome (Inl e) = None" "outcome (Inr a) = Some a"
  by (simp_all add: outcome_def)

lemma leader_step_alike:
  assumes "plain_text text" and "k < length text div 4"
  shows "outcome (leader_step_tool junk text bm (4 * k)) = outcome (leader_step text bm (4 * k))"
proof -
  obtain i where "insn_at text (4 * k) = Some i" "same_insn (tool_insn_at junk text (4 * k)) i"
    using plain_tool_insn [OF assms] .
  then show ?thesis
    by (simp add: leader_step_tool_def leader_step_def Let_def same_insn_def branch_target_def)
qed

lemma leader_loop_alike:
  assumes "plain_text text" and "set offs \<subseteq> (\<lambda>k. 4 * k) ` {..<length text div 4}"
  shows "outcome (leader_loop_tool junk text offs bm) = outcome (leader_loop text offs bm)"
  using assms(2)
proof (induction offs arbitrary: bm)
  case (Cons off offs)
  then obtain k where "off = 4 * k" "k < length text div 4" by auto
  then have "outcome (leader_step_tool junk text bm off) = outcome (leader_step text bm off)"
    using leader_step_alike [OF assms(1)] by blast
  then show ?case
    using Cons by (cases "leader_step_tool junk text bm off"; cases "leader_step text bm off") simp_all
qed simp

lemma leaders_alike:
  assumes "plain_text text"
  shows "outcome (cfg_find_leaders_tool junk text bm) = outcome (cfg_find_leaders text bm)"
  unfolding cfg_find_leaders_tool_def cfg_find_leaders_def by (rule leader_loop_alike [OF assms]) auto

lemma terminator_alike:
  assumes "plain_text text" and "k < length text div 4"
  shows "block_terminator_tool junk text toff (4 * k) b = block_terminator text toff (4 * k) b"
proof -
  obtain i where "insn_at text (4 * k) = Some i" "same_insn (tool_insn_at junk text (4 * k)) i"
    using plain_tool_insn [OF assms] .
  then show ?thesis
    by (simp add: block_terminator_tool_def block_terminator_def Let_def same_insn_def branch_target_def)
qed

lemma build_loop_alike:
  assumes "plain_text text" and "set is \<subseteq> {..<length text div 4}"
  shows "build_loop_tool junk text toff bm is bs = build_loop text toff bm is bs"
  using assms(2) by (induction "is" arbitrary: bs) (simp_all add: terminator_alike [OF assms(1)] block_extend_def Let_def)

text \<open>Every block of the table ends at an instruction of the text and has no successor yet.\<close>

definition raw_ok :: "u8 list \<Rightarrow> u32 \<Rightarrow> merlin_block \<Rightarrow> bool" where
  "raw_ok text toff b \<longleftrightarrow> (\<exists>k < length text div 4. end_pc b = toff + of_nat (4 * k)) \<and> succ0 b = None \<and> succ1 b = None"

lemma terminator_raw: "raw_ok text toff (block_terminator text toff off b) = raw_ok text toff b"
  by (simp add: raw_ok_def block_terminator_def Let_def split: option.split)

lemma build_loop_raw:
  assumes "build_loop text toff bm is bs = Inr bs'" and "set is \<subseteq> {..<length text div 4}"
    and "\<forall>b \<in> set bs. raw_ok text toff b"
  shows "\<forall>b \<in> set bs'. raw_ok text toff b"
  using assms
proof (induction "is" arbitrary: bs)
  case (Cons i "is")
  let ?bs1 = "if leader_get bm i then bs @ [new_block (toff + of_nat (4 * i))] else bs"
  have i: "i < length text div 4" using Cons.prems(2) by simp
  have new: "raw_ok text toff (new_block (toff + of_nat (4 * i)))" using i by (auto simp: raw_ok_def new_block_def)
  have ne: "?bs1 \<noteq> []" and step: "build_loop text toff bm is (?bs1[length ?bs1 - 1 := block_extend text toff (4 * i) (last ?bs1)]) = Inr bs'"
    using Cons.prems(1) by (auto simp: Let_def split: if_splits)
  have old: "\<forall>b \<in> set ?bs1. raw_ok text toff b" using Cons.prems(3) new by auto
  then have "raw_ok text toff (block_extend text toff (4 * i) (last ?bs1))"
    using i last_in_set [OF ne] unfolding block_extend_def terminator_raw by (auto simp: raw_ok_def)
  then have "\<forall>b \<in> set (?bs1[length ?bs1 - 1 := block_extend text toff (4 * i) (last ?bs1)]). raw_ok text toff b"
    using old by (auto dest!: set_update_subset_insert [THEN subsetD])
  then show ?case using Cons.IH [OF step] Cons.prems(2) by simp
qed simp

lemma wire_alike:
  assumes "plain_text text" and "length text < 2 ^ 32" and "raw_ok text toff (bs ! i)"
  shows "wire_block_tool junk text toff bs i = wire_block text toff bs i"
proof -
  obtain k where k: "k < length text div 4" "end_pc (bs ! i) = toff + of_nat (4 * k)"
    using assms(3) by (auto simp: raw_ok_def)
  have "4 * k < 2 ^ LENGTH(32)" using k(1) assms(2) by simp
  from unat_of_nat_small [OF this] have off: "unat (end_pc (bs ! i) - toff) = 4 * k"
    using k(2) by (simp del: of_nat_mult)
  obtain j where "insn_at text (4 * k) = Some j" "same_insn (tool_insn_at junk text (4 * k)) j"
    using plain_tool_insn [OF assms(1) k(1)] .
  then show ?thesis unfolding wire_block_tool_def wire_block_def Let_def off by (simp add: same_insn_def)
qed

lemma blocks_alike:
  assumes "plain_text text" and "length text < 2 ^ 32"
  shows "cfg_build_blocks_tool junk text toff bm = cfg_build_blocks text toff bm"
proof -
  have eq: "build_loop_tool junk text toff bm [0..<length text div 4] [] = build_loop text toff bm [0..<length text div 4] []"
    by (rule build_loop_alike [OF assms(1)]) auto
  show ?thesis
  proof (cases "build_loop text toff bm [0..<length text div 4] []")
    case (Inr bs)
    then have "\<forall>b \<in> set bs. raw_ok text toff b"
      using build_loop_raw [OF Inr] by (simp add: atLeast0LessThan)
    then show ?thesis
      using Inr eq wire_alike [OF assms] by (simp add: cfg_build_blocks_tool_def cfg_build_blocks_def)
  qed (simp add: eq cfg_build_blocks_tool_def cfg_build_blocks_def)
qed

lemma wire_range:
  assumes "raw_ok text toff (bs ! i)" and "n \<in> set (succs (wire_block text toff bs i))"
  shows "n < length bs"
  using assms block_at_Some
  by (auto simp: wire_block_def succs_parts raw_ok_def Let_def split: if_splits)

lemma blocks_range:
  assumes "cfg_build_blocks text toff bm = Inr bs" and "n \<in> set (succs (blk bs i))"
  shows "n < max 1 (length bs)"
proof -
  obtain raws where raws: "build_loop text toff bm [0..<length text div 4] [] = Inr raws"
      "bs = map (wire_block text toff raws) [0..<length raws]"
    using assms(1) by (auto simp: cfg_build_blocks_def split: sum.splits)
  have "\<forall>b \<in> set raws. raw_ok text toff b"
    using build_loop_raw [OF raws(1)] by (simp add: atLeast0LessThan)
  then show ?thesis
    using assms(2) raws(2) wire_range [of "text" toff raws i n]
    by (cases "i < length raws") (auto simp: blk_def zero_block_def succs_def less_max_iff_disj)
qed

lemma build_from_alike:
  assumes "plain_text text" and "length text < 2 ^ 32"
  shows "map_option outcome (cfg_build_from_tool junk bm text toff) = map_option outcome (cfg_build_from bm text toff)"
proof -
  have lead: "outcome (cfg_find_leaders_tool junk text bm) = outcome (cfg_find_leaders text bm)"
    using leaders_alike [OF assms(1)] .
  show ?thesis
  proof (cases "cfg_find_leaders text bm")
    case (Inl e)
    then obtain e' where "cfg_find_leaders_tool junk text bm = Inl e'"
      using lead by (cases "cfg_find_leaders_tool junk text bm") auto
    then show ?thesis using Inl by (simp add: cfg_build_from_tool_def cfg_build_from_def)
  next
    case (Inr bm1)
    then have t: "cfg_find_leaders_tool junk text bm = Inr bm1"
      using lead by (cases "cfg_find_leaders_tool junk text bm") auto
    show ?thesis
    proof (cases "cfg_build_blocks text toff bm1")
      case (Inl e)
      then show ?thesis using Inr t blocks_alike [OF assms] by (simp add: cfg_build_from_tool_def cfg_build_from_def)
    next
      case bs: (Inr bs)
      have "cfg_compute_rpo_tool bs = cfg_compute_rpo bs"
        by (rule rpo_tool_eq [where N = "max 1 (length bs)"]) (use blocks_range [OF bs] in auto)
      then show ?thesis
        using Inr t bs blocks_alike [OF assms] unfolding cfg_build_from_tool_def cfg_build_from_def by simp
    qed
  qed
qed

lemma cfg_alike:
  assumes "plain_text text"
  shows "map_option outcome (merlin_cfg_build_tool junk text toff) = map_option outcome (merlin_cfg_build text toff)"
proof (cases "length text div 4 > CFG_MAX_INSNS \<or> length text mod 4 \<noteq> 0")
  case True
  then show ?thesis by (auto simp: merlin_cfg_build_tool_def merlin_cfg_build_def)
next
  case False
  then have "length text < 2 ^ 32" by auto
  then show ?thesis
    using False build_from_alike [OF assms] unfolding merlin_cfg_build_tool_def merlin_cfg_build_def by simp
qed

subsection \<open>An executable build\<close>

text \<open>The size of the leader bitmap does not matter once it holds every instruction.\<close>

definition same_bits :: "nat \<Rightarrow> u8 list \<Rightarrow> u8 list \<Rightarrow> bool" where
  "same_bits n bm bm' \<longleftrightarrow>
     (\<forall>j < n. leader_get bm j = leader_get bm' j \<and> j div 8 < length bm \<and> j div 8 < length bm')"

lemma same_bits_set: "same_bits n bm bm' \<Longrightarrow> i < n \<Longrightarrow> same_bits n (leader_set bm i) (leader_set bm' i)"
  unfolding same_bits_def using leaders.get_put leaders.holds_put by metis

lemma leader_step_bits:
  assumes "same_bits (length text div 4) bm bm'" and "length text mod 4 = 0"
  shows "rel_sum (=) (same_bits (length text div 4)) (leader_step_tool junk text bm off) (leader_step_tool junk text bm' off)"
proof -
  have "nat tgt div 4 < length text div 4" if "0 \<le> tgt" "tgt < int (length text)" for tgt
    using that assms(2) by auto
  moreover have "(off + 4) div 4 < length text div 4" if "off + 4 < length text"
    using that assms(2) by auto
  ultimately show ?thesis
    using assms(1) by (simp add: leader_step_tool_def Let_def same_bits_set)
qed

lemma leader_loop_bits:
  assumes "same_bits (length text div 4) bm bm'" and "length text mod 4 = 0"
  shows "rel_sum (=) (same_bits (length text div 4)) (leader_loop_tool junk text offs bm) (leader_loop_tool junk text offs bm')"
  using assms(1)
proof (induction offs arbitrary: bm bm')
  case (Cons off offs)
  show ?case
    using leader_step_bits [OF Cons.prems assms(2), of junk off] Cons.IH
    by (cases "leader_step_tool junk text bm off"; cases "leader_step_tool junk text bm' off") auto
qed simp

lemma build_loop_tool_bits:
  assumes "same_bits n bm bm'" and "set is \<subseteq> {..<n}"
  shows "build_loop_tool junk text toff bm is bs = build_loop_tool junk text toff bm' is bs"
  using assms(2) by (induction "is" arbitrary: bs) (use assms(1) in \<open>auto simp: Let_def same_bits_def\<close>)

lemma build_tool_size:
  assumes "length text mod 4 = 0" and "length text div 4 < 8 * m" and "length text div 4 < 8 * m'"
  shows "cfg_build_from_tool junk (replicate m 0) text toff = cfg_build_from_tool junk (replicate m' 0) text toff"
proof -
  let ?n = "length text div 4"
  have z: "same_bits (Suc ?n) (replicate m 0) (replicate m' 0)"
    using assms(2,3) by (auto simp: same_bits_def leader_bit)
  have "same_bits ?n (leader_set (replicate m 0) 0) (leader_set (replicate m' 0) 0)"
    using same_bits_set [OF z, of 0] by (auto simp: same_bits_def)
  from leader_loop_bits [OF this assms(1), of junk]
  have l: "rel_sum (=) (same_bits ?n) (cfg_find_leaders_tool junk text (replicate m 0)) (cfg_find_leaders_tool junk text (replicate m' 0))"
    by (simp add: cfg_find_leaders_tool_def)
  have "cfg_build_blocks_tool junk text toff bm = cfg_build_blocks_tool junk text toff bm'" if "same_bits ?n bm bm'" for bm bm'
    using build_loop_tool_bits [OF that, of "[0..<?n]"] by (simp add: cfg_build_blocks_tool_def atLeast0LessThan)
  then show ?thesis
    using l by (auto simp: cfg_build_from_tool_def rel_sum.simps)
qed

lemma merlin_cfg_build_tool_code [code]:
  "merlin_cfg_build_tool junk text toff =
     (if length text mod 4 \<noteq> 0 then Some (Inl ''.text size not a 4-byte multiple'')
      else if int (length text div 4) > 65536 then Some (Inl ''.text exceeds CFG insn cap'')
      else cfg_build_from_tool junk (replicate (length text div 32 + 1) 0) text toff)"
proof -
  have big: "CFG_MAX_INSNS < length text div 4 \<longleftrightarrow> 65536 < int (length text div 4)" by auto
  consider "length text mod 4 \<noteq> 0 \<or> CFG_MAX_INSNS < length text div 4"
    | "length text mod 4 = 0" "\<not> CFG_MAX_INSNS < length text div 4" by blast
  then show ?thesis
  proof cases
    case 1
    then show ?thesis unfolding merlin_cfg_build_tool_def big by (elim disjE) simp_all
  next
    case 2
    have "cfg_build_from_tool junk (replicate (CFG_MAX_INSNS div 8 + 1) 0) text toff =
        cfg_build_from_tool junk (replicate (length text div 32 + 1) 0) text toff"
      by (rule build_tool_size [OF 2(1)]) (use 2(2) in auto)
    then show ?thesis unfolding merlin_cfg_build_tool_def big [symmetric] using 2 by (simp only: if_False simp_thms)
  qed
qed

end
