(* ===== verification/Tool_Verifier.thy ===== *)
theory Tool_Verifier
  imports Tool_Cfg Verifier_Props
begin

text \<open>
  The user-space verifier, \<open>tools/merlin-verifier/verify.c\<close>, of which \<open>kernel/merlin/verifier.c\<close> is a port.
  The abstract values, their joins and the transfer functions that do not consult an allow-list are the
  same code as the kernel's, so the definitions of \<open>Verifier\<close> stand for them; the allow-lists, the
  calls, the transfer function, the LIFO work list, the driver with its statistics and the
  configuration are modelled here. Diagnostics go to standard error and are not modelled; allocation is
  taken to succeed; the text of the summary is the data it prints. The second part proves that on texts
  both decoders read alike the verdict is the kernel's.
\<close>

subsection \<open>Allow-lists\<close>

abbreviation (input) MERLIN_NR_HELPERS :: u32 where "MERLIN_NR_HELPERS \<equiv> 4096"
abbreviation (input) MERLIN_NR_KFUNCS :: u32 where "MERLIN_NR_KFUNCS \<equiv> 4096"
abbreviation (input) MERLIN_NR_CALLBACKS :: u32 where "MERLIN_NR_CALLBACKS \<equiv> 4096"

definition bitmap_get :: "u8 list \<Rightarrow> u32 \<Rightarrow> bool" where
  "bitmap_get bm i \<longleftrightarrow> drop_bit (unat i mod 8) (bm ! (unat i div 8)) AND 1 \<noteq> 0"

definition bitmap_set :: "u8 list \<Rightarrow> u32 \<Rightarrow> u8 list" where
  "bitmap_set bm i = bm[unat i div 8 := bm ! (unat i div 8) OR push_bit (unat i mod 8) 1]"

definition helper_allowed_tool :: "merlin_verifier_cfg \<Rightarrow> u32 \<Rightarrow> bool" where
  "helper_allowed_tool c i = (if i \<ge> MERLIN_NR_HELPERS then False else bitmap_get (helper_allow c) i)"

definition helper_set :: "u32 \<Rightarrow> merlin_verifier_cfg \<Rightarrow> merlin_verifier_cfg" where
  "helper_set i c = (if i < MERLIN_NR_HELPERS then c\<lparr>helper_allow := bitmap_set (helper_allow c) i\<rparr> else c)"

definition kfunc_allowed_tool :: "merlin_verifier_cfg \<Rightarrow> u32 \<Rightarrow> bool" where
  "kfunc_allowed_tool c i = (if i \<ge> MERLIN_NR_KFUNCS then False else bitmap_get (kfunc_allow c) i)"

definition kfunc_set :: "u32 \<Rightarrow> merlin_verifier_cfg \<Rightarrow> merlin_verifier_cfg" where
  "kfunc_set i c = (if i < MERLIN_NR_KFUNCS then c\<lparr>kfunc_allow := bitmap_set (kfunc_allow c) i\<rparr> else c)"

definition callback_allowed_tool :: "merlin_verifier_cfg \<Rightarrow> u32 \<Rightarrow> bool" where
  "callback_allowed_tool c i = (if i \<ge> MERLIN_NR_CALLBACKS then False else bitmap_get (callback_allow c) i)"

definition callback_set :: "u32 \<Rightarrow> merlin_verifier_cfg \<Rightarrow> merlin_verifier_cfg" where
  "callback_set i c = (if i < MERLIN_NR_CALLBACKS then c\<lparr>callback_allow := bitmap_set (callback_allow c) i\<rparr> else c)"

definition mvdp_helpers :: "u32 list" where
  "mvdp_helpers =
     [0x101, 0x102, 0x103, 0x110, 0x120, 0x121, 0x140, 0x142, 0x143, 0x144, 0x150, 0x151, 0x152,
      0x201, 0x202, 0x203, 0x204, 0x205, 0x206, 0x207, 0x208, 0x209]"

definition merlin_verifier_cfg_init_for_mvdp :: merlin_verifier_cfg where
  "merlin_verifier_cfg_init_for_mvdp =
     (let c0 = \<lparr>helper_allow = replicate 512 0, kfunc_allow = replicate 512 0, callback_allow = replicate 512 0,
                max_stack_bytes = 512, allow_back_edges = True, is_callback_body = False,
                step_cap = MERLIN_VERIFY_STEP_CAP_DEFAULT\<rparr>;
          c1 = fold helper_set mvdp_helpers c0;
          c2 = fold kfunc_set [1, 2, 3] c1
      in callback_set 1 c2)"

subsection \<open>Calls and the transfer function\<close>

definition step_kfunc_resolve_tool :: "merlin_verifier_cfg \<Rightarrow> vctx \<Rightarrow> vctx" where
  "step_kfunc_resolve_tool c v =
     (let a0 = reg v 10 in
      if \<not> const_scalar a0 then clobber caller_saved (set_reg 10 rv_scalar_top (REJECT v))
      else if \<not> kfunc_allowed_tool c (const_u32 a0) then clobber caller_saved (set_reg 10 rv_scalar_top (REJECT v))
      else set_reg 10 (rv_id RVAL_PTR_KFUNC_SLOT (const_u32 a0)) (clobber caller_saved v))"

definition step_loop_cb_tool :: "merlin_verifier_cfg \<Rightarrow> vctx \<Rightarrow> vctx" where
  "step_loop_cb_tool c v =
     (let a0 = reg v 10; a1 = reg v 11;
          v1 = (if \<not> const_scalar a0 \<or> smin (scal a0) <s 1 then REJECT v
                else if \<not> const_scalar a1 then REJECT v
                else if \<not> callback_allowed_tool c (const_u32 a1) then REJECT v
                else v\<lparr>pending := const_u32 a0\<rparr>)
      in set_reg 10 rv_scalar_top (clobber (10 # caller_saved) v1))"

definition step_ecall_tool :: "merlin_verifier_cfg \<Rightarrow> vctx \<Rightarrow> vctx" where
  "step_ecall_tool c v =
     (let a7 = reg v 17; hid = const_u32 a7 in
      if \<not> const_scalar a7 then set_reg 10 rv_scalar_top (REJECT v)
      else if \<not> helper_allowed_tool c hid then set_reg 10 rv_scalar_top (REJECT v)
      else
        let v1 = (if hid = MERLIN_HELPER_LOOP_BOUND
                  then (if const_scalar (reg v 10) then v\<lparr>pending := const_u32 (reg v 10)\<rparr>
                        else v\<lparr>pending := 0xffffffff\<rparr>)
                  else v)
        in if hid = MERLIN_HELPER_KFUNC_RESOLVE then step_kfunc_resolve_tool c v1
           else if hid = MERLIN_HELPER_LOOP_CB then step_loop_cb_tool c v1
           else clobber caller_saved (set_reg 10 (rv_id RVAL_PTR_HELPER_RET hid) v1))"

definition step_control_tool :: "merlin_verifier_cfg \<Rightarrow> merlin_insn \<Rightarrow> vctx \<Rightarrow> vctx" where
  "step_control_tool c i v =
     (if cls i = INSN_JAL \<and> rd i = 2 then reject_sp v
      else
        let v1 = (if cls i = INSN_JAL \<and> rd i \<noteq> 0 then set_reg (rd i) rv_scalar_top v else v) in
        if cls i = INSN_JALR then
          (let tgt = reg v1 (rs1 i);
               is_ret = (rs1 i = 1);
               is_kfunc = (kind tgt = RVAL_PTR_KFUNC_SLOT \<and> kfunc_allowed_tool c (helper_id tgt))
           in reject_if (\<not> is_ret \<and> \<not> is_kfunc) v1)
        else v1)"

definition step_insn_tool :: "merlin_verifier_cfg \<Rightarrow> merlin_insn \<Rightarrow> vctx \<Rightarrow> vctx" where
  "step_insn_tool c i v =
     (if \<not> merlin_insn_permitted_tool i then REJECT v
      else if cls i = INSN_ECALL then step_ecall_tool c v
      else if cls i = INSN_LOAD then step_load c i v
      else if cls i = INSN_STORE then step_store c i v
      else if cls i = INSN_ALU_IMM then step_alu_imm c i v
      else if cls i = INSN_LUI then step_upper i (rv_const (imm i)) v
      else if cls i = INSN_AUIPC then step_upper i rv_scalar_top v
      else if cls i = INSN_ALU_REG then step_alu_reg i v
      else if cls i = INSN_BRANCH \<or> cls i = INSN_JAL \<or> cls i = INSN_JALR then step_control_tool c i v
      else write_rd (rd i) rv_scalar_top v)"

subsection \<open>The driver\<close>

record tool_stats =
  n_insn :: u64
  n_helper :: u64
  n_jmp :: u64
  n_branch :: u64
  n_load :: u64
  n_store :: u64

definition count_insn :: "merlin_insn \<Rightarrow> tool_stats \<Rightarrow> tool_stats" where
  "count_insn i t0 =
     (let t = t0\<lparr>n_insn := n_insn t0 + 1\<rparr> in
      case cls i of
        INSN_BRANCH \<Rightarrow> t\<lparr>n_branch := n_branch t + 1\<rparr>
      | INSN_JAL \<Rightarrow> t\<lparr>n_jmp := n_jmp t + 1\<rparr>
      | INSN_JALR \<Rightarrow> t\<lparr>n_jmp := n_jmp t + 1\<rparr>
      | INSN_LOAD \<Rightarrow> t\<lparr>n_load := n_load t + 1\<rparr>
      | INSN_STORE \<Rightarrow> t\<lparr>n_store := n_store t + 1\<rparr>
      | INSN_ECALL \<Rightarrow> t\<lparr>n_helper := n_helper t + 1\<rparr>
      | _ \<Rightarrow> t)"

text \<open>The summary line: what each \<open>snprintf\<close> of the function prints.\<close>

datatype tool_summary =
    Bad_size nat
  | Cfg_failed string
  | Step_cap_exceeded u32
  | Summary nat nat u32 tool_stats u32

definition ws_push_tool :: "nat \<Rightarrow> nat list \<Rightarrow> nat list" where
  "ws_push_tool b q = (if b \<in> set q then q else b # q)"

text \<open>The walk over one block; \<^const>\<open>None\<close> is the return when the step cap is exceeded.\<close>

fun walk_tool :: "merlin_verifier_cfg \<Rightarrow> (nat \<Rightarrow> merlin_insn) \<Rightarrow> u8 list \<Rightarrow> u32 \<Rightarrow> u32 \<Rightarrow> nat list \<Rightarrow>
    u32 \<Rightarrow> tool_stats \<Rightarrow> vctx \<Rightarrow> (u32 \<times> tool_stats \<times> vctx) option" where
  "walk_tool c junk text text_offset cap [] steps t v = Some (steps, t, v)"
| "walk_tool c junk text text_offset cap (off # offs) steps t v =
     (let i = merlin_decode_tool (fetch32 text off) (text_offset + of_nat off) (junk off) in
      if steps + 1 > cap then None
      else walk_tool c junk text text_offset cap offs (steps + 1) (count_insn i t) (step_insn_tool c i v))"

definition join_succ_tool :: "merlin_vstate \<Rightarrow> vrun \<Rightarrow> nat \<Rightarrow> vrun" where
  "join_succ_tool st g n =
     (let (dst, changed) = vstate_join (entry_state g ! n) st
      in g\<lparr>entry_state := (entry_state g)[n := dst],
           queue := (if changed then ws_push_tool n (queue g) else queue g)\<rparr>)"

definition visit_tool :: "merlin_verifier_cfg \<Rightarrow> (nat \<Rightarrow> merlin_insn) \<Rightarrow> u8 list \<Rightarrow> u32 \<Rightarrow> u32 \<Rightarrow> merlin_block list \<Rightarrow>
    nat \<Rightarrow> vrun \<times> tool_stats \<Rightarrow> (vrun \<times> tool_stats) option" where
  "visit_tool c junk text text_offset cap bs i gt =
     (case gt of (g, t) \<Rightarrow>
        if \<not> valid (entry_state g ! i) then Some (g, t)
        else
          case walk_tool c junk text text_offset cap (block_offsets (length text) text_offset (bs ! i)) (nsteps g) t
                 \<lparr>vst = entry_state g ! i, rejected = nrejected g, pending = 0\<rparr> of
            None \<Rightarrow> None
          | Some (steps, t', v) \<Rightarrow>
              Some (foldl (join_succ_tool (vst v))
                      (mark_header (bs ! i) (pending v) (g\<lparr>nsteps := steps, nrejected := rejected v\<rparr>))
                      (succs (bs ! i)), t'))"

text \<open>\<open>Inl\<close> is the early return; \<^const>\<open>None\<close> would be a loop that does not end.\<close>

partial_function (option) worklist_tool :: "merlin_verifier_cfg \<Rightarrow> (nat \<Rightarrow> merlin_insn) \<Rightarrow> u8 list \<Rightarrow> u32 \<Rightarrow> u32 \<Rightarrow>
    merlin_block list \<Rightarrow> vrun \<times> tool_stats \<Rightarrow> (unit + vrun \<times> tool_stats) option" where
  "worklist_tool c junk text text_offset cap bs gt =
     (case queue (fst gt) of
        [] \<Rightarrow> Some (Inr gt)
      | i # q \<Rightarrow>
          (case visit_tool c junk text text_offset cap bs i ((fst gt)\<lparr>queue := q\<rparr>, snd gt) of
             None \<Rightarrow> Some (Inl ())
           | Some gt' \<Rightarrow> worklist_tool c junk text text_offset cap bs gt'))"

declare worklist_tool.simps [code]

definition initial_run_tool :: "merlin_verifier_cfg \<Rightarrow> nat \<Rightarrow> vrun \<times> tool_stats" where
  "initial_run_tool c n =
     (\<lparr>entry_state = (replicate n vstate_zero)[0 := vstate_init_entry c],
       loop_header_ok = replicate n False, queue = ws_push_tool 0 [], nsteps = 0, nrejected = 0\<rparr>,
      \<lparr>n_insn = 0, n_helper = 0, n_jmp = 0, n_branch = 0, n_load = 0, n_store = 0\<rparr>)"

text \<open>
  \<^const>\<open>None\<close> is a call that gives no verdict: a loop that does not return, or, for a text without
  blocks, the store of the entry state into the zero-size allocation.
\<close>

definition merlin_verify_text_tool :: "merlin_verifier_cfg \<Rightarrow> (nat \<Rightarrow> merlin_insn) \<Rightarrow> u8 list \<Rightarrow> u32 \<Rightarrow>
    (merlin_verify_result \<times> tool_summary) option" where
  "merlin_verify_text_tool c junk text text_offset =
     (if length text mod 4 \<noteq> 0 then Some (MERLIN_VERIFY_REJECT, Bad_size (length text))
      else case merlin_cfg_build_tool junk text text_offset of
        None \<Rightarrow> None
      | Some (Inl e) \<Rightarrow> Some (MERLIN_VERIFY_REJECT, Cfg_failed e)
      | Some (Inr G) \<Rightarrow>
          if blocks G = [] then None
          else
            (case worklist_tool c junk text text_offset (effective_cap c) (blocks G)
                    (initial_run_tool c (length (blocks G))) of
               None \<Rightarrow> None
             | Some (Inl _) \<Rightarrow> Some (MERLIN_VERIFY_REJECT, Step_cap_exceeded (effective_cap c))
             | Some (Inr (g, t)) \<Rightarrow>
                 (let rej = nrejected g + of_nat (unguarded (back_edges G) (loop_header_ok g)) in
                  Some (if rej \<noteq> 0 then MERLIN_VERIFY_REJECT else MERLIN_VERIFY_OK,
                        Summary (length (blocks G)) (length (back_edges G)) (nsteps g) t rej))))"

subsection \<open>The transfer function is the kernel's\<close>

lemma bitmap_get_iff: "bitmap_get bm i \<longleftrightarrow> bit (bm ! (unat i div 8)) (unat i mod 8)"
  by (simp add: bitmap_get_def drop_bit_and_1)

lemma id_range: "(4096 :: u32) \<le> i \<longleftrightarrow> 4095 < i"
  by (simp add: word_le_nat_alt word_less_nat_alt) linarith

lemma allowed_alike:
  "helper_allowed_tool c = helper_allowed c" "kfunc_allowed_tool c = kfunc_allowed c"
  "callback_allowed_tool c = callback_allowed c"
  by (simp_all add: fun_eq_iff helper_allowed_tool_def helper_allowed_def kfunc_allowed_tool_def kfunc_allowed_def
      callback_allowed_tool_def callback_allowed_def allow_get_def id_range bitmap_get_iff and_exp_bit)

lemma step_alike: "step_insn_tool c i v = step_insn c i v"
proof -
  have "step_kfunc_resolve_tool c v = step_kfunc_resolve c v" "step_loop_cb_tool c v = step_loop_cb c v" for v
    by (simp_all add: step_kfunc_resolve_tool_def step_kfunc_resolve_def step_loop_cb_tool_def step_loop_cb_def
        allowed_alike Let_def)
  then have "step_ecall_tool c v = step_ecall c v"
    by (simp add: step_ecall_tool_def step_ecall_def allowed_alike Let_def)
  moreover have "step_control_tool c i v = step_control c i v"
    by (simp add: step_control_tool_def step_control_def allowed_alike Let_def write_rd_def)
  ultimately show ?thesis
    by (cases "cls i") (simp_all add: step_insn_tool_def step_insn_def permitted_kernel_iff)
qed

lemma step_same:
  assumes "same_insn t i"
  shows "step_insn c t v = step_insn c i v"
proof -
  have f: "cls t = cls i" "rd t = rd i" "rs1 t = rs1 i" "rs2 t = rs2 i" "imm t = imm i"
    using assms by (simp_all add: same_insn_def)
  have p: "merlin_insn_permitted_default t = merlin_insn_permitted_default i"
    by (simp add: merlin_insn_permitted_default_def f)
  show ?thesis
    using assms
    by (cases "cls i")
      (simp_all add: step_insn_def p f same_insn_def Let_def step_load_def step_store_def step_alu_imm_def step_addi_def
        step_addi_ptr_def step_upper_def step_alu_reg_def step_control_def)
qed

subsection \<open>The walk and the work list are the kernel's on plain texts\<close>

lemma walk_alike:
  assumes plain: "plain_text text" and "set offs \<subseteq> (\<lambda>k. 4 * k) ` {..<length text div 4}"
  shows "map_option (\<lambda>(s, t, v). (s, v)) (walk_tool c junk text toff cap offs steps t v) =
    (case walk c text cap offs steps v of (capped, s, v') \<Rightarrow> if capped then None else Some (s, v'))"
  using assms(2)
proof (induction offs arbitrary: steps t v)
  case (Cons off offs)
  then obtain k where k: "off = 4 * k" "k < length text div 4" by auto
  obtain i where i: "insn_at text off = Some i"
      "same_insn (merlin_decode_tool (fetch32 text off) (toff + of_nat off) (junk off)) i"
    using plain_insn [OF plain k(2), of "toff + of_nat off" "junk off"] k(1) by blast
  have "step_insn_tool c (merlin_decode_tool (fetch32 text off) (toff + of_nat off) (junk off)) v = step_insn c i v"
    using step_same [OF i(2)] by (simp add: step_alike)
  then show ?case using Cons i(1) by (simp add: Let_def)
qed simp

lemma join_succ_alike:
  assumes "run_ok cap n g" and "m < n"
  shows "join_succ_tool st g m = join_succ n st g m"
proof -
  have q: "distinct (queue g)" "set (queue g) \<subseteq> {..<n}" using assms(1) by (auto simp: run_ok_def)
  have "length (queue g) < n" if "m \<notin> set (queue g)"
  proof -
    have "set (queue g) \<subseteq> {..<n} - {m}" using q(2) that by auto
    then have "card (set (queue g)) \<le> card ({..<n} - {m})" by (intro card_mono) auto
    then show ?thesis using assms(2) q(1) by (simp add: distinct_card)
  qed
  then have "ws_push_tool m (queue g) = ws_push n m (queue g)"
    by (simp add: ws_push_tool_def ws_push_def)
  then show ?thesis by (simp add: join_succ_tool_def join_succ_def split: prod.split)
qed

lemma join_succs_alike:
  assumes "run_ok cap n g" and "state_ok st" "valid st" and "set ms \<subseteq> {..<n}"
  shows "foldl (join_succ_tool st) g ms = foldl (join_succ n st) g ms"
  using assms
proof (induction ms arbitrary: g)
  case (Cons m ms)
  then have m: "m < n" by simp
  show ?case
    using Cons.IH [OF join_succ_joined(1) [OF Cons.prems(1-3) m] Cons.prems(2,3)] Cons.prems(4)
      join_succ_alike [OF Cons.prems(1) m] by simp
qed simp

text \<open>What a visit and a work list leave of the kernel's result: nothing when the step cap stopped it.\<close>

definition survivor :: "'a + 'b \<Rightarrow> 'b option" where
  "survivor r = (case r of Inl _ \<Rightarrow> None | Inr g \<Rightarrow> Some g)"

lemma survivor_simps [simp]: "survivor (Inl e) = None" "survivor (Inr g) = Some g"
  by (simp_all add: survivor_def)

definition offsets_in_text :: "u8 list \<Rightarrow> u32 \<Rightarrow> merlin_block list \<Rightarrow> bool" where
  "offsets_in_text text toff bs \<longleftrightarrow>
     (\<forall>b \<in> set bs. set (block_offsets (length text) toff b) \<subseteq> (\<lambda>k. 4 * k) ` {..<length text div 4})"

lemma graph_offsets:
  assumes G: "graph_ok text toff S G" and small: "length text < 2 ^ 32"
  shows "offsets_in_text text toff (blocks G)"
proof -
  have "S \<noteq> []" using G by (simp add: graph_ok_def segs_cover_def)
  then have len: "length (blocks G) = length S" using graph_fields(1) [OF G _ small] by blast
  have "set (block_offsets (length text) toff (blocks G ! i)) \<subseteq> (\<lambda>k. 4 * k) ` {..<length text div 4}"
    if i: "i < length S" for i
    using segs_cover_nth [OF _ i] G unfolding block_offsets_segs [OF G i small] by (force simp: graph_ok_def)
  then show ?thesis using len unfolding offsets_in_text_def by (metis in_set_conv_nth)
qed

lemma visit_alike:
  assumes plain: "plain_text text" and offs: "offsets_in_text text toff bs" and g: "run_ok cap (length bs) g"
    and i: "i < length bs" and walk: "walkable text toff bs" and cap: "cap \<noteq> -1"
  shows "map_option fst (visit_tool c junk text toff cap bs i (g, t)) = survivor (visit c text toff cap bs i g)"
proof (cases "valid (entry_state g ! i)")
  case False
  then show ?thesis by (simp add: visit_tool_def visit_def)
next
  case True
  let ?offs = "block_offsets (length text) toff (bs ! i)"
  let ?v0 = "\<lparr>vst = entry_state g ! i, rejected = nrejected g, pending = 0\<rparr>"
  have sub: "set ?offs \<subseteq> (\<lambda>k. 4 * k) ` {..<length text div 4}" using offs i by (auto simp: offsets_in_text_def)
  note w = walk_alike [OF plain sub, of c junk toff cap "nsteps g" t ?v0]
  show ?thesis
  proof (cases "walk c text cap ?offs (nsteps g) ?v0")
    case (fields capped steps v)
    show ?thesis
    proof (cases capped)
      case capped: True
      then show ?thesis using w fields True by (simp add: visit_tool_def visit_def)
    next
      case False
      then obtain t' where t': "walk_tool c junk text toff cap ?offs (nsteps g) t ?v0 = Some (steps, t', v)"
        using w fields by auto
      have v: "visit c text toff cap bs i g =
          Inr (foldl (join_succ (length bs) (vst v)) (mark_header (bs ! i) (pending v) (g\<lparr>nsteps := steps, nrejected := rejected v\<rparr>)) (succs (bs ! i)))"
        using fields False True by (simp add: visit_def)
      have e: "state_ok (entry_state g ! i)" "nsteps g \<le> cap" using g i by (auto simp: run_ok_def)
      have wk: "v = xfer c text ?offs ?v0 \<and> steps \<le> cap"
        using walk_xfer [of c "text" cap ?offs "nsteps g" ?v0 steps v] fields False cap e(2) by simp
      have "good ?v0" using e(1) True by (simp add: good_def)
      then have "good v" using wk xfer_good by blast
      then have st: "state_ok (vst v)" "valid (vst v)" by (auto simp: good_def)
      have h: "run_ok cap (length bs) (mark_header (bs ! i) (pending v) (g\<lparr>nsteps := steps, nrejected := rejected v\<rparr>))"
        using g wk by (simp add: run_ok_def)
      have succs: "set (succs (bs ! i)) \<subseteq> {..<length bs}" using walk i by (auto simp: walkable_def)
      show ?thesis using t' v True join_succs_alike [OF h st succs] by (simp add: visit_tool_def)
    qed
  qed
qed

lemma worklist_alike:
  assumes plain: "plain_text text" and offs: "offsets_in_text text toff bs" and g: "run_ok cap (length bs) g"
    and walk: "walkable text toff bs" and cap: "cap \<noteq> -1"
  shows "map_option (map_option fst \<circ> survivor) (worklist_tool c junk text toff cap bs (g, t))
    = map_option survivor (worklist c text toff cap bs g)"
proof -
  have "wf (run_order cap (length bs))" by (simp add: run_order_def)
  then show ?thesis using g
  proof (induction g arbitrary: t rule: wf_induct_rule)
    case (less g)
    show ?case
    proof (cases "queue g")
      case Nil
      then show ?thesis by (simp add: worklist.simps [of _ _ _ _ _ g] worklist_tool.simps [of _ _ _ _ _ _ "(g, t)"])
    next
      case (Cons i q)
      let ?g = "g\<lparr>queue := q\<rparr>"
      have i: "i < length bs" and g0: "run_ok cap (length bs) ?g" using less.prems Cons by (auto simp: run_ok_def)
      note v = visit_alike [OF plain offs g0 i walk cap, of c junk t]
      show ?thesis
      proof (cases "visit c text toff cap bs i ?g")
        case (Inl x)
        then show ?thesis
          using Cons v by (simp add: worklist.simps [of _ _ _ _ _ g] worklist_tool.simps [of _ _ _ _ _ _ "(g, t)"])
      next
        case (Inr g')
        then obtain t' where t': "visit_tool c junk text toff cap bs i (?g, t) = Some (g', t')" using v by auto
        note dec = visit_decreases [OF less.prems Cons refl walk cap Inr]
        show ?thesis
          using less.IH [OF dec(2,1), of t'] Cons Inr t'
          by (simp add: worklist.simps [of _ _ _ _ _ g] worklist_tool.simps [of _ _ _ _ _ _ "(g, t)"])
      qed
    qed
  qed
qed

lemma plain_all_decode: "plain_text text \<Longrightarrow> all_decode text"
  using plain_insn unfolding all_decode_def by blast

lemma graph_verdict_alike:
  assumes plain: "plain_text text" and bound: "unat (effective_cap c) \<le> 2 ^ 30" and len: "length text mod 4 = 0"
    and k: "merlin_cfg_build text toff = Some (Inr G)" and t: "merlin_cfg_build_tool junk text toff = Some (Inr G)"
    and ne: "blocks G \<noteq> []"
  shows "map_option fst (merlin_verify_text_tool c junk text toff) = merlin_verify_text c text toff"
proof -
  have cap: "effective_cap c \<noteq> -1"
  proof
    assume "effective_cap c = -1"
    then have "effective_cap c = 0xffffffff" by simp
    then show False using bound by simp
  qed
  have "text \<noteq> []" using ne k merlin_cfg_build_empty [of toff] by auto
  then obtain S where S: "graph_ok text toff S G" "length text < 2 ^ 32"
    using merlin_cfg_build_graph [of "text" toff G] k by blast
  let ?k = "worklist c text toff (effective_cap c) (blocks G) (initial_run c (length (blocks G)))"
  let ?t = "worklist_tool c junk text toff (effective_cap c) (blocks G) (initial_run_tool c (length (blocks G)))"
  have init: "fst (initial_run_tool c (length (blocks G))) = initial_run c (length (blocks G))"
    using ne by (simp add: initial_run_tool_def initial_run_def ws_push_tool_def ws_push_def)
  have pos: "0 < length (blocks G)" using ne by simp
  have alike: "map_option (map_option fst \<circ> survivor) ?t = map_option survivor ?k"
    using worklist_alike [OF plain graph_offsets [OF S] initial_run_ok [OF pos, of _ c] graph_walkable [OF S] cap]
      init [symmetric] by (metis prod.collapse)
  obtain w where w: "?k = Some w" using worklist_returns [OF S cap] by blast
  then obtain wt where wt: "?t = Some wt" "map_option fst (survivor wt) = survivor w" using alike by auto
  show ?thesis
  proof (cases w)
    case (Inl x)
    then have "x \<noteq> 0" using worklist_certificate [OF S bound plain_all_decode [OF plain] w] by blast
    moreover obtain u where "wt = Inl u" using wt(2) Inl by (cases wt) auto
    ultimately show ?thesis
      using len k t ne w wt Inl by (simp add: merlin_verify_text_tool_def merlin_verify_text_def verdict_def)
  next
    case (Inr g)
    then obtain t' where "wt = Inr (g, t')" using wt(2) by (cases wt) auto
    then show ?thesis
      using len k t ne w wt Inr by (simp add: merlin_verify_text_tool_def merlin_verify_text_def verdict_def Let_def)
  qed
qed

lemma verdict_alike:
  assumes "plain_text text" and "unat (effective_cap c) \<le> 2 ^ 30"
  shows "map_option fst (merlin_verify_text_tool c junk text toff) = merlin_verify_text c text toff"
proof (cases "length text mod 4 \<noteq> 0")
  case True
  then show ?thesis by (simp add: merlin_verify_text_tool_def merlin_verify_text_def)
next
  case False
  obtain r where r: "merlin_cfg_build text toff = Some r"
    using merlin_cfg_build_empty [of toff] merlin_cfg_build_accepts [of "text" toff] by (cases "text = []") auto
  then obtain rt where rt: "merlin_cfg_build_tool junk text toff = Some rt" "outcome rt = outcome r"
    using cfg_alike [OF assms(1), of junk toff] by auto
  show ?thesis
  proof (cases r)
    case (Inl e)
    then obtain e' where "rt = Inl e'" using rt(2) by (cases rt) auto
    then show ?thesis using False r rt Inl by (simp add: merlin_verify_text_tool_def merlin_verify_text_def)
  next
    case (Inr G)
    then have rt: "merlin_cfg_build_tool junk text toff = Some (Inr G)" using rt by (cases rt) auto
    show ?thesis
    proof (cases "blocks G = []")
      case True
      then show ?thesis using False r rt Inr by (simp add: merlin_verify_text_tool_def merlin_verify_text_def)
    next
      case ne: False
      show ?thesis using graph_verdict_alike [OF assms _ r [unfolded Inr] rt ne] False by simp
    qed
  qed
qed

text \<open>
  C22: the port is faithful. On a text whose words both decoders take, none of them with a negative
  I immediate, and with a step cap of at most \<open>2 ^ 30\<close>, the user-space verifier and the kernel verifier
  give the same verdict under every configuration, whatever the uninitialised records of the tool hold.
\<close>

theorem tool_verdict_alike:
  assumes "plain_text text" and "unat (effective_cap c) \<le> 2 ^ 30"
  shows "map_option fst (merlin_verify_text_tool c junk text toff) = merlin_verify_text c text toff"
  using assms by (rule verdict_alike)

lemma ret_plain: "plain_text ret_text"
  by code_simp

theorem tool_verdict_alike_witness:
  "map_option fst (merlin_verify_text_tool xdp_cfg (\<lambda>_. insn_zero 0 0) ret_text 0) = Some MERLIN_VERIFY_OK"
  using tool_verdict_alike [OF ret_plain xdp_cap, of "\<lambda>_. insn_zero 0 0" 0] by (simp add: ret_accepted)

definition frame_text :: "u8 list" where
  "frame_text = [0x13, 0x01, 0x01, 0xff, 0x13, 0x01, 0x01, 0x01, 0x67, 0x80, 0x00, 0x00]"

text \<open>
  Where the port is not faithful. The program \<open>addi sp, sp, -16; addi sp, sp, 16; ret\<close> is accepted by
  the user-space verifier and rejected by the kernel, whose decoder does not extend the sign of the
  immediate.
\<close>

theorem frame_setup_diverges:
  "map_option fst (merlin_verify_text_tool xdp_cfg (\<lambda>_. insn_zero 0 0) frame_text 0) = Some MERLIN_VERIFY_OK \<and>
   merlin_verify_text xdp_cfg frame_text 0 = Some MERLIN_VERIFY_REJECT"
proof
  show "map_option fst (merlin_verify_text_tool xdp_cfg (\<lambda>_. insn_zero 0 0) frame_text 0) = Some MERLIN_VERIFY_OK"
    by code_simp
  show "merlin_verify_text xdp_cfg frame_text 0 = Some MERLIN_VERIFY_REJECT" by code_simp
qed

subsection \<open>The tool's configuration\<close>

lemma fold_helper_set:
  "\<forall>i \<in> set is. i < 4096 \<Longrightarrow> helper_allow (fold helper_set is c) = foldl allow_set (helper_allow c) (map unat is)"
  "kfunc_allow (fold helper_set is c) = kfunc_allow c" "callback_allow (fold helper_set is c) = callback_allow c"
  by (induction "is" arbitrary: c) (simp_all add: helper_set_def bitmap_set_def allow_set_def)

lemma fold_kfunc_set:
  "\<forall>i \<in> set is. i < 4096 \<Longrightarrow> kfunc_allow (fold kfunc_set is c) = foldl allow_set (kfunc_allow c) (map unat is)"
  "helper_allow (fold kfunc_set is c) = helper_allow c" "callback_allow (fold kfunc_set is c) = callback_allow c"
  by (induction "is" arbitrary: c) (simp_all add: kfunc_set_def bitmap_set_def allow_set_def)

lemma unat_in_map: "unat i \<in> set (map unat js) \<longleftrightarrow> i \<in> set js" for i :: "'a::len word"
  by (auto simp: unsigned_word_eqI image_iff dest: unsigned_word_eqI)

text \<open>
  The configuration the tool runs with admits exactly the helpers of its list, the kfuncs 1 to 3 and
  the callback 1.
\<close>

theorem mvdp_allows:
  "helper_allowed_tool merlin_verifier_cfg_init_for_mvdp i = (i \<in> set mvdp_helpers) \<and>
   kfunc_allowed_tool merlin_verifier_cfg_init_for_mvdp i = (i \<in> {1, 2, 3}) \<and>
   callback_allowed_tool merlin_verifier_cfg_init_for_mvdp i = (i = 1)"
proof -
  let ?z = "replicate 512 (0 :: u8)"
  have h: "\<forall>i \<in> set mvdp_helpers. i < 4096" and k: "\<forall>i \<in> set [1, 2, 3 :: u32]. i < 4096"
    and one: "\<forall>i \<in> set [1 :: u32]. i < 4096" by (simp_all add: mvdp_helpers_def)
  have lists: "helper_allow (callback_set 1 (fold kfunc_set ks (fold helper_set hs c))) = foldl allow_set (helper_allow c) (map unat hs)"
    "kfunc_allow (callback_set 1 (fold kfunc_set ks (fold helper_set hs c))) = foldl allow_set (kfunc_allow c) (map unat ks)"
    "callback_allow (callback_set 1 (fold kfunc_set ks (fold helper_set hs c))) = foldl allow_set (callback_allow c) (map unat [1 :: u32])"
    if "\<forall>i \<in> set hs. i < 4096" "\<forall>i \<in> set ks. i < 4096" for hs ks c
    using fold_helper_set(1) [OF that(1)] fold_kfunc_set(1) [OF that(2)]
    by (simp_all add: callback_set_def fold_helper_set(2,3) fold_kfunc_set(2,3) bitmap_set_def allow_set_def)
  have le: "i \<in> set js \<Longrightarrow> \<forall>i \<in> set js. i < 4096 \<Longrightarrow> i \<le> 4095" for js :: "u32 list"
    by (auto simp: word_le_nat_alt word_less_nat_alt)
  have get: "allow_get (foldl allow_set ?z (map unat js)) 4095 i \<longleftrightarrow> i \<in> set js" if "\<forall>i \<in> set js. i < 4096" for js
    using allow_get_puts [of 4095 "map unat js" i] le [of js] that unfolding unat_in_map
    by (auto simp: word_less_nat_alt)
  show ?thesis
    unfolding allowed_alike helper_allowed_def kfunc_allowed_def callback_allowed_def
      merlin_verifier_cfg_init_for_mvdp_def Let_def lists [OF h k] merlin_verifier_cfg.simps
      get [OF h] get [OF k] get [OF one] by simp
qed

end
