(* ===== verification/Object_File.thy ===== *)
theory Object_File
  imports Bytes
begin

text \<open>
  Object files as the command-line tools see them through libelf, and the incremental digest of OpenSSL.
  Both libraries are parameters: \<open>elf_open\<close> stands for \<open>elf_begin\<close> and \<open>elf_kind\<close>, an open object offers its
  headers, the sections after the null section in the order of \<open>elf_nextscn\<close> and \<open>elf_strptr\<close>; \<open>elf_write\<close>
  stands for the calls that build an object and \<open>elf_update\<close>, any of which may fail. The canonical signed
  region, which \<open>tools/merlin-sign\<close> and \<open>tools/merlin-objtool\<close> hash, is defined here over the list of named
  sections of an object.
\<close>

subsection \<open>libelf\<close>

record gelf_shdr =
  gs_name :: u32
  gs_type :: u32
  gs_flags :: u64
  gs_size :: u64

text \<open>\<open>elf_getdata\<close> gives no descriptor, a descriptor without a buffer, or the bytes.\<close>

datatype elf_data = No_Data | No_Buf nat | Buf "u8 list"

fun d_bytes :: "elf_data \<Rightarrow> u8 list" where
  "d_bytes (Buf b) = b"
| "d_bytes _ = []"

record elf_scn =
  scn_shdr :: "gelf_shdr option"
  scn_data :: elf_data

record gelf_ehdr =
  eh_class :: u8
  eh_data :: u8
  eh_osabi :: u8
  eh_type :: u16
  eh_machine :: u16
  eh_shstrndx :: u16

record elf_file =
  elf_ehdr :: "gelf_ehdr option"
  elf_strndx :: "nat option"
  elf_scns :: "elf_scn list"
  elf_strptr :: "nat \<Rightarrow> u32 \<Rightarrow> u8 list option"

record 'f libelf =
  elf_current :: bool
  elf_open :: "'f \<Rightarrow> elf_file option"
  elf_write :: "gelf_ehdr \<Rightarrow> elf_scn list \<Rightarrow> 'f option"
  elf_truncated :: 'f
  copy_mem :: bool

abbreviation (input) SHT_NULL :: u32 where "SHT_NULL \<equiv> 0"
abbreviation (input) SHT_PROGBITS :: u32 where "SHT_PROGBITS \<equiv> 1"
abbreviation (input) SHT_STRTAB :: u32 where "SHT_STRTAB \<equiv> 3"
abbreviation (input) ELFDATA2LSB :: u8 where "ELFDATA2LSB \<equiv> 1"
abbreviation (input) ELFOSABI_NONE :: u8 where "ELFOSABI_NONE \<equiv> 0"
abbreviation (input) ET_REL :: u16 where "ET_REL \<equiv> 1"

text \<open>
  Documented behaviour of libelf: a string looked up in a string table is the bytes from the offset up to
  the terminator, and an object that was written reads back with its header, its sections and their bytes.
\<close>

definition strptr_ok :: "elf_file \<Rightarrow> bool" where
  "strptr_ok e \<longleftrightarrow> (\<forall>i sh b off. i < length (elf_scns e) \<longrightarrow> scn_shdr (elf_scns e ! i) = Some sh \<longrightarrow>
     gs_type sh = SHT_STRTAB \<longrightarrow> d_bytes (scn_data (elf_scns e ! i)) = b \<longrightarrow> 0 \<in> set (drop (unat off) b) \<longrightarrow>
     elf_strptr e (Suc i) off = Some (takeWhile (\<lambda>x. x \<noteq> 0) (drop (unat off) b)))"

definition same_scn :: "elf_scn \<Rightarrow> elf_scn \<Rightarrow> bool" where
  "same_scn s t \<longleftrightarrow> scn_shdr t = scn_shdr s \<and> d_bytes (scn_data t) = d_bytes (scn_data s)"

definition libelf_ok :: "'f libelf \<Rightarrow> bool" where
  "libelf_ok L \<longleftrightarrow>
     (\<forall>f e i off n. elf_open L f = Some e \<longrightarrow> elf_strptr e i off = Some n \<longrightarrow> 0 \<notin> set n) \<and>
     (\<forall>eh ss f. elf_write L eh ss = Some f \<longrightarrow> eh_shstrndx eh < 0xff00 \<longrightarrow>
        (\<exists>e. elf_open L f = Some e \<and> elf_ehdr e = Some eh \<and> elf_strndx e = Some (unat (eh_shstrndx eh)) \<and>
           list_all2 same_scn ss (elf_scns e) \<and> strptr_ok e))"

lemma libelf_read_back:
  assumes "libelf_ok L" and "elf_write L eh ss = Some f" and "eh_shstrndx eh < 0xff00"
  obtains e where "elf_open L f = Some e" "elf_ehdr e = Some eh" "elf_strndx e = Some (unat (eh_shstrndx eh))"
    "list_all2 same_scn ss (elf_scns e)" "strptr_ok e"
  using assms unfolding libelf_ok_def by blast

lemma libelf_names: "libelf_ok L \<Longrightarrow> elf_open L f = Some e \<Longrightarrow> elf_strptr e i off = Some n \<Longrightarrow> 0 \<notin> set n"
  unfolding libelf_ok_def by blast

subsection \<open>The incremental digest\<close>

text \<open>\<open>md_new\<close> stands for creating and initialising a context; an update reports success and leaves a context.\<close>

record 'c digest =
  md_new :: "'c option"
  md_update :: "'c \<Rightarrow> u8 list \<Rightarrow> bool \<times> 'c"
  md_final :: "'c \<Rightarrow> u8 list option"

text \<open>Documented behaviour: two updates in a row are one update with the concatenation.\<close>

definition digest_streams :: "'c digest \<Rightarrow> bool" where
  "digest_streams D \<longleftrightarrow> (\<forall>c a b. fst (md_update D c a) \<and>
     md_update D (snd (md_update D c a)) b = md_update D c (a @ b))"

subsection \<open>The signed region\<close>

definition cstr :: "string \<Rightarrow> u8 list" where
  "cstr s = map of_char s"

definition canonical_fixed_sections :: "u8 list list" where
  "canonical_fixed_sections =
     [cstr ''.merlin.meta'', cstr ''.merlin.maps'', cstr ''.merlin.relocs'', cstr ''.merlin.btf'',
      cstr ''.merlin.btf_ext'', cstr ''.merlin.license'']"

definition is_text :: "u8 list \<Rightarrow> bool" where
  "is_text n \<longleftrightarrow> take 13 n = cstr ''.text.merlin.''"

text \<open>
  The sections of an object whose header can be read, with their names (a missing name counts as the empty
  one) and bytes, and the non-empty pieces of the signed region in the order they are hashed.
\<close>

definition scn_name :: "elf_file \<Rightarrow> nat \<Rightarrow> gelf_shdr \<Rightarrow> u8 list" where
  "scn_name e ndx sh = (case elf_strptr e ndx (gs_name sh) of None \<Rightarrow> [] | Some n \<Rightarrow> n)"

fun sections_of :: "elf_file \<Rightarrow> nat \<Rightarrow> elf_scn list \<Rightarrow> (u8 list \<times> u8 list) list" where
  "sections_of e ndx [] = []"
| "sections_of e ndx (s # ss) =
     (case scn_shdr s of
        None \<Rightarrow> sections_of e ndx ss
      | Some sh \<Rightarrow> (scn_name e ndx sh, d_bytes (scn_data s)) # sections_of e ndx ss)"

definition signed_region :: "(u8 list \<times> u8 list) list \<Rightarrow> u8 list list" where
  "signed_region v =
     filter (\<lambda>b. b \<noteq> []) (List.map_filter (map_of v) canonical_fixed_sections @ map snd (filter (is_text \<circ> fst) v))"

fun hash_all :: "'c digest \<Rightarrow> 'c \<Rightarrow> u64 \<Rightarrow> u8 list list \<Rightarrow> ('c \<times> u64) option" where
  "hash_all D c tot [] = Some (c, tot)"
| "hash_all D c tot (b # bs) =
     (case md_update D c b of (ok, c') \<Rightarrow> if \<not> ok then None else hash_all D c' (tot + of_nat (length b)) bs)"

definition hash_region :: "'c digest \<Rightarrow> u8 list list \<Rightarrow> (u8 list \<times> u64) option" where
  "hash_region D bs =
     (case md_new D of
        None \<Rightarrow> None
      | Some c \<Rightarrow>
          (case hash_all D c 0 bs of
             None \<Rightarrow> None
           | Some (c', tot) \<Rightarrow> map_option (\<lambda>d. (d, tot)) (md_final D c')))"

lemma hash_all_append:
  "hash_all D c tot (as @ bs) =
     (case hash_all D c tot as of None \<Rightarrow> None | Some (c', t') \<Rightarrow> hash_all D c' t' bs)"
  by (induction as arbitrary: c tot) (auto split: prod.split)

lemma cstr_simps: "cstr [] = []" "cstr (c # s) = of_char c # cstr s"
  by (simp_all add: cstr_def)

lemma canonical_nonempty: "[] \<notin> set canonical_fixed_sections"
  by (simp add: canonical_fixed_sections_def cstr_simps)

lemma not_is_text_Nil [simp]: "\<not> is_text []"
  by (simp add: is_text_def cstr_simps)

text \<open>A digest that streams hashes the concatenation of the pieces.\<close>

lemma hash_all_streams:
  assumes "digest_streams D"
  shows "bs \<noteq> [] \<Longrightarrow> hash_all D c tot bs =
    Some (snd (md_update D c (concat bs)), tot + of_nat (length (concat bs)))"
proof (induction bs arbitrary: c tot)
  case (Cons b bs)
  have u: "fst (md_update D c b)" "md_update D (snd (md_update D c b)) (concat bs) = md_update D c (b @ concat bs)"
    using assms unfolding digest_streams_def by blast+
  show ?case
  proof (cases "bs = []")
    case True
    with u show ?thesis by (simp add: case_prod_beta)
  next
    case False
    with Cons.IH [OF False] u show ?thesis by (simp add: add.assoc case_prod_beta)
  qed
qed simp

end
