(* ===== verification/Attest.thy ===== *)
theory Attest
  imports Bytes
begin

text \<open>
  Attestation quotes: \<open>tools/merlin-attest/mak.c\<close> on the layout of \<open>docs/design/uapi/merlin/attestation.h\<close>.
  The key directory is the state: the two key files (absent or unreadable is \<^const>\<open>None\<close>), the sequence
  file and whether each can be written. Key generation, DER encoding, hashing, signing and signature
  checking belong to OpenSSL and are the parameters of a record; path names and the environment variable
  that names the directory are not modelled. The host is little-endian.
\<close>

abbreviation (input) MERLIN_ATTESTATION_MAGIC :: u32 where "MERLIN_ATTESTATION_MAGIC \<equiv> 0x54534D4B"
abbreviation (input) MERLIN_ATTESTATION_VERSION :: u32 where "MERLIN_ATTESTATION_VERSION \<equiv> 1"
abbreviation (input) MERLIN_ATTEST_ALGO_ED25519 :: u32 where "MERLIN_ATTEST_ALGO_ED25519 \<equiv> 1"
abbreviation (input) MERLIN_HW_CHAIN_NONE :: u32 where "MERLIN_HW_CHAIN_NONE \<equiv> 0"
abbreviation (input) attestation_size :: nat where "attestation_size \<equiv> 240"
abbreviation (input) ED25519_SIG_LEN :: nat where "ED25519_SIG_LEN \<equiv> 64"

record merlin_attestation_v1 =
  att_magic :: u32
  att_size :: u32
  att_version :: u32
  att_algo :: u32
  att_prog_id :: u32
  att_ns_id :: u32
  att_profile :: u32
  att_pad0 :: u32
  prog_tag :: "u8 list"
  load_time_ns_boot :: u64
  attestation_time_ns_boot :: u64
  quote_seq :: u64
  kernel_build_id :: "u8 list"
  att_pad1 :: "u8 list"
  attesting_key_id :: u32
  attesting_key_algo :: u32
  attesting_key_pub_hash :: "u8 list"
  hw_chain_present :: u32
  hw_chain_kind :: u32
  hw_chain_offset :: u32
  hw_chain_len :: u32
  hw_chain_digest :: "u8 list"
  nonce :: "u8 list"
  sig_offset :: u32
  sig_len :: u32

definition att_wf :: "merlin_attestation_v1 \<Rightarrow> bool" where
  "att_wf q \<longleftrightarrow> length (prog_tag q) = 32 \<and> length (kernel_build_id q) = 20 \<and> length (att_pad1 q) = 4 \<and>
     length (attesting_key_pub_hash q) = 32 \<and> length (hw_chain_digest q) = 32 \<and> length (nonce q) = 32"

text \<open>The bytes of the structure, and the structure the bytes are read as.\<close>

definition att_image :: "merlin_attestation_v1 \<Rightarrow> u8 list" where
  "att_image q =
     le_bytes 4 (att_magic q) @ le_bytes 4 (att_size q) @ le_bytes 4 (att_version q) @ le_bytes 4 (att_algo q) @
     le_bytes 4 (att_prog_id q) @ le_bytes 4 (att_ns_id q) @ le_bytes 4 (att_profile q) @ le_bytes 4 (att_pad0 q) @
     prog_tag q @ le_bytes 8 (load_time_ns_boot q) @ le_bytes 8 (attestation_time_ns_boot q) @
     le_bytes 8 (quote_seq q) @ kernel_build_id q @ att_pad1 q @ le_bytes 4 (attesting_key_id q) @
     le_bytes 4 (attesting_key_algo q) @ attesting_key_pub_hash q @ le_bytes 4 (hw_chain_present q) @
     le_bytes 4 (hw_chain_kind q) @ le_bytes 4 (hw_chain_offset q) @ le_bytes 4 (hw_chain_len q) @
     hw_chain_digest q @ nonce q @ le_bytes 4 (sig_offset q) @ le_bytes 4 (sig_len q)"

definition att_parse :: "u8 list \<Rightarrow> merlin_attestation_v1" where
  "att_parse bs =
     \<lparr>att_magic = le_word (field 0 4 bs), att_size = le_word (field 4 4 bs), att_version = le_word (field 8 4 bs),
      att_algo = le_word (field 12 4 bs), att_prog_id = le_word (field 16 4 bs), att_ns_id = le_word (field 20 4 bs),
      att_profile = le_word (field 24 4 bs), att_pad0 = le_word (field 28 4 bs), prog_tag = field 32 32 bs,
      load_time_ns_boot = le_word (field 64 8 bs), attestation_time_ns_boot = le_word (field 72 8 bs),
      quote_seq = le_word (field 80 8 bs), kernel_build_id = field 88 20 bs, att_pad1 = field 108 4 bs,
      attesting_key_id = le_word (field 112 4 bs), attesting_key_algo = le_word (field 116 4 bs),
      attesting_key_pub_hash = field 120 32 bs, hw_chain_present = le_word (field 152 4 bs),
      hw_chain_kind = le_word (field 156 4 bs), hw_chain_offset = le_word (field 160 4 bs),
      hw_chain_len = le_word (field 164 4 bs), hw_chain_digest = field 168 32 bs, nonce = field 200 32 bs,
      sig_offset = le_word (field 232 4 bs), sig_len = le_word (field 236 4 bs)\<rparr>"

subsection \<open>Keys and the sequence file\<close>

record ('k, 'p) crypto =
  c_keygen :: "('k \<times> 'p) option"
  c_der :: "'p \<Rightarrow> u8 list option"
  c_sha256 :: "u8 list \<Rightarrow> u8 list option"
  c_sign :: "'k \<Rightarrow> u8 list \<Rightarrow> u8 list option"
  c_verify :: "'p \<Rightarrow> u8 list \<Rightarrow> u8 list \<Rightarrow> bool"

record ('k, 'p) mak =
  mak_dir_ok :: bool
  mak_priv :: "'k option"
  mak_pub :: "'p option"
  mak_seq :: "u64 option"
  priv_writable :: bool
  pub_writable :: bool
  seq_writable :: bool

definition merlin_mak_ensure :: "('k, 'p) crypto \<Rightarrow> ('k, 'p) mak \<Rightarrow> int \<times> ('k, 'p) mak" where
  "merlin_mak_ensure c m =
     (if \<not> mak_dir_ok m then (- 1, m)
      else if mak_priv m \<noteq> None \<and> mak_pub m \<noteq> None then (0, m)
      else case c_keygen c of
        None \<Rightarrow> (- 1, m)
      | Some (k, p) \<Rightarrow>
          if \<not> priv_writable m then (- 1, m)
          else let m1 = m\<lparr>mak_priv := Some k\<rparr> in
            if \<not> pub_writable m1 then (- 1, m1) else (0, m1\<lparr>mak_pub := Some p\<rparr>))"

definition merlin_mak_pub_hash :: "('k, 'p) crypto \<Rightarrow> ('k, 'p) mak \<Rightarrow> u8 list option" where
  "merlin_mak_pub_hash c m =
     (case mak_pub m of
        None \<Rightarrow> None
      | Some p \<Rightarrow> (case c_der c p of
                     None \<Rightarrow> None
                   | Some der \<Rightarrow> if der = [] then None else c_sha256 c der))"

definition merlin_mak_seq_read :: "('k, 'p) mak \<Rightarrow> u64" where
  "merlin_mak_seq_read m = (case mak_seq m of None \<Rightarrow> 0 | Some v \<Rightarrow> v)"

definition merlin_mak_seq_write :: "u64 \<Rightarrow> ('k, 'p) mak \<Rightarrow> int \<times> ('k, 'p) mak" where
  "merlin_mak_seq_write v m =
     (if \<not> seq_writable m then (- 1, m) else (0, m\<lparr>mak_seq := Some v\<rparr>))"

subsection \<open>Signing and checking a quote\<close>

text \<open>\<open>now\<close> is the boot clock. The result is the quote written to the buffer, or \<^const>\<open>None\<close> for -1.\<close>

definition fill_quote ::
  "u64 \<Rightarrow> u64 \<Rightarrow> u8 list \<Rightarrow> u8 list \<Rightarrow> merlin_attestation_v1 \<Rightarrow> merlin_attestation_v1" where
  "fill_quote now seq n hash subject =
     subject\<lparr>att_magic := MERLIN_ATTESTATION_MAGIC, att_size := of_nat attestation_size,
       att_version := MERLIN_ATTESTATION_VERSION, att_algo := MERLIN_ATTEST_ALGO_ED25519,
       attesting_key_algo := MERLIN_ATTEST_ALGO_ED25519, attestation_time_ns_boot := now, quote_seq := seq,
       nonce := n, sig_offset := of_nat attestation_size, sig_len := of_nat ED25519_SIG_LEN,
       attesting_key_pub_hash := hash, hw_chain_present := 0, hw_chain_kind := MERLIN_HW_CHAIN_NONE,
       hw_chain_offset := 0, hw_chain_len := 0, hw_chain_digest := replicate 32 0\<rparr>"

definition merlin_mak_sign_quote ::
  "('k, 'p) crypto \<Rightarrow> u64 \<Rightarrow> merlin_attestation_v1 \<Rightarrow> u8 list \<Rightarrow> nat \<Rightarrow> ('k, 'p) mak
     \<Rightarrow> u8 list option \<times> ('k, 'p) mak" where
  "merlin_mak_sign_quote c now subject n out_cap m =
     (if out_cap < attestation_size + ED25519_SIG_LEN then (None, m)
      else let seq = merlin_mak_seq_read m + 1 in
        case merlin_mak_pub_hash c m of
          None \<Rightarrow> (None, m)
        | Some hash \<Rightarrow>
            (case mak_priv m of
               None \<Rightarrow> (None, m)
             | Some k \<Rightarrow>
                 let img = att_image (fill_quote now seq n hash subject) in
                 case c_sign c k img of
                   None \<Rightarrow> (None, m)
                 | Some sig \<Rightarrow>
                     if length sig \<noteq> ED25519_SIG_LEN then (None, m)
                     else (Some (img @ sig), snd (merlin_mak_seq_write seq m))))"

text \<open>\<open>pub\<close> is the key read from the given file; the last sequence number is absent when its pointer is NULL.\<close>

definition merlin_mak_verify_quote ::
  "('k, 'p) crypto \<Rightarrow> 'p option \<Rightarrow> u8 list \<Rightarrow> u8 list \<Rightarrow> u64 option \<Rightarrow> int \<times> u64 option" where
  "merlin_mak_verify_quote c pub quote n lseq =
     (if length quote < attestation_size then (- 1, lseq)
      else let q = att_parse quote in
        if att_magic q \<noteq> MERLIN_ATTESTATION_MAGIC then (- 1, lseq)
        else if att_version q \<noteq> MERLIN_ATTESTATION_VERSION then (- 1, lseq)
        else if att_algo q \<noteq> MERLIN_ATTEST_ALGO_ED25519 then (- 1, lseq)
        else if att_size q \<noteq> of_nat attestation_size then (- 1, lseq)
        else if sig_offset q \<noteq> of_nat attestation_size then (- 1, lseq)
        else if sig_len q \<noteq> of_nat ED25519_SIG_LEN then (- 1, lseq)
        else if length quote < unat (sig_offset q) + unat (sig_len q) then (- 1, lseq)
        else if nonce q \<noteq> n then (- 1, lseq)
        else if (case lseq of None \<Rightarrow> False | Some s \<Rightarrow> quote_seq q \<le> s) then (- 1, lseq)
        else case pub of
          None \<Rightarrow> (- 1, lseq)
        | Some p \<Rightarrow>
            if \<not> c_verify c p (take (unat (sig_offset q)) quote)
                  (field (unat (sig_offset q)) (unat (sig_len q)) quote) then (- 1, lseq)
            else (0, map_option (\<lambda>_. quote_seq q) lseq))"

lemma mak_ensure_keys:
  assumes "merlin_mak_ensure c m = (0, m')"
  shows "mak_priv m' \<noteq> None" "mak_pub m' \<noteq> None" "mak_seq m' = mak_seq m" "merlin_mak_ensure c m' = (0, m')"
  using assms by (auto simp: merlin_mak_ensure_def Let_def split: if_splits option.splits)

subsection \<open>The image round-trips\<close>

lemma length_att_image: "att_wf q \<Longrightarrow> length (att_image q) = attestation_size"
  by (simp add: att_wf_def att_image_def)

lemma att_parse_image:
  assumes "att_wf q"
  shows "att_parse (att_image q @ rest) = q"
proof -
  have l: "length (prog_tag q) = 32" "length (kernel_build_id q) = 20" "length (att_pad1 q) = 4"
    "length (attesting_key_pub_hash q) = 32" "length (hw_chain_digest q) = 32" "length (nonce q) = 32"
    using assms by (simp_all add: att_wf_def)
  show ?thesis
    unfolding att_parse_def att_image_def
    by (rule merlin_attestation_v1.equality) (simp_all add: field_skip field_here field_last l)
qed

lemma fill_quote_wf:
  "att_wf subject \<Longrightarrow> length n = 32 \<Longrightarrow> length hash = 32 \<Longrightarrow> att_wf (fill_quote now seq n hash subject)"
  by (simp add: att_wf_def fill_quote_def)

text \<open>What a successful signing call returned.\<close>

lemma sign_quote_Some:
  assumes "merlin_mak_sign_quote c now subject n cap m = (Some quote, m')"
  obtains hash k sig where "merlin_mak_pub_hash c m = Some hash" "mak_priv m = Some k"
    "c_sign c k (att_image (fill_quote now (merlin_mak_seq_read m + 1) n hash subject)) = Some sig"
    "length sig = ED25519_SIG_LEN"
    "quote = att_image (fill_quote now (merlin_mak_seq_read m + 1) n hash subject) @ sig"
    "m' = snd (merlin_mak_seq_write (merlin_mak_seq_read m + 1) m)"
  using assms by (auto simp: merlin_mak_sign_quote_def Let_def split: if_splits option.splits)

text \<open>What an accepting check has established.\<close>

lemma verify_quote_ok:
  assumes "merlin_mak_verify_quote c pub quote n lseq = (0, lseq')"
  shows "attestation_size + ED25519_SIG_LEN \<le> length quote" "nonce (att_parse quote) = n"
    "lseq' = map_option (\<lambda>_. quote_seq (att_parse quote)) lseq"
    "lseq = Some s \<Longrightarrow> s < quote_seq (att_parse quote)"
    "\<exists>p. pub = Some p \<and> c_verify c p (take attestation_size quote) (field attestation_size ED25519_SIG_LEN quote)"
  using assms
  by (auto simp: merlin_mak_verify_quote_def Let_def not_le split: if_splits option.splits)

lemma verify_quote_rc: "fst (merlin_mak_verify_quote c pub quote n lseq) \<in> {0, - 1}"
  by (simp add: merlin_mak_verify_quote_def Let_def split: option.split)

lemma verify_quote_fail:
  "merlin_mak_verify_quote c pub quote n lseq = (- 1, lseq') \<Longrightarrow> lseq' = lseq"
  by (auto simp: merlin_mak_verify_quote_def Let_def split: if_splits option.splits)

text \<open>Documented behaviour of the primitives: SHA-256 digests have 32 bytes, and a public key accepts what its private key signed.\<close>

definition sha256_len :: "('k, 'p) crypto \<Rightarrow> bool" where
  "sha256_len c \<longleftrightarrow> (\<forall>d h. c_sha256 c d = Some h \<longrightarrow> length h = 32)"

definition keys_match :: "('k, 'p) crypto \<Rightarrow> 'k \<Rightarrow> 'p \<Rightarrow> bool" where
  "keys_match c k p \<longleftrightarrow> (\<forall>msg sig. c_sign c k msg = Some sig \<longrightarrow> c_verify c p msg sig)"

lemma sign_quote_parse:
  assumes "merlin_mak_sign_quote c now subject n cap m = (Some quote, m')"
    and "att_wf subject" and "length n = 32" and sha: "sha256_len c"
  obtains hash k sig where "merlin_mak_pub_hash c m = Some hash" "mak_priv m = Some k" "length sig = ED25519_SIG_LEN"
    "c_sign c k (take attestation_size quote) = Some sig" "field attestation_size ED25519_SIG_LEN quote = sig"
    "length quote = attestation_size + ED25519_SIG_LEN"
    "att_parse quote = fill_quote now (merlin_mak_seq_read m + 1) n hash subject"
    "m' = snd (merlin_mak_seq_write (merlin_mak_seq_read m + 1) m)"
proof -
  from sign_quote_Some [OF assms(1)] obtain hash k sig where s:
    "merlin_mak_pub_hash c m = Some hash" "mak_priv m = Some k" "length sig = ED25519_SIG_LEN"
    "c_sign c k (att_image (fill_quote now (merlin_mak_seq_read m + 1) n hash subject)) = Some sig"
    "quote = att_image (fill_quote now (merlin_mak_seq_read m + 1) n hash subject) @ sig"
    "m' = snd (merlin_mak_seq_write (merlin_mak_seq_read m + 1) m)"
    by metis
  have "length hash = 32"
    using s(1) sha by (auto simp: sha256_len_def merlin_mak_pub_hash_def split: option.splits if_splits)
  then have wf: "att_wf (fill_quote now (merlin_mak_seq_read m + 1) n hash subject)"
    using assms(2,3) by (intro fill_quote_wf)
  show ?thesis
    using s length_att_image [OF wf] att_parse_image [OF wf]
    by (intro that [of hash k sig]) (simp_all add: field_def)
qed

lemma signed_quote_verifies:
  assumes "merlin_mak_sign_quote c now subject n cap m = (Some quote, m')"
    and "att_wf subject" and "length n = 32" and "sha256_len c"
    and "mak_priv m = Some k" and "keys_match c k p"
    and "s < merlin_mak_seq_read m + 1"
  shows "merlin_mak_verify_quote c (Some p) quote n (Some s) = (0, Some (merlin_mak_seq_read m + 1)) \<and>
    merlin_mak_verify_quote c (Some p) quote n None = (0, None) \<and>
    (\<exists>hash. merlin_mak_pub_hash c m = Some hash \<and>
       att_parse quote = fill_quote now (merlin_mak_seq_read m + 1) n hash subject)"
proof -
  from sign_quote_parse [OF assms(1-4)] obtain hash k' sig where q:
    "merlin_mak_pub_hash c m = Some hash" "mak_priv m = Some k'" "length sig = ED25519_SIG_LEN"
    "c_sign c k' (take attestation_size quote) = Some sig" "field attestation_size ED25519_SIG_LEN quote = sig"
    "length quote = attestation_size + ED25519_SIG_LEN"
    "att_parse quote = fill_quote now (merlin_mak_seq_read m + 1) n hash subject"
    by metis
  have "c_verify c p (take attestation_size quote) sig"
    using assms(5,6) q(2,4) by (simp add: keys_match_def)
  moreover have "\<not> merlin_mak_seq_read m + 1 \<le> s" using assms(7) by (simp only: not_le)
  ultimately show ?thesis
    using q by (simp add: merlin_mak_verify_quote_def fill_quote_def Let_def)
qed

subsection \<open>Properties\<close>

text \<open>
  A signed quote is accepted. If the key pair belongs together (the signature scheme accepts what the
  private key signed) and hashes have 32 bytes, then a quote from the signing call is accepted under the
  public key and the same nonce by a verifier that has seen only smaller sequence numbers, which then
  remembers the quote's number; and the verifier reads back exactly the subject the caller passed, the
  nonce, the time and the next sequence number.
\<close>

theorem quote_sign_verify:
  assumes "merlin_mak_sign_quote c now subject n cap m = (Some quote, m')"
    and "att_wf subject" and "length n = 32" and "sha256_len c"
    and "mak_priv m = Some k" and "keys_match c k p"
    and "s < merlin_mak_seq_read m + 1"
  shows "merlin_mak_verify_quote c (Some p) quote n (Some s) = (0, Some (merlin_mak_seq_read m + 1)) \<and>
    merlin_mak_verify_quote c (Some p) quote n None = (0, None) \<and>
    (\<exists>hash. merlin_mak_pub_hash c m = Some hash \<and>
       att_parse quote = fill_quote now (merlin_mak_seq_read m + 1) n hash subject)"
  using signed_quote_verifies [OF assms] .

text \<open>A toy scheme and a key directory for evaluation: the signature repeats the key byte 64 times.\<close>

definition demo_crypto :: "(u8, u8) crypto" where
  "demo_crypto = \<lparr>c_keygen = Some (7, 7), c_der = (\<lambda>p. Some [p]), c_sha256 = (\<lambda>d. Some (replicate 32 0)),
     c_sign = (\<lambda>k msg. Some (replicate 64 k)), c_verify = (\<lambda>p msg sig. sig = replicate 64 p)\<rparr>"

definition demo_mak :: "(u8, u8) mak" where
  "demo_mak = \<lparr>mak_dir_ok = True, mak_priv = Some 7, mak_pub = Some 7, mak_seq = Some 41, priv_writable = True,
     pub_writable = True, seq_writable = True\<rparr>"

definition demo_subject :: merlin_attestation_v1 where
  "demo_subject = (att_parse (replicate 240 0))\<lparr>att_prog_id := 9\<rparr>"

definition demo_quote :: "u8 list" where
  "demo_quote = the (fst (merlin_mak_sign_quote demo_crypto 5 demo_subject (replicate 32 3) 304 demo_mak))"

lemma demo_quote_signed:
  "merlin_mak_sign_quote demo_crypto 5 demo_subject (replicate 32 3) 304 demo_mak =
     (Some demo_quote, demo_mak\<lparr>mak_seq := Some 42\<rparr>)"
  unfolding demo_quote_def
  by (simp add: merlin_mak_sign_quote_def merlin_mak_pub_hash_def merlin_mak_seq_write_def
      merlin_mak_seq_read_def demo_crypto_def demo_mak_def Let_def)

theorem quote_sign_verify_witness:
  "merlin_mak_verify_quote demo_crypto (Some 7) demo_quote (replicate 32 3) (Some 41) = (0, Some 42)"
proof -
  have "att_wf demo_subject" by (simp add: att_wf_def demo_subject_def att_parse_def field_def)
  from quote_sign_verify [OF demo_quote_signed this, of 7 7 41] show ?thesis
    by (simp add: demo_crypto_def demo_mak_def merlin_mak_seq_read_def sha256_len_def keys_match_def)
qed

text \<open>The sequence numbers a verifier accepts over a list of presented quotes, each with its nonce.\<close>

fun accepted_seqs :: "('k, 'p) crypto \<Rightarrow> 'p option \<Rightarrow> u64 \<Rightarrow> (u8 list \<times> u8 list) list \<Rightarrow> u64 list" where
  "accepted_seqs c pub s [] = []"
| "accepted_seqs c pub s ((quote, n) # qs) =
     (case merlin_mak_verify_quote c pub quote n (Some s) of
        (rc, s') \<Rightarrow>
          if rc = 0 then quote_seq (att_parse quote) # accepted_seqs c pub (the s') qs
          else accepted_seqs c pub (the s') qs)"

lemma accepted_seqs_step:
  "accepted_seqs c pub s ((quote, n) # qs) =
     (if fst (merlin_mak_verify_quote c pub quote n (Some s)) = 0
      then quote_seq (att_parse quote) # accepted_seqs c pub (quote_seq (att_parse quote)) qs
      else accepted_seqs c pub s qs)"
proof -
  obtain rc s' where v: "merlin_mak_verify_quote c pub quote n (Some s) = (rc, s')" by fastforce
  consider "rc = 0" | "rc = - 1" using verify_quote_rc [of c pub quote n "Some s"] v by auto
  then show ?thesis
  proof cases
    case 1
    then show ?thesis using v verify_quote_ok(3) [of c pub quote n "Some s" s'] by simp
  next
    case 2
    then show ?thesis using v verify_quote_fail [of c pub quote n "Some s" s'] by simp
  qed
qed

text \<open>
  C28: no quote is accepted twice. Whatever quotes are presented to a verifier that keeps the last sequence
  number, with whatever nonces, keys and signature scheme, the accepted sequence numbers grow strictly
  from the initial one.
\<close>

theorem replay_rejected: "sorted_wrt (<) (s # accepted_seqs c pub s qs)"
proof (induction qs arbitrary: s)
  case (Cons qn qs)
  obtain quote n where qn: "qn = (quote, n)" by fastforce
  show ?case
  proof (cases "fst (merlin_mak_verify_quote c pub quote n (Some s)) = 0")
    case True
    then have "s < quote_seq (att_parse quote)"
      using verify_quote_ok(4) [of c pub quote n "Some s" _ s] by (metis prod.collapse)
    then show ?thesis
      using Cons.IH [of "quote_seq (att_parse quote)"] True
      unfolding qn accepted_seqs_step by (simp del: accepted_seqs.simps) (meson less_trans)
  next
    case False
    then show ?thesis
      using Cons.IH [of s] unfolding qn accepted_seqs_step by (simp del: accepted_seqs.simps)
  qed
qed simp

text \<open>
  The signer's counter. A quote carries the stored sequence number plus one; the number is stored
  when the file can be written, and when it cannot the call still succeeds, so that the next quote
  carries the same number again.
\<close>

theorem sign_seq_counter:
  assumes "merlin_mak_sign_quote c now subject n cap m = (Some quote, m')"
    and "att_wf subject" and "length n = 32" and "sha256_len c"
  shows "quote_seq (att_parse quote) = merlin_mak_seq_read m + 1 \<and>
    (if seq_writable m then merlin_mak_seq_read m' = merlin_mak_seq_read m + 1 else m' = m)"
proof -
  from sign_quote_parse [OF assms] obtain hash where
    "att_parse quote = fill_quote now (merlin_mak_seq_read m + 1) n hash subject"
    "m' = snd (merlin_mak_seq_write (merlin_mak_seq_read m + 1) m)"
    by metis
  then show ?thesis
    by (simp add: fill_quote_def merlin_mak_seq_write_def merlin_mak_seq_read_def)
qed

theorem sign_seq_counter_witness: "quote_seq (att_parse demo_quote) = 42"
proof -
  have "att_wf demo_subject" by (simp add: att_wf_def demo_subject_def att_parse_def field_def)
  from sign_seq_counter [OF demo_quote_signed this] show ?thesis
    by (simp add: demo_crypto_def demo_mak_def merlin_mak_seq_read_def sha256_len_def)
qed

end
