(* ===== verification/Sign.thy ===== *)
theory Sign
  imports Object_File Attest
begin

text \<open>
  Program signing: \<open>tools/merlin-sign/sig.c\<close> and the commands of \<open>tools/merlin-sign/merlin-sign.c\<close>. The state
  is what the commands see of the file system: the objects by path, the paths that can be created, and
  the keys that the PEM files hold. libelf and OpenSSL are the parameters of \<open>Object_File\<close> and \<open>Attest\<close>;
  option parsing and messages are not modelled, so a command gives its exit status and the values it
  prints. The host is little-endian.
\<close>

subsection \<open>The signature header\<close>

abbreviation (input) MERLIN_SIG_MAGIC :: u32 where "MERLIN_SIG_MAGIC \<equiv> 0x47495356"
abbreviation (input) MERLIN_SIG_ALGO_ED25519 :: u32 where "MERLIN_SIG_ALGO_ED25519 \<equiv> 1"
abbreviation (input) MERLIN_SIG_V1_HEADER_SIZE :: nat where "MERLIN_SIG_V1_HEADER_SIZE \<equiv> 40"
abbreviation (input) MERLIN_SIG_ED25519_LEN :: nat where "MERLIN_SIG_ED25519_LEN \<equiv> 64"

record merlin_sig_v1 =
  sg_magic :: u32
  sg_size :: u32
  sg_algo :: u32
  sg_key_id :: u32
  signed_blob_off :: u64
  signed_blob_len :: u64
  sig_bytes_len :: u32
  sg_reserved :: u32

definition sig_image :: "merlin_sig_v1 \<Rightarrow> u8 list" where
  "sig_image h = le_bytes 4 (sg_magic h) @ le_bytes 4 (sg_size h) @ le_bytes 4 (sg_algo h) @
     le_bytes 4 (sg_key_id h) @ le_bytes 8 (signed_blob_off h) @ le_bytes 8 (signed_blob_len h) @
     le_bytes 4 (sig_bytes_len h) @ le_bytes 4 (sg_reserved h)"

definition sig_parse :: "u8 list \<Rightarrow> merlin_sig_v1" where
  "sig_parse bs =
     \<lparr>sg_magic = le_word (field 0 4 bs), sg_size = le_word (field 4 4 bs), sg_algo = le_word (field 8 4 bs),
      sg_key_id = le_word (field 12 4 bs), signed_blob_off = le_word (field 16 8 bs),
      signed_blob_len = le_word (field 24 8 bs), sig_bytes_len = le_word (field 32 4 bs),
      sg_reserved = le_word (field 36 4 bs)\<rparr>"

subsection \<open>Hashing\<close>

fun hash_section :: "'c digest \<Rightarrow> elf_data \<Rightarrow> 'c \<times> u64 \<Rightarrow> ('c \<times> u64) option" where
  "hash_section D d (c, running_total) =
     (case d of
        Buf b \<Rightarrow>
          if length b = 0 then Some (c, running_total)
          else (case md_update D c b of
                  (ok, c') \<Rightarrow> if \<not> ok then None else Some (c', running_total + of_nat (length b)))
      | _ \<Rightarrow> Some (c, running_total))"

fun find_named :: "elf_file \<Rightarrow> nat \<Rightarrow> u8 list \<Rightarrow> elf_scn list \<Rightarrow> elf_scn option" where
  "find_named e shstrndx name [] = None"
| "find_named e shstrndx name (scn # scns) =
     (case scn_shdr scn of
        None \<Rightarrow> find_named e shstrndx name scns
      | Some sh \<Rightarrow>
          (case elf_strptr e shstrndx (gs_name sh) of
             None \<Rightarrow> find_named e shstrndx name scns
           | Some sname \<Rightarrow> if sname = name then Some scn else find_named e shstrndx name scns))"

fun hash_fixed :: "'c digest \<Rightarrow> elf_file \<Rightarrow> nat \<Rightarrow> u8 list list \<Rightarrow> 'c \<times> u64 \<Rightarrow> ('c \<times> u64) option" where
  "hash_fixed D e shstrndx [] st = Some st"
| "hash_fixed D e shstrndx (n # ns) st =
     (case find_named e shstrndx n (elf_scns e) of
        None \<Rightarrow> hash_fixed D e shstrndx ns st
      | Some s \<Rightarrow>
          (case hash_section D (scn_data s) st of
             None \<Rightarrow> None
           | Some st' \<Rightarrow> hash_fixed D e shstrndx ns st'))"

fun hash_texts :: "'c digest \<Rightarrow> elf_file \<Rightarrow> nat \<Rightarrow> elf_scn list \<Rightarrow> 'c \<times> u64 \<Rightarrow> ('c \<times> u64) option" where
  "hash_texts D e shstrndx [] st = Some st"
| "hash_texts D e shstrndx (scn # scns) st =
     (case scn_shdr scn of
        None \<Rightarrow> hash_texts D e shstrndx scns st
      | Some sh \<Rightarrow>
          (case elf_strptr e shstrndx (gs_name sh) of
             None \<Rightarrow> hash_texts D e shstrndx scns st
           | Some sname \<Rightarrow>
               if take 13 sname \<noteq> cstr ''.text.merlin.'' then hash_texts D e shstrndx scns st
               else (case hash_section D (scn_data scn) st of
                       None \<Rightarrow> None
                     | Some st' \<Rightarrow> hash_texts D e shstrndx scns st')))"

text \<open>\<^const>\<open>None\<close> is the result -1; otherwise the digest and the number of bytes hashed.\<close>

definition merlin_sig_hash_signed_region :: "'f libelf \<Rightarrow> 'c digest \<Rightarrow> 'f \<Rightarrow> (u8 list \<times> u64) option" where
  "merlin_sig_hash_signed_region L D f =
     (if \<not> elf_current L then None
      else case elf_open L f of
        None \<Rightarrow> None
      | Some e \<Rightarrow>
          (case elf_strndx e of
             None \<Rightarrow> None
           | Some shstrndx \<Rightarrow>
               (case md_new D of
                  None \<Rightarrow> None
                | Some ctx \<Rightarrow>
                    (case hash_fixed D e shstrndx canonical_fixed_sections (ctx, 0) of
                       None \<Rightarrow> None
                     | Some st \<Rightarrow>
                         (case hash_texts D e shstrndx (elf_scns e) st of
                            None \<Rightarrow> None
                          | Some (ctx', tot) \<Rightarrow>
                              (case md_final D ctx' of None \<Rightarrow> None | Some digest \<Rightarrow> Some (digest, tot)))))))"

subsection \<open>Signing and verifying a digest\<close>

text \<open>The key is what the PEM file holds, absent when the file cannot be opened or read.\<close>

definition merlin_sig_sign_ed25519 :: "('k, 'p) crypto \<Rightarrow> u8 list \<Rightarrow> 'k option \<Rightarrow> u8 list option" where
  "merlin_sig_sign_ed25519 C digest priv =
     (case priv of
        None \<Rightarrow> None
      | Some pk \<Rightarrow>
          (case c_sign C pk digest of
             None \<Rightarrow> None
           | Some sig \<Rightarrow> if length sig \<noteq> MERLIN_SIG_ED25519_LEN then None else Some sig))"

definition merlin_sig_verify_ed25519 :: "('k, 'p) crypto \<Rightarrow> u8 list \<Rightarrow> u8 list \<Rightarrow> 'p option \<Rightarrow> int" where
  "merlin_sig_verify_ed25519 C digest sig pub =
     (case pub of None \<Rightarrow> - 1 | Some pk \<Rightarrow> if c_verify C pk digest sig then 0 else - 1)"

subsection \<open>Embedding and extracting\<close>

record sec_in =
  si_name :: "u8 list"
  si_buf :: "u8 list"
  si_type :: u32
  si_flags :: u64

fun copy_sections :: "elf_file \<Rightarrow> nat \<Rightarrow> elf_scn list \<Rightarrow> sec_in list" where
  "copy_sections e shstrndx [] = []"
| "copy_sections e shstrndx (scn # scns) =
     (case scn_shdr scn of
        None \<Rightarrow> copy_sections e shstrndx scns
      | Some sh \<Rightarrow>
          let name = (case elf_strptr e shstrndx (gs_name sh) of None \<Rightarrow> [] | Some n \<Rightarrow> n) in
          if name = cstr ''.shstrtab'' then copy_sections e shstrndx scns
          else if name = cstr ''.merlin.sig'' then copy_sections e shstrndx scns
          else if gs_type sh = SHT_NULL then copy_sections e shstrndx scns
          else \<lparr>si_name = name, si_buf = d_bytes (scn_data scn), si_type = gs_type sh, si_flags = gs_flags sh\<rparr>
                 # copy_sections e shstrndx scns)"

text \<open>The sections, the machine and the class; \<open>copy_mem\<close> is whether the copies could be allocated.\<close>

definition read_all_sections :: "'f libelf \<Rightarrow> 'f \<Rightarrow> (sec_in list \<times> u16 \<times> u8) option" where
  "read_all_sections L f =
     (if \<not> elf_current L then None
      else case elf_open L f of
        None \<Rightarrow> None
      | Some e \<Rightarrow>
          (case elf_ehdr e of
             None \<Rightarrow> None
           | Some eh \<Rightarrow>
               (case elf_strndx e of
                  None \<Rightarrow> None
                | Some shstrndx \<Rightarrow>
                    if \<not> copy_mem L then None
                    else Some (copy_sections e shstrndx (elf_scns e), eh_machine eh, eh_class eh))))"

definition append_name :: "u8 list \<Rightarrow> u8 list \<Rightarrow> u8 list \<times> u32" where
  "append_name sht s = (sht @ s @ [0], of_nat (length sht))"

definition new_scn :: "u32 \<Rightarrow> u32 \<Rightarrow> u64 \<Rightarrow> u8 list \<Rightarrow> elf_scn" where
  "new_scn name typ flags b =
     \<lparr>scn_shdr = Some \<lparr>gs_name = name, gs_type = typ, gs_flags = flags, gs_size = of_nat (length b)\<rparr>,
      scn_data = (if b = [] then No_Buf 0 else Buf b)\<rparr>"

fun write_sections :: "sec_in list \<Rightarrow> u8 list \<Rightarrow> elf_scn list \<times> u8 list" where
  "write_sections [] sht = ([], sht)"
| "write_sections (s # ss) sht =
     (case append_name sht (si_name s) of
        (sht1, off) \<Rightarrow>
          (case write_sections ss sht1 of
             (scns, sht2) \<Rightarrow> (new_scn off (si_type s) (si_flags s) (si_buf s) # scns, sht2)))"

definition embed_object :: "sec_in list \<Rightarrow> u16 \<Rightarrow> u8 \<Rightarrow> merlin_sig_v1 \<Rightarrow> u8 list \<Rightarrow> gelf_ehdr \<times> elf_scn list" where
  "embed_object secs machine e_class header sig_bytes =
     (case write_sections secs [0] of
        (scns, sht) \<Rightarrow>
          let (sht1, sig_off) = append_name sht (cstr ''.merlin.sig'');
              (sht2, shstrtab_name_off) = append_name sht1 (cstr ''.shstrtab'');
              sig_blob = sig_image header @ sig_bytes
          in (\<lparr>eh_class = e_class, eh_data = ELFDATA2LSB, eh_osabi = ELFOSABI_NONE, eh_type = ET_REL,
                eh_machine = machine, eh_shstrndx = of_nat (length scns + 2)\<rparr>,
              scns @ [new_scn sig_off SHT_PROGBITS 0 sig_blob, new_scn shstrtab_name_off SHT_STRTAB 0 sht2]))"

record ('f, 'k, 'p) world =
  w_files :: "string \<Rightarrow> 'f option"
  w_creat :: "string \<Rightarrow> bool"
  w_priv :: "string \<Rightarrow> 'k option"
  w_pub :: "string \<Rightarrow> 'p option"

definition merlin_sig_embed ::
  "'f libelf \<Rightarrow> string \<Rightarrow> string \<Rightarrow> merlin_sig_v1 \<Rightarrow> u8 list \<Rightarrow> ('f, 'k, 'p) world \<Rightarrow> int \<times> ('f, 'k, 'p) world" where
  "merlin_sig_embed L in_path out_path header sig_bytes w =
     (case w_files w in_path of
        None \<Rightarrow> (- 1, w)
      | Some f \<Rightarrow>
          (case read_all_sections L f of
             None \<Rightarrow> (- 1, w)
           | Some (secs, machine, e_class) \<Rightarrow>
               if \<not> w_creat w out_path then (- 1, w)
               else (case embed_object secs machine e_class header sig_bytes of
                       (eh, scns) \<Rightarrow>
                         (case elf_write L eh scns of
                            None \<Rightarrow> (- 1, w\<lparr>w_files := (w_files w)(out_path \<mapsto> elf_truncated L)\<rparr>)
                          | Some g \<Rightarrow> (0, w\<lparr>w_files := (w_files w)(out_path \<mapsto> g)\<rparr>)))))"

text \<open>
  \<^const>\<open>None\<close> is -1; otherwise nothing for an object without the section, or the header and the bytes
  copied to the caller's buffer.
\<close>

definition merlin_sig_extract :: "'f libelf \<Rightarrow> 'f option \<Rightarrow> nat \<Rightarrow> (merlin_sig_v1 \<times> u8 list) option option" where
  "merlin_sig_extract L file sig_bytes_cap =
     (if \<not> elf_current L then None
      else case file of
        None \<Rightarrow> None
      | Some f \<Rightarrow>
          (case elf_open L f of
             None \<Rightarrow> None
           | Some e \<Rightarrow>
               (case elf_strndx e of
                  None \<Rightarrow> None
                | Some shstrndx \<Rightarrow>
                    (case find_named e shstrndx (cstr ''.merlin.sig'') (elf_scns e) of
                       None \<Rightarrow> Some None
                     | Some scn \<Rightarrow>
                         (case scn_data scn of
                            Buf b \<Rightarrow>
                              let header = sig_parse b in
                              if length b < MERLIN_SIG_V1_HEADER_SIZE then None
                              else if sg_magic header \<noteq> MERLIN_SIG_MAGIC then None
                              else if sg_size header \<noteq> of_nat MERLIN_SIG_V1_HEADER_SIZE then None
                              else if length b \<noteq> MERLIN_SIG_V1_HEADER_SIZE + unat (sig_bytes_len header) then None
                              else if sig_bytes_cap < unat (sig_bytes_len header) then None
                              else Some (Some (header, field MERLIN_SIG_V1_HEADER_SIZE (unat (sig_bytes_len header)) b))
                          | _ \<Rightarrow> None)))))"

subsection \<open>The commands\<close>

definition cmd_tag :: "'f libelf \<Rightarrow> 'c digest \<Rightarrow> string \<Rightarrow> ('f, 'k, 'p) world \<Rightarrow> int \<times> (u8 list \<times> u64) option" where
  "cmd_tag L D path w =
     (case w_files w path of
        None \<Rightarrow> (1, None)
      | Some f \<Rightarrow>
          (case merlin_sig_hash_signed_region L D f of
             None \<Rightarrow> (1, None)
           | Some (d, tot) \<Rightarrow> (0, Some (d, tot))))"

definition cmd_sign ::
  "'f libelf \<Rightarrow> 'c digest \<Rightarrow> ('k, 'p) crypto \<Rightarrow> string \<Rightarrow> u32 \<Rightarrow> string \<Rightarrow> string \<Rightarrow> ('f, 'k, 'p) world
     \<Rightarrow> int \<times> ('f, 'k, 'p) world" where
  "cmd_sign L D C priv_path key_id in_path out_path w =
     (case w_files w in_path of
        None \<Rightarrow> (1, w)
      | Some f \<Rightarrow>
          (case merlin_sig_hash_signed_region L D f of
             None \<Rightarrow> (1, w)
           | Some (digest, tot) \<Rightarrow>
               (case merlin_sig_sign_ed25519 C digest (w_priv w priv_path) of
                  None \<Rightarrow> (1, w)
                | Some sig \<Rightarrow>
                    let hdr = \<lparr>sg_magic = MERLIN_SIG_MAGIC, sg_size = of_nat MERLIN_SIG_V1_HEADER_SIZE,
                          sg_algo = MERLIN_SIG_ALGO_ED25519, sg_key_id = key_id, signed_blob_off = 0,
                          signed_blob_len = tot, sig_bytes_len = of_nat MERLIN_SIG_ED25519_LEN, sg_reserved = 0\<rparr>
                    in case merlin_sig_embed L in_path out_path hdr sig w of
                         (rc, w') \<Rightarrow> if rc < 0 then (1, w') else (0, w'))))"

text \<open>\<open>junk\<close> is what the signature buffer on the stack holds before the signature is copied into it.\<close>

definition cmd_verify ::
  "'f libelf \<Rightarrow> 'c digest \<Rightarrow> ('k, 'p) crypto \<Rightarrow> u8 list \<Rightarrow> string \<Rightarrow> string \<Rightarrow> ('f, 'k, 'p) world
     \<Rightarrow> int \<times> (u32 \<times> u64 \<times> u8 list) option" where
  "cmd_verify L D C junk pub_path in_path w =
     (case merlin_sig_extract L (w_files w in_path) MERLIN_SIG_ED25519_LEN of
        None \<Rightarrow> (1, None)
      | Some None \<Rightarrow> (1, None)
      | Some (Some (hdr, bytes)) \<Rightarrow>
          let sig = take MERLIN_SIG_ED25519_LEN (bytes @ drop (length bytes) junk) in
          if sg_algo hdr \<noteq> MERLIN_SIG_ALGO_ED25519 then (1, None)
          else case w_files w in_path of
            None \<Rightarrow> (1, None)
          | Some f \<Rightarrow>
              (case merlin_sig_hash_signed_region L D f of
                 None \<Rightarrow> (1, None)
               | Some (digest, tot) \<Rightarrow>
                   if tot \<noteq> signed_blob_len hdr then (1, None)
                   else if merlin_sig_verify_ed25519 C digest sig (w_pub w pub_path) < 0 then (1, None)
                   else (0, Some (sg_key_id hdr, tot, digest))))"

definition algo_name :: "u32 \<Rightarrow> string" where
  "algo_name a = (if a = 0 then ''none'' else if a = 1 then ''ed25519'' else if a = 2 then ''ecdsa-p256''
     else if a = 3 then ''rsa-pss-2048'' else ''unknown'')"

definition cmd_dump :: "'f libelf \<Rightarrow> string \<Rightarrow> ('f, 'k, 'p) world \<Rightarrow> int \<times> (merlin_sig_v1 \<times> string \<times> u8 list) option" where
  "cmd_dump L in_path w =
     (case merlin_sig_extract L (w_files w in_path) MERLIN_SIG_ED25519_LEN of
        None \<Rightarrow> (1, None)
      | Some None \<Rightarrow> (0, None)
      | Some (Some (hdr, sig)) \<Rightarrow> (0, Some (hdr, algo_name (sg_algo hdr), take (unat (sig_bytes_len hdr)) sig)))"


subsection \<open>The digest is the digest of the signed region\<close>

lemma find_named_sections:
  "name \<noteq> [] \<Longrightarrow> map_option (\<lambda>s. d_bytes (scn_data s)) (find_named e ndx name ss) = map_of (sections_of e ndx ss) name"
  by (induction ss) (auto simp: scn_name_def split: option.split)

lemma hash_section_all: "hash_section D d (c, t) = hash_all D c t (filter (\<lambda>b. b \<noteq> []) [d_bytes d])"
  by (cases d) (simp_all add: case_prod_beta)

lemma hash_fixed_all:
  assumes "[] \<notin> set ns"
  shows "hash_fixed D e ndx ns (c, t) =
    hash_all D c t (filter (\<lambda>b. b \<noteq> []) (List.map_filter (map_of (sections_of e ndx (elf_scns e))) ns))"
  using assms
proof (induction ns arbitrary: c t)
  case (Cons n ns)
  have n: "map_of (sections_of e ndx (elf_scns e)) n =
      map_option (\<lambda>s. d_bytes (scn_data s)) (find_named e ndx n (elf_scns e))"
    using find_named_sections [of n e ndx "elf_scns e"] Cons.prems by (metis list.set_intros(1))
  show ?case
  proof (cases "find_named e ndx n (elf_scns e)")
    case (Some s)
    then show ?thesis
      using Cons n
      by (simp add: hash_section_all map_filter_simps case_prod_beta del: hash_section.simps)
  qed (use Cons n in \<open>simp add: map_filter_simps\<close>)
qed (simp add: map_filter_simps)

lemma hash_texts_all:
  "hash_texts D e ndx ss (c, t) =
    hash_all D c t (filter (\<lambda>b. b \<noteq> []) (map snd (filter (is_text \<circ> fst) (sections_of e ndx ss))))"
proof (induction ss arbitrary: c t)
  case (Cons s ss)
  then show ?case
    by (auto simp: hash_section_all scn_name_def is_text_def [symmetric] case_prod_beta simp del: hash_section.simps split: option.split)
qed simp

text \<open>The named sections of an object, when it opens.\<close>

definition object_sections :: "'f libelf \<Rightarrow> 'f \<Rightarrow> (u8 list \<times> u8 list) list option" where
  "object_sections L f =
     (if elf_current L then
        (case elf_open L f of
           Some e \<Rightarrow> map_option (\<lambda>ndx. sections_of e ndx (elf_scns e)) (elf_strndx e)
         | None \<Rightarrow> None)
      else None)"

lemma hash_signed_region_eq:
  "merlin_sig_hash_signed_region L D f =
     (case object_sections L f of None \<Rightarrow> None | Some v \<Rightarrow> hash_region D (signed_region v))"
  by (auto simp: merlin_sig_hash_signed_region_def object_sections_def hash_region_def signed_region_def
      hash_fixed_all [OF canonical_nonempty] hash_texts_all hash_all_append split: option.splits)


subsection \<open>An embedded object reads back\<close>

lemma sig_parse_image: "sig_parse (sig_image h @ rest) = h"
  unfolding sig_parse_def sig_image_def
  by (rule merlin_sig_v1.equality) (simp_all add: field_skip field_here field_last)

lemma length_sig_image [simp]: "length (sig_image h) = MERLIN_SIG_V1_HEADER_SIZE"
  by (simp add: sig_image_def)

text \<open>A section of the output carries the type and bytes of its source, and its name is at its offset of the table.\<close>

definition named_in :: "u8 list \<Rightarrow> elf_scn \<Rightarrow> sec_in \<Rightarrow> bool" where
  "named_in T s sec \<longleftrightarrow> (\<exists>sh pre post. scn_shdr s = Some sh \<and> T = pre @ si_name sec @ 0 # post \<and>
     gs_name sh = of_nat (length pre) \<and> gs_type sh = si_type sec \<and> d_bytes (scn_data s) = si_buf sec)"

lemma named_in_new:
  "T = pre @ si_name sec @ 0 # post \<Longrightarrow>
     named_in T (new_scn (of_nat (length pre)) (si_type sec) (si_flags sec) (si_buf sec)) sec"
  by (auto simp: named_in_def new_scn_def)

lemma write_sections_length:
  "length (fst (write_sections ss sht)) = length ss"
  "length (snd (write_sections ss sht)) = length sht + sum_list (map (\<lambda>s. length (si_name s) + 1) ss)"
  by (induction ss arbitrary: sht) (simp_all add: append_name_def case_prod_beta)

lemma write_sections_prefix: "\<exists>r. snd (write_sections ss sht) = sht @ r"
proof (induction ss arbitrary: sht)
  case (Cons s ss)
  obtain r where "snd (write_sections ss (sht @ si_name s @ [0])) = (sht @ si_name s @ [0]) @ r"
    using Cons.IH by blast
  then show ?case by (simp add: append_name_def case_prod_beta)
qed simp

lemma write_sections_named:
  "list_all2 (named_in (snd (write_sections ss sht) @ r)) (fst (write_sections ss sht)) ss"
proof (induction ss arbitrary: sht)
  case (Cons s ss)
  let ?sht = "sht @ si_name s @ [0]"
  obtain q where q: "snd (write_sections ss ?sht) = ?sht @ q" using write_sections_prefix by blast
  then have "named_in (snd (write_sections ss ?sht) @ r)
      (new_scn (of_nat (length sht)) (si_type s) (si_flags s) (si_buf s)) s"
    by (intro named_in_new [where post = "q @ r"]) simp
  with Cons.IH [of ?sht] show ?case by (simp add: append_name_def case_prod_beta)
qed simp

text \<open>All sections of the output: the copies, the signature and the string table itself.\<close>

definition sig_sec :: "merlin_sig_v1 \<Rightarrow> u8 list \<Rightarrow> sec_in" where
  "sig_sec h b = \<lparr>si_name = cstr ''.merlin.sig'', si_buf = sig_image h @ b, si_type = SHT_PROGBITS, si_flags = 0\<rparr>"

definition str_sec :: "u8 list \<Rightarrow> sec_in" where
  "str_sec T = \<lparr>si_name = cstr ''.shstrtab'', si_buf = T, si_type = SHT_STRTAB, si_flags = 0\<rparr>"

lemma embed_object_named:
  assumes "embed_object secs machine cls h b = (eh, scns)"
  obtains T where "list_all2 (named_in T) scns (secs @ [sig_sec h b, str_sec T])"
    "eh_shstrndx eh = of_nat (length secs + 2)" "length T = sum_list (map (\<lambda>s. length (si_name s) + 1) secs) + 23"
    "\<exists>sh. scn_shdr (scns ! Suc (length secs)) = Some sh \<and> gs_type sh = SHT_STRTAB"
    "d_bytes (scn_data (scns ! Suc (length secs))) = T"
proof
  let ?sht = "snd (write_sections secs [0])"
  let ?T = "?sht @ cstr ''.merlin.sig'' @ 0 # cstr ''.shstrtab'' @ [0]"
  have eh: "eh_shstrndx eh = of_nat (length secs + 2)" and
    scns: "scns = fst (write_sections secs [0]) @
      [new_scn (of_nat (length ?sht)) SHT_PROGBITS 0 (sig_image h @ b),
       new_scn (of_nat (length (?sht @ cstr ''.merlin.sig'' @ [0]))) SHT_STRTAB 0 ?T]"
    using assms by (auto simp: embed_object_def append_name_def case_prod_beta write_sections_length Let_def)
  have "named_in ?T (new_scn (of_nat (length ?sht)) SHT_PROGBITS 0 (sig_image h @ b)) (sig_sec h b)"
    using named_in_new [of ?T ?sht "sig_sec h b"] by (simp add: sig_sec_def)
  moreover have "named_in ?T (new_scn (of_nat (length (?sht @ cstr ''.merlin.sig'' @ [0]))) SHT_STRTAB 0 ?T) (str_sec ?T)"
    using named_in_new [of ?T "?sht @ cstr ''.merlin.sig'' @ [0]" "str_sec ?T" "[]"] by (simp add: str_sec_def)
  ultimately show "list_all2 (named_in ?T) scns (secs @ [sig_sec h b, str_sec ?T])"
    unfolding scns by (intro list_all2_appendI write_sections_named) simp
  show "eh_shstrndx eh = of_nat (length secs + 2)" by (fact eh)
  show "length ?T = sum_list (map (\<lambda>s. length (si_name s) + 1) secs) + 23" by (simp add: write_sections_length cstr_simps)
  show "\<exists>sh. scn_shdr (scns ! Suc (length secs)) = Some sh \<and> gs_type sh = SHT_STRTAB"
    "d_bytes (scn_data (scns ! Suc (length secs))) = ?T"
    unfolding scns by (simp_all add: nth_append write_sections_length new_scn_def)
qed

lemma named_in_same: "same_scn s t \<Longrightarrow> named_in T s sec \<Longrightarrow> named_in T t sec"
  by (auto simp: same_scn_def named_in_def)

lemma named_in_name:
  assumes "named_in T s sec" and "0 \<notin> set (si_name sec)" and "length T < 2 ^ 32"
    and "\<And>off. 0 \<in> set (drop (unat off) T) \<Longrightarrow> elf_strptr e ndx off = Some (takeWhile (\<lambda>x. x \<noteq> 0) (drop (unat off) T))"
  shows "sections_of e ndx (s # ss) = (si_name sec, si_buf sec) # sections_of e ndx ss"
proof -
  obtain sh pre post where sh: "scn_shdr s = Some sh" "T = pre @ si_name sec @ 0 # post"
    "gs_name sh = of_nat (length pre)" "d_bytes (scn_data s) = si_buf sec"
    using assms(1) unfolding named_in_def by blast
  have "unat (gs_name sh) = length pre"
    using sh(2,3) assms(3) by (simp add: unat_of_nat)
  then have d: "drop (unat (gs_name sh)) T = si_name sec @ 0 # post" using sh(2) by simp
  then have "elf_strptr e ndx (gs_name sh) = Some (si_name sec)"
    using assms(2) assms(4) [of "gs_name sh"] by (auto simp: takeWhile_tail takeWhile_eq_all_conv)
  with sh show ?thesis by (simp add: scn_name_def)
qed


lemma sections_of_written:
  assumes "list_all2 (named_in T) ss secs" and "list_all2 same_scn ss es" and "length T < 2 ^ 32"
    and "\<And>sec. sec \<in> set secs \<Longrightarrow> 0 \<notin> set (si_name sec)"
    and "\<And>off. 0 \<in> set (drop (unat off) T) \<Longrightarrow> elf_strptr e ndx off = Some (takeWhile (\<lambda>x. x \<noteq> 0) (drop (unat off) T))"
  shows "sections_of e ndx es = map (\<lambda>s. (si_name s, si_buf s)) secs"
proof -
  have "list_all2 (named_in T) es secs"
    using assms(1,2) named_in_same by (fastforce simp: list_all2_conv_all_nth)
  from this assms(4) show ?thesis
  proof (induction rule: list_all2_induct)
    case (Cons s ss sec secs)
    then show ?case using named_in_name [OF Cons(1) _ assms(3,5)] by simp
  qed simp
qed

lemma copy_sections_names:
  assumes "\<And>off n. elf_strptr e ndx off = Some n \<Longrightarrow> 0 \<notin> set n"
  shows "sec \<in> set (copy_sections e ndx ss) \<Longrightarrow>
    0 \<notin> set (si_name sec) \<and> si_name sec \<noteq> cstr ''.merlin.sig'' \<and> si_name sec \<noteq> cstr ''.shstrtab''"
  using assms by (induction ss) (auto simp: Let_def split: option.splits if_splits)

text \<open>The bounds of the format: section indices and name offsets fit, and no inactive section has a signed name.\<close>

definition signed_name :: "u8 list \<Rightarrow> bool" where
  "signed_name n \<longleftrightarrow> n \<in> set canonical_fixed_sections \<or> is_text n"

definition null_unsigned :: "elf_file \<Rightarrow> nat \<Rightarrow> elf_scn list \<Rightarrow> bool" where
  "null_unsigned e ndx ss \<longleftrightarrow> list_all (\<lambda>s. case scn_shdr s of
     None \<Rightarrow> True
   | Some sh \<Rightarrow> gs_type sh = SHT_NULL \<longrightarrow> \<not> signed_name (scn_name e ndx sh)) ss"

definition signable :: "'f libelf \<Rightarrow> 'f \<Rightarrow> bool" where
  "signable L f = (case elf_open L f of
     None \<Rightarrow> False
   | Some e \<Rightarrow>
       (case elf_strndx e of
          None \<Rightarrow> False
        | Some ndx \<Rightarrow>
            let secs = copy_sections e ndx (elf_scns e) in
            null_unsigned e ndx (elf_scns e) \<and> length secs + 2 < 0xff00 \<and>
            sum_list (map (\<lambda>s. length (si_name s) + 1) secs) + 23 < 2 ^ 32))"

abbreviation view :: "sec_in list \<Rightarrow> (u8 list \<times> u8 list) list" where
  "view secs \<equiv> map (\<lambda>s. (si_name s, si_buf s)) secs"

lemma not_signed: "\<not> signed_name (cstr ''.merlin.sig'')" "\<not> signed_name (cstr ''.shstrtab'')"
  by (simp_all add: signed_name_def canonical_fixed_sections_def is_text_def cstr_simps)

lemma copy_sections_step:
  "copy_sections e ndx (s # ss) =
     (case scn_shdr s of
        None \<Rightarrow> copy_sections e ndx ss
      | Some sh \<Rightarrow>
          if scn_name e ndx sh \<in> {cstr ''.shstrtab'', cstr ''.merlin.sig''} \<or> gs_type sh = SHT_NULL
          then copy_sections e ndx ss
          else \<lparr>si_name = scn_name e ndx sh, si_buf = d_bytes (scn_data s), si_type = gs_type sh, si_flags = gs_flags sh\<rparr>
                 # copy_sections e ndx ss)"
  by (simp add: scn_name_def Let_def split: option.split)

lemma copy_sections_kept:
  assumes "null_unsigned e ndx ss"
  shows "filter (signed_name \<circ> fst) (view (copy_sections e ndx ss)) = filter (signed_name \<circ> fst) (sections_of e ndx ss)"
  using assms
proof (induction ss)
  case (Cons s ss)
  then show ?case
    unfolding copy_sections_step by (auto simp: null_unsigned_def not_signed split: option.splits)
qed simp

text \<open>The signed region depends on the sections with signed names only.\<close>

lemma map_of_filter: "P n \<Longrightarrow> map_of (filter (P \<circ> fst) v) n = map_of v n"
  by (induction v) auto

lemma signed_region_filter: "signed_region (filter (signed_name \<circ> fst) v) = signed_region v"
proof -
  have "map_of (filter (signed_name \<circ> fst) v) n = map_of v n" if "n \<in> set canonical_fixed_sections" for n
    using that by (intro map_of_filter) (simp add: signed_name_def)
  then have "List.map_filter (map_of (filter (signed_name \<circ> fst) v)) canonical_fixed_sections =
      List.map_filter (map_of v) canonical_fixed_sections"
    by (simp add: List.map_filter_def cong: filter_cong map_cong)
  moreover have "filter (is_text \<circ> fst) (filter (signed_name \<circ> fst) v) = filter (is_text \<circ> fst) v"
    by (auto simp: signed_name_def intro!: filter_cong)
  ultimately show ?thesis unfolding signed_region_def by simp
qed

lemma signed_region_cong:
  "filter (signed_name \<circ> fst) v = filter (signed_name \<circ> fst) v' \<Longrightarrow> signed_region v = signed_region v'"
  by (metis signed_region_filter)


lemma map_of_view_absent: "\<forall>s \<in> set secs. si_name s \<noteq> n \<Longrightarrow> map_of (view secs @ v) n = map_of v n"
  by (induction secs) auto

lemma embed_object_sections:
  assumes "libelf_ok L" and "elf_open L f = Some e" and "elf_strndx e = Some ndx" and "signable L f"
    and "embed_object (copy_sections e ndx (elf_scns e)) machine cls h b = (eh, scns)"
    and "elf_write L eh scns = Some g" and "elf_current L"
  obtains T where
    "object_sections L g = Some (view (copy_sections e ndx (elf_scns e) @ [sig_sec h b, str_sec T]))"
proof -
  let ?secs = "copy_sections e ndx (elf_scns e)"
  have fits: "length ?secs + 2 < 0xff00" "sum_list (map (\<lambda>s. length (si_name s) + 1) ?secs) + 23 < 2 ^ 32"
    using assms(2-4) by (simp_all add: signable_def Let_def)
  from embed_object_named [OF assms(5)] obtain T where T:
    "list_all2 (named_in T) scns (?secs @ [sig_sec h b, str_sec T])" "eh_shstrndx eh = of_nat (length ?secs + 2)"
    "length T = sum_list (map (\<lambda>s. length (si_name s) + 1) ?secs) + 23"
    "\<exists>sh. scn_shdr (scns ! Suc (length ?secs)) = Some sh \<and> gs_type sh = SHT_STRTAB"
    "d_bytes (scn_data (scns ! Suc (length ?secs))) = T" by metis
  have ndx: "unat (eh_shstrndx eh) = length ?secs + 2" using fits(1) unfolding T(2) unat_of_nat by simp
  have "eh_shstrndx eh < 0xff00" using fits(1) ndx by (simp add: word_less_nat_alt)
  from libelf_read_back [OF assms(1,6) this] obtain e' where e':
    "elf_open L g = Some e'" "elf_strndx e' = Some (length ?secs + 2)" "list_all2 same_scn scns (elf_scns e')"
    "strptr_ok e'" unfolding ndx by metis
  have len: "length (elf_scns e') = length ?secs + 2" "length scns = length ?secs + 2"
    using list_all2_lengthD [OF e'(3)] list_all2_lengthD [OF T(1)] by simp_all
  have "same_scn (scns ! Suc (length ?secs)) (elf_scns e' ! Suc (length ?secs))"
    using list_all2_nthD [OF e'(3)] len by simp
  then have str: "elf_strptr e' (length ?secs + 2) off = Some (takeWhile (\<lambda>x. x \<noteq> 0) (drop (unat off) T))"
    if "0 \<in> set (drop (unat off) T)" for off
    using e'(4) T(4,5) len that unfolding strptr_ok_def same_scn_def by fastforce
  have names: "0 \<notin> set (si_name sec)" if "sec \<in> set (?secs @ [sig_sec h b, str_sec T])" for sec
    using that copy_sections_names [of e ndx sec "elf_scns e"] libelf_names [OF assms(1,2)]
    by (auto simp: sig_sec_def str_sec_def cstr_simps)
  have "length T < 2 ^ 32" using T(3) fits(2) by simp
  from sections_of_written [OF T(1) e'(3) this names str] show ?thesis
    using that [of T] e'(1,2) assms(7) by (simp add: object_sections_def)
qed

lemma embed_view:
  assumes "libelf_ok L" and "elf_open L f = Some e" and "elf_strndx e = Some ndx" and "signable L f"
    and v_def: "v = view (copy_sections e ndx (elf_scns e) @ [sig_sec h b, str_sec T])"
  shows "signed_region v = signed_region (sections_of e ndx (elf_scns e))"
    and "map_of v (cstr ''.merlin.sig'') = Some (sig_image h @ b)"
proof -
  have "null_unsigned e ndx (elf_scns e)" using assms(2-4) by (simp add: signable_def Let_def)
  from copy_sections_kept [OF this] show "signed_region v = signed_region (sections_of e ndx (elf_scns e))"
    by (intro signed_region_cong) (simp add: v_def sig_sec_def str_sec_def not_signed)
  have "\<forall>s \<in> set (copy_sections e ndx (elf_scns e)). si_name s \<noteq> cstr ''.merlin.sig''"
    using copy_sections_names [of e ndx] libelf_names [OF assms(1,2)] by blast
  then show "map_of v (cstr ''.merlin.sig'') = Some (sig_image h @ b)"
    using map_of_view_absent [of _ _ "view [sig_sec h b, str_sec T]"] by (simp add: v_def sig_sec_def)
qed

lemma embed_ok:
  assumes "merlin_sig_embed L inp outp h b w = (0, w')" and "w_files w inp = Some f"
    and "libelf_ok L" and "signable L f"
  obtains g v v' where "w' = w\<lparr>w_files := (w_files w)(outp \<mapsto> g)\<rparr>"
    "object_sections L f = Some v" "object_sections L g = Some v'"
    "signed_region v' = signed_region v" "map_of v' (cstr ''.merlin.sig'') = Some (sig_image h @ b)"
proof -
  obtain e ndx where e: "elf_open L f = Some e" "elf_strndx e = Some ndx"
    using assms(4) by (auto simp: signable_def split: option.splits)
  have cur: "elf_current L"
    using assms(1,2) by (auto simp: merlin_sig_embed_def read_all_sections_def split: if_splits)
  obtain machine cls eh scns g where g:
    "embed_object (copy_sections e ndx (elf_scns e)) machine cls h b = (eh, scns)" "elf_write L eh scns = Some g"
    "w' = w\<lparr>w_files := (w_files w)(outp \<mapsto> g)\<rparr>"
    using assms(1,2) e by (auto simp: merlin_sig_embed_def read_all_sections_def split: if_splits option.splits prod.splits)
  from embed_object_sections [OF assms(3) e assms(4) g(1,2) cur] obtain T where T:
    "object_sections L g = Some (view (copy_sections e ndx (elf_scns e) @ [sig_sec h b, str_sec T]))" .
  show ?thesis
    using that [OF g(3) _ T embed_view [OF assms(3) e assms(4) refl]] e cur by (simp add: object_sections_def)
qed

text \<open>What extraction makes of the bytes of the signature section.\<close>

definition check_sig :: "nat \<Rightarrow> u8 list \<Rightarrow> (merlin_sig_v1 \<times> u8 list) option" where
  "check_sig cap b =
     (let h = sig_parse b in
      if length b < MERLIN_SIG_V1_HEADER_SIZE \<or> sg_magic h \<noteq> MERLIN_SIG_MAGIC \<or>
         sg_size h \<noteq> of_nat MERLIN_SIG_V1_HEADER_SIZE \<or>
         length b \<noteq> MERLIN_SIG_V1_HEADER_SIZE + unat (sig_bytes_len h) \<or> cap < unat (sig_bytes_len h)
      then None else Some (h, drop MERLIN_SIG_V1_HEADER_SIZE b))"

lemma extract_eq:
  "merlin_sig_extract L (Some f) cap =
     (case object_sections L f of
        None \<Rightarrow> None
      | Some v \<Rightarrow>
          (case map_of v (cstr ''.merlin.sig'') of
             None \<Rightarrow> Some None
           | Some b \<Rightarrow> map_option Some (check_sig cap b)))"
proof -
  have ne: "cstr ''.merlin.sig'' \<noteq> []" by (simp add: cstr_simps)
  show ?thesis
  proof (cases "object_sections L f")
    case None
    then show ?thesis
      by (auto simp: object_sections_def merlin_sig_extract_def split: option.splits if_splits)
  next
    case (Some v)
    then obtain e ndx where e: "elf_open L f = Some e" "elf_strndx e = Some ndx" "elf_current L"
      "v = sections_of e ndx (elf_scns e)"
      by (auto simp: object_sections_def split: if_splits option.splits)
    note n = find_named_sections [OF ne, of e ndx "elf_scns e", symmetric]
    show ?thesis
    proof (cases "find_named e ndx (cstr ''.merlin.sig'') (elf_scns e)")
      case None
      then show ?thesis using e n Some by (simp add: merlin_sig_extract_def)
    next
      case s: (Some s)
      then show ?thesis
        using e n Some
        by (cases "scn_data s") (auto simp: merlin_sig_extract_def check_sig_def field_def Let_def)
    qed
  qed
qed

lemma check_sig_image:
  assumes "sg_magic h = MERLIN_SIG_MAGIC" and "sg_size h = of_nat MERLIN_SIG_V1_HEADER_SIZE"
    and "unat (sig_bytes_len h) = length b" and "length b \<le> cap"
  shows "check_sig cap (sig_image h @ b) = Some (h, b)"
  using assms by (simp add: check_sig_def sig_parse_image Let_def)

subsection \<open>Properties\<close>

lemma cmd_sign_0:
  assumes "cmd_sign L D C priv kid inp outp w = (0, w')" and "w_priv w priv = Some k"
  obtains f digest tot sig h where "w_files w inp = Some f" "merlin_sig_hash_signed_region L D f = Some (digest, tot)"
    "c_sign C k digest = Some sig" "length sig = MERLIN_SIG_ED25519_LEN"
    "h = \<lparr>sg_magic = MERLIN_SIG_MAGIC, sg_size = of_nat MERLIN_SIG_V1_HEADER_SIZE, sg_algo = MERLIN_SIG_ALGO_ED25519,
       sg_key_id = kid, signed_blob_off = 0, signed_blob_len = tot,
       sig_bytes_len = of_nat MERLIN_SIG_ED25519_LEN, sg_reserved = 0\<rparr>"
    "merlin_sig_embed L inp outp h sig w = (0, w')"
proof -
  have rc: "rc = 0" if "merlin_sig_embed L inp outp h sig w = (rc, w')" "\<not> rc < 0" for rc h sig
    using that by (auto simp: merlin_sig_embed_def split: option.splits if_splits prod.splits)
  show ?thesis
    using assms that rc
    by (fastforce simp: cmd_sign_def merlin_sig_sign_ed25519_def Let_def split: option.splits if_splits prod.splits)
qed

text \<open>
  C12: A signed object verifies. When signing succeeds with a private key whose public key belongs to it, and
  the input keeps to the bounds of the format, the output object verifies under that public key and
  reports the key identifier it was signed with; its tag is the tag of the input.
\<close>

theorem sign_verify:
  assumes "cmd_sign L D C priv kid inp outp w = (0, w')" and "w_files w inp = Some f" and "signable L f"
    and "libelf_ok L" and "w_priv w priv = Some k" and "w_pub w pub = Some p" and "keys_match C k p"
  shows "\<exists>digest tot. cmd_tag L D inp w = (0, Some (digest, tot)) \<and> cmd_tag L D outp w' = (0, Some (digest, tot)) \<and>
    cmd_verify L D C junk pub outp w' = (0, Some (kid, tot, digest))"
proof -
  from cmd_sign_0 [OF assms(1,5)] obtain digest tot sig h where s:
    "merlin_sig_hash_signed_region L D f = Some (digest, tot)" "c_sign C k digest = Some sig"
    "length sig = MERLIN_SIG_ED25519_LEN"
    "h = \<lparr>sg_magic = MERLIN_SIG_MAGIC, sg_size = of_nat MERLIN_SIG_V1_HEADER_SIZE, sg_algo = MERLIN_SIG_ALGO_ED25519,
       sg_key_id = kid, signed_blob_off = 0, signed_blob_len = tot,
       sig_bytes_len = of_nat MERLIN_SIG_ED25519_LEN, sg_reserved = 0\<rparr>"
    "merlin_sig_embed L inp outp h sig w = (0, w')"
    using assms(2) by (metis option.inject)
  from embed_ok [OF s(5) assms(2,4,3)] obtain g v v' where g: "w' = w\<lparr>w_files := (w_files w)(outp \<mapsto> g)\<rparr>"
    "object_sections L f = Some v" "object_sections L g = Some v'"
    "signed_region v' = signed_region v" "map_of v' (cstr ''.merlin.sig'') = Some (sig_image h @ sig)" .
  have x: "merlin_sig_extract L (Some g) MERLIN_SIG_ED25519_LEN = Some (Some (h, sig))"
    using check_sig_image [of h sig MERLIN_SIG_ED25519_LEN] by (simp add: extract_eq g(3,5) s(3,4))
  have hg: "merlin_sig_hash_signed_region L D g = Some (digest, tot)"
    using s(1) g(2-4) by (simp add: hash_signed_region_eq)
  have "c_verify C p digest sig" using assms(7) s(2) by (simp add: keys_match_def)
  then show ?thesis
    using s g(1) x hg assms(2,6) by (simp add: cmd_tag_def cmd_verify_def merlin_sig_verify_ed25519_def Let_def)
qed


text \<open>A libelf that keeps objects as their headers, and a world with one object, for evaluation.\<close>

definition demo_strptr :: "elf_scn list \<Rightarrow> nat \<Rightarrow> u32 \<Rightarrow> u8 list option" where
  "demo_strptr ss i off =
     (if i = 0 \<or> length ss < i then None
      else let s = ss ! (i - 1); b = drop (unat off) (d_bytes (scn_data s)) in
        if map_option gs_type (scn_shdr s) = Some SHT_STRTAB \<and> 0 \<in> set b then Some (takeWhile (\<lambda>x. x \<noteq> 0) b) else None)"

definition demo_libelf :: "(gelf_ehdr \<times> elf_scn list) option libelf" where
  "demo_libelf = \<lparr>elf_current = True,
     elf_open = map_option (\<lambda>(eh, ss). \<lparr>elf_ehdr = Some eh, elf_strndx = Some (unat (eh_shstrndx eh)),
       elf_scns = ss, elf_strptr = demo_strptr ss\<rparr>),
     elf_write = (\<lambda>eh ss. Some (Some (eh, ss))), elf_truncated = None, copy_mem = True\<rparr>"

lemma demo_libelf_ok: "libelf_ok demo_libelf"
proof -
  have "same_scn s s" for s by (simp add: same_scn_def)
  then have "list_all2 same_scn ss ss" for ss by (intro list_all2_refl)
  moreover have "0 \<notin> set n" if "demo_strptr ss i off = Some n" for ss i off n
    using that by (auto simp: demo_strptr_def Let_def dest: set_takeWhileD split: if_splits)
  moreover have "strptr_ok \<lparr>elf_ehdr = Some eh, elf_strndx = k, elf_scns = ss, elf_strptr = demo_strptr ss\<rparr>" for eh k ss
    by (simp add: strptr_ok_def demo_strptr_def)
  ultimately show ?thesis
    unfolding libelf_ok_def demo_libelf_def by auto
qed

definition demo_object :: "(string \<times> u8 list) list \<Rightarrow> (gelf_ehdr \<times> elf_scn list) option" where
  "demo_object l =
     (let (scns, sht) = write_sections (map (\<lambda>(n, b). \<lparr>si_name = cstr n, si_buf = b, si_type = SHT_PROGBITS, si_flags = 0\<rparr>) l) [0];
          (sht1, off) = append_name sht (cstr ''.shstrtab'')
      in Some (\<lparr>eh_class = 2, eh_data = ELFDATA2LSB, eh_osabi = ELFOSABI_NONE, eh_type = ET_REL, eh_machine = 243,
           eh_shstrndx = of_nat (length l + 1)\<rparr>, scns @ [new_scn off SHT_STRTAB 0 sht1]))"

definition demo_digest :: "u8 list digest" where
  "demo_digest = \<lparr>md_new = Some [], md_update = (\<lambda>c b. (True, c @ b)), md_final = Some\<rparr>"

definition demo_world :: "(string \<times> u8 list) list \<Rightarrow> ((gelf_ehdr \<times> elf_scn list) option, u8, u8) world" where
  "demo_world l = \<lparr>w_files = [''a.o'' \<mapsto> demo_object l], w_creat = (\<lambda>_. True), w_priv = (\<lambda>_. Some 7), w_pub = (\<lambda>_. Some 7)\<rparr>"

definition demo_signed :: "(string \<times> u8 list) list \<Rightarrow> ((gelf_ehdr \<times> elf_scn list) option, u8, u8) world" where
  "demo_signed l = snd (cmd_sign demo_libelf demo_digest demo_crypto ''k'' 5 ''a.o'' ''b.o'' (demo_world l))"

abbreviation (input) demo_sections :: "(string \<times> u8 list) list" where
  "demo_sections \<equiv> [(''.text.merlin.x'', [0x67, 0x80]), (''.merlin.license'', [0x47, 0])]"

lemma demo_sign_ok: "fst (cmd_sign demo_libelf demo_digest demo_crypto ''k'' 5 ''a.o'' ''b.o'' (demo_world demo_sections)) = 0"
  by code_simp

definition demo_elf :: elf_file where
  "demo_elf = the (elf_open demo_libelf (demo_object demo_sections))"

lemma demo_elf_facts: "elf_strndx demo_elf = Some 3" "null_unsigned demo_elf 3 (elf_scns demo_elf)"
  "map (\<lambda>s. length (si_name s)) (copy_sections demo_elf 3 (elf_scns demo_elf)) = [14, 15]"
  by code_simp+

lemma demo_signable: "signable demo_libelf (demo_object demo_sections)"
proof -
  have "elf_open demo_libelf (demo_object demo_sections) = Some demo_elf"
    unfolding demo_elf_def by (simp add: demo_libelf_def demo_object_def case_prod_beta Let_def)
  moreover obtain a b where "copy_sections demo_elf 3 (elf_scns demo_elf) = [a, b]"
    "length (si_name a) = 14" "length (si_name b) = 15"
    using demo_elf_facts(3) by (auto simp: map_eq_Cons_conv)
  ultimately show ?thesis using demo_elf_facts(1,2) by (simp add: signable_def)
qed

lemma demo_keys: "keys_match demo_crypto 7 7"
  by (simp add: keys_match_def demo_crypto_def)

theorem sign_verify_witness:
  "\<exists>digest tot. cmd_verify demo_libelf demo_digest demo_crypto (replicate 64 0) ''k'' ''b.o'' (demo_signed demo_sections) =
     (0, Some (5, tot, digest))"
proof -
  have "cmd_sign demo_libelf demo_digest demo_crypto ''k'' 5 ''a.o'' ''b.o'' (demo_world demo_sections) =
      (0, demo_signed demo_sections)"
    using demo_sign_ok by (simp add: demo_signed_def prod_eq_iff)
  from sign_verify [OF this _ demo_signable demo_libelf_ok _ _ demo_keys, of "''k''" "replicate 64 0"]
  show ?thesis by (auto simp: demo_world_def)
qed


text \<open>
  C25: What verification checks, exactly. The command accepts an object, and prints a key identifier, a length
  and a digest, if and only if the object opens, its first signature section has a well-formed header
  for the algorithm and at most 64 signature bytes, the recorded length and the printed digest are those of
  the signed region, and the public key accepts the 64-byte buffer that the signature was copied into.
\<close>

theorem verify_exact:
  "cmd_verify L D C junk pub inp w = (0, Some (kid, tot, digest)) \<longleftrightarrow>
     (\<exists>f v b h sig p. w_files w inp = Some f \<and> object_sections L f = Some v \<and>
        map_of v (cstr ''.merlin.sig'') = Some b \<and> check_sig MERLIN_SIG_ED25519_LEN b = Some (h, sig) \<and>
        sg_algo h = MERLIN_SIG_ALGO_ED25519 \<and> sg_key_id h = kid \<and> signed_blob_len h = tot \<and>
        hash_region D (signed_region v) = Some (digest, tot) \<and> w_pub w pub = Some p \<and>
        c_verify C p digest (take MERLIN_SIG_ED25519_LEN (sig @ drop (length sig) junk)))"
proof (cases "w_files w inp")
  case None
  then show ?thesis by (simp add: cmd_verify_def merlin_sig_extract_def)
next
  case (Some f)
  show ?thesis
  proof (cases "object_sections L f")
    case None
    then show ?thesis using Some by (simp add: cmd_verify_def extract_eq)
  next
    case v: (Some v)
    then show ?thesis
      using Some
      by (auto simp: cmd_verify_def extract_eq hash_signed_region_eq merlin_sig_verify_ed25519_def Let_def
          split: option.splits if_splits prod.splits)
  qed
qed

lemma hash_region_concat:
  assumes "digest_streams D" and "concat bs = concat cs" and "bs \<noteq> []" and "cs \<noteq> []"
  shows "hash_region D bs = hash_region D cs"
  using hash_all_streams [OF assms(1,3)] hash_all_streams [OF assms(1,4)] assms(2)
  by (simp add: hash_region_def split: option.split)

lemma signed_region_empty: "signed_region v = [] \<longleftrightarrow> concat (signed_region v) = []"
  by (auto simp: signed_region_def filter_empty_conv)

text \<open>
  C38: What a signature does not cover. Two objects verify alike whenever the concatenations of their signed
  regions agree and their signature sections differ in the key identifier and the
  blob offset only: neither the boundaries between the signed sections nor the printed key identifier are
  authenticated, and an offset other than zero, which names the other mode of the format, is accepted.
\<close>

theorem signature_scope:
  assumes "digest_streams D" and "w_files w inp = Some f" and "w_files w inp' = Some g"
    and "object_sections L f = Some v" and "object_sections L g = Some v'"
    and "concat (signed_region v) = concat (signed_region v')"
    and "map_of v (cstr ''.merlin.sig'') = Some (sig_image h @ s)"
    and "map_of v' (cstr ''.merlin.sig'') = Some (sig_image (h\<lparr>sg_key_id := kid', signed_blob_off := off\<rparr>) @ s)"
    and "cmd_verify L D C junk pub inp w = (0, Some (kid, tot, digest))"
  shows "cmd_verify L D C junk pub inp' w = (0, Some (kid', tot, digest))"
proof -
  have region: "hash_region D (signed_region v) = hash_region D (signed_region v')"
    using hash_region_concat [OF assms(1,6)] assms(6) signed_region_empty [of v] signed_region_empty [of v'] by metis
  have sig: "check_sig MERLIN_SIG_ED25519_LEN (sig_image (h\<lparr>sg_key_id := kid', signed_blob_off := off\<rparr>) @ s) =
      map_option (\<lambda>(h, s). (h\<lparr>sg_key_id := kid', signed_blob_off := off\<rparr>, s)) (check_sig MERLIN_SIG_ED25519_LEN (sig_image h @ s))"
    by (simp add: check_sig_def sig_parse_image)
  show ?thesis
    using assms(2-5,7-9) region sig
    by (auto simp: cmd_verify_def extract_eq hash_signed_region_eq merlin_sig_verify_ed25519_def Let_def
        split: option.splits if_splits prod.splits)
qed


text \<open>The witness: one byte of the program text moved into the license, another key identifier and an offset.\<close>

definition demo_sig :: "u32 \<Rightarrow> u64 \<Rightarrow> merlin_sig_v1" where
  "demo_sig kid off = \<lparr>sg_magic = MERLIN_SIG_MAGIC, sg_size = of_nat MERLIN_SIG_V1_HEADER_SIZE,
     sg_algo = MERLIN_SIG_ALGO_ED25519, sg_key_id = kid, signed_blob_off = off, signed_blob_len = 3,
     sig_bytes_len = of_nat MERLIN_SIG_ED25519_LEN, sg_reserved = 0\<rparr>"

definition scope_file :: "u8 list \<Rightarrow> u8 list \<Rightarrow> u32 \<Rightarrow> u64 \<Rightarrow> (gelf_ehdr \<times> elf_scn list) option" where
  "scope_file txt lic kid off = demo_object [(''.text.merlin.x'', txt), (''.merlin.license'', lic),
     (''.merlin.sig'', sig_image (demo_sig kid off) @ replicate 64 7)]"

definition scope_world :: "((gelf_ehdr \<times> elf_scn list) option, u8, u8) world" where
  "scope_world = (demo_world [])\<lparr>w_files := [''a.o'' \<mapsto> scope_file [0x67, 0x80] [0x47] 5 0,
     ''b.o'' \<mapsto> scope_file [0x80] [0x47, 0x67] 9 1]\<rparr>"

definition scope_view :: "u8 list \<Rightarrow> u8 list \<Rightarrow> u32 \<Rightarrow> u64 \<Rightarrow> (u8 list \<times> u8 list) list" where
  "scope_view txt lic kid off = the (object_sections demo_libelf (scope_file txt lic kid off))"

lemma scope_file_opens: "object_sections demo_libelf (scope_file txt lic kid off) = Some (scope_view txt lic kid off)"
  by (simp add: scope_view_def object_sections_def demo_libelf_def scope_file_def demo_object_def case_prod_beta Let_def)

lemma scope_views:
  "concat (signed_region (scope_view [0x67, 0x80] [0x47] 5 0)) = concat (signed_region (scope_view [0x80] [0x47, 0x67] 9 1))"
  "map_of (scope_view [0x67, 0x80] [0x47] 5 0) (cstr ''.merlin.sig'') = Some (sig_image (demo_sig 5 0) @ replicate 64 7)"
  "map_of (scope_view [0x80] [0x47, 0x67] 9 1) (cstr ''.merlin.sig'') =
     Some (sig_image ((demo_sig 5 0)\<lparr>sg_key_id := 9, signed_blob_off := 1\<rparr>) @ replicate 64 7)"
  by code_simp+

lemma scope_verified:
  "cmd_verify demo_libelf demo_digest demo_crypto (replicate 64 0) ''k'' ''a.o'' scope_world = (0, Some (5, 3, [0x47, 0x67, 0x80]))"
  by code_simp

theorem signature_scope_witness:
  "cmd_verify demo_libelf demo_digest demo_crypto (replicate 64 0) ''k'' ''b.o'' scope_world = (0, Some (9, 3, [0x47, 0x67, 0x80]))"
proof -
  have "digest_streams demo_digest" by (simp add: digest_streams_def demo_digest_def)
  moreover have "w_files scope_world ''a.o'' = Some (scope_file [0x67, 0x80] [0x47] 5 0)"
    "w_files scope_world ''b.o'' = Some (scope_file [0x80] [0x47, 0x67] 9 1)"
    by (simp_all add: scope_world_def)
  ultimately show ?thesis
    using signature_scope [OF _ _ _ scope_file_opens scope_file_opens scope_views scope_verified] by blast
qed

text \<open>
  The bytes handed back are bounded. Extraction refuses a section that announces more signature bytes than
  the caller's buffer holds or than the section has; what it hands back has the announced length, within the buffer.
\<close>

theorem extract_bounded:
  assumes "merlin_sig_extract L fo cap = Some (Some (h, s))"
  shows "length s = unat (sig_bytes_len h) \<and> length s \<le> cap \<and> sg_magic h = MERLIN_SIG_MAGIC"
proof (cases fo)
  case None
  then show ?thesis using assms by (simp add: merlin_sig_extract_def split: if_splits)
next
  case (Some f)
  then show ?thesis
    using assms by (auto simp: extract_eq check_sig_def Let_def split: option.splits if_splits)
qed

theorem extract_bounded_witness:
  "length (snd (the (the (merlin_sig_extract demo_libelf (Some (scope_file [0x80] [0x47, 0x67] 9 1)) 64)))) \<le> 64"
proof -
  have "merlin_sig_extract demo_libelf (Some (scope_file [0x80] [0x47, 0x67] 9 1)) 64 =
      Some (Some (demo_sig 9 1, replicate 64 7))"
    by code_simp
  from extract_bounded [OF this] this show ?thesis by simp
qed

definition short_world :: "((gelf_ehdr \<times> elf_scn list) option, u8, u8) world" where
  "short_world = (demo_world [])\<lparr>w_files := [''a.o'' \<mapsto> demo_object [(''.text.merlin.x'', [1, 2, 3]),
     (''.merlin.sig'', sig_image ((demo_sig 5 0)\<lparr>sig_bytes_len := 0\<rparr>))]]\<rparr>"

text \<open>
  A short signature is completed from the stack. An object whose section announces no signature bytes at all is
  accepted or refused according to what the buffer held before.
\<close>

theorem short_signature_reads_stack:
  "cmd_verify demo_libelf demo_digest demo_crypto (replicate 64 7) ''k'' ''a.o'' short_world = (0, Some (5, 3, [1, 2, 3])) \<and>
   cmd_verify demo_libelf demo_digest demo_crypto (replicate 64 0) ''k'' ''a.o'' short_world = (1, None)"
  by code_simp

end
