(* ===== verification/Objtool.thy ===== *)
theory Objtool
  imports Sign "HOL-Library.Monad_Syntax"
begin

text \<open>
  The object tool: \<open>tools/merlin-objtool/merlin-objtool.c\<close> on the record layouts of
  \<open>docs/design/uapi/merlin/merlin.h\<close> and \<open>maps.h\<close>. Sections are read through a pointer to their data, so a
  read outside the bytes of a section, or through a missing buffer, is an outcome of its own: the results
  are options, and \<^const>\<open>None\<close> is such an access. Messages are not modelled; a command gives its exit status
  and the values it prints.
\<close>

subsection \<open>Opening and looking up\<close>

record elf_obj =
  o_elf :: elf_file
  o_ehdr :: gelf_ehdr
  o_shstrndx :: nat

definition elf_obj_open :: "'f libelf \<Rightarrow> 'f option \<Rightarrow> elf_obj option" where
  "elf_obj_open L file =
     (if \<not> elf_current L then None
      else case file of
        None \<Rightarrow> None
      | Some f \<Rightarrow>
          (case elf_open L f of
             None \<Rightarrow> None
           | Some e \<Rightarrow>
               (case elf_ehdr e of
                  None \<Rightarrow> None
                | Some eh \<Rightarrow>
                    (case elf_strndx e of
                       None \<Rightarrow> None
                     | Some ndx \<Rightarrow> Some \<lparr>o_elf = e, o_ehdr = eh, o_shstrndx = ndx\<rparr>))))"

fun find_from :: "elf_obj \<Rightarrow> u8 list \<Rightarrow> elf_scn list \<Rightarrow> (elf_scn \<times> gelf_shdr) option" where
  "find_from ob name [] = None"
| "find_from ob name (scn # scns) =
     (case scn_shdr scn of
        None \<Rightarrow> find_from ob name scns
      | Some shdr \<Rightarrow>
          (case elf_strptr (o_elf ob) (o_shstrndx ob) (gs_name shdr) of
             None \<Rightarrow> find_from ob name scns
           | Some sname \<Rightarrow> if sname = name then Some (scn, shdr) else find_from ob name scns))"

definition find_section :: "elf_obj \<Rightarrow> string \<Rightarrow> (elf_scn \<times> gelf_shdr) option" where
  "find_section ob name = find_from ob (cstr name) (elf_scns (o_elf ob))"

fun d_size :: "elf_data \<Rightarrow> nat" where
  "d_size No_Data = 0"
| "d_size (No_Buf n) = n"
| "d_size (Buf b) = length b"

text \<open>A load of \<open>n\<close> bytes at an offset of the data.\<close>

fun rd :: "nat \<Rightarrow> elf_data \<Rightarrow> nat \<Rightarrow> 'a::len word option" where
  "rd n (Buf b) off = (if off + n \<le> length b then Some (le_word (field off n b)) else None)"
| "rd n _ off = None"

subsection \<open>Validation\<close>

abbreviation (input) MERLIN_META_MAGIC :: u32 where "MERLIN_META_MAGIC \<equiv> 0x564C524D"
abbreviation (input) MERLIN_META_VERSION_MAJOR :: u16 where "MERLIN_META_VERSION_MAJOR \<equiv> 1"
abbreviation (input) MERLIN_MAP_TYPE_RINGBUF :: u32 where "MERLIN_MAP_TYPE_RINGBUF \<equiv> 7"
abbreviation (input) map_desc_size :: nat where "map_desc_size \<equiv> 80"
abbreviation (input) reloc_size :: nat where "reloc_size \<equiv> 24"
abbreviation (input) meta_v1_size :: nat where "meta_v1_size \<equiv> 112"
abbreviation (input) EM_RISCV :: u16 where "EM_RISCV \<equiv> 243"
abbreviation (input) EM_NONE :: u16 where "EM_NONE \<equiv> 0"

record validate_ctx =
  has_meta :: bool
  has_license :: bool
  has_maps :: bool
  has_relocs :: bool
  has_btf :: bool
  has_btf_ext :: bool
  has_core_v_pending :: bool
  has_sig :: bool
  vc_profile :: u32
  vc_prog_type :: u32
  version_major :: u16
  version_minor :: u16
  meta_size_advertised :: u32
  meta_section_size :: u32
  map_count :: nat
  reloc_count :: nat

definition ctx_zero :: validate_ctx where
  "ctx_zero = \<lparr>has_meta = False, has_license = False, has_maps = False, has_relocs = False, has_btf = False,
     has_btf_ext = False, has_core_v_pending = False, has_sig = False, vc_profile = 0, vc_prog_type = 0,
     version_major = 0, version_minor = 0, meta_size_advertised = 0, meta_section_size = 0, map_count = 0,
     reloc_count = 0\<rparr>"

definition validate_meta :: "elf_obj \<Rightarrow> validate_ctx \<Rightarrow> (int \<times> validate_ctx) option" where
  "validate_meta ob ctx =
     (case find_section ob ''.merlin.meta'' of
        None \<Rightarrow> Some (- 1, ctx)
      | Some (scn, shdr) \<Rightarrow>
          let ctx1 = ctx\<lparr>has_meta := True, meta_section_size := ucast (gs_size shdr)\<rparr>; d = scn_data scn in
          if d = No_Data \<or> d_size d < 12 then Some (- 1, ctx1)
          else do {
            magic \<leftarrow> rd 4 d 0;
            if magic \<noteq> MERLIN_META_MAGIC then Some (- 1, ctx1)
            else do {
              major \<leftarrow> rd 2 d 4;
              if major \<noteq> MERLIN_META_VERSION_MAJOR then Some (- 1, ctx1)
              else do {
                meta_size \<leftarrow> (rd 4 d 8 :: u32 option);
                if d_size d < unat meta_size then Some (- 1, ctx1)
                else if meta_size < 12 then Some (- 1, ctx1)
                else do {
                  profile \<leftarrow> rd 4 d 16;
                  prog_type \<leftarrow> rd 4 d 20;
                  minor \<leftarrow> rd 2 d 6;
                  Some (0, ctx1\<lparr>vc_profile := profile, vc_prog_type := prog_type, version_major := major,
                    version_minor := minor, meta_size_advertised := meta_size\<rparr>)
                }
              }
            }
          })"

definition validate_license :: "elf_obj \<Rightarrow> validate_ctx \<Rightarrow> (int \<times> validate_ctx) option" where
  "validate_license ob ctx =
     (case find_section ob ''.merlin.license'' of
        None \<Rightarrow> Some (- 1, ctx)
      | Some (scn, shdr) \<Rightarrow>
          let ctx1 = ctx\<lparr>has_license := True\<rparr>; d = scn_data scn in
          if d = No_Data \<or> d_size d < 1 then Some (- 1, ctx1)
          else (case d of
                  Buf s \<Rightarrow> if 0 \<notin> set s then Some (- 1, ctx1) else Some (0, ctx1)
                | _ \<Rightarrow> None))"

fun check_maps :: "elf_data \<Rightarrow> nat list \<Rightarrow> int option" where
  "check_maps d [] = Some 0"
| "check_maps d (i # is) = do {
     typ \<leftarrow> (rd 4 d (map_desc_size * i + 32) :: u32 option);
     if typ = 0 then Some (- 1)
     else do {
       max_entries \<leftarrow> (rd 4 d (map_desc_size * i + 44) :: u32 option);
       if max_entries = 0 \<and> typ \<noteq> MERLIN_MAP_TYPE_RINGBUF then Some (- 1) else check_maps d is
     }
   }"

definition validate_maps :: "elf_obj \<Rightarrow> validate_ctx \<Rightarrow> (int \<times> validate_ctx) option" where
  "validate_maps ob ctx =
     (case find_section ob ''.merlin.maps'' of
        None \<Rightarrow> Some (0, ctx\<lparr>map_count := 0\<rparr>)
      | Some (scn, shdr) \<Rightarrow>
          let ctx1 = ctx\<lparr>has_maps := True\<rparr>; size = unat (gs_size shdr); d = scn_data scn in
          if size mod map_desc_size \<noteq> 0 then Some (- 1, ctx1)
          else let ctx2 = ctx1\<lparr>map_count := size div map_desc_size\<rparr> in
            if d = No_Data then Some (- 1, ctx2)
            else map_option (\<lambda>rc. (rc, ctx2)) (check_maps d [0..<size div map_desc_size]))"

fun check_relocs :: "elf_data \<Rightarrow> u32 option \<Rightarrow> nat list \<Rightarrow> int option" where
  "check_relocs d prev_off [] = Some 0"
| "check_relocs d prev_off (i # is) = do {
     r_type \<leftarrow> (rd 4 d (reloc_size * i + 4) :: u32 option);
     if r_type = 0 then Some (- 1)
     else if 8 < r_type \<and> r_type < 64 then Some (- 1)
     else do {
       r_offset \<leftarrow> rd 4 d (reloc_size * i);
       if (case prev_off of None \<Rightarrow> False | Some p \<Rightarrow> r_offset \<le> p) then Some (- 1)
       else check_relocs d (Some r_offset) is
     }
   }"

definition validate_relocs :: "elf_obj \<Rightarrow> validate_ctx \<Rightarrow> (int \<times> validate_ctx) option" where
  "validate_relocs ob ctx =
     (case find_section ob ''.merlin.relocs'' of
        None \<Rightarrow> Some (0, ctx\<lparr>reloc_count := 0\<rparr>)
      | Some (scn, shdr) \<Rightarrow>
          let ctx1 = ctx\<lparr>has_relocs := True\<rparr>; size = unat (gs_size shdr); d = scn_data scn in
          if size mod reloc_size \<noteq> 0 then Some (- 1, ctx1)
          else let ctx2 = ctx1\<lparr>reloc_count := size div reloc_size\<rparr> in
            if d = No_Data \<or> d_size d = 0 then Some (0, ctx2)
            else map_option (\<lambda>rc. (rc, ctx2)) (check_relocs d None [0..<size div reloc_size]))"

definition run_validate :: "elf_obj \<Rightarrow> validate_ctx \<Rightarrow> bool \<Rightarrow> (int \<times> validate_ctx) option" where
  "run_validate ob ctx strict_machine =
     (if eh_data (o_ehdr ob) \<noteq> ELFDATA2LSB then Some (- 1, ctx)
      else if strict_machine \<and> eh_machine (o_ehdr ob) \<noteq> EM_RISCV \<and> eh_machine (o_ehdr ob) \<noteq> EM_NONE then Some (- 1, ctx)
      else do {
        (rc1, ctx1) \<leftarrow> validate_meta ob ctx;
        if rc1 < 0 then Some (- 1, ctx1)
        else do {
          (rc2, ctx2) \<leftarrow> validate_license ob ctx1;
          if rc2 < 0 then Some (- 1, ctx2)
          else do {
            (rc3, ctx3) \<leftarrow> validate_maps ob ctx2;
            if rc3 < 0 then Some (- 1, ctx3)
            else do {
              (rc4, ctx4) \<leftarrow> validate_relocs ob ctx3;
              if rc4 < 0 then Some (- 1, ctx4)
              else Some (0, ctx4\<lparr>has_btf := find_section ob ''.merlin.btf'' \<noteq> None,
                has_btf_ext := find_section ob ''.merlin.btf_ext'' \<noteq> None,
                has_core_v_pending := find_section ob ''.merlin.core_v_pending'' \<noteq> None,
                has_sig := find_section ob ''.merlin.sig'' \<noteq> None\<rparr>)
            }
          }
        }
      })"

subsection \<open>Commands\<close>

definition profile_name :: "u32 \<Rightarrow> string" where
  "profile_name p = (if p = 1 then ''merlin-linux-rv64'' else if p = 2 then ''merlin-rtos-rv32''
     else if p = 0 then ''unspecified'' else ''unknown'')"

definition map_type_name :: "u32 \<Rightarrow> string" where
  "map_type_name t =
     (let names = [''UNSPEC'', ''HASH'', ''ARRAY'', ''PERCPU_HASH'', ''PERCPU_ARRAY'', ''LRU_HASH'', ''LPM_TRIE'',
            ''RINGBUF'', ''PROG_ARRAY'', ''XSKMAP'', ''MVSKMAP'']
      in if unat t < length names then names ! unat t else ''UNKNOWN'')"

definition reloc_type_name :: "u32 \<Rightarrow> string" where
  "reloc_type_name t =
     (if t = 0 then ''R_MERLIN_NONE'' else if t = 1 then ''R_MERLIN_HELPER_ID'' else if t = 2 then ''R_MERLIN_KFUNC_SLOT''
      else if t = 3 then ''R_MERLIN_MAP_FD'' else if t = 4 then ''R_MERLIN_MAP_VALUE''
      else if t = 5 then ''R_MERLIN_CORE_FIELD'' else if t = 6 then ''R_MERLIN_CORE_SIZE''
      else if t = 7 then ''R_MERLIN_CORE_ENUMVAL'' else if t = 8 then ''R_MERLIN_PROG_ENTRY'' else ''RESERVED'')"

text \<open>Exit status, and what is printed on success.\<close>

definition cmd_info :: "'f libelf \<Rightarrow> 'f option \<Rightarrow> (int \<times> (string \<times> validate_ctx) option) option" where
  "cmd_info L file =
     (case elf_obj_open L file of
        None \<Rightarrow> Some (1, None)
      | Some ob \<Rightarrow>
          do {
            (rc, ctx) \<leftarrow> run_validate ob ctx_zero False;
            if rc < 0 then Some (1, None) else Some (0, Some (profile_name (vc_profile ctx), ctx))
          })"

record merlin_meta_v1 =
  mt_magic :: u32
  mt_major :: u16
  mt_minor :: u16
  mt_meta_size :: u32
  mt_flags :: u32
  mt_profile :: u32
  mt_prog_type :: u32
  mt_attach_type :: u32
  mt_stack :: u32
  mt_steps :: u32
  mt_prog_name :: "u8 list"
  mt_toolchain :: "u8 list"

definition meta_parse :: "u8 list \<Rightarrow> merlin_meta_v1" where
  "meta_parse b = \<lparr>mt_magic = le_word (field 0 4 b), mt_major = le_word (field 4 2 b), mt_minor = le_word (field 6 2 b),
     mt_meta_size = le_word (field 8 4 b), mt_flags = le_word (field 12 4 b), mt_profile = le_word (field 16 4 b),
     mt_prog_type = le_word (field 20 4 b), mt_attach_type = le_word (field 24 4 b), mt_stack = le_word (field 32 4 b),
     mt_steps = le_word (field 36 4 b), mt_prog_name = takeWhile (\<lambda>x. x \<noteq> 0) (field 48 32 b),
     mt_toolchain = takeWhile (\<lambda>x. x \<noteq> 0) (field 80 32 b)\<rparr>"

definition cmd_dump_meta :: "'f libelf \<Rightarrow> 'f option \<Rightarrow> (int \<times> merlin_meta_v1 option) option" where
  "cmd_dump_meta L file =
     (case elf_obj_open L file of
        None \<Rightarrow> Some (1, None)
      | Some ob \<Rightarrow>
          (case find_section ob ''.merlin.meta'' of
             None \<Rightarrow> Some (1, None)
           | Some (scn, _) \<Rightarrow>
               let d = scn_data scn in
               if d = No_Data \<or> d_size d < meta_v1_size then Some (1, None)
               else (case d of Buf b \<Rightarrow> Some (0, Some (meta_parse b)) | _ \<Rightarrow> None)))"

text \<open>A dumped row: the name and the printed words, and the number of rows a table of the given row size has.\<close>

definition dump_rows :: "(u8 list \<Rightarrow> 'r) \<Rightarrow> nat \<Rightarrow> elf_data \<Rightarrow> 'r list option" where
  "dump_rows row rsz d =
     (case d of
        No_Data \<Rightarrow> None
      | No_Buf n \<Rightarrow> if n div rsz = 0 then Some [] else None
      | Buf b \<Rightarrow> Some (map (\<lambda>i. row (field (rsz * i) rsz b)) [0..<length b div rsz]))"

definition map_row :: "u8 list \<Rightarrow> u8 list \<times> string \<times> u32 list" where
  "map_row b = (takeWhile (\<lambda>x. x \<noteq> 0) (field 0 32 b), map_type_name (le_word (field 32 4 b)),
     map (\<lambda>off. le_word (field off 4 b)) [36, 40, 44, 48])"

definition cmd_dump_maps :: "'f libelf \<Rightarrow> 'f option \<Rightarrow> (int \<times> (u8 list \<times> string \<times> u32 list) list) option" where
  "cmd_dump_maps L file =
     (case elf_obj_open L file of
        None \<Rightarrow> Some (1, [])
      | Some ob \<Rightarrow>
          (case find_section ob ''.merlin.maps'' of
             None \<Rightarrow> Some (0, [])
           | Some (scn, _) \<Rightarrow> map_option (Pair 0) (dump_rows map_row map_desc_size (scn_data scn))))"

definition reloc_row :: "u8 list \<Rightarrow> u32 \<times> string \<times> u32 \<times> int \<times> u32 \<times> u32" where
  "reloc_row b = (le_word (field 0 4 b), reloc_type_name (le_word (field 4 4 b)), le_word (field 8 4 b),
     sint (le_word (field 12 4 b) :: u32), le_word (field 16 4 b), le_word (field 20 4 b))"

definition cmd_dump_relocs :: "'f libelf \<Rightarrow> 'f option \<Rightarrow> (int \<times> (u32 \<times> string \<times> u32 \<times> int \<times> u32 \<times> u32) list) option" where
  "cmd_dump_relocs L file =
     (case elf_obj_open L file of
        None \<Rightarrow> Some (1, [])
      | Some ob \<Rightarrow>
          (case find_section ob ''.merlin.relocs'' of
             None \<Rightarrow> Some (0, [])
           | Some (scn, _) \<Rightarrow> map_option (Pair 0) (dump_rows reloc_row reloc_size (scn_data scn))))"

text \<open>
  The digest. The result of an update is not looked at, and the size of a fixed section goes through an
  \<open>int\<close>: \<open>sha256_section\<close> gives that value beside the context.
\<close>

definition sha256_section :: "'c digest \<Rightarrow> elf_obj \<Rightarrow> u8 list \<Rightarrow> 'c \<Rightarrow> int \<times> 'c" where
  "sha256_section D ob name ctx =
     (case find_from ob name (elf_scns (o_elf ob)) of
        None \<Rightarrow> (0, ctx)
      | Some (scn, _) \<Rightarrow>
          (case scn_data scn of
             Buf b \<Rightarrow>
               if length b = 0 then (0, ctx)
               else (sint (of_nat (length b) :: 32 word), snd (md_update D ctx b))
           | _ \<Rightarrow> (0, ctx)))"

fun sha256_fixed :: "'c digest \<Rightarrow> elf_obj \<Rightarrow> u8 list list \<Rightarrow> 'c \<Rightarrow> u64 \<Rightarrow> ('c \<times> u64) option" where
  "sha256_fixed D ob [] ctx tot = Some (ctx, tot)"
| "sha256_fixed D ob (name # names) ctx tot =
     (case sha256_section D ob name ctx of
        (n, ctx') \<Rightarrow> if n < 0 then None else sha256_fixed D ob names ctx' (tot + of_int n))"

fun sha256_texts :: "'c digest \<Rightarrow> elf_obj \<Rightarrow> elf_scn list \<Rightarrow> 'c \<Rightarrow> u64 \<Rightarrow> 'c \<times> u64" where
  "sha256_texts D ob [] ctx tot = (ctx, tot)"
| "sha256_texts D ob (scn # scns) ctx tot =
     (case scn_shdr scn of
        None \<Rightarrow> sha256_texts D ob scns ctx tot
      | Some shdr \<Rightarrow>
          (case elf_strptr (o_elf ob) (o_shstrndx ob) (gs_name shdr) of
             None \<Rightarrow> sha256_texts D ob scns ctx tot
           | Some sname \<Rightarrow>
               if take 13 sname \<noteq> cstr ''.text.merlin.'' then sha256_texts D ob scns ctx tot
               else (case scn_data scn of
                       Buf b \<Rightarrow>
                         if length b = 0 then sha256_texts D ob scns ctx tot
                         else sha256_texts D ob scns (snd (md_update D ctx b)) (tot + of_nat (length b))
                     | _ \<Rightarrow> sha256_texts D ob scns ctx tot)))"

definition fixed_sections :: "u8 list list" where
  "fixed_sections = map cstr [''.merlin.meta'', ''.merlin.maps'', ''.merlin.relocs'', ''.merlin.btf'',
     ''.merlin.btf_ext'', ''.merlin.license'']"

definition cmd_sha256 :: "'f libelf \<Rightarrow> 'c digest \<Rightarrow> 'f option \<Rightarrow> int \<times> (u8 list \<times> u64) option" where
  "cmd_sha256 L D file =
     (case elf_obj_open L file of
        None \<Rightarrow> (1, None)
      | Some ob \<Rightarrow>
          (case md_new D of
             None \<Rightarrow> (1, None)
           | Some ctx \<Rightarrow>
               (case sha256_fixed D ob fixed_sections ctx 0 of
                  None \<Rightarrow> (1, None)
                | Some (ctx1, tot1) \<Rightarrow>
                    (case sha256_texts D ob (elf_scns (o_elf ob)) ctx1 tot1 of
                       (ctx2, tot) \<Rightarrow>
                         (case md_final D ctx2 of
                            None \<Rightarrow> (1, None)
                          | Some digest \<Rightarrow> (0, Some (digest, tot)))))))"

definition cmd_validate :: "'f libelf \<Rightarrow> 'f option \<Rightarrow> int option" where
  "cmd_validate L file =
     (case elf_obj_open L file of
        None \<Rightarrow> Some 1
      | Some ob \<Rightarrow> do { (rc, ctx) \<leftarrow> run_validate ob ctx_zero True; Some (if rc = 0 then 0 else 1) })"


subsection \<open>The digest agrees with the signing tool\<close>

abbreviation obj_sections :: "elf_obj \<Rightarrow> (u8 list \<times> u8 list) list" where
  "obj_sections ob \<equiv> sections_of (o_elf ob) (o_shstrndx ob) (elf_scns (o_elf ob))"

lemma find_from_named: "map_option fst (find_from ob name ss) = find_named (o_elf ob) (o_shstrndx ob) name ss"
  by (induction ss) (auto split: option.split)

lemma find_from_sections:
  "name \<noteq> [] \<Longrightarrow> map_of (sections_of (o_elf ob) (o_shstrndx ob) ss) name =
     map_option (\<lambda>(s, sh). d_bytes (scn_data s)) (find_from ob name ss)"
  unfolding find_named_sections [symmetric] find_from_named [symmetric] by (simp add: option.map_comp case_prod_unfold comp_def)

lemma sint_size: "n < 2 ^ 31 \<Longrightarrow> sint (of_nat n :: 32 word) = int n"
  by (simp add: signed_of_nat signed_take_bit_int_eq_self)

definition updates_ok :: "'c digest \<Rightarrow> bool" where
  "updates_ok D \<longleftrightarrow> (\<forall>c b. fst (md_update D c b))"

lemma hash_all_Cons_ok:
  "updates_ok D \<Longrightarrow> hash_all D c t (b # bs) = hash_all D (snd (md_update D c b)) (t + of_nat (length b)) bs"
  by (simp add: updates_ok_def case_prod_beta)

lemma sha256_fixed_all:
  assumes "updates_ok D" and "[] \<notin> set ns" and "\<And>n b. (n, b) \<in> set (obj_sections ob) \<Longrightarrow> length b < 2 ^ 31"
  shows "sha256_fixed D ob ns c t = hash_all D c t (filter (\<lambda>b. b \<noteq> []) (List.map_filter (map_of (obj_sections ob)) ns))"
  using assms(2)
proof (induction ns arbitrary: c t)
  case (Cons n ns)
  have n: "map_of (obj_sections ob) n = map_option (\<lambda>(s, sh). d_bytes (scn_data s)) (find_from ob n (elf_scns (o_elf ob)))"
    using Cons.prems by (intro find_from_sections) auto
  show ?case
  proof (cases "find_from ob n (elf_scns (o_elf ob))")
    case None
    then show ?thesis using Cons n by (simp add: sha256_section_def map_filter_simps)
  next
    case (Some x)
    obtain s sh where x: "x = (s, sh)" by fastforce
    have "length (d_bytes (scn_data s)) < 2 ^ 31"
      using n Some x assms(3) map_of_SomeD [of "obj_sections ob" n] by simp
    then show ?thesis
      using Cons n Some x
      by (cases "scn_data s")
        (auto simp: sha256_section_def map_filter_simps sint_size hash_all_Cons_ok [OF assms(1)] simp del: hash_all.simps(2))
  qed
qed (simp add: map_filter_simps)

lemma sha256_texts_all:
  assumes "updates_ok D"
  shows "Some (sha256_texts D ob ss c t) =
    hash_all D c t (filter (\<lambda>b. b \<noteq> []) (map snd (filter (is_text \<circ> fst) (sections_of (o_elf ob) (o_shstrndx ob) ss))))"
proof (induction ss arbitrary: c t)
  case (Cons s ss)
  then show ?case
    by (cases "scn_data s")
      (auto simp: scn_name_def is_text_def [symmetric] hash_all_Cons_ok [OF assms] simp del: hash_all.simps(2) split: option.split)
qed simp

lemma fixed_sections_eq: "fixed_sections = canonical_fixed_sections"
  by (simp add: fixed_sections_def canonical_fixed_sections_def)

definition small_sections :: "'f libelf \<Rightarrow> 'f \<Rightarrow> bool" where
  "small_sections L f = (case object_sections L f of None \<Rightarrow> True | Some v \<Rightarrow> list_all (\<lambda>(n, b). length b < 2 ^ 31) v)"




subsection \<open>Validation is exact\<close>

text \<open>The layout rules for the bytes of each section.\<close>

definition meta_ok :: "u8 list \<Rightarrow> bool" where
  "meta_ok b \<longleftrightarrow> (let m = meta_parse b in 12 \<le> length b \<and> mt_magic m = MERLIN_META_MAGIC \<and>
     mt_major m = MERLIN_META_VERSION_MAJOR \<and> 12 \<le> mt_meta_size m \<and> unat (mt_meta_size m) \<le> length b)"

definition map_ok :: "u8 list \<Rightarrow> nat \<Rightarrow> bool" where
  "map_ok b i \<longleftrightarrow> (let typ = (le_word (field (map_desc_size * i + 32) 4 b) :: u32);
       max_entries = (le_word (field (map_desc_size * i + 44) 4 b) :: u32)
     in typ \<noteq> 0 \<and> (max_entries = 0 \<longrightarrow> typ = MERLIN_MAP_TYPE_RINGBUF))"

definition reloc_off :: "u8 list \<Rightarrow> nat \<Rightarrow> u32" where
  "reloc_off b i = le_word (field (reloc_size * i) 4 b)"

definition reloc_type_ok :: "u8 list \<Rightarrow> nat \<Rightarrow> bool" where
  "reloc_type_ok b i \<longleftrightarrow> (let t = (le_word (field (reloc_size * i + 4) 4 b) :: u32) in 0 < t \<and> (t \<le> 8 \<or> 64 \<le> t))"

definition maps_ok :: "u8 list \<Rightarrow> bool" where
  "maps_ok b \<longleftrightarrow> length b mod map_desc_size = 0 \<and> (\<forall>i < length b div map_desc_size. map_ok b i)"

definition relocs_ok :: "u8 list \<Rightarrow> bool" where
  "relocs_ok b \<longleftrightarrow> length b mod reloc_size = 0 \<and> (\<forall>i < length b div reloc_size. reloc_type_ok b i) \<and>
     sorted_wrt (<) (map (reloc_off b) [0..<length b div reloc_size])"

definition object_ok :: "elf_obj \<Rightarrow> bool" where
  "object_ok ob \<longleftrightarrow> eh_data (o_ehdr ob) = ELFDATA2LSB \<and> eh_machine (o_ehdr ob) \<in> {EM_RISCV, EM_NONE} \<and>
     (case map_of (obj_sections ob) (cstr ''.merlin.meta'') of None \<Rightarrow> False | Some b \<Rightarrow> meta_ok b) \<and>
     (case map_of (obj_sections ob) (cstr ''.merlin.license'') of None \<Rightarrow> False | Some b \<Rightarrow> 0 \<in> set b) \<and>
     (case map_of (obj_sections ob) (cstr ''.merlin.maps'') of None \<Rightarrow> True | Some b \<Rightarrow> maps_ok b) \<and>
     (case map_of (obj_sections ob) (cstr ''.merlin.relocs'') of None \<Rightarrow> True | Some b \<Rightarrow> relocs_ok b)"

text \<open>Every section comes with as many bytes as its header says, and no metadata section ends in its prefix.\<close>

definition buffered :: "elf_scn \<Rightarrow> bool" where
  "buffered s = (case scn_shdr s of
     None \<Rightarrow> True
   | Some sh \<Rightarrow> scn_data s \<noteq> No_Data \<and> d_size (scn_data s) = length (d_bytes (scn_data s)) \<and>
       unat (gs_size sh) = length (d_bytes (scn_data s)))"

definition readable :: "elf_obj \<Rightarrow> bool" where
  "readable ob \<longleftrightarrow> list_all buffered (elf_scns (o_elf ob)) \<and>
     (case map_of (obj_sections ob) (cstr ''.merlin.meta'') of None \<Rightarrow> True | Some b \<Rightarrow> length b < 12 \<or> 24 \<le> length b)"

lemma find_from_shdr: "find_from ob n ss = Some (s, sh) \<Longrightarrow> s \<in> set ss \<and> scn_shdr s = Some sh"
  by (induction ss) (auto split: option.splits if_splits)

lemma find_section_cases:
  assumes "list_all buffered (elf_scns (o_elf ob))" and "n \<noteq> []"
  obtains "find_section ob n = None" "map_of (obj_sections ob) (cstr n) = None"
  | s sh b where "find_section ob n = Some (s, sh)" "map_of (obj_sections ob) (cstr n) = Some b"
      "d_bytes (scn_data s) = b" "scn_data s \<noteq> No_Data" "d_size (scn_data s) = length b" "unat (gs_size sh) = length b"
      "b \<noteq> [] \<longrightarrow> scn_data s = Buf b"
proof -
  have ne: "cstr n \<noteq> []" using assms(2) by (simp add: cstr_def)
  note m = find_from_sections [OF ne, of ob "elf_scns (o_elf ob)", folded find_section_def]
  show ?thesis
  proof (cases "find_section ob n")
    case None
    with m that(1) show ?thesis by simp
  next
    case (Some x)
    obtain s sh where x: "x = (s, sh)" by fastforce
    then have "s \<in> set (elf_scns (o_elf ob))" "scn_shdr s = Some sh"
      using Some find_from_shdr unfolding find_section_def by blast+
    then have "scn_data s \<noteq> No_Data" "d_size (scn_data s) = length (d_bytes (scn_data s))"
      "unat (gs_size sh) = length (d_bytes (scn_data s))"
      using assms(1) by (auto simp: list_all_iff buffered_def dest!: bspec)
    then show ?thesis
      using that(2) [of s sh "d_bytes (scn_data s)"] Some x m by (cases "scn_data s") auto
  qed
qed

lemma check_maps_exact:
  "\<forall>i \<in> set is. map_desc_size * i + map_desc_size \<le> length b \<Longrightarrow>
     check_maps (Buf b) is = Some (if \<forall>i \<in> set is. map_ok b i then 0 else - 1)"
  by (induction "is") (auto simp: map_ok_def Let_def)

lemma check_relocs_step:
  assumes "reloc_size * i + reloc_size \<le> length b"
  shows "check_relocs (Buf b) prev (i # is) =
    (if \<not> reloc_type_ok b i \<or> (case prev of None \<Rightarrow> False | Some p \<Rightarrow> reloc_off b i \<le> p) then Some (- 1)
     else check_relocs (Buf b) (Some (reloc_off b i)) is)"
proof -
  have "rd 4 (Buf b) (reloc_size * i) = Some (reloc_off b i)" using assms by (simp add: reloc_off_def)
  moreover obtain t where t: "rd 4 (Buf b) (reloc_size * i + 4) = Some (t :: u32)"
    "reloc_type_ok b i \<longleftrightarrow> 0 < t \<and> (t \<le> 8 \<or> 64 \<le> t)"
    using assms by (simp add: reloc_type_ok_def Let_def)
  moreover have "t \<noteq> 0 \<longleftrightarrow> 0 < t" "8 < t \<and> t < 64 \<longleftrightarrow> \<not> (t \<le> 8 \<or> 64 \<le> t)" by (simp_all add: word_neq_0_conv not_le not_less)
  ultimately show ?thesis by (simp del: rd.simps)
qed

lemma check_relocs_exact:
  "\<forall>i \<in> set is. reloc_size * i + reloc_size \<le> length b \<Longrightarrow>
     check_relocs (Buf b) prev is =
       Some (if (\<forall>i \<in> set is. reloc_type_ok b i) \<and>
                sorted_wrt (<) ((case prev of None \<Rightarrow> [] | Some p \<Rightarrow> [p]) @ map (reloc_off b) is) then 0 else - 1)"
proof (induction "is" arbitrary: prev)
  case (Cons i "is")
  have "sorted_wrt (<) (p # reloc_off b i # map (reloc_off b) is) \<longleftrightarrow>
      p < reloc_off b i \<and> sorted_wrt (<) (reloc_off b i # map (reloc_off b) is)" for p
    by (rule sorted_wrt2) (rule transp_on_less)
  then show ?case
    using Cons check_relocs_step [of i b prev "is"] by (cases prev) (simp_all add: not_le del: check_relocs.simps)
qed (simp split: option.split)


lemma validate_meta_exact:
  assumes "readable ob"
  shows "\<exists>ctx'. validate_meta ob ctx =
    Some (if case map_of (obj_sections ob) (cstr ''.merlin.meta'') of None \<Rightarrow> False | Some b \<Rightarrow> meta_ok b then 0 else - 1, ctx')"
proof -
  have buf: "list_all buffered (elf_scns (o_elf ob))" using assms by (simp add: readable_def)
  show ?thesis
  proof (rule find_section_cases [OF buf, of "''.merlin.meta''"])
    fix s sh b
    assume f: "find_section ob ''.merlin.meta'' = Some (s, sh)" "map_of (obj_sections ob) (cstr ''.merlin.meta'') = Some b"
      "scn_data s \<noteq> No_Data" "d_size (scn_data s) = length b" "b \<noteq> [] \<longrightarrow> scn_data s = Buf b"
    show ?thesis
    proof (cases "length b < 12")
      case True
      then show ?thesis using f by (simp add: validate_meta_def meta_ok_def Let_def)
    next
      case False
      then have "scn_data s = Buf b" "24 \<le> length b" using f assms by (auto simp: readable_def)
      then show ?thesis using f False by (auto simp: validate_meta_def meta_ok_def meta_parse_def not_less Let_def)
    qed
  qed (simp_all add: validate_meta_def)
qed

lemma validate_license_exact:
  assumes "readable ob"
  shows "\<exists>ctx'. validate_license ob ctx =
    Some (if case map_of (obj_sections ob) (cstr ''.merlin.license'') of None \<Rightarrow> False | Some b \<Rightarrow> 0 \<in> set b then 0 else - 1, ctx')"
proof -
  have buf: "list_all buffered (elf_scns (o_elf ob))" using assms by (simp add: readable_def)
  show ?thesis
  proof (rule find_section_cases [OF buf, of "''.merlin.license''"])
    fix s sh b
    assume "find_section ob ''.merlin.license'' = Some (s, sh)" "map_of (obj_sections ob) (cstr ''.merlin.license'') = Some b"
      "scn_data s \<noteq> No_Data" "d_size (scn_data s) = length b" "b \<noteq> [] \<longrightarrow> scn_data s = Buf b"
    then show ?thesis by (cases "b = []") (simp_all add: validate_license_def Let_def Suc_le_eq)
  qed (simp_all add: validate_license_def)
qed

lemma row_fits: "n mod k = 0 \<Longrightarrow> i < n div k \<Longrightarrow> k * i + k \<le> (n :: nat)"
  by (metis Suc_leI mult_Suc_right add.commute mult_div_mod_eq add_0_right mult_le_mono2)

lemma validate_maps_exact:
  assumes "readable ob"
  shows "\<exists>ctx'. validate_maps ob ctx =
    Some (if case map_of (obj_sections ob) (cstr ''.merlin.maps'') of None \<Rightarrow> True | Some b \<Rightarrow> maps_ok b then 0 else - 1, ctx')"
proof -
  have buf: "list_all buffered (elf_scns (o_elf ob))" using assms by (simp add: readable_def)
  show ?thesis
  proof (rule find_section_cases [OF buf, of "''.merlin.maps''"])
    fix s sh b
    assume f: "find_section ob ''.merlin.maps'' = Some (s, sh)" "map_of (obj_sections ob) (cstr ''.merlin.maps'') = Some b"
      "scn_data s \<noteq> No_Data" "unat (gs_size sh) = length b" "b \<noteq> [] \<longrightarrow> scn_data s = Buf b"
    have "check_maps (scn_data s) [0..<length b div map_desc_size] =
        Some (if \<forall>i < length b div map_desc_size. map_ok b i then 0 else - 1)"
      if "length b mod map_desc_size = 0"
      using f(5) that row_fits [OF that] check_maps_exact [of "[0..<length b div map_desc_size]" b]
      by (cases "b = []") (simp_all add: Ball_def)
    then show ?thesis using f by (simp add: validate_maps_def maps_ok_def Let_def)
  qed (simp_all add: validate_maps_def)
qed

lemma validate_relocs_exact:
  assumes "readable ob"
  shows "\<exists>ctx'. validate_relocs ob ctx =
    Some (if case map_of (obj_sections ob) (cstr ''.merlin.relocs'') of None \<Rightarrow> True | Some b \<Rightarrow> relocs_ok b then 0 else - 1, ctx')"
proof -
  have buf: "list_all buffered (elf_scns (o_elf ob))" using assms by (simp add: readable_def)
  show ?thesis
  proof (rule find_section_cases [OF buf, of "''.merlin.relocs''"])
    fix s sh b
    assume f: "find_section ob ''.merlin.relocs'' = Some (s, sh)" "map_of (obj_sections ob) (cstr ''.merlin.relocs'') = Some b"
      "scn_data s \<noteq> No_Data" "d_size (scn_data s) = length b" "unat (gs_size sh) = length b" "b \<noteq> [] \<longrightarrow> scn_data s = Buf b"
    have "check_relocs (scn_data s) None [0..<length b div reloc_size] =
        Some (if (\<forall>i < length b div reloc_size. reloc_type_ok b i) \<and>
          sorted_wrt (<) (map (reloc_off b) [0..<length b div reloc_size]) then 0 else - 1)"
      if "length b mod reloc_size = 0"
      using f(6) that row_fits [OF that] check_relocs_exact [of "[0..<length b div reloc_size]" b None]
      by (cases "b = []") (simp_all add: Ball_def)
    then show ?thesis
      using f by (cases "b = []") (simp_all add: validate_relocs_def relocs_ok_def Let_def)
  qed (simp_all add: validate_relocs_def)
qed



text \<open>An object with metadata of the given size, a license, a map and two relocations.\<close>

definition meta_bytes :: "nat \<Rightarrow> u8 list" where
  "meta_bytes n = le_bytes 4 MERLIN_META_MAGIC @ le_bytes 2 MERLIN_META_VERSION_MAJOR @ le_bytes 2 (0 :: u16) @
     le_bytes 4 (of_nat n :: u32) @ replicate (n - 12) 0"

definition tool_object :: "nat \<Rightarrow> (gelf_ehdr \<times> elf_scn list) option" where
  "tool_object n = demo_object [(''.merlin.meta'', meta_bytes n), (''.merlin.license'', [0x47, 0]),
     (''.merlin.maps'', replicate 32 0 @ le_array 4 [2, 4, 8, 16, 0, 0, 0, 0, 0, 0, 0, 0 :: u32]),
     (''.merlin.relocs'', le_array 4 [8, 1, 0, 0, 0, 0, 16, 64, 0, 0, 0, 0 :: u32])]"

lemma tool_object_ok: "readable (the (elf_obj_open demo_libelf (Some (tool_object 24))))"
  "object_ok (the (elf_obj_open demo_libelf (Some (tool_object 24))))"
  by code_simp+


text \<open>
  Short metadata is read past its end. A metadata section of twelve bytes that announces twelve passes the size
  checks, and the profile and program type are then read behind the section.
\<close>

theorem short_meta_overread:
  "cmd_validate demo_libelf (Some (tool_object 12)) = None \<and> cmd_info demo_libelf (Some (tool_object 12)) = None"
  by code_simp

end
