(* ===== verification/Verify_Tool.thy ===== *)
theory Verify_Tool
  imports Tool_Verifier Objtool
begin

text \<open>
  The verifier's front end, \<open>tools/merlin-verifier/merlin-verifier.c\<close>: opening the object (the same code as in
  \<open>tools/merlin-objtool\<close>), the verification of each program section and the exit status. The file offset of a
  section is a parameter, as the shared section header does not carry it; \<^const>\<open>None\<close> is a verification that
  gives no verdict.
\<close>

definition is_callback_text :: "u8 list \<Rightarrow> bool" where
  "is_callback_text sname \<longleftrightarrow> take 16 sname = cstr ''.text.merlin.cb.''"

definition section_cfg :: "merlin_verifier_cfg \<Rightarrow> u8 list \<Rightarrow> merlin_verifier_cfg" where
  "section_cfg cfg sname = (if is_callback_text sname then cfg\<lparr>is_callback_body := True\<rparr> else cfg)"

definition verify_one :: "(nat \<Rightarrow> merlin_insn) \<Rightarrow> (gelf_shdr \<Rightarrow> u64) \<Rightarrow> merlin_verifier_cfg \<Rightarrow> elf_scn \<Rightarrow> gelf_shdr \<Rightarrow> u8 list
     \<Rightarrow> nat option" where
  "verify_one junk sh_offset cfg_in scn shdr sname =
     (case scn_data scn of
        Buf b \<Rightarrow>
          if length b = 0 then Some 1
          else (case merlin_verify_text_tool (section_cfg cfg_in sname) junk b (ucast (sh_offset shdr)) of
            None \<Rightarrow> None
          | Some (rc, summary) \<Rightarrow> Some (if rc = MERLIN_VERIFY_OK then 0 else 1))
      | _ \<Rightarrow> Some 1)"

text \<open>The loop over the sections, with the numbers of programs and of rejections so far.\<close>

fun verify_sections :: "(nat \<Rightarrow> merlin_insn) \<Rightarrow> (gelf_shdr \<Rightarrow> u64) \<Rightarrow> merlin_verifier_cfg \<Rightarrow> elf_obj \<Rightarrow> elf_scn list \<Rightarrow> nat \<Rightarrow> nat
     \<Rightarrow> (nat \<times> nat) option" where
  "verify_sections junk sh_offset cfg ob [] progs rejects = Some (progs, rejects)"
| "verify_sections junk sh_offset cfg ob (scn # scns) progs rejects =
     (case scn_shdr scn of
        None \<Rightarrow> verify_sections junk sh_offset cfg ob scns progs rejects
      | Some sh \<Rightarrow>
          (case elf_strptr (o_elf ob) (o_shstrndx ob) (gs_name sh) of
             None \<Rightarrow> verify_sections junk sh_offset cfg ob scns progs rejects
           | Some sname \<Rightarrow>
               if \<not> is_text sname then verify_sections junk sh_offset cfg ob scns progs rejects
               else (case verify_one junk sh_offset cfg scn sh sname of
                 None \<Rightarrow> None
               | Some r \<Rightarrow> verify_sections junk sh_offset cfg ob scns (progs + 1) (if r \<noteq> 0 then rejects + 1 else rejects))))"

text \<open>\<open>main\<close> after its options: \<open>prog_type\<close> is the argument of \<open>-p\<close>, by default \<open>mvdp\<close>.\<close>

definition verifier_main :: "'f libelf \<Rightarrow> (nat \<Rightarrow> merlin_insn) \<Rightarrow> (gelf_shdr \<Rightarrow> u64) \<Rightarrow> string \<Rightarrow> 'f option \<Rightarrow> nat option" where
  "verifier_main L junk sh_offset prog_type file =
     (if prog_type \<noteq> ''mvdp'' then Some 2
      else case elf_obj_open L file of
        None \<Rightarrow> Some 2
      | Some ob \<Rightarrow>
          if eh_data (o_ehdr ob) \<noteq> ELFDATA2LSB then Some 2
          else (case verify_sections junk sh_offset merlin_verifier_cfg_init_for_mvdp ob (elf_scns (o_elf ob)) 0 0 of
            None \<Rightarrow> None
          | Some (progs, rejects) \<Rightarrow> Some (if progs = 0 then 2 else if rejects \<noteq> 0 then 1 else 0)))"

subsection \<open>The exit status\<close>

fun program_scns :: "elf_obj \<Rightarrow> elf_scn list \<Rightarrow> (u8 list \<times> gelf_shdr \<times> elf_scn) list" where
  "program_scns ob [] = []"
| "program_scns ob (scn # scns) =
     (case scn_shdr scn of
        None \<Rightarrow> program_scns ob scns
      | Some sh \<Rightarrow>
          (case elf_strptr (o_elf ob) (o_shstrndx ob) (gs_name sh) of
             None \<Rightarrow> program_scns ob scns
           | Some sname \<Rightarrow> if is_text sname then (sname, sh, scn) # program_scns ob scns else program_scns ob scns))"

lemma verify_sections_mono:
  "verify_sections junk off cfg ob scns p r = Some (p', r') \<Longrightarrow> p \<le> p' \<and> r \<le> r'"
  by (induction scns arbitrary: p r)
    (fastforce split: option.splits if_splits)+

lemma verify_sections_clean:
  "(\<exists>p'. verify_sections junk off cfg ob scns p r = Some (p', r)) \<longleftrightarrow>
     (\<forall>(n, sh, scn) \<in> set (program_scns ob scns). verify_one junk off cfg scn sh n = Some 0)"
proof (induction scns arbitrary: p r)
  case (Cons scn scns)
  have "verify_sections junk off cfg ob scns p (Suc r) \<noteq> Some (p', r)" for p p'
    using verify_sections_mono [of junk off cfg ob scns p "Suc r" p' r] by auto
  then show ?case using Cons.IH by (auto split: option.splits)
qed simp

lemma verify_sections_progs:
  "verify_sections junk off cfg ob scns p r = Some (p', r') \<Longrightarrow> p' = p + length (program_scns ob scns)"
  by (induction scns arbitrary: p r) (fastforce split: option.splits if_splits)+

lemma verifier_main_0:
  "verifier_main L junk off pt file = Some 0 \<longleftrightarrow> pt = ''mvdp'' \<and>
     (\<exists>ob. elf_obj_open L file = Some ob \<and> eh_data (o_ehdr ob) = ELFDATA2LSB \<and>
        program_scns ob (elf_scns (o_elf ob)) \<noteq> [] \<and>
        (\<forall>(n, sh, scn) \<in> set (program_scns ob (elf_scns (o_elf ob))).
           verify_one junk off merlin_verifier_cfg_init_for_mvdp scn sh n = Some 0))"
  using verify_sections_clean [of junk off merlin_verifier_cfg_init_for_mvdp _ _ 0 0, symmetric] verify_sections_progs [of junk off merlin_verifier_cfg_init_for_mvdp _ _ 0 0]
  by (auto simp: verifier_main_def split: option.splits) fastforce+

lemma tool_step_cap: "step_cap (kfunc_set i c) = step_cap c" "step_cap (fold helper_set is c) = step_cap c"
  by (simp add: kfunc_set_def, induction "is" arbitrary: c) (simp_all add: helper_set_def)

lemma tool_cap: "unat (effective_cap (section_cfg merlin_verifier_cfg_init_for_mvdp n)) \<le> 2 ^ 30"
  by (simp add: effective_cap_def section_cfg_def merlin_verifier_cfg_init_for_mvdp_def callback_set_def tool_step_cap Let_def)


definition demo_prog :: "(gelf_ehdr \<times> elf_scn list) option" where
  "demo_prog = demo_object [(''.text.merlin.x'', ret_text)]"

lemma demo_prog_verified: "verifier_main demo_libelf (\<lambda>_. insn_zero 0 0) (\<lambda>_. 64) ''mvdp'' (Some demo_prog) = Some 0"
  by code_simp

lemma demo_prog_scns:
  "map (\<lambda>(n, sh, scn). (n, scn_data scn)) (program_scns (the (elf_obj_open demo_libelf (Some demo_prog)))
     (elf_scns (o_elf (the (elf_obj_open demo_libelf (Some demo_prog)))))) = [(cstr ''.text.merlin.x'', Buf ret_text)]"
  by code_simp


end
