(* ===== verification/Attest_Tool.thy ===== *)
theory Attest_Tool
  imports Attest C_Text
begin

text \<open>
  The attestation tool, \<open>tools/merlin-attest/merlin-attest.c\<close>, over the library of \<open>Attest\<close>: hexadecimal
  arguments, and the five commands. The options of a command are the values \<open>getopt_long\<close> returns, in order;
  \<open>writable\<close> tells which output files can be opened, and \<open>pubs\<close> which key a path holds. A file read with
  \<open>read_all\<close> is its bytes.
\<close>

subsection \<open>Hexadecimal arguments\<close>

text \<open>
  \<open>sscanf\<close> with \<open>%2x\<close>: blanks are skipped without counting, then at most two characters are taken, which may be
  a sign and a digit. The two characters \<open>0x\<close> announce a number that the width leaves no room for.
\<close>

fun sscanf_2x :: "string \<Rightarrow> u32 option" where
  "sscanf_2x [] = None"
| "sscanf_2x (c # cs) =
     (if isspace c then sscanf_2x cs
      else if c = CHR ''-'' \<or> c = CHR ''+'' then
        (case cs of
           [] \<Rightarrow> None
         | d # _ \<Rightarrow> if is_digit 16 d then Some (if c = CHR ''-'' then - of_nat (digit_val d) else of_nat (digit_val d)) else None)
      else if \<not> is_digit 16 c then None
      else (case cs of
          [] \<Rightarrow> Some (of_nat (digit_val c))
        | d # _ \<Rightarrow>
            if is_digit 16 d then Some (of_nat (digit_val c * 16 + digit_val d))
            else if c = CHR ''0'' \<and> (d = CHR ''x'' \<or> d = CHR ''X'') then None
            else Some (of_nat (digit_val c))))"

fun hex_loop :: "string \<Rightarrow> nat \<Rightarrow> u8 list option" where
  "hex_loop s 0 = Some []"
| "hex_loop s (Suc n) =
     (case sscanf_2x s of None \<Rightarrow> None | Some v \<Rightarrow> map_option (Cons (ucast v)) (hex_loop (drop 2 s) n))"

definition hex_to_bytes :: "string \<Rightarrow> nat \<Rightarrow> u8 list option" where
  "hex_to_bytes s out_len = (if length s \<noteq> out_len * 2 then None else hex_loop s out_len)"

definition bytes_to_hex :: "u8 list \<Rightarrow> string" where
  "bytes_to_hex p = concat (map show_02x p)"

definition algo_name :: "u32 \<Rightarrow> string" where
  "algo_name a = (if a = 0 then ''none'' else if a = 1 then ''ed25519'' else if a = 2 then ''ecdsa-p256''
     else if a = 3 then ''rsa-pss-2048'' else ''?'')"

definition hw_name :: "u32 \<Rightarrow> string" where
  "hw_name k = (if k = 0 then ''none'' else if k = 1 then ''tpm2'' else if k = 2 then ''cca'' else if k = 3 then ''tdx''
     else if k = 4 then ''sev-snp'' else if k = 5 then ''keystone'' else if k = 6 then ''riscv-aia'' else ''?'')"

subsection \<open>Commands\<close>

abbreviation (input) MERLIN_ATTEST_TAG_LEN :: nat where "MERLIN_ATTEST_TAG_LEN \<equiv> 32"
abbreviation (input) MERLIN_ATTEST_NONCE_LEN :: nat where "MERLIN_ATTEST_NONCE_LEN \<equiv> 32"

text \<open>\<open>init\<close> prints the hash of the public key, if it can be computed, and the sequence number.\<close>

definition cmd_init :: "('k, 'p) crypto \<Rightarrow> ('k, 'p) mak \<Rightarrow> nat \<times> (string option \<times> u64) option \<times> ('k, 'p) mak" where
  "cmd_init C m =
     (case merlin_mak_ensure C m of
        (rc, m') \<Rightarrow>
          if rc < 0 then (1, None, m')
          else (0, Some (map_option bytes_to_hex (merlin_mak_pub_hash C m'), merlin_mak_seq_read m'), m'))"

definition cmd_pub :: "('k, 'p) crypto \<Rightarrow> ('k, 'p) mak \<Rightarrow> nat \<times> ('k, 'p) mak" where
  "cmd_pub C m = (0, snd (merlin_mak_ensure C m))"

datatype quote_opt =
    Q_prog_id string | Q_ns_id string | Q_profile string | Q_load string | Q_tag string | Q_nonce string
  | Q_out string | Q_unknown

record quote_args =
  qa_prog_id :: u32
  qa_ns_id :: u32
  qa_profile :: u32
  qa_load :: u64
  qa_tag :: "u8 list option"
  qa_nonce :: "u8 list option"
  qa_out :: "string option"

definition quote_start :: quote_args where
  "quote_start = \<lparr>qa_prog_id = 0, qa_ns_id = 0, qa_profile = 0, qa_load = 0, qa_tag = None, qa_nonce = None, qa_out = None\<rparr>"

definition quote_option :: "quote_opt \<Rightarrow> quote_args \<Rightarrow> quote_args option" where
  "quote_option x a =
     (case x of
        Q_prog_id s \<Rightarrow> Some (a\<lparr>qa_prog_id := strtou32 s\<rparr>)
      | Q_ns_id s \<Rightarrow> Some (a\<lparr>qa_ns_id := strtou32 s\<rparr>)
      | Q_profile s \<Rightarrow> Some (a\<lparr>qa_profile := strtou32 s\<rparr>)
      | Q_load s \<Rightarrow> Some (a\<lparr>qa_load := fst (strtoull s)\<rparr>)
      | Q_tag s \<Rightarrow> map_option (\<lambda>t. a\<lparr>qa_tag := Some t\<rparr>) (hex_to_bytes s MERLIN_ATTEST_TAG_LEN)
      | Q_nonce s \<Rightarrow> map_option (\<lambda>t. a\<lparr>qa_nonce := Some t\<rparr>) (hex_to_bytes s MERLIN_ATTEST_NONCE_LEN)
      | Q_out s \<Rightarrow> Some (a\<lparr>qa_out := Some s\<rparr>)
      | Q_unknown \<Rightarrow> None)"

fun quote_options :: "quote_opt list \<Rightarrow> quote_args \<Rightarrow> quote_args option" where
  "quote_options [] a = Some a"
| "quote_options (x # xs) a = Option.bind (quote_option x a) (quote_options xs)"

definition att_zero :: merlin_attestation_v1 where
  "att_zero = att_parse (replicate attestation_size 0)"

definition quote_subject :: "quote_args \<Rightarrow> u8 list \<Rightarrow> merlin_attestation_v1" where
  "quote_subject a tag = att_zero\<lparr>att_prog_id := qa_prog_id a, att_ns_id := qa_ns_id a, att_profile := qa_profile a,
     load_time_ns_boot := qa_load a, attesting_key_id := 0, prog_tag := tag\<rparr>"

type_synonym att_files = "string \<rightharpoonup> u8 list"

definition cmd_quote :: "('k, 'p) crypto \<Rightarrow> u64 \<Rightarrow> (string \<Rightarrow> bool) \<Rightarrow> quote_opt list \<Rightarrow> ('k, 'p) mak \<Rightarrow> att_files
     \<Rightarrow> nat \<times> ('k, 'p) mak \<times> att_files" where
  "cmd_quote C now writable opts m fs =
     (case quote_options opts quote_start of
        None \<Rightarrow> (2, m, fs)
      | Some a \<Rightarrow>
          (case (qa_tag a, qa_nonce a, qa_out a) of
             (Some tag, Some n, Some out_path) \<Rightarrow>
               (case merlin_mak_ensure C m of
                  (rc, m1) \<Rightarrow>
                    if rc < 0 then (1, m1, fs)
                    else (case merlin_mak_sign_quote C now (quote_subject a tag) n (attestation_size + 64) m1 of
                      (None, m2) \<Rightarrow> (1, m2, fs)
                    | (Some quote, m2) \<Rightarrow>
                        if writable out_path then (0, m2, fs(out_path \<mapsto> quote)) else (1, m2, fs)))
           | _ \<Rightarrow> (2, m, fs)))"

datatype verify_opt = V_pub string | V_nonce string | V_last string | V_unknown

record verify_args =
  va_pub :: "string option"
  va_nonce :: "u8 list option"
  va_last :: "u64 option"

definition verify_start :: verify_args where
  "verify_start = \<lparr>va_pub = None, va_nonce = None, va_last = None\<rparr>"

definition verify_option :: "verify_opt \<Rightarrow> verify_args \<Rightarrow> verify_args option" where
  "verify_option x a =
     (case x of
        V_pub s \<Rightarrow> Some (a\<lparr>va_pub := Some s\<rparr>)
      | V_nonce s \<Rightarrow> map_option (\<lambda>t. a\<lparr>va_nonce := Some t\<rparr>) (hex_to_bytes s MERLIN_ATTEST_NONCE_LEN)
      | V_last s \<Rightarrow> Some (a\<lparr>va_last := Some (fst (strtoull s))\<rparr>)
      | V_unknown \<Rightarrow> None)"

fun verify_options :: "verify_opt list \<Rightarrow> verify_args \<Rightarrow> verify_args option" where
  "verify_options [] a = Some a"
| "verify_options (x # xs) a = Option.bind (verify_option x a) (verify_options xs)"

text \<open>The value is the exit status and, on success, the new last sequence number that is printed.\<close>

definition cmd_verify :: "('k, 'p) crypto \<Rightarrow> (string \<rightharpoonup> 'p) \<Rightarrow> verify_opt list \<Rightarrow> string option \<Rightarrow> att_files
     \<Rightarrow> nat \<times> u64 option" where
  "cmd_verify C pubs opts path fs =
     (case verify_options opts verify_start of
        None \<Rightarrow> (2, None)
      | Some a \<Rightarrow>
          (case (va_pub a, va_nonce a, path) of
             (Some pub, Some n, Some f) \<Rightarrow>
               (case fs f of
                  None \<Rightarrow> (1, None)
                | Some q \<Rightarrow>
                    (case merlin_mak_verify_quote C (pubs pub) q n (va_last a) of
                       (rc, lseq) \<Rightarrow> if rc \<noteq> 0 then (1, None) else (0, lseq)))
           | _ \<Rightarrow> (2, None)))"

definition cmd_dump :: "att_files \<Rightarrow> string \<Rightarrow> nat \<times> (merlin_attestation_v1 \<times> string list) option" where
  "cmd_dump fs path =
     (case fs path of
        None \<Rightarrow> (1, None)
      | Some q \<Rightarrow>
          if length q < attestation_size then (1, None)
          else let a = att_parse q in
            (0, Some (a, [algo_name (att_algo a), bytes_to_hex (prog_tag a), algo_name (attesting_key_algo a),
                   bytes_to_hex (attesting_key_pub_hash a), hw_name (hw_chain_kind a), bytes_to_hex (nonce a)])))"

subsection \<open>Hexadecimal text is read back\<close>

lemma digit_char_code: "d < 16 \<Longrightarrow> (of_char (digit_char d) :: nat) = (if d < 10 then 48 + d else 87 + d)"
  by (simp add: digit_char_def)

lemma digit_char_plain:
  assumes "d < 16"
  shows "\<not> isspace (digit_char d)" "digit_char d \<noteq> CHR ''-''" "digit_char d \<noteq> CHR ''+''"
proof -
  have "(of_char (digit_char d) :: nat) \<noteq> of_char (CHR ''-'')" "(of_char (digit_char d) :: nat) \<noteq> of_char (CHR ''+'')"
    using assms by (simp_all add: digit_char_code)
  then show "digit_char d \<noteq> CHR ''-''" "digit_char d \<noteq> CHR ''+''" by auto
  show "\<not> isspace (digit_char d)" using assms by (simp add: isspace_def digit_char_code Let_def)
qed

lemma hex_pair: "sscanf_2x (show_02x b @ rest) = Some (ucast b)"
proof -
  have "unat b < 256" using unsigned_less [of b, where 'a = nat] by simp
  then have d: "unat b div 16 < 16" "unat b mod 16 < 16" by (simp_all add: less_mult_imp_div_less)
  have "(of_nat (unat b div 16 * 16 + unat b mod 16) :: u32) = ucast b" by (simp only: div_mult_mod_eq of_nat_unat)
  then show ?thesis using d digit_char_plain [OF d(1)] by (simp add: show_02x_def is_digit_def digit_val_char)
qed

lemma hex_loop_bytes: "hex_loop (bytes_to_hex bs) (length bs) = Some bs"
proof (induction bs)
  case (Cons b bs)
  have "drop 2 (bytes_to_hex (b # bs)) = bytes_to_hex bs" by (simp add: bytes_to_hex_def show_02x_def)
  moreover have "sscanf_2x (bytes_to_hex (b # bs)) = Some (ucast b)" using hex_pair by (simp add: bytes_to_hex_def)
  moreover have "(ucast (ucast b :: u32) :: u8) = b" by (rule bit_word_eqI) (simp add: bit_simps)
  ultimately show ?case using Cons.IH by (simp only: list.size hex_loop.simps add_Suc_right add_0_right option.case option.map)
qed simp

lemma length_bytes_to_hex [simp]: "length (bytes_to_hex bs) = 2 * length bs"
  unfolding bytes_to_hex_def by (induction bs) (simp_all add: show_02x_def)

lemma hex_to_bytes_back: "hex_to_bytes (bytes_to_hex bs) (length bs) = Some bs"
  by (simp add: hex_to_bytes_def hex_loop_bytes)

lemma hex_loop_length: "hex_loop s n = Some bs \<Longrightarrow> length bs = n"
  by (induction s n arbitrary: bs rule: hex_loop.induct) (auto split: option.splits)

lemma hex_to_bytes_length: "hex_to_bytes s n = Some bs \<Longrightarrow> length bs = n"
  by (auto simp: hex_to_bytes_def hex_loop_length split: if_splits)

definition quote_args_ok :: "quote_args \<Rightarrow> bool" where
  "quote_args_ok a \<longleftrightarrow> (\<forall>t. qa_tag a = Some t \<longrightarrow> length t = 32) \<and> (\<forall>t. qa_nonce a = Some t \<longrightarrow> length t = 32)"

lemma quote_option_ok: "quote_option x a = Some a' \<Longrightarrow> quote_args_ok a \<Longrightarrow> quote_args_ok a'"
  by (cases x) (auto simp: quote_option_def quote_args_ok_def hex_to_bytes_length)

lemma quote_options_ok: "quote_options xs a = Some a' \<Longrightarrow> quote_args_ok a \<Longrightarrow> quote_args_ok a'"
  by (induction xs arbitrary: a) (auto dest: quote_option_ok split: Option.bind_splits)

lemma quote_subject_wf: "length tag = 32 \<Longrightarrow> att_wf (quote_subject a tag)"
  by (simp add: quote_subject_def att_zero_def att_parse_def att_wf_def field_def)

lemma cmd_quote_0:
  assumes "cmd_quote C now writable opts m fs = (0, m', fs')"
  obtains a tag n path m1 quote where "quote_options opts quote_start = Some a" "qa_tag a = Some tag" "qa_nonce a = Some n"
    "qa_out a = Some path" "merlin_mak_ensure C m = (0, m1)"
    "merlin_mak_sign_quote C now (quote_subject a tag) n 304 m1 = (Some quote, m')" "fs' path = Some quote"
    "length tag = 32" "length n = 32"
proof -
  obtain a tag n path where a: "quote_options opts quote_start = Some a" "qa_tag a = Some tag" "qa_nonce a = Some n" "qa_out a = Some path"
    using assms by (auto simp: cmd_quote_def split: option.splits)
  moreover obtain rc m1 where e: "merlin_mak_ensure C m = (rc, m1)" by fastforce
  moreover have "rc = 0 \<or> rc < 0" using e by (auto simp: merlin_mak_ensure_def Let_def split: if_splits option.splits prod.splits)
  moreover have "quote_args_ok a" using quote_options_ok [OF a(1)] by (simp add: quote_args_ok_def quote_start_def)
  ultimately show thesis
    using assms that [of a tag n path m1] by (auto simp: cmd_quote_def quote_args_ok_def split: option.splits prod.splits if_splits)
qed

text \<open>
  C27: A quote made by the tool is accepted by the tool. When \<open>quote\<close> succeeds, \<open>verify\<close> on the file it wrote, with the
  nonce in any spelling that reads as the same bytes, a public key that belongs to the signing key and no last
  sequence number or a smaller one, exits with 0 and prints the quote's sequence number.
\<close>

theorem quote_then_verify:
  assumes "cmd_quote C now writable opts m fs = (0, m', fs')" and "quote_options opts quote_start = Some a"
    and "qa_nonce a = Some n" and "qa_out a = Some path"
    and "hex_to_bytes nonce_arg 32 = Some n" and "pubs key = Some p" and "sha256_len C"
    and "\<forall>m1 k. merlin_mak_ensure C m = (0, m1) \<longrightarrow> mak_priv m1 = Some k \<longrightarrow> keys_match C k p"
    and "fst (strtoull last_arg) < merlin_mak_seq_read m + 1"
  shows "cmd_verify C pubs [V_pub key, V_nonce nonce_arg] (Some path) fs' = (0, None) \<and>
    cmd_verify C pubs [V_pub key, V_nonce nonce_arg, V_last last_arg] (Some path) fs' = (0, Some (merlin_mak_seq_read m + 1))"
proof -
  from cmd_quote_0 [OF assms(1)] assms(2-4) obtain tag m1 quote where q: "merlin_mak_ensure C m = (0, m1)"
    "merlin_mak_sign_quote C now (quote_subject a tag) n 304 m1 = (Some quote, m')" "fs' path = Some quote"
    "length tag = 32" "length n = 32"
    by (metis option.inject)
  note m1 = mak_ensure_keys [OF q(1)]
  obtain k where k: "mak_priv m1 = Some k" using m1(1) by auto
  have seq: "merlin_mak_seq_read m1 = merlin_mak_seq_read m" using m1(3) by (simp add: merlin_mak_seq_read_def)
  have match: "keys_match C k p" using assms(8) q(1) k by blast
  from signed_quote_verifies [OF q(2) quote_subject_wf [OF q(4)] q(5) assms(7) k match] assms(9)
  have "merlin_mak_verify_quote C (Some p) quote n (Some (fst (strtoull last_arg))) = (0, Some (merlin_mak_seq_read m + 1))"
    "merlin_mak_verify_quote C (Some p) quote n None = (0, None)"
    unfolding seq by blast+
  then show ?thesis
    using assms(5,6) q(3) by (simp add: cmd_verify_def verify_option_def verify_start_def)
qed

abbreviation (input) demo_nonce :: string where
  "demo_nonce \<equiv> ''0303030303030303030303030303030303030303030303030303030303030303''"

abbreviation (input) demo_opts :: "quote_opt list" where
  "demo_opts \<equiv> [Q_tag demo_nonce, Q_nonce demo_nonce, Q_out ''q'']"

lemma demo_hex: "hex_to_bytes demo_nonce 32 = Some (replicate 32 3)"
  by code_simp

theorem quote_then_verify_witness:
  "cmd_verify demo_crypto [''k'' \<mapsto> 7] [V_pub ''k'', V_nonce demo_nonce, V_last ''41''] (Some ''q'')
     (snd (snd (cmd_quote demo_crypto 5 (\<lambda>_. True) demo_opts demo_mak Map.empty))) = (0, Some 42)"
proof -
  let ?r = "cmd_quote demo_crypto 5 (\<lambda>_. True) demo_opts demo_mak Map.empty"
  let ?a = "quote_start\<lparr>qa_tag := Some (replicate 32 3), qa_nonce := Some (replicate 32 3), qa_out := Some ''q''\<rparr>"
  have opts: "quote_options demo_opts quote_start = Some ?a"
    unfolding quote_options.simps quote_option_def quote_opt.case demo_hex by simp
  have last: "fst (strtoull ''41'') = 41" by code_simp
  have "fst ?r = 0"
    unfolding cmd_quote_def opts option.case
    by (simp add: quote_start_def merlin_mak_ensure_def demo_mak_def merlin_mak_sign_quote_def
        merlin_mak_pub_hash_def demo_crypto_def Let_def)
  then have r: "?r = (0, fst (snd ?r), snd (snd ?r))" by (cases ?r) simp
  have keys: "\<forall>m1 k. merlin_mak_ensure demo_crypto demo_mak = (0, m1) \<longrightarrow> mak_priv m1 = Some k \<longrightarrow> keys_match demo_crypto k 7"
    by (simp add: merlin_mak_ensure_def demo_mak_def keys_match_def demo_crypto_def)
  have "sha256_len demo_crypto" by (simp add: sha256_len_def demo_crypto_def)
  from quote_then_verify [OF r opts _ _ demo_hex _ this keys, of "''q''" "[''k'' \<mapsto> 7]" "''k''" "''41''"] last
  show ?thesis by (simp add: merlin_mak_seq_read_def demo_mak_def)
qed

text \<open>
  A nonce has many spellings. The conversion accepts signs and blanks where the usage asks for 64 hexadecimal
  characters: two different arguments of the right length read as the same bytes, one of them with a minus sign and
  one with blanks.
\<close>

theorem hex_spellings:
  "hex_to_bytes ''-1 f'' 2 = Some [0xff, 0x0f] \<and> hex_to_bytes ''ff0f'' 2 = Some [0xff, 0x0f] \<and>
   bytes_to_hex [0xff, 0x0f] = ''ff0f''"
  by code_simp

end
