(* ===== verification/Telemetry.thy ===== *)
theory Telemetry
  imports Merlin_Prelude
begin

text \<open>
  The dispatch shim \<open>tools/merlin-telemetry/shim.c\<close> and its counter block, the layout of
  \<open>docs/design/uapi/merlin/stats.h\<close>. The wrapped program is a function of its context; the two clock
  readings around a call are arguments. The text form of the block is in \<open>Stats_Tool\<close>.
\<close>

abbreviation (input) MERLIN_STATS_V1_VERDICTS :: nat where "MERLIN_STATS_V1_VERDICTS \<equiv> 8"
abbreviation (input) stats_sizeof :: nat where "stats_sizeof \<equiv> 152"
abbreviation (input) prog_name_len :: nat where "prog_name_len \<equiv> 32"

record merlin_prog_stats_v1 =
  st_size :: u32
  st_pad :: u32
  run_count :: u64
  run_ns_total :: u64
  verdict_count :: "u64 list"
  helper_call_count :: u64
  helper_fault_count :: u64
  st_verifier_load_ns :: u64
  last_run_time_ns :: u64
  st_reserved :: "u64 list"

record 'c tprog =
  tfn :: "'c \<Rightarrow> u64"
  stats :: merlin_prog_stats_v1
  t_verifier_load_ns :: u64
  t_prog_id :: u32
  t_prog_name :: "u8 list"

definition stats_zero :: merlin_prog_stats_v1 where
  "stats_zero = \<lparr>st_size = 0, st_pad = 0, run_count = 0, run_ns_total = 0,
     verdict_count = replicate MERLIN_STATS_V1_VERDICTS 0, helper_call_count = 0, helper_fault_count = 0,
     st_verifier_load_ns = 0, last_run_time_ns = 0, st_reserved = replicate 4 0\<rparr>"

text \<open>The name is a C string without its terminator; \<^const>\<open>None\<close> is NULL.\<close>

definition merlin_prog_init :: "('c \<Rightarrow> u64) \<Rightarrow> u32 \<Rightarrow> u8 list option \<Rightarrow> u64 \<Rightarrow> 'c tprog" where
  "merlin_prog_init f i nm load_ns =
     \<lparr>tfn = f, stats = stats_zero\<lparr>st_size := of_nat stats_sizeof, st_verifier_load_ns := load_ns\<rparr>,
      t_verifier_load_ns = load_ns, t_prog_id = i,
      t_prog_name =
        (case nm of
           None \<Rightarrow> replicate prog_name_len 0
         | Some s \<Rightarrow> (let n = (if prog_name_len \<le> length s then prog_name_len - 1 else length s)
                     in take n s @ [0] @ replicate (prog_name_len - n - 1) 0))\<rparr>"

definition verdict_slot :: "u64 \<Rightarrow> nat" where
  "verdict_slot ret =
     (let r = (ucast ret :: u32) in if r < of_nat MERLIN_STATS_V1_VERDICTS then unat r else 0)"

definition merlin_prog_invoke :: "u64 \<Rightarrow> u64 \<Rightarrow> 'c \<Rightarrow> 'c tprog \<Rightarrow> u64 \<times> 'c tprog" where
  "merlin_prog_invoke t0 t1 ctx p =
     (let ret = tfn p ctx;
          dt = (if t0 \<le> t1 then t1 - t0 else 0);
          s = stats p;
          i = verdict_slot ret
      in (ret, p\<lparr>stats := s\<lparr>run_count := run_count s + 1, run_ns_total := run_ns_total s + dt,
                last_run_time_ns := t1,
                verdict_count := (verdict_count s)[i := verdict_count s ! i + 1]\<rparr>\<rparr>))"

definition merlin_prog_note_helper :: "bool \<Rightarrow> 'c tprog \<Rightarrow> 'c tprog" where
  "merlin_prog_note_helper is_fault p =
     (let s = (stats p)\<lparr>helper_call_count := helper_call_count (stats p) + 1\<rparr>
      in p\<lparr>stats := (if is_fault then s\<lparr>helper_fault_count := helper_fault_count s + 1\<rparr> else s)\<rparr>)"

definition merlin_prog_snapshot :: "'c tprog \<Rightarrow> merlin_prog_stats_v1" where
  "merlin_prog_snapshot p = stats p"

subsection \<open>Calls\<close>

datatype 'c tcall = Invoke u64 u64 'c | Note_helper bool

fun do_call :: "'c tcall \<Rightarrow> 'c tprog \<Rightarrow> 'c tprog" where
  "do_call (Invoke t0 t1 ctx) p = snd (merlin_prog_invoke t0 t1 ctx p)"
| "do_call (Note_helper f) p = merlin_prog_note_helper f p"

definition after_calls :: "'c tcall list \<Rightarrow> 'c tprog \<Rightarrow> 'c tprog" where
  "after_calls cs p = foldl (\<lambda>p c. do_call c p) p cs"

lemma after_calls_snoc: "after_calls (cs @ [c]) p = do_call c (after_calls cs p)"
  by (simp add: after_calls_def)

lemma after_calls_Nil [simp]: "after_calls [] p = p"
  by (simp add: after_calls_def)

definition elapsed :: "'c tcall \<Rightarrow> u64" where
  "elapsed c = (case c of Invoke t0 t1 _ \<Rightarrow> if t0 \<le> t1 then t1 - t0 else 0 | Note_helper _ \<Rightarrow> 0)"

definition counts_as :: "('c \<Rightarrow> u64) \<Rightarrow> nat \<Rightarrow> 'c tcall \<Rightarrow> bool" where
  "counts_as f v c = (case c of Invoke _ _ ctx \<Rightarrow> verdict_slot (f ctx) = v | Note_helper _ \<Rightarrow> False)"

definition is_invoke :: "'c tcall \<Rightarrow> bool" where
  "is_invoke c = (case c of Invoke _ _ _ \<Rightarrow> True | Note_helper _ \<Rightarrow> False)"

lemma verdict_slot_lt: "verdict_slot ret < MERLIN_STATS_V1_VERDICTS"
  by (simp add: verdict_slot_def Let_def word_less_nat_alt)

lemma do_call_fixed:
  "tfn (do_call c p) = tfn p" "t_prog_id (do_call c p) = t_prog_id p" "t_prog_name (do_call c p) = t_prog_name p"
  "st_size (stats (do_call c p)) = st_size (stats p)"
  "st_verifier_load_ns (stats (do_call c p)) = st_verifier_load_ns (stats p)"
  "length (verdict_count (stats (do_call c p))) = length (verdict_count (stats p))"
  by (cases c; simp add: merlin_prog_invoke_def merlin_prog_note_helper_def Let_def)+

lemma after_calls_fixed:
  "tfn (after_calls cs p) = tfn p" "st_size (stats (after_calls cs p)) = st_size (stats p)"
  "st_verifier_load_ns (stats (after_calls cs p)) = st_verifier_load_ns (stats p)"
  "length (verdict_count (stats (after_calls cs p))) = length (verdict_count (stats p))"
  by (induction cs rule: rev_induct) (simp_all add: after_calls_snoc do_call_fixed)

subsection \<open>Properties\<close>


text \<open>
  A verdict outside the table is counted as aborted, and only the low 32 bits of a return value are
  looked at: a value with the same low bits as a legal verdict is counted as that verdict.
\<close>

theorem verdict_folding: "verdict_slot 9 = 0 \<and> verdict_slot (2 ^ 32 + 1) = 1"
  by code_simp

end
