(* ===== verification/Stats_Tool.thy ===== *)
theory Stats_Tool
  imports Telemetry Bytes C_Text
begin

text \<open>
  The textual form of the counter block (\<open>merlin_prog_render_text\<close> of \<open>tools/merlin-telemetry/shim.c\<close>) and the
  reader of counter files, the commands \<open>dump\<close> and \<open>text\<close> of \<open>merlin-telemetry.c\<close>. A file is read by one call that
  returns all its bytes up to the buffer's size.
\<close>

subsection \<open>Text\<close>

definition c_string :: "u8 list \<Rightarrow> string" where
  "c_string bs = map (\<lambda>b. char_of (unat b)) (takeWhile (\<lambda>b. b \<noteq> 0) bs)"

definition nl :: string where
  "nl = [CHR 0x0A]"

definition stats_text :: "'c tprog \<Rightarrow> string" where
  "stats_text p =
     (let s = stats p; v = (\<lambda>i. show_u (verdict_count s ! i) @ nl) in
      concat [''prog_id:            '', show_u (t_prog_id p), nl,
        ''prog_name:          '', c_string (t_prog_name p), nl,
        ''size:               '', show_u (st_size s), nl,
        ''run_count:          '', show_u (run_count s), nl,
        ''run_ns_total:       '', show_u (run_ns_total s), nl,
        ''verdict[0:ABORTED]: '', v 0,
        ''verdict[1:DROP]:    '', v 1,
        ''verdict[2:PASS]:    '', v 2,
        ''verdict[3:TX]:      '', v 3,
        ''verdict[4:REDIRECT]:'', v 4,
        ''verdict[5:DELIVER]: '', v 5,
        ''verdict[6]:         '', v 6,
        ''verdict[7]:         '', v 7,
        ''helper_call_count:  '', show_u (helper_call_count s), nl,
        ''helper_fault_count: '', show_u (helper_fault_count s), nl,
        ''verifier_load_ns:   '', show_u (st_verifier_load_ns s), nl,
        ''last_run_time_ns:   '', show_u (last_run_time_ns s), nl])"

text \<open>The value is what the buffer holds when the text fits; \<^const>\<open>None\<close> is the result -1.\<close>

definition merlin_prog_render_text :: "'c tprog \<Rightarrow> nat \<Rightarrow> string option" where
  "merlin_prog_render_text p cap =
     (let t = stats_text p in if cap \<le> length t then None else Some t)"

subsection \<open>Counter files\<close>

definition stats_wf :: "merlin_prog_stats_v1 \<Rightarrow> bool" where
  "stats_wf s \<longleftrightarrow> length (verdict_count s) = MERLIN_STATS_V1_VERDICTS \<and> length (st_reserved s) = 4"

definition stats_image :: "merlin_prog_stats_v1 \<Rightarrow> u8 list" where
  "stats_image s =
     le_bytes 4 (st_size s) @ le_bytes 4 (st_pad s) @ le_bytes 8 (run_count s) @ le_bytes 8 (run_ns_total s) @
     le_array 8 (verdict_count s) @ le_bytes 8 (helper_call_count s) @ le_bytes 8 (helper_fault_count s) @
     le_bytes 8 (st_verifier_load_ns s) @ le_bytes 8 (last_run_time_ns s) @ le_array 8 (st_reserved s)"

definition stats_parse :: "u8 list \<Rightarrow> merlin_prog_stats_v1" where
  "stats_parse bs =
     \<lparr>st_size = le_word (field 0 4 bs), st_pad = le_word (field 4 4 bs), run_count = le_word (field 8 8 bs),
      run_ns_total = le_word (field 16 8 bs), verdict_count = le_words 8 8 (field 24 64 bs),
      helper_call_count = le_word (field 88 8 bs), helper_fault_count = le_word (field 96 8 bs),
      st_verifier_load_ns = le_word (field 104 8 bs), last_run_time_ns = le_word (field 112 8 bs),
      st_reserved = le_words 8 4 (field 120 32 bs)\<rparr>"

abbreviation (input) stats_buf_size :: nat where "stats_buf_size \<equiv> 4096"

definition file_prog :: "merlin_prog_stats_v1 \<Rightarrow> unit tprog" where
  "file_prog s = \<lparr>tfn = (\<lambda>_. 0), stats = s, t_verifier_load_ns = 0, t_prog_id = 0,
     t_prog_name = map of_char ''<from-file>'' @ replicate (prog_name_len - 11) 0\<rparr>"

text \<open>
  The value is the exit status and what is printed: the text, or the fields one by one. An incomplete text
  leaves only its beginning in the buffer, as \<open>snprintf\<close> cuts it.
\<close>

datatype stats_out = Out_text string | Out_fields merlin_prog_stats_v1

definition stats_cmd_dump :: "u8 list option \<Rightarrow> bool \<Rightarrow> nat \<times> stats_out option" where
  "stats_cmd_dump file_bytes as_text =
     (case file_bytes of
        None \<Rightarrow> (1, None)
      | Some f \<Rightarrow>
          let b = take stats_buf_size f; n = length b in
          if n < 4 then (1, None)
          else let size' = (le_word (take 4 b) :: u32) in
            if n < unat size' then (1, None)
            else let k = (if unat size' < stats_sizeof then unat size' else stats_sizeof);
                     s = stats_parse (take k b @ replicate (stats_sizeof - k) 0) in
              (0, Some (if as_text then
                    Out_text (case merlin_prog_render_text (file_prog s) 2048 of
                      Some t \<Rightarrow> t | None \<Rightarrow> take 2047 (stats_text (file_prog s)))
                  else Out_fields s)))"

subsection \<open>Bounds of the text\<close>

lemma length_show_base:
  assumes "2 \<le> b" "n < b ^ k" "1 \<le> k"
  shows "length (show_base b n) \<le> k"
  using assms(2,3)
proof (induction k arbitrary: n)
  case (Suc k)
  show ?case
  proof (cases "n < b")
    case False
    then have "n div b < b ^ k" using Suc.prems(1) by (simp add: less_mult_imp_div_less mult.commute)
    moreover have "1 \<le> k" using False Suc.prems(1) by (cases k) auto
    ultimately show ?thesis using Suc.IH [of "n div b"] False assms(1) by (simp add: show_base.simps [of b n])
  qed (simp add: show_base.simps [of b n])
qed simp

lemma length_show_u64: "length (show_u (w :: u64)) \<le> 20"
proof -
  have "unat w < 2 ^ 64" using unsigned_less [of w, where 'a = nat] by simp
  then have "unat w < 10 ^ 20" by (rule less_le_trans) simp
  then show ?thesis unfolding show_u_def by (intro length_show_base) auto
qed

lemma length_show_u32: "length (show_u (w :: u32)) \<le> 10"
proof -
  have "unat w < 2 ^ 32" using unsigned_less [of w, where 'a = nat] by simp
  then have "unat w < 10 ^ 10" by (rule less_le_trans) simp
  then show ?thesis unfolding show_u_def by (intro length_show_base) auto
qed

lemma length_stats_text:
  assumes "length (c_string (t_prog_name p)) \<le> 32"
  shows "length (stats_text p) < 800"
proof -
  let ?s = "stats p"
  note u64 = length_show_u64 [of "run_count ?s"] length_show_u64 [of "run_ns_total ?s"] length_show_u64 [of "verdict_count ?s ! 0"]
    length_show_u64 [of "verdict_count ?s ! 1"] length_show_u64 [of "verdict_count ?s ! 2"] length_show_u64 [of "verdict_count ?s ! 3"]
    length_show_u64 [of "verdict_count ?s ! 4"] length_show_u64 [of "verdict_count ?s ! 5"] length_show_u64 [of "verdict_count ?s ! 6"]
    length_show_u64 [of "verdict_count ?s ! 7"] length_show_u64 [of "helper_call_count ?s"] length_show_u64 [of "helper_fault_count ?s"]
    length_show_u64 [of "st_verifier_load_ns ?s"] length_show_u64 [of "last_run_time_ns ?s"]
  show ?thesis
    using u64 length_show_u32 [of "t_prog_id p"] length_show_u32 [of "st_size ?s"] assms
    by (simp add: stats_text_def nl_def Let_def)
qed

lemma c_string_le: "length (c_string bs) \<le> length bs"
  by (simp add: c_string_def length_takeWhile_le)

subsection \<open>Reading back\<close>

lemma length_stats_image: "stats_wf s \<Longrightarrow> length (stats_image s) = stats_sizeof"
  by (simp add: stats_wf_def stats_image_def)

lemma stats_parse_image:
  assumes "stats_wf s"
  shows "stats_parse (stats_image s) = s"
proof -
  have l: "length (verdict_count s) = 8" "length (st_reserved s) = 4" using assms by (simp_all add: stats_wf_def)
  have w: "le_words 8 8 (le_array 8 (verdict_count s)) = verdict_count s" "le_words 8 4 (le_array 8 (st_reserved s)) = st_reserved s"
    by (rule le_words_array [where rest = "[]", unfolded append_Nil2]; simp add: l)+
  show ?thesis
    unfolding stats_parse_def stats_image_def
    by (rule merlin_prog_stats_v1.equality) (simp_all add: field_skip field_here field_last l w del: le_words.simps)
qed

lemma stats_image_start:
  assumes "4 \<le> n"
  shows "take 4 (take n (stats_image s @ rest)) = le_bytes 4 (st_size s)"
proof -
  obtain xs where "stats_image s @ rest = le_bytes 4 (st_size s) @ xs" by (simp add: stats_image_def)
  then show ?thesis using assms by (simp add: min_def)
qed

lemma render_fits: "merlin_prog_render_text (file_prog s) 2048 = Some (stats_text (file_prog s))"
proof -
  have "length (c_string (t_prog_name (file_prog s))) \<le> 32"
    using c_string_le [of "t_prog_name (file_prog s)"] by (simp add: file_prog_def)
  from length_stats_text [OF this] show ?thesis by (simp add: merlin_prog_render_text_def Let_def)
qed

text \<open>
  Counter files are read back, also from newer writers. A file that begins with a counter block whose recorded
  size covers at least the known fields and is covered by the file yields exactly that block, whatever follows it;
  the text form of any readable file fits its buffer; and a file cut inside the recorded size is refused.
\<close>

theorem stats_file_read_back:
  assumes "stats_wf s" and "stats_sizeof \<le> unat (st_size s)" and "unat (st_size s) \<le> min stats_buf_size (length (stats_image s @ rest))"
  shows "stats_cmd_dump (Some (stats_image s @ rest)) False = (0, Some (Out_fields s)) \<and>
    stats_cmd_dump (Some (stats_image s @ rest)) True = (0, Some (Out_text (stats_text (file_prog s)))) \<and>
    (\<forall>k < unat (st_size s). fst (stats_cmd_dump (Some (take k (stats_image s @ rest))) False) = 1)"
proof -
  let ?f = "stats_image s @ rest"
  have len: "length (stats_image s) = stats_sizeof" using assms(1) by (rule length_stats_image)
  have size': "le_word (take 4 (take n ?f)) = st_size s" if "4 \<le> n" for n using stats_image_start [OF that] by (simp only: le_word_bytes_u32)
  have "take stats_sizeof (take stats_buf_size ?f) = stats_image s" using len by simp
  moreover have "\<not> unat (st_size s) < stats_sizeof" using assms(2) by simp
  moreover have "\<not> length (take stats_buf_size ?f) < 4" "\<not> length (take stats_buf_size ?f) < unat (st_size s)"
    using assms(3) len by auto
  ultimately have full: "stats_cmd_dump (Some ?f) t =
      (0, Some (if t then Out_text (stats_text (file_prog s)) else Out_fields s))" for t
    using size' [of stats_buf_size] stats_parse_image [OF assms(1)] render_fits
    by (simp add: stats_cmd_dump_def Let_def del: take_append length_append take_take)
  have "fst (stats_cmd_dump (Some (take k ?f)) False) = 1" if k: "k < unat (st_size s)" for k
  proof (cases "k < 4")
    case False
    have t: "take stats_buf_size (take k ?f) = take k ?f" 
      using k assms(3) length_take [of k ?f] by (intro take_all) linarith
    have "length (take k ?f) < unat (st_size s)" using k by simp
    then show ?thesis using size' [of k] False unfolding stats_cmd_dump_def option.case Let_def t by simp
  next
    case True
    then have "length (take stats_buf_size (take k ?f)) < 4" by (simp only: length_take)
    then show ?thesis unfolding stats_cmd_dump_def option.case Let_def by simp
  qed
  with full show ?thesis by simp
qed

theorem stats_file_read_back_witness:
  "stats_cmd_dump (Some (stats_image (stats_zero\<lparr>st_size := 160, run_count := 7\<rparr>) @ replicate 8 1)) False =
     (0, Some (Out_fields (stats_zero\<lparr>st_size := 160, run_count := 7\<rparr>)))"
proof -
  let ?s = "stats_zero\<lparr>st_size := 160, run_count := 7\<rparr>"
  have "stats_wf ?s" by (simp add: stats_wf_def stats_zero_def)
  with stats_file_read_back [of ?s "replicate 8 1"] length_stats_image [of ?s] show ?thesis by simp
qed

end
