(* ===== verification/Tool_Jit.thy ===== *)
theory Tool_Jit
  imports Jit_Props Tool_Cfg Object_File
begin

text \<open>
  The user-space JIT: the emitter \<open>tools/merlin-jit-x86_64/emit.c\<close>, the translator \<open>jit.c\<close>, the helper
  trampoline \<open>helpers.c\<close> and the driver \<open>merlin-jit.c\<close>, with the decoder of \<open>tools/merlin-verifier\<close>. The emit
  buffer and its environment are those of the kernel's JIT; the page size, \<open>mmap\<close> and \<open>mprotect\<close> are
  parameters, and \<^const>\<open>None\<close> is the result -1. The offsets are natural numbers, which the source's \<open>uint32_t\<close>
  holds for texts of less than 4 GiB. \<open>junk\<close> is what the decoder's record holds before each call.
\<close>

subsection \<open>The emitter\<close>

definition emit_buf_init :: "mem_env \<Rightarrow> nat \<Rightarrow> kbuf option" where
  "emit_buf_init m c = (if m c then Some \<lparr>buf = [], cap = c\<rparr> else None)"

definition reserve :: "nat \<Rightarrow> emitter" where
  "reserve n m b =
     (if cap b < length (buf b) + n then
        let ncap = grow (length (buf b) + n) (cap b * 2) in
        if m ncap then (0, b\<lparr>cap := ncap\<rparr>) else (- 1, b)
      else (0, b))"

definition emit_bytes :: "u8 list \<Rightarrow> emitter" where
  "emit_bytes p m b =
     (case reserve (length p) m b of (r, b') \<Rightarrow> if r \<noteq> 0 then (- 1, b') else (0, b'\<lparr>buf := buf b' @ p\<rparr>))"

definition emit_byte :: "u8 \<Rightarrow> emitter" where
  "emit_byte v = emit_bytes [v]"

definition emit_u32 :: "u32 \<Rightarrow> emitter" where
  "emit_u32 v = emit_bytes [ucast v, ucast (drop_bit 8 v), ucast (drop_bit 16 v), ucast (drop_bit 24 v)]"

definition emit_u64 :: "u64 \<Rightarrow> emitter" where
  "emit_u64 v = emit_bytes (map (\<lambda>i. ucast (drop_bit (i * 8) v AND 0xff)) [0, 1, 2, 3, 4, 5, 6, 7])"

definition emit_push_r64 :: "u32 \<Rightarrow> emitter" where
  "emit_push_r64 r = emit_byte (ucast (0x50 + (r AND 7)))"

definition emit_pop_r64 :: "u32 \<Rightarrow> emitter" where
  "emit_pop_r64 r = emit_byte (ucast (0x58 + (r AND 7)))"

abbreviation (input) X86_RBX :: u32 where "X86_RBX \<equiv> 3"

fun emit_seq :: "u8 list \<Rightarrow> emitter \<Rightarrow> emitter" where
  "emit_seq [] e = e"
| "emit_seq (v # vs) e = then_emit (emit_byte v) (emit_seq vs e)"

definition emit_sub_rsp_imm32_tool :: "u32 \<Rightarrow> emitter" where
  "emit_sub_rsp_imm32_tool v = emit_seq [0x48, 0x81, 0xEC] (emit_u32 v)"

definition emit_add_rsp_imm32_tool :: "u32 \<Rightarrow> emitter" where
  "emit_add_rsp_imm32_tool v = emit_seq [0x48, 0x81, 0xC4] (emit_u32 v)"

definition emit_mov_rbx_rsp_tool :: emitter where
  "emit_mov_rbx_rsp_tool = emit_bytes [0x48, 0x89, 0xE3]"

definition emit_mov_mem_disp_from_rdi :: "u32 \<Rightarrow> emitter" where
  "emit_mov_mem_disp_from_rdi disp = emit_seq [0x48, 0x89, 0xBB] (emit_u32 disp)"

definition emit_mov_rax_from_mem_disp :: "u32 \<Rightarrow> emitter" where
  "emit_mov_rax_from_mem_disp disp = emit_seq [0x48, 0x8B, 0x83] (emit_u32 disp)"

definition emit_mov_mem_disp_from_rax :: "u32 \<Rightarrow> emitter" where
  "emit_mov_mem_disp_from_rax disp = emit_seq [0x48, 0x89, 0x83] (emit_u32 disp)"

definition emit_mov_rcx_from_mem_disp :: "u32 \<Rightarrow> emitter" where
  "emit_mov_rcx_from_mem_disp disp = emit_seq [0x48, 0x8B, 0x8B] (emit_u32 disp)"

definition emit_mov_rdi_rbx_tool :: emitter where
  "emit_mov_rdi_rbx_tool = emit_bytes [0x48, 0x89, 0xDF]"

definition emit_mov_rax_imm64_tool :: "u64 \<Rightarrow> emitter" where
  "emit_mov_rax_imm64_tool v = emit_seq [0x48, 0xB8] (emit_u64 v)"

definition emit_mov_r10_imm64 :: "u64 \<Rightarrow> emitter" where
  "emit_mov_r10_imm64 v = emit_seq [0x49, 0xBA] (emit_u64 v)"

definition emit_xor_rax_rax_tool :: emitter where
  "emit_xor_rax_rax_tool = emit_bytes [0x48, 0x31, 0xC0]"

definition emit_add_rax_rcx_tool :: emitter where
  "emit_add_rax_rcx_tool = emit_bytes [0x48, 0x01, 0xC8]"

definition emit_sub_rax_rcx_tool :: emitter where
  "emit_sub_rax_rcx_tool = emit_bytes [0x48, 0x29, 0xC8]"

definition emit_or_rax_rcx_tool :: emitter where
  "emit_or_rax_rcx_tool = emit_bytes [0x48, 0x09, 0xC8]"

definition emit_and_rax_rcx_tool :: emitter where
  "emit_and_rax_rcx_tool = emit_bytes [0x48, 0x21, 0xC8]"

definition emit_xor_rax_rcx_tool :: emitter where
  "emit_xor_rax_rcx_tool = emit_bytes [0x48, 0x31, 0xC8]"

definition emit_imul_rax_rcx_tool :: emitter where
  "emit_imul_rax_rcx_tool = emit_bytes [0x48, 0x0F, 0xAF, 0xC1]"

definition emit_add_rax_imm32_tool :: "u32 \<Rightarrow> emitter" where
  "emit_add_rax_imm32_tool v = emit_seq [0x48, 0x05] (emit_u32 v)"

definition emit_shl_rax_imm8_tool :: "u8 \<Rightarrow> emitter" where
  "emit_shl_rax_imm8_tool v = emit_seq [0x48, 0xC1, 0xE0] (emit_byte v)"

definition emit_shr_rax_imm8_tool :: "u8 \<Rightarrow> emitter" where
  "emit_shr_rax_imm8_tool v = emit_seq [0x48, 0xC1, 0xE8] (emit_byte v)"

definition emit_sar_rax_imm8_tool :: "u8 \<Rightarrow> emitter" where
  "emit_sar_rax_imm8_tool v = emit_seq [0x48, 0xC1, 0xF8] (emit_byte v)"

definition emit_call_rax_tool :: emitter where
  "emit_call_rax_tool = then_emit (emit_byte 0xFF) (emit_byte 0xD0)"

definition emit_ret_tool :: emitter where
  "emit_ret_tool = emit_byte 0xC3"

subsection \<open>The translator\<close>

fun zero_regs_tool :: "nat list \<Rightarrow> emitter \<Rightarrow> emitter" where
  "zero_regs_tool [] rest = rest"
| "zero_regs_tool (i # is) rest = then_emit (emit_mov_mem_disp_from_rax (DISP32 i)) (zero_regs_tool is rest)"

definition emit_prologue_tool :: emitter where
  "emit_prologue_tool =
     then_emit (emit_push_r64 X86_RBX) (then_emit (emit_sub_rsp_imm32_tool REGS_BYTES)
       (then_emit emit_mov_rbx_rsp_tool (then_emit emit_xor_rax_rax_tool
         (zero_regs_tool [0..<32] (then_emit (emit_mov_mem_disp_from_rdi (DISP32 10)) (skip_emit 0))))))"

definition emit_epilogue_tool :: emitter where
  "emit_epilogue_tool =
     then_emit (emit_mov_rax_from_mem_disp (DISP32 10)) (then_emit (emit_add_rsp_imm32_tool REGS_BYTES)
       (then_emit (emit_pop_r64 X86_RBX) emit_ret_tool))"

definition load_rs_pair_tool :: "nat \<Rightarrow> nat \<Rightarrow> emitter" where
  "load_rs_pair_tool r1 r2 =
     then_emit (emit_mov_rax_from_mem_disp (DISP32 r1)) (then_emit (emit_mov_rcx_from_mem_disp (DISP32 r2)) (skip_emit 0))"

definition emit_store_rax_to_rd :: "nat \<Rightarrow> emitter" where
  "emit_store_rax_to_rd r = (if r = 0 then skip_emit 0 else emit_mov_mem_disp_from_rax (DISP32 r))"

definition emit_helper_call :: "u64 \<Rightarrow> emitter" where
  "emit_helper_call tramp =
     then_emit emit_mov_rdi_rbx_tool (then_emit (emit_mov_rax_imm64_tool tramp) emit_call_rax_tool)"

definition translate_one_tool :: "u64 \<Rightarrow> merlin_insn \<Rightarrow> emitter" where
  "translate_one_tool tramp i =
     (case cls i of
        INSN_ALU_IMM \<Rightarrow>
          then_emit (emit_mov_rax_from_mem_disp (DISP32 (rs1 i)))
            (case alu_op i of
               ALU_ADD \<Rightarrow> then_emit (emit_add_rax_imm32_tool (ucast (imm i))) (emit_store_rax_to_rd (rd i))
             | _ \<Rightarrow> skip_emit (- 1))
      | INSN_LUI \<Rightarrow> then_emit (emit_mov_rax_imm64_tool (imm i)) (emit_store_rax_to_rd (rd i))
      | INSN_ALU_REG \<Rightarrow>
          then_emit (load_rs_pair_tool (rs1 i) (rs2 i))
            (case alu_op i of
               ALU_ADD \<Rightarrow> then_emit emit_add_rax_rcx_tool (emit_store_rax_to_rd (rd i))
             | ALU_SUB \<Rightarrow> then_emit emit_sub_rax_rcx_tool (emit_store_rax_to_rd (rd i))
             | ALU_OR \<Rightarrow> then_emit emit_or_rax_rcx_tool (emit_store_rax_to_rd (rd i))
             | ALU_AND \<Rightarrow> then_emit emit_and_rax_rcx_tool (emit_store_rax_to_rd (rd i))
             | ALU_XOR \<Rightarrow> then_emit emit_xor_rax_rcx_tool (emit_store_rax_to_rd (rd i))
             | _ \<Rightarrow> skip_emit (- 1))
      | INSN_MUL \<Rightarrow>
          (if alu_op i \<noteq> ALU_MUL then skip_emit (- 1)
           else then_emit (load_rs_pair_tool (rs1 i) (rs2 i))
                  (then_emit emit_imul_rax_rcx_tool (emit_store_rax_to_rd (rd i))))
      | INSN_SHIFT_IMM \<Rightarrow>
          then_emit (emit_mov_rax_from_mem_disp (DISP32 (rs1 i)))
            (case alu_op i of
               ALU_SLL \<Rightarrow> then_emit (emit_shl_rax_imm8_tool (ucast (imm i))) (emit_store_rax_to_rd (rd i))
             | ALU_SRL \<Rightarrow> then_emit (emit_shr_rax_imm8_tool (ucast (imm i))) (emit_store_rax_to_rd (rd i))
             | ALU_SRA \<Rightarrow> then_emit (emit_sar_rax_imm8_tool (ucast (imm i))) (emit_store_rax_to_rd (rd i))
             | _ \<Rightarrow> skip_emit (- 1))
      | INSN_ECALL \<Rightarrow> then_emit (emit_helper_call tramp) (skip_emit 0)
      | INSN_JALR \<Rightarrow> emit_epilogue_tool
      | INSN_FENCE \<Rightarrow> skip_emit 0
      | _ \<Rightarrow> skip_emit (- 1))"

function jit_loop :: "(nat \<Rightarrow> merlin_insn) \<Rightarrow> u64 \<Rightarrow> u8 list \<Rightarrow> nat \<Rightarrow> mem_env \<Rightarrow> kbuf \<Rightarrow> (kbuf \<times> bool) option" where
  "jit_loop junk tramp txt p m b =
     (if p < length txt then
        let i = tool_insn_at junk txt p in
        case translate_one_tool tramp i m b of
          (r, b') \<Rightarrow>
            if r < 0 then None
            else if cls i = INSN_JALR then Some (b', True)
            else jit_loop junk tramp txt (p + 4) m b'
      else Some (b, False))"
  by pat_completeness auto
termination by (relation "measure (\<lambda>(_, _, txt, p, _, _). length txt - p)") auto

declare jit_loop.simps [simp del]

record merlin_jit_result =
  jr_exec :: "u8 list"
  jr_exec_len :: nat
  jr_code_bytes :: nat

record tool_jit_env =
  tj_mem :: mem_env
  tj_page :: nat
  tj_mmap_ok :: bool
  tj_mprotect_ok :: bool
  tj_tramp :: u64

text \<open>Anonymous pages are zero beyond the code copied into them.\<close>

definition merlin_jit_translate :: "tool_jit_env \<Rightarrow> (nat \<Rightarrow> merlin_insn) \<Rightarrow> u8 list \<Rightarrow> merlin_jit_result option" where
  "merlin_jit_translate env junk txt =
     (if length txt = 0 \<or> length txt mod 4 \<noteq> 0 then None
      else case emit_buf_init (tj_mem env) 4096 of
        None \<Rightarrow> None
      | Some b0 \<Rightarrow>
          (case emit_prologue_tool (tj_mem env) b0 of
             (r, b1) \<Rightarrow>
               if r < 0 then None
               else (case jit_loop junk (tj_tramp env) txt 0 (tj_mem env) b1 of
                 None \<Rightarrow> None
               | Some (b2, saw_ret) \<Rightarrow>
                   (case (if saw_ret then (0, b2) else emit_epilogue_tool (tj_mem env) b2) of
                      (r, b3) \<Rightarrow>
                        if r < 0 then None
                        else let code_len = length (buf b3);
                                 alloc = (code_len + tj_page env - 1) div tj_page env * tj_page env in
                          if \<not> tj_mmap_ok env then None
                          else if \<not> tj_mprotect_ok env then None
                          else Some \<lparr>jr_exec = buf b3 @ replicate (alloc - code_len) 0, jr_exec_len = alloc,
                                 jr_code_bytes = code_len\<rparr>))))"

text \<open>Freeing unmaps the pages, whose number of bytes is the first component, and clears the record.\<close>

definition merlin_jit_free :: "merlin_jit_result \<Rightarrow> nat option \<times> merlin_jit_result" where
  "merlin_jit_free r =
     (if jr_exec r \<noteq> [] then Some (jr_exec_len r) else None, \<lparr>jr_exec = [], jr_exec_len = 0, jr_code_bytes = 0\<rparr>)"

subsection \<open>Helpers and driver\<close>

definition stub_helper :: "u32 \<Rightarrow> u64" where
  "stub_helper hid = (if hid = 0x0101 then 0xDEADBEEF else if hid = 0x0110 then 0xCAFE0000
     else if hid = 0x0120 then 0xC001D00D else if hid = 0x0201 then 0x4EDCAB1E else 0xBADC0DE5)"

text \<open>The trampoline counts the calls and writes the result to \<open>a0\<close>.\<close>

definition merlin_jit_helper_trampoline :: "u64 list \<Rightarrow> u64 list \<Rightarrow> u64 list \<times> u64 list" where
  "merlin_jit_helper_trampoline calls regs =
     (let hid = (ucast (regs ! 17) :: u32) in
      (if hid < 4096 then calls[unat hid := calls ! unat hid + 1] else calls, regs[10 := stub_helper hid]))"

fun first_text :: "elf_file \<Rightarrow> nat \<Rightarrow> elf_scn list \<Rightarrow> (u8 list \<times> u8 list) option" where
  "first_text e shstrndx [] = None"
| "first_text e shstrndx (scn # scns) =
     (case scn_shdr scn of
        None \<Rightarrow> first_text e shstrndx scns
      | Some sh \<Rightarrow>
          (case elf_strptr e shstrndx (gs_name sh) of
             None \<Rightarrow> first_text e shstrndx scns
           | Some name \<Rightarrow>
               if take 13 name \<noteq> cstr ''.text.merlin.'' then first_text e shstrndx scns
               else (case scn_data scn of
                       Buf b \<Rightarrow> if length b = 0 then first_text e shstrndx scns else Some (name, b)
                     | _ \<Rightarrow> first_text e shstrndx scns)))"

definition load_section :: "'f libelf \<Rightarrow> 'f option \<Rightarrow> nat \<Rightarrow> (u8 list \<times> u8 list) option" where
  "load_section L file secname_cap =
     (if \<not> elf_current L then None
      else case file of
        None \<Rightarrow> None
      | Some f \<Rightarrow>
          (case elf_open L f of
             None \<Rightarrow> None
           | Some e \<Rightarrow>
               (case elf_strndx e of
                  None \<Rightarrow> None
                | Some shstrndx \<Rightarrow>
                    (case first_text e shstrndx (elf_scns e) of
                       None \<Rightarrow> None
                     | Some (name, txt) \<Rightarrow>
                         if \<not> copy_mem L then None else Some (take (secname_cap - 1) name, txt)))))"


subsection \<open>What the emitters append\<close>

lemma emits_emit_bytes [intro, simp]: "emits (emit_bytes bs) bs"
  by (auto simp: emits_def emit_bytes_def reserve_def Let_def)

lemma emits_emit_byte: "emits (emit_byte v) [v]"
  by (simp add: emit_byte_def)

lemma emits_emit_u32: "emits (emit_u32 v) (le_bytes 4 v)"
proof -
  have "le_bytes 4 v = [ucast v, ucast (drop_bit 8 v), ucast (drop_bit 16 v), ucast (drop_bit 24 v)]"
    by (simp add: le_bytes_def upt_rec)
  then show ?thesis by (simp add: emit_u32_def)
qed

lemma emits_emit_u64: "emits (emit_u64 v) (le_bytes 8 v)"
proof -
  have "ucast (x AND 0xff) = (ucast x :: u8)" for x :: u64
  proof -
    have "x AND 0xff = take_bit 8 x" by (simp add: take_bit_eq_mask mask_eq_exp_minus_1)
    then show ?thesis by (intro bit_word_eqI) (auto simp: bit_simps)
  qed
  then have "le_bytes 8 v = map (\<lambda>i. ucast (drop_bit (i * 8) v AND 0xff)) [0, 1, 2, 3, 4, 5, 6, 7]"
    by (simp add: le_bytes_def upt_rec)
  then show ?thesis unfolding emit_u64_def by (metis emits_emit_bytes)
qed

lemma emits_emit_seq: "emits e bs \<Longrightarrow> emits (emit_seq vs e) (vs @ bs)"
  by (induction vs) (use emits_then [OF emits_emit_byte] in fastforce)+

lemmas emits_tool_bytes = emits_emit_seq emits_emit_u32 emits_emit_u64 emits_emit_byte emits_emit_bytes emits_then

lemmas tool_emit_defs = emit_push_r64_def emit_pop_r64_def emit_ret_tool_def emit_sub_rsp_imm32_tool_def
  emit_add_rsp_imm32_tool_def emit_mov_rbx_rsp_tool_def emit_mov_mem_disp_from_rax_def emit_mov_rax_from_mem_disp_def
  emit_mov_rcx_from_mem_disp_def emit_mov_mem_disp_from_rdi_def emit_xor_rax_rax_tool_def emit_mov_rax_imm64_tool_def
  emit_add_rax_imm32_tool_def emit_add_rax_rcx_tool_def emit_sub_rax_rcx_tool_def emit_or_rax_rcx_tool_def
  emit_and_rax_rcx_tool_def emit_xor_rax_rcx_tool_def emit_imul_rax_rcx_tool_def emit_shl_rax_imm8_tool_def
  emit_shr_rax_imm8_tool_def emit_sar_rax_imm8_tool_def emit_mov_rdi_rbx_tool_def emit_call_rax_tool_def

lemma emits_tool_insn:
  "emits (emit_push_r64 X86_RBX) (xbytes X_push_rbx)" "emits (emit_pop_r64 X86_RBX) (xbytes X_pop_rbx)"
  "emits emit_ret_tool (xbytes X_ret)" "emits (emit_sub_rsp_imm32_tool v) (xbytes (X_sub_rsp v))"
  "emits (emit_add_rsp_imm32_tool v) (xbytes (X_add_rsp v))" "emits emit_mov_rbx_rsp_tool (xbytes X_mov_rbx_rsp)"
  "emits (emit_mov_mem_disp_from_rax v) (xbytes (X_store_rax v))" "emits (emit_mov_rax_from_mem_disp v) (xbytes (X_load_rax v))"
  "emits (emit_mov_rcx_from_mem_disp v) (xbytes (X_load_rcx v))" "emits (emit_mov_mem_disp_from_rdi v) (xbytes (X_store_rdi v))"
  "emits emit_xor_rax_rax_tool (xbytes X_xor_rax_rax)" "emits (emit_mov_rax_imm64_tool w) (xbytes (X_mov_rax w))"
  "emits (emit_add_rax_imm32_tool v) (xbytes (X_add_rax_imm v))" "emits emit_add_rax_rcx_tool (xbytes X_add)"
  "emits emit_sub_rax_rcx_tool (xbytes X_sub)" "emits emit_or_rax_rcx_tool (xbytes X_or)"
  "emits emit_and_rax_rcx_tool (xbytes X_and)" "emits emit_xor_rax_rcx_tool (xbytes X_xor)"
  "emits emit_imul_rax_rcx_tool (xbytes X_imul)" "emits (emit_shl_rax_imm8_tool c) (xbytes (X_shl c))"
  "emits (emit_shr_rax_imm8_tool c) (xbytes (X_shr c))" "emits (emit_sar_rax_imm8_tool c) (xbytes (X_sar c))"
  "emits emit_mov_rdi_rbx_tool (xbytes X_mov_rdi_rbx)" "emits emit_call_rax_tool (xbytes X_call_rax)"
  unfolding tool_emit_defs by (rule emits_cong, (rule emits_tool_bytes)+, simp)+

lemma emits_skip_end: "emits e bs \<Longrightarrow> emits (then_emit e (skip_emit 0)) bs"
  using emits_then [OF _ emits_skip, of e bs 0] by simp

lemma emits_store_rax_to_rd: "emits (emit_store_rax_to_rd r) (code_bytes (store_rd_code r))"
  using emits_tool_insn(7) by (simp add: emit_store_rax_to_rd_def store_rd_code_def emits_skip)

lemma emits_load_rs_pair_tool:
  "emits (load_rs_pair_tool r1 r2) (code_bytes [X_load_rax (DISP32 r1), X_load_rcx (DISP32 r2)])"
  unfolding load_rs_pair_tool_def
  by (intro emits_seq emits_tool_insn emits_skip_end emits_code_one)

lemma emits_zero_regs_tool:
  "emits rest (code_bytes js) \<Longrightarrow>
   emits (zero_regs_tool rs rest) (code_bytes (map (\<lambda>r. X_store_rax (DISP32 r)) rs @ js))"
proof (induction rs)
  case (Cons r rs)
  from emits_seq [OF emits_tool_insn(7) Cons.IH [OF Cons.prems], of "DISP32 r"] show ?case by simp
qed simp

lemma emits_prologue_tool: "emits emit_prologue_tool (code_bytes prologue_code)"
  unfolding emit_prologue_tool_def prologue_code_def append_Cons append_Nil
  by (intro emits_seq emits_tool_insn emits_zero_regs_tool emits_skip_end emits_code_one)

lemma emits_epilogue_tool: "emits emit_epilogue_tool (code_bytes epilogue_code)"
  unfolding emit_epilogue_tool_def epilogue_code_def
  by (intro emits_seq emits_tool_insn emits_code_one)

lemma emits_translate_one_tool: "emits (translate_one_tool tramp i) (code_bytes (insn_code tramp i))"
proof -
  have pair: "emits (then_emit (load_rs_pair_tool (rs1 i) (rs2 i)) e)
     (code_bytes (X_load_rax (DISP32 (rs1 i)) # X_load_rcx (DISP32 (rs2 i)) # js))"
    if "emits e (code_bytes js)" for e js
    using emits_code_then [OF emits_load_rs_pair_tool that] by simp
  note rules = emits_seq emits_tool_insn emits_store_rax_to_rd pair emits_epilogue_tool emits_code_one
  note unf = translate_one_tool_def insn_code_def merlin_insn_class.case append_Cons append_Nil
  have fail: "emits (skip_emit (- 1)) bs" for bs by (rule emits_fail) simp
  show ?thesis
  proof (cases "cls i")
    case INSN_LUI
    show ?thesis unfolding unf INSN_LUI by (intro rules)
  next
    case INSN_ALU_IMM
    show ?thesis unfolding unf INSN_ALU_IMM
      by (intro emits_seq emits_tool_insn; cases "alu_op i") (simp_all only: merlin_alu_op.case rules fail)
  next
    case INSN_ALU_REG
    show ?thesis unfolding unf INSN_ALU_REG alu_code_def
      by (intro pair; cases "alu_op i") (simp_all only: merlin_alu_op.case rules fail)
  next
    case INSN_MUL
    show ?thesis unfolding unf INSN_MUL
      by (cases "alu_op i = ALU_MUL") (simp_all only: simp_thms if_True if_False rules fail)
  next
    case INSN_SHIFT_IMM
    show ?thesis unfolding unf INSN_SHIFT_IMM
      by (intro emits_seq emits_tool_insn; cases "alu_op i") (simp_all only: merlin_alu_op.case rules fail)
  next
    case INSN_ECALL
    show ?thesis unfolding unf INSN_ECALL emit_helper_call_def by (intro emits_skip_end rules)
  next
    case INSN_JALR
    show ?thesis unfolding unf INSN_JALR by (intro rules)
  qed (simp_all add: translate_one_tool_def insn_code_def emits_skip emits_fail)
qed


subsection \<open>Return codes and supported instructions\<close>

lemma rc_tool_bytes: "rc_in {0, - 1} (emit_bytes bs)" "rc_in {0, - 1} (emit_byte v)" "rc_in {0, - 1} (emit_u32 x)"
  "rc_in {0, - 1} (emit_u64 y)"
  by (auto simp: rc_in_def emit_byte_def emit_u32_def emit_u64_def emit_bytes_def reserve_def Let_def)

lemma rc_tool_then: "rc_in {0, - 1} e2 \<Longrightarrow> rc_in {0, - 1} (then_emit e1 e2)"
  by (rule rc_then) simp_all

lemma rc_tool_seq: "rc_in {0, - 1} e \<Longrightarrow> rc_in {0, - 1} (emit_seq vs e)"
  by (induction vs) (simp_all add: rc_tool_then)

lemma rc_tool_skip: "rc_in {0, - 1} (skip_emit 0)" "rc_in {0, - 1} (skip_emit (- 1))"
  by (simp_all add: rc_skip)

lemma rc_tool_zero_regs: "rc_in {0, - 1} rest \<Longrightarrow> rc_in {0, - 1} (zero_regs_tool rs rest)"
  by (induction rs) (simp_all add: rc_tool_then)

lemma rc_tool_store: "rc_in {0, - 1} (emit_store_rax_to_rd r)"
  by (simp add: emit_store_rax_to_rd_def emit_mov_mem_disp_from_rax_def rc_tool_skip rc_tool_then rc_tool_bytes)

lemma rc_tool_prologue: "rc_in {0, - 1} emit_prologue_tool"
  unfolding emit_prologue_tool_def by (intro rc_tool_then rc_tool_zero_regs rc_tool_skip)

lemma rc_tool_epilogue: "rc_in {0, - 1} emit_epilogue_tool"
  unfolding emit_epilogue_tool_def emit_ret_tool_def by (intro rc_tool_then rc_tool_bytes)

lemma rc_translate_one_tool: "rc_in {0, - 1} (translate_one_tool tramp i)"
  unfolding translate_one_tool_def
  by (auto intro!: rc_tool_then rc_tool_store rc_tool_epilogue rc_tool_skip
      split: merlin_insn_class.split merlin_alu_op.split)

lemma rc_nonneg: "rc_in {0, - 1} e \<Longrightarrow> e m b = (r, b') \<Longrightarrow> \<not> r < 0 \<Longrightarrow> r = 0"
  unfolding rc_in_def by (metis fst_conv insertE singletonD neg_less_0_iff_less zero_less_one)

text \<open>The 32-bit multiplication shares its class and operation with the 64-bit one.\<close>

definition word_mul :: "merlin_insn \<Rightarrow> bool" where
  "word_mul i \<longleftrightarrow> cls i = INSN_MUL \<and> word_op i"

lemma translated_supported:
  assumes "translate_one_tool tramp i m b = (0, b')" and "cls i \<noteq> INSN_JALR" and "\<not> word_mul i"
  shows "jit_supports i"
proof (rule ccontr)
  assume no: "\<not> jit_supports i"
  have "then_emit e (skip_emit (- 1)) m b \<noteq> (0, b')" for e
    by (simp add: then_emit_def skip_emit_def split: prod.split)
  then show False
    using no assms
    by (auto simp: jit_supports_def word_mul_def translate_one_tool_def skip_emit_def
        split: merlin_insn_class.splits merlin_alu_op.splits if_splits)
qed

lemma imm_I_s32: "scast (ucast (imm_I w) :: u32) = imm_I w"
  by (rule bit_word_eqI) (auto simp: bit_simps bit_imm_I min_def)

lemma shamt_u8: "unat (ucast (ucast (bits w 25 20) :: u64) :: u8) = unat (ucast (bits w 25 20) :: u64)"
  unfolding shamt_eq by (rule unat_shamt)

text \<open>Each opcode group keeps the register fields in range, and only one has immediates the JIT looks at.\<close>

definition regs_ok :: "merlin_insn \<Rightarrow> bool" where
  "regs_ok i \<longleftrightarrow> rd i < 32 \<and> rs1 i < 32 \<and> rs2 i < 32"

lemma operands_other: "regs_ok i \<Longrightarrow> cls i \<notin> {INSN_ALU_IMM, INSN_SHIFT_IMM} \<Longrightarrow> jit_operands i"
  by (simp add: regs_ok_def jit_operands_def)

lemma operands_alui: "regs_ok out \<Longrightarrow> jit_operands (tool_alui w f out)"
  by (simp add: tool_alui_def jit_operands_def regs_ok_def imm_I_s32 shamt_u8 Let_def)

lemma operands_groups:
  "regs_ok out \<Longrightarrow> jit_operands (tool_branch w f out)" "regs_ok out \<Longrightarrow> jit_operands (tool_load w f out)"
  "regs_ok out \<Longrightarrow> jit_operands (tool_store w f out)" "regs_ok out \<Longrightarrow> jit_operands (tool_alur f g out)"
  "regs_ok out \<Longrightarrow> jit_operands (tool_aluiw w f out)" "regs_ok out \<Longrightarrow> jit_operands (tool_aluw f g out)"
  "regs_ok out \<Longrightarrow> jit_operands (tool_fence f out)" "regs_ok out \<Longrightarrow> jit_operands (tool_system w f out)"
  by (rule operands_other; simp add: regs_ok_def tool_defs Let_def)+

lemma operands_if: "jit_operands a \<Longrightarrow> jit_operands b \<Longrightarrow> jit_operands (if c then a else b)"
  by simp

lemma tool_operands: "jit_operands (merlin_decode_tool w p out)"
proof -
  let ?out = "out\<lparr>raw := w, pc := p, cls := INSN_INVALID, rd := unat (bits w 11 7), rs1 := unat (bits w 19 15),
    rs2 := unat (bits w 24 20), imm := 0, word_op := False\<rparr>"
  have r: "regs_ok ?out" by (simp add: regs_ok_def bits5_lt_32)
  then have c: "jit_operands (?out\<lparr>cls := c\<rparr>)" "jit_operands (?out\<lparr>cls := c, imm := v\<rparr>)"
    if "c \<notin> {INSN_ALU_IMM, INSN_SHIFT_IMM}" for c v
    using that by (simp_all add: regs_ok_def jit_operands_def)
  show ?thesis
    unfolding merlin_decode_tool_def Let_def
    by (intro operands_if operands_alui [OF r] operands_groups [OF r] c) simp_all
qed

subsection \<open>The image\<close>

definition tool_dec :: "(nat \<Rightarrow> merlin_insn) \<Rightarrow> u8 list \<Rightarrow> nat \<Rightarrow> merlin_insn option" where
  "tool_dec junk txt p = Some (tool_insn_at junk txt p)"

lemma jit_loop_step:
  assumes "jit_loop junk tramp txt p m b = Some (b', saw)" and "p < length txt"
  obtains b1 where "translate_one_tool tramp (tool_insn_at junk txt p) m b = (0, b1)"
    "cls (tool_insn_at junk txt p) = INSN_JALR \<Longrightarrow> b' = b1 \<and> saw"
    "cls (tool_insn_at junk txt p) \<noteq> INSN_JALR \<Longrightarrow> jit_loop junk tramp txt (p + 4) m b1 = Some (b', saw)"
proof -
  obtain r b1 where t: "translate_one_tool tramp (tool_insn_at junk txt p) m b = (r, b1)" by fastforce
  with assms have "\<not> r < 0" by (auto simp: jit_loop.simps [of junk tramp "txt" p] Let_def split: if_splits)
  with t have "r = 0" using rc_nonneg [OF rc_translate_one_tool] by blast
  with t have t: "translate_one_tool tramp (tool_insn_at junk txt p) m b = (0, b1)" by simp
  then show ?thesis
    using assms by (intro that [OF t]) (simp_all add: jit_loop.simps [of junk tramp "txt" p] Let_def)
qed

lemma jit_loop_bytes:
  "jit_loop junk tramp txt p m b = Some (b', saw) \<Longrightarrow>
     buf b' = buf b @ code_bytes (loop_code tramp (tool_dec junk txt) (length txt) p) \<and>
     saw = loop_returns (tool_dec junk txt) (length txt) p"
proof (induction "length txt - p" arbitrary: p b rule: less_induct)
  case less
  note simps = loop_code.simps [of tramp "tool_dec junk txt" "length txt" p]
    loop_returns.simps [of "tool_dec junk txt" "length txt" p]
  show ?case
  proof (cases "p < length txt")
    case False
    with less.prems show ?thesis by (simp add: jit_loop.simps [of junk tramp "txt" p] simps)
  next
    case True
    from jit_loop_step [OF less.prems True] obtain b1 where
      t: "translate_one_tool tramp (tool_insn_at junk txt p) m b = (0, b1)"
      "cls (tool_insn_at junk txt p) = INSN_JALR \<Longrightarrow> b' = b1 \<and> saw"
      "cls (tool_insn_at junk txt p) \<noteq> INSN_JALR \<Longrightarrow> jit_loop junk tramp txt (p + 4) m b1 = Some (b', saw)"
      by blast
    have b1: "buf b1 = buf b @ code_bytes (insn_code tramp (tool_insn_at junk txt p))"
      using emitsD [OF emits_translate_one_tool t(1)] .
    show ?thesis
    proof (cases "cls (tool_insn_at junk txt p) = INSN_JALR")
      case True
      with t(2) b1 \<open>p < length txt\<close> show ?thesis by (simp add: simps tool_dec_def)
    next
      case False
      have "length txt - (p + 4) < length txt - p" using True by simp
      from less.hyps [OF this t(3) [OF False]] b1 True False show ?thesis by (simp add: simps tool_dec_def)
    qed
  qed
qed

definition word_free :: "(nat \<Rightarrow> merlin_insn) \<Rightarrow> u8 list \<Rightarrow> bool" where
  "word_free junk txt = list_all (\<lambda>j. \<not> word_mul (tool_insn_at junk txt (4 * j))) [0..<length txt div 4]"

lemma jit_loop_runs:
  assumes "word_free junk txt" and "length txt mod 4 = 0"
  shows "jit_loop junk tramp txt (4 * j) m b = Some (b', saw) \<Longrightarrow>
    \<exists>regs'. rv_run ec (tool_dec junk txt) (length txt) (4 * j) regs = Some regs'"
proof (induction "length txt div 4 - j" arbitrary: j b regs rule: less_induct)
  case less
  note simps = rv_run.simps [of ec "tool_dec junk txt" "length txt" "4 * j"]
  show ?case
  proof (cases "4 * j < length txt")
    case False
    then show ?thesis by (simp add: simps)
  next
    case True
    from jit_loop_step [OF less.prems True] obtain b1 where
      t: "translate_one_tool tramp (tool_insn_at junk txt (4 * j)) m b = (0, b1)"
      "cls (tool_insn_at junk txt (4 * j)) \<noteq> INSN_JALR \<Longrightarrow> jit_loop junk tramp txt (4 * Suc j) m b1 = Some (b', saw)"
      by (metis mult_Suc_right add.commute)
    have lt: "j < length txt div 4" using True assms(2) by presburger
    then have nw: "\<not> word_mul (tool_insn_at junk txt (4 * j))" using assms(1) by (simp add: word_free_def list_all_iff)
    show ?thesis
    proof (cases "cls (tool_insn_at junk txt (4 * j)) = INSN_JALR")
      case True
      then show ?thesis using \<open>4 * j < length txt\<close> by (simp add: simps tool_dec_def)
    next
      case False
      have "length txt div 4 - Suc j < length txt div 4 - j" using lt by simp
      from less.hyps [OF this t(2) [OF False]] translated_supported [OF t(1) False nw] True False
      show ?thesis by (simp add: simps tool_dec_def add.commute)
    qed
  qed
qed

lemma translate_tool_image:
  assumes "merlin_jit_translate env junk txt = Some r"
  shows "\<exists>pad. jr_exec r = code_bytes (image_code (tj_tramp env) (tool_dec junk txt) (length txt)) @ pad"
    and "jr_code_bytes r = length (code_bytes (image_code (tj_tramp env) (tool_dec junk txt) (length txt)))"
    and "length txt mod 4 = 0" and "\<exists>m b b' saw. jit_loop junk (tj_tramp env) txt 0 m b = Some (b', saw)"
proof -
  let ?m = "tj_mem env"
  obtain b0 where b0: "emit_buf_init ?m 4096 = Some b0" "buf b0 = []" and len: "length txt mod 4 = 0"
    using assms by (auto simp: merlin_jit_translate_def emit_buf_init_def split: if_splits)
  obtain r1 b1 where b1: "emit_prologue_tool ?m b0 = (r1, b1)" by fastforce
  obtain b2 saw where b2: "jit_loop junk (tj_tramp env) txt 0 ?m b1 = Some (b2, saw)"
    using assms b0 b1 by (auto simp: merlin_jit_translate_def split: if_splits option.splits)
  obtain r3 b3 where b3: "(if saw then (0, b2) else emit_epilogue_tool ?m b2) = (r3, b3)" by fastforce
  from assms have n: "\<not> r1 < 0" "\<not> r3 < 0"
    and r: "jr_exec r = buf b3 @ replicate (jr_exec_len r - length (buf b3)) 0" "jr_code_bytes r = length (buf b3)"
    unfolding merlin_jit_translate_def b0(1) b1 prod.case option.case b2 b3 Let_def by (auto split: if_splits)
  have "r1 = 0" using rc_nonneg [OF rc_tool_prologue b1 n(1)] .
  then have "buf b1 = code_bytes prologue_code" using emitsD [OF emits_prologue_tool] b1 b0(2) by simp
  moreover note jit_loop_bytes [OF b2]
  moreover have "buf b3 = buf b2 @ (if saw then [] else code_bytes epilogue_code)"
    using b3 n(2) rc_nonneg [OF rc_tool_epilogue, of ?m b2] emitsD [OF emits_epilogue_tool, of ?m b2] by (auto split: if_splits)
  ultimately have "buf b3 = code_bytes (image_code (tj_tramp env) (tool_dec junk txt) (length txt))"
    by (simp add: image_code_def tail_code_def)
  with r len b2 show "\<exists>pad. jr_exec r = code_bytes (image_code (tj_tramp env) (tool_dec junk txt) (length txt)) @ pad"
    "jr_code_bytes r = length (code_bytes (image_code (tj_tramp env) (tool_dec junk txt) (length txt)))"
    "length txt mod 4 = 0" "\<exists>m b b' saw. jit_loop junk (tj_tramp env) txt 0 m b = Some (b', saw)"
    by auto
qed


text \<open>Bytes behind the code do not matter.\<close>

lemma with_imm_append:
  "with_imm32 f bs = Some (i, rest) \<Longrightarrow> with_imm32 f (bs @ pad) = Some (i, rest @ pad)"
  "with_imm64 g bs = Some (i, rest) \<Longrightarrow> with_imm64 g (bs @ pad) = Some (i, rest @ pad)"
  "with_imm8 h bs = Some (i, rest) \<Longrightarrow> with_imm8 h (bs @ pad) = Some (i, rest @ pad)"
  by (auto simp: with_imm32_def with_imm64_def with_imm8_def split: if_splits list.splits)

lemma xdecode_rexw3_append:
  "xdecode_rexw3 b1 b2 bs = Some (i, rest) \<Longrightarrow> xdecode_rexw3 b1 b2 (bs @ pad) = Some (i, rest @ pad)"
  unfolding xdecode_rexw3_def
  by (simp only: split: if_split_asm) (simp_all add: with_imm_append split: list.splits if_splits)

lemma xdecode_rexw_append: "xdecode_rexw bs = Some (i, rest) \<Longrightarrow> xdecode_rexw (bs @ pad) = Some (i, rest @ pad)"
proof (cases bs)
  case (Cons b1 r1)
  assume "xdecode_rexw bs = Some (i, rest)"
  with Cons show ?thesis
    using with_imm_append(1) [of X_add_rax_imm r1 i rest pad] with_imm_append(2) [of X_mov_rax r1 i rest pad]
    by (cases r1) (simp_all add: xdecode_rexw_def xdecode_rexw3_append split: if_splits list.splits)
qed (simp add: xdecode_rexw_def)

lemma xdecode_append: "xdecode bs = Some (i, rest) \<Longrightarrow> xdecode (bs @ pad) = Some (i, rest @ pad)"
proof (cases bs)
  case (Cons b0 r0)
  assume "xdecode bs = Some (i, rest)"
  with Cons show ?thesis
    by (cases r0) (auto simp: xdecode_def xdecode_rexw_append [of "_ # _", simplified] dest: xdecode_rexw_append split: if_splits)
qed (simp add: xdecode_def)

lemma xrun_append: "xrun e n bs s = Some s' \<Longrightarrow> xrun e n (bs @ pad) s = Some s'"
proof (induction n arbitrary: bs s)
  case (Suc n)
  then obtain i rest where d: "xdecode bs = Some (i, rest)" by (auto split: option.splits)
  with Suc xdecode_append [OF d, of pad] show ?case by (auto split: option.splits if_splits)
qed simp

subsection \<open>Correctness\<close>

definition tool_ecall :: "u64 list \<Rightarrow> u64" where
  "tool_ecall regs = stub_helper (ucast (getr regs 17))"

definition tool_xenv :: "u64 list \<Rightarrow> u64 \<Rightarrow> u64 \<Rightarrow> xenv" where
  "tool_xenv calls tramp scratch =
     \<lparr>xcallee = snd \<circ> merlin_jit_helper_trampoline calls, xtramp = tramp, xjunk = scratch\<rparr>"

interpretation tool_jit: straight_line "tool_xenv calls tramp scratch" tool_ecall "tool_dec junk txt" "length txt"
  for calls tramp scratch junk "txt"
  by unfold_locales
    (auto simp: tool_xenv_def merlin_jit_helper_trampoline_def tool_ecall_def getr_def tool_dec_def tool_insn_at_def
      tool_operands Let_def)


subsection \<open>What is translated\<close>

lemma fits_tool_bytes [simp]: "fits (emit_bytes bs)" "fits (emit_byte v)" "fits (emit_u32 x)" "fits (emit_u64 y)"
  by (simp_all add: fits_def emit_byte_def emit_u32_def emit_u64_def emit_bytes_def reserve_def Let_def)

lemma fits_emit_seq [simp]: "fits e \<Longrightarrow> fits (emit_seq vs e)"
  by (induction vs) simp_all

lemma fits_zero_regs_tool: "fits rest \<Longrightarrow> fits (zero_regs_tool rs rest)"
  by (induction rs) (simp_all add: tool_emit_defs)

lemma fits_store_rax_to_rd [simp]: "fits (emit_store_rax_to_rd r)"
  by (simp add: emit_store_rax_to_rd_def tool_emit_defs)

lemma fits_prologue_tool: "fits emit_prologue_tool"
  by (simp add: emit_prologue_tool_def fits_zero_regs_tool tool_emit_defs)

lemma fits_epilogue_tool: "fits emit_epilogue_tool"
  by (simp add: emit_epilogue_tool_def tool_emit_defs)

text \<open>The instructions the translator has code for; it does not look at the width of a multiplication.\<close>

definition jit_implements :: "merlin_insn \<Rightarrow> bool" where
  "jit_implements i \<longleftrightarrow> cls i = INSN_JALR \<or> jit_supports (i\<lparr>word_op := False\<rparr>)"

lemma fits_translate_one_tool:
  assumes "jit_operands i" and "jit_implements i"
  shows "fits (translate_one_tool tramp i)"
  using assms
  by (auto simp: jit_operands_def jit_implements_def jit_supports_def translate_one_tool_def fits_epilogue_tool
      load_rs_pair_tool_def emit_helper_call_def tool_emit_defs)

lemma translated_implemented:
  assumes "translate_one_tool tramp i m b = (0, b')"
  shows "jit_implements i"
proof -
  have "translate_one_tool tramp (i\<lparr>word_op := False\<rparr>) = translate_one_tool tramp i"
    by (cases "cls i") (simp_all add: translate_one_tool_def cong: merlin_alu_op.case_cong)
  then have "translate_one_tool tramp (i\<lparr>word_op := False\<rparr>) m b = (0, b')" using assms by simp
  from translated_supported [OF this] show ?thesis by (auto simp: jit_implements_def word_mul_def)
qed

function implements_from :: "(nat \<Rightarrow> merlin_insn) \<Rightarrow> u8 list \<Rightarrow> nat \<Rightarrow> bool" where
  "implements_from junk txt p =
     (p < length txt \<longrightarrow>
        jit_implements (tool_insn_at junk txt p) \<and>
        (cls (tool_insn_at junk txt p) = INSN_JALR \<or> implements_from junk txt (p + 4)))"
  by pat_completeness auto
termination by (relation "measure (\<lambda>(_, txt, p). length txt - p)") auto

declare implements_from.simps [simp del]

lemma jit_loop_exact:
  "(jit_loop junk tramp txt p (\<lambda>_. True) b \<noteq> None) = implements_from junk txt p"
proof (induction "length txt - p" arbitrary: p b rule: less_induct)
  case less
  note simps = jit_loop.simps [of junk tramp "txt" p] implements_from.simps [of junk "txt" p]
  let ?i = "tool_insn_at junk txt p"
  show ?case
  proof (cases "p < length txt")
    case True
    obtain r b1 where t: "translate_one_tool tramp ?i (\<lambda>_. True) b = (r, b1)" by fastforce
    have ops: "jit_operands ?i" by (simp add: tool_insn_at_def tool_operands)
    have r: "\<not> r < 0 \<longleftrightarrow> jit_implements ?i"
      using t rc_nonneg [OF rc_translate_one_tool t] translated_implemented [of tramp ?i "\<lambda>_. True" b b1]
        fits_translate_one_tool [OF ops, of tramp] unfolding fits_def by (metis fst_conv less_irrefl)
    have "length txt - (p + 4) < length txt - p" using True by simp
    from less.hyps [OF this, of b1] r t True show ?thesis by (auto simp: simps Let_def)
  qed (simp add: simps)
qed

definition tool_env :: "u64 \<Rightarrow> tool_jit_env" where
  "tool_env tramp = \<lparr>tj_mem = (\<lambda>_. True), tj_page = 4096, tj_mmap_ok = True, tj_mprotect_ok = True, tj_tramp = tramp\<rparr>"

lemma translate_tool_iff:
  "(merlin_jit_translate (tool_env tramp) junk txt \<noteq> None) =
     (txt \<noteq> [] \<and> length txt mod 4 = 0 \<and> implements_from junk txt 0)"
proof -
  let ?m = "\<lambda>_ :: nat. True" and ?b0 = "\<lparr>buf = [], cap = 4096\<rparr>"
  obtain r1 b1 where b1: "emit_prologue_tool ?m ?b0 = (r1, b1)" by fastforce
  have "r1 = 0" using b1 fits_prologue_tool unfolding fits_def by (metis fst_conv)
  moreover have "fst (emit_epilogue_tool ?m b2) = 0" for b2 using fits_epilogue_tool by (simp add: fits_def)
  ultimately show ?thesis
    using b1 jit_loop_exact [of junk tramp "txt" 0 b1]
    by (auto simp: merlin_jit_translate_def tool_env_def emit_buf_init_def Let_def split: option.splits prod.splits)
      (metis fst_conv less_irrefl)
qed


lemma translate_tool_pages:
  assumes "merlin_jit_translate env junk txt = Some r" and "0 < tj_page env"
  shows "jr_code_bytes r \<le> jr_exec_len r" "length (jr_exec r) = jr_exec_len r" "tj_page env dvd jr_exec_len r"
  using assms(1) page_round_up [OF assms(2)]
  by (auto simp: merlin_jit_translate_def Let_def split: if_splits option.splits prod.splits)

text \<open>
  Which texts are translated, exactly. With memory available the translation succeeds if and only if the text is
  not empty, consists of whole words, and every instruction up to the first \<open>jalr\<close> is one the translator has
  code for; everything else (branches, jumps, memory accesses, division, word operations other than \<open>mulw\<close>) is refused. The
  code fits the pages it is copied to.
\<close>

theorem tool_jit_accepts_exactly:
  "(\<exists>r. merlin_jit_translate (tool_env tramp) junk txt = Some r \<and> jr_code_bytes r \<le> jr_exec_len r \<and>
      length (jr_exec r) = jr_exec_len r) =
   (txt \<noteq> [] \<and> length txt mod 4 = 0 \<and> implements_from junk txt 0)"
  using translate_tool_iff [of tramp junk "txt"] translate_tool_pages [of "tool_env tramp" junk "txt"]
  by (auto simp: tool_env_def)

abbreviation (input) no_junk :: "nat \<Rightarrow> merlin_insn" where "no_junk \<equiv> \<lambda>_. insn_zero 0 0"

lemma add5_tool: "implements_from no_junk add5_text 0" "word_free no_junk add5_text"
  by code_simp+


definition mulw_text :: "u8 list" where
  "mulw_text = [0x3b, 0x05, 0xa5, 0x02, 0x67, 0x80, 0x00, 0x00]"

lemma mulw_facts: "implements_from no_junk mulw_text 0" "mulw_text \<noteq> []" "length mulw_text mod 4 = 0"
  by code_simp+

lemma mulw_image:
  "map_option rax (xrun (tool_xenv [] 0xffff 7) 286 (code_bytes (image_code 0xffff (tool_dec no_junk mulw_text) (length mulw_text)))
     \<lparr>rax = 1, rcx = 2, rdi = 0x10000, rbx = 3, rsp = 0x8000, xmem = (\<lambda>_. 0)\<rparr>) = Some 0x100000000"
  by code_simp


end
