(* ===== verification/Watcher.thy ===== *)
theory Watcher
  imports C_Text Bytes
begin

text \<open>
  The event watcher, \<open>tools/merlin-watcher\<close>: the decoders of \<open>decode.c\<close>, and the filter and dispatch of
  \<open>merlin-watcher.c\<close>, with the numbers of \<open>merlin_watcher.h\<close>. libnl is a parameter: a message is its command and
  what \<open>genlmsg_parse\<close> finds in it, the payload of each attribute by its number, or \<^const>\<open>None\<close> when parsing
  fails; the accessors are functions of the payload. A decoder always returns \<open>NL_OK\<close>; its value here is what it
  prints.
\<close>

subsection \<open>Messages\<close>

record libnl =
  nla_get_u8 :: "u8 list \<Rightarrow> u8"
  nla_get_u32 :: "u8 list \<Rightarrow> u32"
  nla_get_u64 :: "u8 list \<Rightarrow> u64"
  nla_get_string :: "u8 list \<Rightarrow> string"

type_synonym nlattrs = "nat \<Rightarrow> u8 list option"

record nl_msg =
  genl_cmd :: u8
  genl_attrs :: "nlattrs option"

abbreviation (input) MERLIN_NL_EV_PROG_LIFECYCLE :: u8 where "MERLIN_NL_EV_PROG_LIFECYCLE \<equiv> 1"
abbreviation (input) MERLIN_NL_EV_MAP_UPDATE :: u8 where "MERLIN_NL_EV_MAP_UPDATE \<equiv> 2"
abbreviation (input) MERLIN_NL_EV_TELEMETRY_SAMPLE :: u8 where "MERLIN_NL_EV_TELEMETRY_SAMPLE \<equiv> 3"
abbreviation (input) MERLIN_NL_EV_NAMESPACE :: u8 where "MERLIN_NL_EV_NAMESPACE \<equiv> 4"
abbreviation (input) MERLIN_NL_EV_ATTESTATION_REQ :: u8 where "MERLIN_NL_EV_ATTESTATION_REQ \<equiv> 5"
abbreviation (input) MERLIN_NL_EV_ATTESTATION_RESP :: u8 where "MERLIN_NL_EV_ATTESTATION_RESP \<equiv> 6"
abbreviation (input) MERLIN_NL_EV_VERIFIER_REJECT :: u8 where "MERLIN_NL_EV_VERIFIER_REJECT \<equiv> 7"
abbreviation (input) MERLIN_NL_EV_RATELIMIT_DROP :: u8 where "MERLIN_NL_EV_RATELIMIT_DROP \<equiv> 8"

abbreviation (input) MERLIN_NLATTR_NS_ID :: nat where "MERLIN_NLATTR_NS_ID \<equiv> 1"
abbreviation (input) MERLIN_NLATTR_PROG_ID :: nat where "MERLIN_NLATTR_PROG_ID \<equiv> 2"
abbreviation (input) MERLIN_NLATTR_ACTION :: nat where "MERLIN_NLATTR_ACTION \<equiv> 3"
abbreviation (input) MERLIN_NLATTR_TAG :: nat where "MERLIN_NLATTR_TAG \<equiv> 4"
abbreviation (input) MERLIN_NLATTR_TIME_NS :: nat where "MERLIN_NLATTR_TIME_NS \<equiv> 5"
abbreviation (input) MERLIN_NLATTR_MAP_ID :: nat where "MERLIN_NLATTR_MAP_ID \<equiv> 7"
abbreviation (input) MERLIN_NLATTR_TXN_ID :: nat where "MERLIN_NLATTR_TXN_ID \<equiv> 8"
abbreviation (input) MERLIN_NLATTR_OP :: nat where "MERLIN_NLATTR_OP \<equiv> 9"
abbreviation (input) MERLIN_NLATTR_RUN_CNT :: nat where "MERLIN_NLATTR_RUN_CNT \<equiv> 12"
abbreviation (input) MERLIN_NLATTR_RUN_TIME_NS :: nat where "MERLIN_NLATTR_RUN_TIME_NS \<equiv> 13"
abbreviation (input) MERLIN_NLATTR_TARGET_PROG_ID :: nat where "MERLIN_NLATTR_TARGET_PROG_ID \<equiv> 18"
abbreviation (input) MERLIN_NLATTR_QUOTE :: nat where "MERLIN_NLATTR_QUOTE \<equiv> 19"
abbreviation (input) MERLIN_NLATTR_REJECT_REASON :: nat where "MERLIN_NLATTR_REJECT_REASON \<equiv> 21"
abbreviation (input) MERLIN_NLATTR_REJECT_PC :: nat where "MERLIN_NLATTR_REJECT_PC \<equiv> 22"
abbreviation (input) MERLIN_NLATTR_RL_CLASS :: nat where "MERLIN_NLATTR_RL_CLASS \<equiv> 24"
abbreviation (input) MERLIN_NLATTR_RL_DROPS :: nat where "MERLIN_NLATTR_RL_DROPS \<equiv> 25"

definition attr_u8 :: "libnl \<Rightarrow> nlattrs \<Rightarrow> nat \<Rightarrow> u8" where
  "attr_u8 L attrs n = (case attrs n of None \<Rightarrow> 0 | Some a \<Rightarrow> nla_get_u8 L a)"

definition attr_u32 :: "libnl \<Rightarrow> nlattrs \<Rightarrow> nat \<Rightarrow> u32" where
  "attr_u32 L attrs n = (case attrs n of None \<Rightarrow> 0 | Some a \<Rightarrow> nla_get_u32 L a)"

definition attr_u64 :: "libnl \<Rightarrow> nlattrs \<Rightarrow> nat \<Rightarrow> u64" where
  "attr_u64 L attrs n = (case attrs n of None \<Rightarrow> 0 | Some a \<Rightarrow> nla_get_u64 L a)"

subsection \<open>The decoders\<close>

definition print_tag :: "u8 list \<Rightarrow> string" where
  "print_tag tag = concat (map (\<lambda>i. show_02x (tag ! i)) [0, 1, 2, 3, 4, 5, 6, 7])"

definition action_name :: "u8 \<Rightarrow> string" where
  "action_name a = (if a = 1 then ''loaded'' else if a = 2 then ''attached'' else if a = 3 then ''detached''
     else if a = 4 then ''unloaded'' else ''?'')"

definition map_op_name :: "u8 \<Rightarrow> string" where
  "map_op_name a = (if a = 1 then ''insert'' else if a = 2 then ''update'' else if a = 3 then ''delete''
     else if a = 4 then ''replace_all'' else ''?'')"

definition eol :: string where
  "eol = [CHR 0x0A]"

definition tag_text :: "nlattrs \<Rightarrow> string" where
  "tag_text attrs = (case attrs MERLIN_NLATTR_TAG of
     None \<Rightarrow> ''?''
   | Some a \<Rightarrow> if length a = 8 then print_tag a else ''?'')"

definition decode_prog_lifecycle :: "libnl \<Rightarrow> nl_msg \<Rightarrow> bool \<Rightarrow> string" where
  "decode_prog_lifecycle L msg as_json =
     (case genl_attrs msg of
        None \<Rightarrow> []
      | Some attrs \<Rightarrow>
          let ns = attr_u32 L attrs MERLIN_NLATTR_NS_ID; prog = attr_u32 L attrs MERLIN_NLATTR_PROG_ID;
              action = attr_u8 L attrs MERLIN_NLATTR_ACTION; time_ns = attr_u64 L attrs MERLIN_NLATTR_TIME_NS;
              tagstr = tag_text attrs in
          if as_json then
            concat [''{\"ts\":'', show_u time_ns, '',\"ev\":\"prog_lifecycle\",'', ''\"ns\":'', show_u ns, '',\"prog\":'',
              show_u prog, '',\"act\":\"'', action_name action, ''\",\"tag\":\"'', tagstr, ''\"}'', eol]
          else
            concat [''['', show_u time_ns, ''] prog_lifecycle ns='', show_u ns, '' prog='', show_u prog, '' act='',
              action_name action, '' tag='', tagstr, eol])"

definition decode_map_update :: "libnl \<Rightarrow> nl_msg \<Rightarrow> bool \<Rightarrow> string" where
  "decode_map_update L msg as_json =
     (case genl_attrs msg of
        None \<Rightarrow> []
      | Some attrs \<Rightarrow>
          let ns = attr_u32 L attrs MERLIN_NLATTR_NS_ID; mapid = attr_u32 L attrs MERLIN_NLATTR_MAP_ID;
              txn = attr_u64 L attrs MERLIN_NLATTR_TXN_ID; opc = attr_u8 L attrs MERLIN_NLATTR_OP;
              time_ns = attr_u64 L attrs MERLIN_NLATTR_TIME_NS in
          if as_json then
            concat [''{\"ts\":'', show_u time_ns, '',\"ev\":\"map_update\",'', ''\"ns\":'', show_u ns, '',\"map\":'',
              show_u mapid, '',\"txn\":'', show_u txn, '',\"op\":\"'', map_op_name opc, ''\"}'', eol]
          else
            concat [''['', show_u time_ns, ''] map_update ns='', show_u ns, '' map='', show_u mapid, '' txn='', show_u txn,
              '' op='', map_op_name opc, eol])"

definition decode_telemetry :: "libnl \<Rightarrow> nl_msg \<Rightarrow> bool \<Rightarrow> string" where
  "decode_telemetry L msg as_json =
     (case genl_attrs msg of
        None \<Rightarrow> []
      | Some attrs \<Rightarrow>
          let ns = attr_u32 L attrs MERLIN_NLATTR_NS_ID; prog = attr_u32 L attrs MERLIN_NLATTR_PROG_ID;
              time_ns = attr_u64 L attrs MERLIN_NLATTR_TIME_NS; run_cnt = attr_u64 L attrs MERLIN_NLATTR_RUN_CNT;
              run_time = attr_u64 L attrs MERLIN_NLATTR_RUN_TIME_NS in
          if as_json then
            concat [''{\"ts\":'', show_u time_ns, '',\"ev\":\"telemetry\",'', ''\"ns\":'', show_u ns, '',\"prog\":'', show_u prog,
              '','', ''\"run_cnt\":'', show_u run_cnt, '',\"run_time_ns\":'', show_u run_time, ''}'', eol]
          else
            concat [''['', show_u time_ns, ''] telemetry ns='', show_u ns, '' prog='', show_u prog, '' run_cnt='',
              show_u run_cnt, '' run_time='', show_u run_time, '' ns'', eol])"

definition decode_namespace :: "libnl \<Rightarrow> nl_msg \<Rightarrow> bool \<Rightarrow> string" where
  "decode_namespace L msg as_json =
     (case genl_attrs msg of
        None \<Rightarrow> []
      | Some attrs \<Rightarrow>
          let ns = attr_u32 L attrs MERLIN_NLATTR_NS_ID; action = attr_u8 L attrs MERLIN_NLATTR_ACTION;
              time_ns = attr_u64 L attrs MERLIN_NLATTR_TIME_NS;
              act = (if action = 1 then ''created'' else if action = 2 then ''destroyed'' else ''?'') in
          if as_json then
            concat [''{\"ts\":'', show_u time_ns, '',\"ev\":\"namespace\",'', ''\"ns\":'', show_u ns, '',\"act\":\"'', act, ''\"}'', eol]
          else
            concat [''['', show_u time_ns, ''] namespace ns='', show_u ns, '' act='', act, eol])"

definition decode_attestation :: "libnl \<Rightarrow> nl_msg \<Rightarrow> bool \<Rightarrow> string" where
  "decode_attestation L msg as_json =
     (case genl_attrs msg of
        None \<Rightarrow> []
      | Some attrs \<Rightarrow>
          let is_req = genl_cmd msg = MERLIN_NL_EV_ATTESTATION_REQ;
              target = attr_u32 L attrs MERLIN_NLATTR_TARGET_PROG_ID;
              time_ns = attr_u64 L attrs MERLIN_NLATTR_TIME_NS;
              quote_len = (case attrs MERLIN_NLATTR_QUOTE of None \<Rightarrow> 0 | Some a \<Rightarrow> length a) in
          if as_json then
            concat [''{\"ts\":'', show_u time_ns, '',\"ev\":\"attestation_'', if is_req then ''req'' else ''resp'', ''\",'',
              ''\"target\":'', show_u target, '',\"quote_len\":'', show_base 10 quote_len, ''}'', eol]
          else
            concat [''['', show_u time_ns, ''] attestation_'', if is_req then ''req'' else ''resp'', '' target='',
              show_u target, '' quote='', show_base 10 quote_len, ''B'', eol])"

definition reason_text :: "libnl \<Rightarrow> nlattrs \<Rightarrow> string" where
  "reason_text L attrs = (case attrs MERLIN_NLATTR_REJECT_REASON of None \<Rightarrow> [] | Some a \<Rightarrow> nla_get_string L a)"

definition decode_reject :: "libnl \<Rightarrow> nl_msg \<Rightarrow> bool \<Rightarrow> string" where
  "decode_reject L msg as_json =
     (case genl_attrs msg of
        None \<Rightarrow> []
      | Some attrs \<Rightarrow>
          let ns = attr_u32 L attrs MERLIN_NLATTR_NS_ID; pc = attr_u32 L attrs MERLIN_NLATTR_REJECT_PC;
              time_ns = attr_u64 L attrs MERLIN_NLATTR_TIME_NS; reason = reason_text L attrs in
          if as_json then
            concat [''{\"ts\":'', show_u time_ns, '',\"ev\":\"verifier_reject\",'', ''\"ns\":'', show_u ns, '',\"pc\":'', show_u pc,
              '',\"reason\":\"'', reason, ''\"}'', eol]
          else
            concat [''['', show_u time_ns, ''] verifier_reject ns='', show_u ns, '' pc='', show_u pc, '': '', reason, eol])"

definition decode_ratelimit_drop :: "libnl \<Rightarrow> nl_msg \<Rightarrow> bool \<Rightarrow> string" where
  "decode_ratelimit_drop L msg as_json =
     (case genl_attrs msg of
        None \<Rightarrow> []
      | Some attrs \<Rightarrow>
          let rl = attr_u32 L attrs MERLIN_NLATTR_RL_CLASS; drops = attr_u64 L attrs MERLIN_NLATTR_RL_DROPS;
              time_ns = attr_u64 L attrs MERLIN_NLATTR_TIME_NS in
          if as_json then
            concat [''{\"ts\":'', show_u time_ns, '',\"ev\":\"ratelimit_drop\",'', ''\"class\":'', show_u rl, '',\"drops\":'',
              show_u drops, ''}'', eol]
          else
            concat [''['', show_u time_ns, ''] ratelimit_drop class='', show_u rl, '' drops='', show_u drops, eol])"

subsection \<open>Filter and dispatch\<close>

text \<open>The classes 1 to 8 by their position; entry 0 has no name.\<close>

definition class_names :: "string list" where
  "class_names = [[], ''prog_lifecycle'', ''map_update'', ''telemetry'', ''namespace'', ''attestation_req'',
     ''attestation_resp'', ''reject'', ''ratelimit_drop'']"

abbreviation (input) ALL_CLASSES :: u32 where "ALL_CLASSES \<equiv> 0x1fe"

definition class_index :: "string \<Rightarrow> nat option" where
  "class_index tok = find (\<lambda>i. tok = class_names ! i) [1, 2, 3, 4, 5, 6, 7, 8]"

definition add_class :: "string \<Rightarrow> u32 \<Rightarrow> u32" where
  "add_class tok m = (case class_index tok of None \<Rightarrow> m | Some i \<Rightarrow> m OR push_bit i 1)"

definition parse_filter :: "string \<Rightarrow> u32" where
  "parse_filter spec =
     (let m = fold add_class (tokens (\<lambda>c. c = CHR '','') spec) 0 in if m \<noteq> 0 then m else ALL_CLASSES)"

text \<open>
  The dispatch. \<open>1u << cmd\<close> is undefined for the commands from 32 on, which is the outcome \<^const>\<open>None\<close>; for an
  unknown command only standard error is written.
\<close>

definition on_event :: "libnl \<Rightarrow> u32 \<Rightarrow> bool \<Rightarrow> nl_msg \<Rightarrow> string option" where
  "on_event L g_filter_mask g_json msg =
     (let cmd = genl_cmd msg in
      if 32 \<le> cmd then None
      else Some
        (if g_filter_mask AND push_bit (unat cmd) 1 = 0 then []
         else if cmd = MERLIN_NL_EV_PROG_LIFECYCLE then decode_prog_lifecycle L msg g_json
         else if cmd = MERLIN_NL_EV_MAP_UPDATE then decode_map_update L msg g_json
         else if cmd = MERLIN_NL_EV_TELEMETRY_SAMPLE then decode_telemetry L msg g_json
         else if cmd = MERLIN_NL_EV_NAMESPACE then decode_namespace L msg g_json
         else if cmd = MERLIN_NL_EV_ATTESTATION_REQ \<or> cmd = MERLIN_NL_EV_ATTESTATION_RESP then
           decode_attestation L msg g_json
         else if cmd = MERLIN_NL_EV_VERIFIER_REJECT then decode_reject L msg g_json
         else if cmd = MERLIN_NL_EV_RATELIMIT_DROP then decode_ratelimit_drop L msg g_json
         else []))"

subsection \<open>Records of a JSON line\<close>

text \<open>
  What a consumer of the JSON lines reads: one object per line, with numbers and strings as values. A string
  holds no control character, and no quote or backslash, which JSON would have escaped.
\<close>

datatype jval = JNum nat | JStr string

definition plain_char :: "char \<Rightarrow> bool" where
  "plain_char c \<longleftrightarrow> (let v = of_char c :: nat in 32 \<le> v \<and> v \<noteq> 34 \<and> v \<noteq> 92)"

fun jexpect :: "char \<Rightarrow> string \<Rightarrow> string option" where
  "jexpect c [] = None"
| "jexpect c (d # s) = (if d = c then Some s else None)"

definition read_str :: "string \<Rightarrow> (string \<times> string) option" where
  "read_str s = map_option (Pair (takeWhile plain_char s)) (jexpect (CHR 0x22) (dropWhile plain_char s))"

fun read_val :: "string \<Rightarrow> (jval \<times> string) option" where
  "read_val [] = None"
| "read_val (c # s) =
     (if c = CHR 0x22 then map_option (apfst JStr) (read_str s)
      else if is_digit 10 c then Some (apfst JNum (scan_digits 10 0 (c # s))) else None)"

definition read_field :: "string \<Rightarrow> ((string \<times> jval) \<times> string) option" where
  "read_field s =
     Option.bind (jexpect (CHR 0x22) s) (\<lambda>s. Option.bind (read_str s) (\<lambda>(k, s).
     Option.bind (jexpect (CHR '':'') s) (\<lambda>s. Option.bind (read_val s) (\<lambda>(v, s). Some ((k, v), s)))))"

fun read_fields :: "nat \<Rightarrow> string \<Rightarrow> (string \<times> jval) list option" where
  "read_fields 0 s = None"
| "read_fields (Suc n) s =
     Option.bind (read_field s) (\<lambda>(f, s).
       if s = ''}'' @ eol then Some [f]
       else Option.bind (jexpect (CHR '','') s) (\<lambda>s. map_option (Cons f) (read_fields n s)))"

definition json_record :: "string \<Rightarrow> (string \<times> jval) list option" where
  "json_record s = Option.bind (jexpect (CHR ''{'') s) (read_fields (length s))"

fun jval_text :: "jval \<Rightarrow> string" where
  "jval_text (JNum n) = show_base 10 n"
| "jval_text (JStr t) = CHR 0x22 # t @ [CHR 0x22]"

definition field_text :: "string \<times> jval \<Rightarrow> string" where
  "field_text f = CHR 0x22 # fst f @ CHR 0x22 # CHR '':'' # jval_text (snd f)"

fun fields_text :: "(string \<times> jval) list \<Rightarrow> string" where
  "fields_text [] = []"
| "fields_text [f] = field_text f @ ''}'' @ eol"
| "fields_text (f # fs) = field_text f @ CHR '','' # fields_text fs"

definition json_text :: "(string \<times> jval) list \<Rightarrow> string" where
  "json_text fs = CHR ''{'' # fields_text fs"

fun jval_plain :: "jval \<Rightarrow> bool" where
  "jval_plain (JNum n) = True"
| "jval_plain (JStr t) = list_all plain_char t"

lemma read_str_plain:
  assumes "list_all plain_char t"
  shows "read_str (t @ CHR 0x22 # s) = Some (t, s)"
proof -
  have "\<not> plain_char (CHR 0x22)" by (simp add: plain_char_def)
  with assms show ?thesis by (simp add: read_str_def list_all_iff takeWhile_append2 dropWhile_append2)
qed

lemma read_val_text:
  assumes "jval_plain v" and "s \<noteq> []" "\<not> is_digit 10 (hd s)"
  shows "read_val (jval_text v @ s) = Some (v, s)"
proof (cases v)
  case (JNum n)
  obtain c cs where c: "show_base 10 n = c # cs" by (cases "show_base 10 n") auto
  moreover have "is_digit 10 c"
    using show_base_digits [of 10 n] c by (auto simp: is_digit_def digit_val_char)
  moreover have "\<not> is_digit 10 (CHR 0x22)" by (simp add: is_digit_def digit_val_def)
  moreover have "scan_digits 10 0 (show_base 10 n @ s) = (n, s)"
    using assms by (intro scan_show_base) auto
  ultimately show ?thesis using JNum by auto
next
  case (JStr t)
  then show ?thesis using assms(1) read_str_plain [of t s] by simp
qed

lemma read_field_text:
  assumes "list_all plain_char (fst f)" "jval_plain (snd f)" and "s \<noteq> []" "\<not> is_digit 10 (hd s)"
  shows "read_field (field_text f @ s) = Some (f, s)"
  using assms read_val_text [of "snd f" s]
  by (simp add: read_field_def field_text_def read_str_plain)

lemma fields_text_size: "fs \<noteq> [] \<Longrightarrow> length fs \<le> length (fields_text fs)"
  by (induction fs rule: fields_text.induct) (auto simp: field_text_def)

lemma read_fields_text:
  assumes "fs \<noteq> []" "length fs \<le> n" and "\<forall>f \<in> set fs. list_all plain_char (fst f) \<and> jval_plain (snd f)"
  shows "read_fields n (fields_text fs) = Some fs"
  using assms
proof (induction fs arbitrary: n rule: fields_text.induct)
  case (2 f)
  then obtain m where n: "n = Suc m" by (cases n) auto
  have "read_field (field_text f @ ''}'' @ eol) = Some (f, ''}'' @ eol)"
    using 2 by (intro read_field_text) (auto simp: is_digit_def digit_val_def)
  then show ?case by (simp add: n)
next
  case (3 f g fs)
  then obtain m where n: "n = Suc m" by (cases n) auto
  have "read_field (field_text f @ CHR '','' # fields_text (g # fs)) = Some (f, CHR '','' # fields_text (g # fs))"
    using 3 by (intro read_field_text) (auto simp: is_digit_def digit_val_def)
  moreover have "read_fields m (fields_text (g # fs)) = Some (g # fs)" using 3 n by auto
  ultimately show ?case by (simp add: n)
qed simp

lemma json_read_back:
  assumes "fs \<noteq> []" and "\<forall>f \<in> set fs. list_all plain_char (fst f) \<and> jval_plain (snd f)"
  shows "json_record (json_text fs) = Some fs"
  using assms read_fields_text [of fs "Suc (length (fields_text fs))"] fields_text_size [OF assms(1)]
  by (simp add: json_record_def json_text_def)

subsection \<open>What an event says\<close>

definition event_fields :: "libnl \<Rightarrow> u8 \<Rightarrow> nlattrs \<Rightarrow> (string \<times> jval) list" where
  "event_fields L cmd attrs =
     (let num32 = (\<lambda>n. JNum (unat (attr_u32 L attrs n))); num64 = (\<lambda>n. JNum (unat (attr_u64 L attrs n)));
          event = (\<lambda>name fs. (''ts'', num64 MERLIN_NLATTR_TIME_NS) # (''ev'', JStr name) # fs);
          act = attr_u8 L attrs MERLIN_NLATTR_ACTION;
          attest = [(''target'', num32 MERLIN_NLATTR_TARGET_PROG_ID),
            (''quote_len'', JNum (case attrs MERLIN_NLATTR_QUOTE of None \<Rightarrow> 0 | Some a \<Rightarrow> length a))] in
      if cmd = MERLIN_NL_EV_PROG_LIFECYCLE then
        event ''prog_lifecycle'' [(''ns'', num32 MERLIN_NLATTR_NS_ID), (''prog'', num32 MERLIN_NLATTR_PROG_ID),
          (''act'', JStr (action_name act)), (''tag'', JStr (tag_text attrs))]
      else if cmd = MERLIN_NL_EV_MAP_UPDATE then
        event ''map_update'' [(''ns'', num32 MERLIN_NLATTR_NS_ID), (''map'', num32 MERLIN_NLATTR_MAP_ID),
          (''txn'', num64 MERLIN_NLATTR_TXN_ID), (''op'', JStr (map_op_name (attr_u8 L attrs MERLIN_NLATTR_OP)))]
      else if cmd = MERLIN_NL_EV_TELEMETRY_SAMPLE then
        event ''telemetry'' [(''ns'', num32 MERLIN_NLATTR_NS_ID), (''prog'', num32 MERLIN_NLATTR_PROG_ID),
          (''run_cnt'', num64 MERLIN_NLATTR_RUN_CNT), (''run_time_ns'', num64 MERLIN_NLATTR_RUN_TIME_NS)]
      else if cmd = MERLIN_NL_EV_NAMESPACE then
        event ''namespace'' [(''ns'', num32 MERLIN_NLATTR_NS_ID),
          (''act'', JStr (if act = 1 then ''created'' else if act = 2 then ''destroyed'' else ''?''))]
      else if cmd = MERLIN_NL_EV_ATTESTATION_REQ then event ''attestation_req'' attest
      else if cmd = MERLIN_NL_EV_ATTESTATION_RESP then event ''attestation_resp'' attest
      else if cmd = MERLIN_NL_EV_VERIFIER_REJECT then
        event ''verifier_reject'' [(''ns'', num32 MERLIN_NLATTR_NS_ID), (''pc'', num32 MERLIN_NLATTR_REJECT_PC),
          (''reason'', JStr (reason_text L attrs))]
      else
        event ''ratelimit_drop'' [(''class'', num32 MERLIN_NLATTR_RL_CLASS), (''drops'', num64 MERLIN_NLATTR_RL_DROPS)])"

definition selected :: "u32 \<Rightarrow> u8 \<Rightarrow> bool" where
  "selected m cmd \<longleftrightarrow> m AND push_bit (unat cmd) 1 \<noteq> 0"

lemma u8_classes: "(c :: u8) \<in> {1, 2, 3, 4, 5, 6, 7, 8} \<longleftrightarrow> 1 \<le> c \<and> c \<le> 8"
proof -
  have "c \<in> of_nat ` {1..8}" if "1 \<le> c" "c \<le> 8"
    using that by (intro image_eqI [of _ _ "unat c"]) (auto simp: word_le_nat_alt)
  moreover have "of_nat ` {1..8 :: nat} = {1 :: u8, 2, 3, 4, 5, 6, 7, 8}"
    by (simp add: atLeastAtMost_insertL [symmetric] numeral_eq_Suc)
  ultimately show ?thesis by auto
qed

lemma on_event_json:
  assumes "genl_attrs msg = Some attrs" "selected m (genl_cmd msg)" "1 \<le> genl_cmd msg" "genl_cmd msg \<le> 8"
  shows "on_event L m True msg = Some (json_text (event_fields L (genl_cmd msg) attrs))"
proof -
  have "genl_cmd msg \<in> {1, 2, 3, 4, 5, 6, 7, 8}" using assms(3,4) u8_classes by blast
  then show ?thesis
    using assms(1,2)
    by (elim insertE emptyE)
      (simp_all add: on_event_def selected_def event_fields_def json_text_def field_text_def Let_def show_u_def
        decode_prog_lifecycle_def decode_map_update_def decode_telemetry_def decode_namespace_def
        decode_attestation_def decode_reject_def decode_ratelimit_drop_def word_le_nat_alt)
qed

lemma plain_digit: "d < 16 \<Longrightarrow> plain_char (digit_char d)"
  by (cases "d < 10") (auto simp: plain_char_def digit_char_def Let_def)

lemma plain_names [simp]:
  "list_all plain_char (action_name a)" "list_all plain_char (map_op_name a)" "list_all plain_char (tag_text attrs)"
proof -
  have "list_all plain_char (show_02x x)" for x
    using plain_digit [of "unat x div 16"] plain_digit [of "unat x mod 16"] unsigned_less [of x, where 'a = nat]
    by (simp add: show_02x_def less_mult_imp_div_less)
  then show "list_all plain_char (tag_text attrs)"
    by (simp add: tag_text_def print_tag_def plain_char_def split: option.split)
qed (simp_all add: action_name_def map_op_name_def plain_char_def)

lemma event_plain:
  assumes "list_all plain_char (reason_text L attrs)"
  shows "\<forall>f \<in> set (event_fields L cmd attrs). list_all plain_char (fst f) \<and> jval_plain (snd f)"
  using assms by (simp add: event_fields_def Let_def) (simp add: plain_char_def)

lemma event_plain_other:
  assumes "cmd \<noteq> MERLIN_NL_EV_VERIFIER_REJECT"
  shows "\<forall>f \<in> set (event_fields L cmd attrs). list_all plain_char (fst f) \<and> jval_plain (snd f)"
  using assms by (simp add: event_fields_def Let_def) (simp add: plain_char_def)


definition demo_libnl :: libnl where
  "demo_libnl = \<lparr>nla_get_u8 = hd, nla_get_u32 = le_word, nla_get_u64 = le_word,
     nla_get_string = map (\<lambda>b. char_of (unat b)) \<circ> takeWhile (\<lambda>b. b \<noteq> 0)\<rparr>"

definition demo_event :: "u8 \<Rightarrow> nlattrs \<Rightarrow> nl_msg" where
  "demo_event cmd attrs = \<lparr>genl_cmd = cmd, genl_attrs = Some attrs\<rparr>"


lemma class_index_iff: "class_index tok = Some i \<longleftrightarrow> 1 \<le> i \<and> i \<le> 8 \<and> tok = class_names ! i"
proof
  assume "class_index tok = Some i"
  then have "i \<in> set [1, 2, 3, 4, 5, 6, 7, 8] \<and> tok = class_names ! i"
    unfolding class_index_def find_Some_iff by (metis nth_mem)
  then show "1 \<le> i \<and> i \<le> 8 \<and> tok = class_names ! i" by auto
next
  assume i: "1 \<le> i \<and> i \<le> 8 \<and> tok = class_names ! i"
  have "list_all (\<lambda>i. class_index (class_names ! i) = Some i) [1, 2, 3, 4, 5, 6, 7, 8]" by code_simp
  moreover have "i \<in> set [1, 2, 3, 4, 5, 6, 7, 8]" using i by auto
  ultimately show "class_index tok = Some i" using i by (simp only: list_all_iff)
qed

lemma bit_add_class: "bit (add_class tok m) i \<longleftrightarrow> bit m i \<or> class_index tok = Some i"
proof (cases "class_index tok")
  case (Some k)
  then have "k \<le> 8" using class_index_iff by blast
  with Some show ?thesis by (auto simp: add_class_def bit_simps)
qed (simp add: add_class_def)

lemma bit_add_classes: "bit (fold add_class toks m) i \<longleftrightarrow> bit m i \<or> (\<exists>t \<in> set toks. class_index t = Some i)"
  by (induction toks arbitrary: m) (auto simp: bit_add_class)

text \<open>
  The filter option selects exactly the classes it names; when it names none that exists, all eight are shown.
\<close>

theorem filter_exact:
  "bit (parse_filter spec) i \<longleftrightarrow>
     (let toks = set (tokens (\<lambda>c. c = CHR '','') spec) in
      1 \<le> i \<and> i \<le> 8 \<and> (class_names ! i \<in> toks \<or> (\<forall>k. 1 \<le> k \<and> k \<le> 8 \<longrightarrow> class_names ! k \<notin> toks)))"
proof -
  let ?toks = "tokens (\<lambda>c. c = CHR '','') spec"
  let ?m = "fold add_class ?toks 0"
  have m: "bit ?m k \<longleftrightarrow> 1 \<le> k \<and> k \<le> 8 \<and> class_names ! k \<in> set ?toks" for k
    by (auto simp: bit_add_classes class_index_iff)
  have all: "bit ALL_CLASSES i \<longleftrightarrow> 1 \<le> i \<and> i \<le> 8"
  proof -
    have "bit (push_bit 1 (mask 8) :: u32) i \<longleftrightarrow> 1 \<le> i \<and> i \<le> 8"
      by (subst bit_push_bit_iff) (auto simp: bit_simps)
    moreover have "push_bit 1 (mask 8) = ALL_CLASSES" by (simp add: mask_eq_exp_minus_1)
    ultimately show ?thesis by (simp only:)
  qed
  have zero: "?m = 0 \<longleftrightarrow> (\<forall>k. 1 \<le> k \<and> k \<le> 8 \<longrightarrow> class_names ! k \<notin> set ?toks)"
    using m by (auto simp: bit_eq_iff)
  show ?thesis using m [of i] all zero by (auto simp: parse_filter_def Let_def)
qed

text \<open>
  One rejection can print the lines of two events. The reason is printed without escaping, so a message whose
  reason contains a quote and a line break yields the same bytes as a rejection followed by the load of a
  program that never happened.
\<close>

definition forged_reason :: string where
  "forged_reason = ''x\"}'' @ eol @ ''{\"ts\":0,\"ev\":\"prog_lifecycle\",\"ns\":0,\"prog\":9,\"act\":\"loaded\",\"tag\":\"?''"

theorem reject_forges_event:
  "on_event demo_libnl ALL_CLASSES True (demo_event 7 [21 \<mapsto> map of_char forged_reason]) =
   Some (the (on_event demo_libnl ALL_CLASSES True (demo_event 7 [21 \<mapsto> map of_char ''x''])) @
         the (on_event demo_libnl ALL_CLASSES True (demo_event 1 [2 \<mapsto> [9, 0, 0, 0], 3 \<mapsto> [1]])))"
  by code_simp

end
