(* ===== verification/Spec2Isabelle.thy ===== *)
theory Spec2Isabelle
  imports Tnum Decode Cfg_Build Verifier_Props Txn_Script Ns_Tool Jit_Props Loader_Props Lifecycle_Props
    Zephyr_Props Zephyr_Helpers Verify_Tool Attest_Tool Stats_Tool Sign Objtool Tool_Jit Watcher
begin

text \<open>
  MERLIN-V loads RISC-V programs into a kernel: a loader finds the text section of an ELF object, a
  verifier decides by abstract interpretation whether the text may run, a JIT backend translates it for
  the host, and reference-counted program objects carry it through the commands of a device file. Beside
  the Linux implementation there is a small port for Zephyr, and user-space tools: the verifier the kernel
  code was ported from, a second JIT, the transactional map store, namespaces, attestation, telemetry, signing,
  the object tool and the event watcher. This development models these parts in HOL and proves what makes them
  correct. All paths below are under \<open>src/\<close>.

  \<^bold>\<open>Shared theories.\<close> \<open>Merlin_Prelude\<close> names the C integer types as words and holds the word lemmas and the
  bitmap interface; \<open>Bytes\<close> the little-endian images of integers and arrays; \<open>Elf_Strings\<close> the reads of
  section names inside a blob; \<open>Object_File\<close> what the tools see of an object through libelf, and the incremental
  digest; \<open>C_Text\<close> the numbers and words the C library prints and reads.

  \<^bold>\<open>Abstract values.\<close> \<open>Tnum\<close>: \<open>kernel/merlin/include/merlin_tnum.h\<close> and the further operations of
  \<open>tools/merlin-verifier/tnum.h\<close>. Every operation contains the wrapped 64-bit results of its arguments'
  members and keeps well-formedness; the join is the least upper bound.

  \<^bold>\<open>Decoder.\<close> \<open>Decode\<close>: \<open>kernel/merlin/decode.c\<close>, one definition per opcode group. Layout of the immediates
  bit by bit, and which words the default profile admits.

  \<^bold>\<open>Control-flow graph.\<close> \<open>Cfg\<close> models \<open>kernel/merlin/cfg.c\<close> (leaders, blocks, reverse postorder, dominators,
  back edges); \<open>Cfg_Blocks\<close>, \<open>Cfg_Order\<close> and \<open>Cfg_Dominators\<close> prove each phase and \<open>Cfg_Build\<close> the whole: the
  build returns on every byte string, blocks partition the text, every transfer is an edge, the idom tree
  is the dominator relation and the recorded back edges are exactly the edges to a dominator. Loops of the
  source that are not structural are \<open>partial_function (option)\<close>; that they return is proved.

  \<^bold>\<open>Verifier.\<close> \<open>Verifier\<close> models \<open>kernel/merlin/verifier.c\<close>: the register values of \<open>merlin_internal.h\<close>, one
  definition per instruction class of \<open>step_insn\<close>, the joins, the work list with its step cap and the
  configuration per program type. \<open>Verifier_Joins\<close>, \<open>Verifier_Step\<close> and \<open>Verifier_Run\<close> prove the joins, the
  rejection count of a step, and the fixed point of the work list; \<open>Verifier_Props\<close> draws the conclusions:
  a verdict is always returned, an accepting verdict comes with entry states that certify every reached
  block, every reached instruction satisfies the policy. The step cap of the code is the bound of the work
  list. The same theory shows by evaluation what the verifier accepts although it should not.

  \<^bold>\<open>JIT.\<close> \<open>Jit_X86\<close> models the emit buffer, every emitter and the translation of
  \<open>kernel/merlin/jit/arch/x86_64.c\<close> with \<open>pass_through.c\<close> and \<open>select.c\<close>; an allocation is a question to the
  environment. \<open>X86_Machine\<close> is a specification of the x86-64 instructions the backend emits, on bytes;
  \<open>Jit_Correct\<close> shows which instructions each emitter writes, \<open>Jit_Sim\<close> the simulation of a RISC-V step by
  its image, \<open>Jit_Props\<close> that the image of a straight-line text returns what the text computes and preserves
  the callee-saved state. The machine's fuel is the length of the code, which is enough as the code has
  no backward jump. \<open>Dispatch\<close> models the helpers of \<open>kernel/merlin/dispatch.c\<close>. \<open>Tool_Jit\<close> models the user-space
  JIT, \<open>emit.c\<close>, \<open>jit.c\<close>, \<open>helpers.c\<close> and the loader of \<open>merlin-jit.c\<close> under \<open>tools/merlin-jit-x86_64\<close>. The simulation
  is stated once, in the locales \<open>helper_call\<close> and \<open>straight_line\<close> of \<open>Jit_Sim\<close>, which both JITs interpret with their
  decoder and their trampoline; for the user-space JIT it excludes \<open>mulw\<close>, whose translation is shown to be wrong.

  \<^bold>\<open>Loader and objects.\<close> \<open>Loader\<close> models \<open>kernel/merlin/loader.c\<close> with every error path and a ledger of
  allocations; \<open>Lifecycle\<close> models \<open>core.c\<close>, \<open>syscall.c\<close> and \<open>maps.c\<close>: the id table, reference counts, the
  deferred free and the command multiplexer. \<open>Loader_Props\<close>: only accepted text becomes an object, a failed
  load leaks nothing, reads stay in the blob. \<open>Lifecycle_Props\<close>: over every interleaving of commands, file
  closes and deferred frees counts equal references, no freed object is used, unreferenced objects go away.

  \<^bold>\<open>Transactions and namespaces.\<close> \<open>Txn_Map\<close>, \<open>Txn_Store\<close> and \<open>Txn_Engine\<close> model
  \<open>tools/merlin-txn/store.c\<close>: the slot arrays refine partial functions with a bound (an interface stated
  as a locale), commit refines the abstract transaction, and the reachable engine states keep counts and
  locks exact; \<open>Txn_Script\<close> models the driver \<open>merlin-txn.c\<close>: no script leaves the reachable states, and where the
  interpreter writes past its buffers. \<open>Namespace\<close> models \<open>tools/merlin-ns/ns.c\<close> and
  \<open>docs/design/uapi/merlin/namespace.h\<close>: a composed namespace never permits what its parent forbids, and the file
  image round-trips; \<open>Ns_Tool\<close> lifts this to the commands of \<open>merlin-ns.c\<close> over files.

  \<^bold>\<open>Zephyr port.\<close> \<open>Zephyr_Decode\<close>, \<open>Zephyr_Verifier\<close>, \<open>Zephyr_Runtime\<close> and \<open>Zephyr_Helpers\<close> model
  \<open>decode.c\<close>, \<open>verifier.c\<close>, \<open>loader.c\<close>, \<open>runtime.c\<close>, \<open>dispatch.c\<close> and \<open>helpers_sample.c\<close> of
  \<open>zephyr/merlin/src\<close>. The port's decoder agrees with the kernel's; \<open>Zephyr_Sound\<close> shows that the verdict of
  the linear pass is exact and what it implies on a register machine while control falls through;
  \<open>Zephyr_Props\<close> has the invariant of slots and buffers over all sequences of calls.

  \<^bold>\<open>User-space verifier.\<close> \<open>Tool_Decode\<close>, \<open>Tool_Cfg\<close> and \<open>Tool_Verifier\<close> model \<open>decode.c\<close>, \<open>cfg.c\<close> and
  \<open>verify.c\<close> of \<open>tools/merlin-verifier\<close> where their text differs from the kernel's; code that is the same is
  modelled once, by the kernel's definitions. Proved: on which words the two decoders differ and how their
  records compare, that the recursive postorder is the kernel's stack machine, and that both verifiers give
  the same verdict on texts whose words both decoders read alike. \<open>Verify_Tool\<close> models the front end
  \<open>merlin-verifier.c\<close>: its exit status 0 implies the kernel's acceptance of such sections.

  \<^bold>\<open>Attestation and telemetry.\<close> \<open>Attest\<close> models \<open>tools/merlin-attest/mak.c\<close> on the layout of
  \<open>docs/design/uapi/merlin/attestation.h\<close>, with OpenSSL as a record of functions: a signed quote verifies, and
  no sequence of quotes makes the verifier accept one twice; \<open>Attest_Tool\<close> models the commands of
  \<open>merlin-attest.c\<close>. \<open>Telemetry\<close> models \<open>tools/merlin-telemetry/shim.c\<close>: the counters are exact sums over the calls;
  \<open>Stats_Tool\<close> the text form and the reader of counter files in \<open>merlin-telemetry.c\<close>.

  \<^bold>\<open>Signing and the object tool.\<close> \<open>Sign\<close> models \<open>sig.c\<close> and \<open>merlin-sign.c\<close> of \<open>tools/merlin-sign\<close>, with libelf and
  OpenSSL as records of functions: a signed object verifies, verification is characterised exactly, and what the
  signature does not cover. \<open>Objtool\<close> models \<open>tools/merlin-objtool/merlin-objtool.c\<close>: validation is exact and reads
  inside the sections when the metadata section is complete, and its digest is the one of the signing tool.

  \<^bold>\<open>Watcher.\<close> \<open>Watcher\<close> models \<open>decode.c\<close>, the filter and the dispatch of \<open>tools/merlin-watcher\<close>, with libnl as a
  parameter: the JSON lines are read back to the fields of the event, except for unescaped reject reasons.

  \<^bold>\<open>Conventions.\<close> A C function that writes through pointers returns the new values; an errno is an integer; a
  read outside a buffer or a call of freed memory is an outcome of its own. Clocks, allocators, random
  numbers and the user's memory are arguments. Numeric constants are input abbreviations.

  \<^bold>\<open>Not modelled.\<close> Log and console messages, module registration and locking of the kernel code; option parsing
  by getopt, whose results are the commands' arguments; the \<open>run\<close> command of \<open>merlin-telemetry\<close>, the report of
  \<open>merlin-jit\<close>'s \<open>main\<close> and the netlink socket of the watcher, which only call code outside the program; the labs,
  which are skeletons whose bodies are left to students; board samples and HDL.
\<close>

end
